(* ===== verification/Prelude.thy ===== *)
theory Prelude
  imports Main "HOL-Library.Word"
begin

text \<open>
  Shared vocabulary of the development: the machine types of the C sources, the byte-order
  helpers of \<open>bpf_endian.h\<close>, little-endian loads from packet memory, and the generic word
  lemmas that the component theories use through the collections declared here.

  The BPF target of the sources is a little-endian machine (\<open>-D__TARGET_ARCH_x86\<close> in
  \<open>src/src/Makefile\<close>), so a \<open>__be16\<close> or \<open>__be32\<close> field read from a packet is the
  little-endian value of its bytes, and \<open>bpf_ntohs\<close>, \<open>bpf_htons\<close>, \<open>bpf_ntohl\<close> and
  \<open>bpf_htonl\<close> swap bytes.
\<close>

unbundle bit_operations_syntax

type_synonym u8 = "8 word"
type_synonym u16 = "16 word"
type_synonym u32 = "32 word"
type_synonym u64 = "64 word"
type_synonym s64 = "64 word"
type_synonym bytes = "u8 list"

named_theorems const_defs "definitions of the preprocessor constants of the sources"
named_theorems word_nat "translation of word terms to natural numbers"
named_theorems eval_defs "definitions unfolded to evaluate a closed run"

section \<open>Byte order\<close>

definition bpf_ntohs :: "u16 \<Rightarrow> u16" where
  [eval_defs]: "bpf_ntohs x = push_bit 8 x OR drop_bit 8 x"

definition bpf_htons :: "u16 \<Rightarrow> u16" where
  [eval_defs]: "bpf_htons x = push_bit 8 x OR drop_bit 8 x"

definition bpf_htonl :: "u32 \<Rightarrow> u32" where
  [eval_defs]: "bpf_htonl x =
     push_bit 24 x OR (push_bit 8 x AND 0x00FF0000) OR (drop_bit 8 x AND 0x0000FF00) OR drop_bit 24 x"

definition bpf_ntohl :: "u32 \<Rightarrow> u32" where
  [eval_defs]: "bpf_ntohl x = bpf_htonl x"

text \<open>Little-endian loads and stores of 16 and 32 bit fields at a byte offset.\<close>

definition ld8 :: "bytes \<Rightarrow> nat \<Rightarrow> u8" where
  [eval_defs]: "ld8 b i = b ! i"

definition ld16 :: "bytes \<Rightarrow> nat \<Rightarrow> u16" where
  [eval_defs]: "ld16 b i = ucast (b ! i) OR push_bit 8 (ucast (b ! (i + 1)))"

definition ld32 :: "bytes \<Rightarrow> nat \<Rightarrow> u32" where
  [eval_defs]: "ld32 b i =
     ucast (b ! i) OR push_bit 8 (ucast (b ! (i + 1))) OR
     push_bit 16 (ucast (b ! (i + 2))) OR push_bit 24 (ucast (b ! (i + 3)))"

definition st16 :: "bytes \<Rightarrow> nat \<Rightarrow> u16 \<Rightarrow> bytes" where
  [eval_defs]: "st16 b i x = b[i := ucast x, i + 1 := ucast (drop_bit 8 x)]"

definition st32 :: "bytes \<Rightarrow> nat \<Rightarrow> u32 \<Rightarrow> bytes" where
  [eval_defs]: "st32 b i x =
     b[i := ucast x, i + 1 := ucast (drop_bit 8 x),
       i + 2 := ucast (drop_bit 16 x), i + 3 := ucast (drop_bit 24 x)]"

lemma bpf_ntohs_ntohs [simp]: "bpf_ntohs (bpf_ntohs x) = x"
  unfolding bpf_ntohs_def by (rule bit_word_eqI) (auto simp: bit_simps)

lemma bpf_htons_ntohs: "bpf_htons = bpf_ntohs"
  by (simp add: fun_eq_iff bpf_htons_def bpf_ntohs_def)

lemma bpf_ntohs_htons [simp]: "bpf_ntohs (bpf_htons x) = x"
  by (simp add: bpf_htons_ntohs)

lemma bpf_htons_ntohs_id [simp]: "bpf_htons (bpf_ntohs x) = x"
  by (simp add: bpf_htons_ntohs)

lemma bpf_ntohs_inject [simp]: "bpf_ntohs x = bpf_ntohs y \<longleftrightarrow> x = y"
  by (metis bpf_ntohs_ntohs)

lemma length_st16 [simp]: "length (st16 b i x) = length b"
  by (simp add: st16_def)

lemma length_st32 [simp]: "length (st32 b i x) = length b"
  by (simp add: st32_def)

section \<open>Words as natural numbers\<close>

lemma unat_add_le [word_nat]: "unat (a + b :: 'a::len word) \<le> unat a + unat b"
  by (simp add: unat_word_ariths)

lemma unat_mult_le [word_nat]: "unat (a * b :: 'a::len word) \<le> unat a * unat b"
  by (simp add: unat_word_ariths)

lemma unat_min [word_nat]: "unat (min a b :: 'a::len word) = min (unat a) (unat b)"
  by (simp add: min_def word_le_nat_alt)

lemma unat_clamp_le:
  "unat (if m < x then m else x :: 'a::len word) \<le> unat m"
  by (simp add: word_less_nat_alt)

lemma unat_clamp_le':
  "unat (if m < x then m else x :: 'a::len word) \<le> unat x"
  by (simp add: word_less_nat_alt)

lemma unat_ucast_le: "unat (ucast x :: 'b::len word) \<le> unat (x :: 'a::len word)"
  by (simp add: unsigned_ucast_eq take_bit_nat_less_eq_self)

lemma unat_ucast_up:
  "LENGTH('a) \<le> LENGTH('b) \<Longrightarrow> unat (ucast (x :: 'a::len word) :: 'b::len word) = unat x"
proof -
  assume "LENGTH('a) \<le> LENGTH('b)"
  then have "unat x < 2 ^ LENGTH('b)"
    using unsigned_less [of x] by (meson less_le_trans one_le_numeral power_increasing)
  then show ?thesis by (simp add: unsigned_ucast_eq take_bit_nat_eq_self)
qed

lemma word_and_le_unat: "unat (x AND m :: 'a::len word) \<le> unat m"
  by (rule word_and_le1 [THEN word_le_nat_alt [THEN iffD1]])

lemma drop_bit_add_shift:
  "drop_bit n (push_bit n (x :: 'a::len word)) = x AND mask (LENGTH('a) - n)"
  by (rule bit_word_eqI) (auto simp: bit_simps)

end
