(* ===== verification/Types.thy ===== *)
theory Types
  imports Prelude
begin

text \<open>
  The data structures of \<open>src/src/ebpf/types.h\<close>, shared by the kernel programs and the
  userspace program: one record per C struct, with the struct's fields in order. Field names
  carry a short prefix of their struct, because several structs have fields of the same name.
  Constants of the header stand in the order of the header. Fields whose address is taken as a
  pointer in the source (\<open>packet_ctx\<close>) are described with the record.
\<close>

section \<open>Constants\<close>

definition DPI_PAYLOAD_SNAP_LEN :: nat where [const_defs, eval_defs]: "DPI_PAYLOAD_SNAP_LEN = 2000"
definition ETH_P_IP :: u16 where [const_defs, eval_defs]: "ETH_P_IP = 0x0800"
definition NS_PER_SEC :: u64 where [const_defs, eval_defs]: "NS_PER_SEC = 1000000000"
definition LOG_SAMPLE_MASK :: u64 where [const_defs, eval_defs]: "LOG_SAMPLE_MASK = 0x3FF"
definition LOG_ATTACK_MASK :: u64 where [const_defs, eval_defs]: "LOG_ATTACK_MASK = 0x3FFF"

definition STAT_TCP_SYN_SUCCESS :: u32 where [const_defs, eval_defs]: "STAT_TCP_SYN_SUCCESS = 0"
definition STAT_TCP_SYN_DROP :: u32 where [const_defs, eval_defs]: "STAT_TCP_SYN_DROP = 1"
definition STAT_UDP_PASS :: u32 where [const_defs, eval_defs]: "STAT_UDP_PASS = 2"
definition STAT_UDP_DROP :: u32 where [const_defs, eval_defs]: "STAT_UDP_DROP = 3"
definition STAT_ICMP_PASS :: u32 where [const_defs, eval_defs]: "STAT_ICMP_PASS = 4"
definition STAT_ICMP_DROP :: u32 where [const_defs, eval_defs]: "STAT_ICMP_DROP = 5"

definition STATS_KEY_PPS :: u32 where [const_defs, eval_defs]: "STATS_KEY_PPS = 0"
definition STATS_KEY_BPS :: u32 where [const_defs, eval_defs]: "STATS_KEY_BPS = 1"

definition EVENT_TYPE_BASIC :: u32 where [const_defs, eval_defs]: "EVENT_TYPE_BASIC = 0"
definition EVENT_TYPE_L7_DPI :: u32 where [const_defs, eval_defs]: "EVENT_TYPE_L7_DPI = 1"

definition MAX_PORTS :: nat where [const_defs, eval_defs]: "MAX_PORTS = 512"

text \<open>\<open>xdp_config_key\<close>, the constant key of the configuration map.\<close>

definition xdp_config_key :: u32 where [const_defs, eval_defs]: "xdp_config_key = 0"

text \<open>IP protocol numbers of the kernel headers (IANA).\<close>

definition IPPROTO_ICMP :: u8 where [const_defs, eval_defs]: "IPPROTO_ICMP = 1"
definition IPPROTO_TCP :: u8 where [const_defs, eval_defs]: "IPPROTO_TCP = 6"
definition IPPROTO_UDP :: u8 where [const_defs, eval_defs]: "IPPROTO_UDP = 17"

section \<open>Packet description\<close>

record flow_key =
  fk_saddr :: u32
  fk_daddr :: u32
  fk_sport :: u16
  fk_dport :: u16
  fk_proto :: u8
  fk_pad1 :: u8
  fk_pad2 :: u16

definition zero_key :: flow_key where
  [eval_defs]: "zero_key = \<lparr>fk_saddr = 0, fk_daddr = 0, fk_sport = 0, fk_dport = 0, fk_proto = 0,
     fk_pad1 = 0, fk_pad2 = 0\<rparr>"

record packet_meta =
  pm_ip_proto :: u8
  pm_is_under_attack :: bool
  pm_is_fuse_ratelimit :: bool
  pm_pad :: u8
  pm_key :: flow_key
  pm_pkt_len :: u32
  pm_payload_len :: u32
  pm_status_code :: u32

definition zero_meta :: packet_meta where
  [eval_defs]: "zero_meta = \<lparr>pm_ip_proto = 0, pm_is_under_attack = False, pm_is_fuse_ratelimit = False,
     pm_pad = 0, pm_key = zero_key, pm_pkt_len = 0, pm_payload_len = 0, pm_status_code = 0\<rparr>"

text \<open>
  \<open>struct packet_ctx\<close> holds pointers into the packet. The model keeps the packet memory
  between \<open>data\<close> and \<open>data_end\<close> as the byte list \<open>pc_data\<close>; a pointer into it is its
  offset, \<open>None\<close> is the null pointer, and \<open>data_end\<close> is the length of the list. The union
  of the three layer-4 header pointers is the one field \<open>pc_l4\<close>. The \<open>meta\<close> pointer always
  points to the scratch slot of the running invocation, whose content is \<open>pc_meta\<close>.
\<close>

record packet_ctx =
  pc_data :: bytes
  pc_eth :: "nat option"
  pc_ip :: "nat option"
  pc_l4 :: "nat option"
  pc_payload :: "nat option"
  pc_meta :: packet_meta

definition pc_data_end :: "packet_ctx \<Rightarrow> nat" where
  [eval_defs]: "pc_data_end p = length (pc_data p)"

section \<open>Connection and flow state\<close>

record connection_state =
  cs_last_seen :: u64
  cs_dpi_state :: u8
  cs_tls_version :: u8
  cs_reserved :: u16

record event =
  ev_ts :: u64
  ev_action :: u32
  ev_status_code :: u32
  ev_key :: flow_key
  ev_pkt_len :: u32
  ev_type :: u32
  ev_payload_len :: u32
  ev_payload :: bytes \<comment> \<open>the union \<open>data\<close>: both members are one array of snapshot length\<close>

record flow_state =
  fs_packets :: u64
  fs_bytes :: u64
  fs_tokens :: u64
  fs_last_refill :: u64
  fs_first_seen :: u64
  fs_last_seen :: u64
  fs_flags :: u32
  fs_current_rate :: u64
  fs_current_burst :: u64

section \<open>Buckets, rules and block lists\<close>

record global_bucket =
  gb_tokens :: u64
  gb_last_ts :: u64

record fuse_bucket =
  fb_last_time :: u64
  fb_tokens :: u32

record rule_key =
  rk_remote_ip :: u32
  rk_remote_mask :: u32
  rk_remote_port :: u16
  rk_proto :: u8
  rk_pad :: u8

record rule_value =
  rv_action :: u32
  rv_priority :: u32
  rv_custom_rate :: u64
  rv_custom_burst :: u64

record blacklist_val =
  bv_action :: u32
  bv_reason :: u32
  bv_start_absolute_ns :: u64
  bv_end_absolute_ns :: u64

record pps_bucket =
  pb_tokens :: u64
  pb_last_ts :: u64

section \<open>Layer 7 events and configuration\<close>

text \<open>\<open>enum l7_direction\<close>, stored in a byte of the event.\<close>

definition DIR_IN :: u8 where [const_defs, eval_defs]: "DIR_IN = 0"
definition DIR_OUT :: u8 where [const_defs, eval_defs]: "DIR_OUT = 1"

record l7_dpi_event =
  l7_src_ip :: u32
  l7_dst_ip :: u32
  l7_src_port :: u16
  l7_dst_port :: u16
  l7_ip_proto :: u8
  l7_timestamp_ns :: u64
  l7_l3_packet_len :: u16
  l7_l3_packet :: bytes
  l7_dir :: u8

record global_config =
  gc_log_level :: u32
  gc_drop_threshold :: u32
  gc_enable_dpi :: u32
  gc_global_rate :: u32
  gc_global_burst :: u32
  gc_custom_rate :: u32
  gc_custom_burst :: u32
  gc_flow_rate :: u32
  gc_flow_burst :: u32
  gc_global_pps_limit :: u64
  gc_src_ports :: "u16 list"
  gc_dst_ports :: "u16 list"
  gc_reserved :: "u32 list"

section \<open>XDP verdicts\<close>

text \<open>The return codes of an XDP program (kernel enumeration \<open>xdp_action\<close>).\<close>

datatype xdp_action = XDP_ABORTED | XDP_DROP | XDP_PASS | XDP_TX | XDP_REDIRECT

fun xdp_code :: "xdp_action \<Rightarrow> u32" where
  "xdp_code XDP_ABORTED = 0"
| "xdp_code XDP_DROP = 1"
| "xdp_code XDP_PASS = 2"
| "xdp_code XDP_TX = 3"
| "xdp_code XDP_REDIRECT = 4"

end
