(* ===== verification/Maps.thy ===== *)
theory Maps
  imports Types
begin

text \<open>
  The state the kernel programs share: the maps of \<open>src/src/ebpf/maps.h\<close>, the global
  variables of \<open>src/src/ebpf/xdp_fw.c\<close>, and the BPF helpers that access them.

  A BPF map is a partial function from keys to values. ARRAY and PERCPU_ARRAY maps hold every
  index from the moment they are created; that is part of the invariant \<open>maps_wf\<close> below, so the
  null checks after their lookups stay in the model and are shown to succeed. PERCPU maps hold
  the slot of the executing CPU, since the programs never touch another CPU's slot. LRU maps may
  lose entries at any time; eviction is a step of the environment in theory \<open>System\<close>, not of
  the update.

  What the kernel decides is read from a record of type \<open>kenv\<close>: the clock (the \<open>n\<close>-th
  reading of \<open>bpf_ktime_get_ns\<close> is \<open>ktime e n\<close>, counted by the state's \<open>ticks\<close>),
  whether a ring buffer reservation or a map insertion succeeds, whether a probe read faults (then
  it is \<open>Some g\<close> and \<open>g\<close> is what the destination holds afterwards), the stale bytes
  of a reserved ring buffer slot, and the weak kernel function that makes SYN cookies. The flags of the
  insertions belong to the LRU maps, in which the kernel evicts entries to make room and may still
  find none to evict; a write through the pointer of a lookup cannot fail.
\<close>

section \<open>The kernel environment\<close>

record kenv =
  ktime :: "nat \<Rightarrow> u64"
  ringbuf_ok :: bool
  ring_stale :: bytes
  ring_stale_dir :: u8
  flow_insert_ok :: bool
  whitelist_insert_ok :: bool
  conn_insert_ok :: bool
  block_insert_ok :: bool
  probe_fault :: "bytes option"
  tsc_cookie :: "(bytes \<Rightarrow> nat \<Rightarrow> nat \<Rightarrow> u32 \<Rightarrow> u64) option"

section \<open>The state of the programs\<close>

record fw_state =
  ticks :: nat
  isInitialed :: bool
  GLOBAL_RATE_BYTES_PER_SEC :: u64
  GLOBAL_BURST :: u64
  FLOW_RATE_BYTES_PER_SEC :: u64
  FLOW_BURST :: u64
  GLOBAL_PPS_LIMIT :: u64
  LOCAL_SUBNET_NET :: u32
  LOCAL_SUBNET_MASK :: u32
  global_config_map :: "u32 \<rightharpoonup> global_config"
  flow_table :: "flow_key \<rightharpoonup> flow_state"
  whitelist_rules_map :: "rule_key \<rightharpoonup> rule_value"
  permanent_blocklist_map :: "u32 \<rightharpoonup> blacklist_val"
  temp_blocklist_map :: "u32 \<rightharpoonup> blacklist_val"
  global_bucket_map :: "u32 \<rightharpoonup> global_bucket"
  fuse_ratelimit_map :: "u32 \<rightharpoonup> fuse_bucket"
  ingress_allowed_ports :: "u16 \<rightharpoonup> u8"
  egress_allowed_ports :: "u16 \<rightharpoonup> u8"
  established_connections_map :: "flow_key \<rightharpoonup> connection_state"
  global_pps_map :: "u32 \<rightharpoonup> pps_bucket"
  stats_map :: "u32 \<rightharpoonup> u64"
  attack_status_map :: "u32 \<rightharpoonup> u64"
  attack_score_map :: "u32 \<rightharpoonup> u64"
  report_to_user_map :: "u32 \<rightharpoonup> event"
  global_stats_map :: "u32 \<rightharpoonup> u64"
  l7_dpi_ringbuf :: "l7_dpi_event list"
  pctx_scratch_map :: "u32 \<rightharpoonup> packet_meta"
  event_scratch_map :: "u32 \<rightharpoonup> event"

text \<open>The sizes of the maps that have a fixed number of slots.\<close>

definition stats_map_max_entries :: nat where [const_defs]: "stats_map_max_entries = 10"
definition global_stats_map_max_entries :: nat where [const_defs]: "global_stats_map_max_entries = 2"
definition report_to_user_map_max_entries :: nat where
  [const_defs]: "report_to_user_map_max_entries = 10001"

definition array_map :: "nat \<Rightarrow> (u32 \<rightharpoonup> 'v) \<Rightarrow> bool" where
  "array_map n m \<longleftrightarrow> dom m = {k. unat k < n}"

text \<open>What the kernel guarantees of the ARRAY maps once they are created.\<close>

definition maps_wf :: "fw_state \<Rightarrow> bool" where
  "maps_wf s \<longleftrightarrow>
     array_map 1 (global_config_map s) \<and>
     array_map 1 (global_bucket_map s) \<and>
     array_map 1 (fuse_ratelimit_map s) \<and>
     array_map 1 (global_pps_map s) \<and>
     array_map stats_map_max_entries (stats_map s) \<and>
     array_map 1 (attack_status_map s) \<and>
     array_map 1 (attack_score_map s) \<and>
     array_map global_stats_map_max_entries (global_stats_map s) \<and>
     array_map 1 (pctx_scratch_map s) \<and>
     array_map 1 (event_scratch_map s)"

section \<open>Helpers\<close>

definition bpf_map_lookup_elem :: "('k \<rightharpoonup> 'v) \<Rightarrow> 'k \<Rightarrow> 'v option" where
  [simp, eval_defs]: "bpf_map_lookup_elem m k = m k"

definition bpf_map_update_elem :: "('k \<rightharpoonup> 'v) \<Rightarrow> 'k \<Rightarrow> 'v \<Rightarrow> ('k \<rightharpoonup> 'v)" where
  [simp, eval_defs]: "bpf_map_update_elem m k v = m(k \<mapsto> v)"

definition bpf_ktime_get_ns :: "kenv \<Rightarrow> fw_state \<Rightarrow> u64 \<times> fw_state" where
  [eval_defs]: "bpf_ktime_get_ns e s = (ktime e (ticks s), s\<lparr>ticks := Suc (ticks s)\<rparr>)"

text \<open>The configuration lookup of \<open>kcommon.h\<close> and the debug level of \<open>log.h\<close>. The level
  only guards \<open>bpf_printk\<close> calls, which have no effect on the state.\<close>

definition get_config :: "fw_state \<Rightarrow> global_config option" where
  [eval_defs]: "get_config s = bpf_map_lookup_elem (global_config_map s) 0"

definition get_debug_level :: "fw_state \<Rightarrow> u32 option" where
  [eval_defs]: "get_debug_level s =
     (case bpf_map_lookup_elem (global_config_map s) 0 of
        None \<Rightarrow> None \<comment> \<open>the source dereferences without a check\<close>
      | Some g \<Rightarrow> (let val = gc_log_level g in Some (if val \<noteq> 0 then val else 0)))"

section \<open>A concrete machine\<close>

text \<open>The kernel at a fixed time when nothing fails, and the maps as they are right after loading,
  with a configuration in force. The witnesses run the programs on them.\<close>

definition still_env :: "u64 \<Rightarrow> kenv" where
  [eval_defs]: "still_env t = \<lparr>ktime = (\<lambda>_. t), ringbuf_ok = True,
     ring_stale = replicate DPI_PAYLOAD_SNAP_LEN 0, ring_stale_dir = 0, flow_insert_ok = True,
     whitelist_insert_ok = True, conn_insert_ok = True, block_insert_ok = True, probe_fault = None, tsc_cookie = None\<rparr>"

definition slots :: "nat \<Rightarrow> 'v \<Rightarrow> (u32 \<rightharpoonup> 'v)" where
  [eval_defs]: "slots n v = (\<lambda>k. if unat k < n then Some v else None)"

definition boot_config :: global_config where
  [eval_defs]: "boot_config = \<lparr>gc_log_level = 0, gc_drop_threshold = 0, gc_enable_dpi = 1,
     gc_global_rate = 100000, gc_global_burst = 50000, gc_custom_rate = 9000, gc_custom_burst = 8000,
     gc_flow_rate = 5000, gc_flow_burst = 4000, gc_global_pps_limit = 1000,
     gc_src_ports = [], gc_dst_ports = [], gc_reserved = []\<rparr>"

definition zero_event :: event where
  [eval_defs]: "zero_event = \<lparr>ev_ts = 0, ev_action = 0, ev_status_code = 0, ev_key = zero_key, ev_pkt_len = 0,
     ev_type = 0, ev_payload_len = 0, ev_payload = replicate DPI_PAYLOAD_SNAP_LEN 0\<rparr>"

definition boot_state :: fw_state where
  [eval_defs]: "boot_state = \<lparr>ticks = 0, isInitialed = False, GLOBAL_RATE_BYTES_PER_SEC = 0, GLOBAL_BURST = 0,
     FLOW_RATE_BYTES_PER_SEC = 0, FLOW_BURST = 0, GLOBAL_PPS_LIMIT = 0, LOCAL_SUBNET_NET = 0,
     LOCAL_SUBNET_MASK = 0, global_config_map = slots 1 boot_config, flow_table = Map.empty,
     whitelist_rules_map = Map.empty, permanent_blocklist_map = Map.empty, temp_blocklist_map = Map.empty,
     global_bucket_map = slots 1 \<lparr>gb_tokens = 0, gb_last_ts = 0\<rparr>,
     fuse_ratelimit_map = slots 1 \<lparr>fb_last_time = 0, fb_tokens = 0\<rparr>,
     ingress_allowed_ports = Map.empty, egress_allowed_ports = Map.empty,
     established_connections_map = Map.empty, global_pps_map = slots 1 \<lparr>pb_tokens = 0, pb_last_ts = 0\<rparr>,
     stats_map = slots stats_map_max_entries 0, attack_status_map = slots 1 0, attack_score_map = slots 1 0,
     report_to_user_map = Map.empty, global_stats_map = slots global_stats_map_max_entries 0,
     l7_dpi_ringbuf = [], pctx_scratch_map = slots 1 zero_meta, event_scratch_map = slots 1 zero_event\<rparr>"

section \<open>Lemmas\<close>

lemma array_map_slots [simp]: "array_map n (slots n v)"
  by (auto simp: array_map_def slots_def split: if_splits)

lemma boot_state_wf: "maps_wf boot_state"
  by (simp add: maps_wf_def boot_state_def)

lemma array_map_lookup:
  "array_map n m \<Longrightarrow> unat k < n \<Longrightarrow> \<exists>v. m k = Some v"
  unfolding array_map_def by blast

lemma array_map_update [simp]:
  "array_map n m \<Longrightarrow> unat k < n \<Longrightarrow> array_map n (m(k \<mapsto> v))"
  unfolding array_map_def by auto

lemma array_map_None:
  "array_map n m \<Longrightarrow> m k = None \<Longrightarrow> n \<le> unat k"
  unfolding array_map_def by (metis (mono_tags) domIff linorder_not_le mem_Collect_eq)

lemma maps_wf_slots:
  assumes "maps_wf s"
  shows "\<exists>v. global_config_map s 0 = Some v" and "\<exists>v. global_bucket_map s 0 = Some v"
    and "\<exists>v. fuse_ratelimit_map s 0 = Some v" and "\<exists>v. global_pps_map s 0 = Some v"
    and "\<exists>v. attack_status_map s 0 = Some v" and "\<exists>v. attack_score_map s 0 = Some v"
    and "\<exists>v. pctx_scratch_map s 0 = Some v" and "\<exists>v. event_scratch_map s 0 = Some v"
  using assms unfolding maps_wf_def by (auto intro!: array_map_lookup)

lemma ticks_irrelevant [simp]: "maps_wf (s\<lparr>ticks := n\<rparr>) = maps_wf s"
  by (simp add: maps_wf_def)

end
