(* ===== verification/Stats.thy ===== *)
theory Stats
  imports Maps
begin

text \<open>
  The counters and flow bookkeeping of \<open>src/src/ebpf/stats.h\<close>, with \<open>global_stats\<close> of
  \<open>policy.h\<close>: protocol counters, the attack mode with its dynamic cooldown, creation and update
  of flow entries, and the decision whether an event is reported.

  A \<open>struct flow_state *\<close> of the source points into \<open>flow_table\<close>. The model passes the entry
  by value and \<open>put_flow\<close> writes it back under the packet's key, which does not change after
  the flow has been looked up.
\<close>

section \<open>Counters\<close>

definition increment_stat :: "u32 \<Rightarrow> fw_state \<Rightarrow> fw_state" where
  [eval_defs]: "increment_stat key s =
     (case bpf_map_lookup_elem (stats_map s) key of
        None \<Rightarrow> s
      | Some val \<Rightarrow> s\<lparr>stats_map := (stats_map s)(key \<mapsto> val + 1)\<rparr>)"

definition add_global_stat :: "u32 \<Rightarrow> u64 \<Rightarrow> fw_state \<Rightarrow> fw_state" where
  [eval_defs]: "add_global_stat key n s =
     (case bpf_map_lookup_elem (global_stats_map s) key of
        None \<Rightarrow> s
      | Some val \<Rightarrow> s\<lparr>global_stats_map := (global_stats_map s)(key \<mapsto> val + n)\<rparr>)"

definition global_stats :: "u32 \<Rightarrow> fw_state \<Rightarrow> fw_state" where
  [eval_defs]: "global_stats pkt_len s =
     add_global_stat STATS_KEY_BPS (ucast pkt_len) (add_global_stat STATS_KEY_PPS 1 s)"

section \<open>Attack mode\<close>

definition dynamic_cooldown :: "u64 \<Rightarrow> u64" where
  [eval_defs]: "dynamic_cooldown current_score =
     (let c = 5000000000 + (current_score div 1000) * 1000000000
      in if c > 60000000000 then 60000000000 else c)"

definition check_attack_status :: "kenv \<Rightarrow> fw_state \<Rightarrow> bool \<times> fw_state" where
  [eval_defs]: "check_attack_status e s =
     (case bpf_map_lookup_elem (attack_status_map s) 0 of
        None \<Rightarrow> (False, s)
      | Some last_attack_ns \<Rightarrow>
          if last_attack_ns = 0 then (False, s)
          else
            (let score = bpf_map_lookup_elem (attack_score_map s) 0;
                 current_score = (case score of None \<Rightarrow> 0 | Some v \<Rightarrow> v);
                 (now, s) = bpf_ktime_get_ns e s
             in if now - last_attack_ns < dynamic_cooldown current_score then (True, s)
                else (case score of
                        None \<Rightarrow> (False, s)
                      | Some v \<Rightarrow>
                          if v > 0
                          then (False, s\<lparr>attack_score_map :=
                                 bpf_map_update_elem (attack_score_map s) 0 0\<rparr>)
                          else (False, s))))"

section \<open>Flow entries\<close>

definition init_flow :: "u64 \<Rightarrow> u64 \<Rightarrow> flow_state" where
  [eval_defs]: "init_flow burst now =
     \<lparr>fs_packets = 0, fs_bytes = 0, fs_tokens = burst, fs_last_refill = now, fs_first_seen = now,
      fs_last_seen = now, fs_flags = 0, fs_current_rate = 0, fs_current_burst = 0\<rparr>"

definition lookup_or_create_flow ::
  "kenv \<Rightarrow> fw_state \<Rightarrow> flow_key \<Rightarrow> flow_state option \<times> fw_state" where
  [eval_defs]: "lookup_or_create_flow e s key =
     (case bpf_map_lookup_elem (flow_table s) key of
        Some st \<Rightarrow> (Some st, s)
      | None \<Rightarrow>
          (let (now, s) = bpf_ktime_get_ns e s in
           if \<not> flow_insert_ok e then (None, s)
           else let s = s\<lparr>flow_table :=
                      bpf_map_update_elem (flow_table s) key (init_flow (FLOW_BURST s) now)\<rparr>
                in (bpf_map_lookup_elem (flow_table s) key, s)))"

definition put_flow :: "flow_key \<Rightarrow> flow_state \<Rightarrow> fw_state \<Rightarrow> fw_state" where
  [eval_defs]: "put_flow key st s = s\<lparr>flow_table := (flow_table s)(key \<mapsto> st)\<rparr>"

definition update_flow_stats ::
  "kenv \<Rightarrow> fw_state \<Rightarrow> packet_ctx \<Rightarrow> flow_state \<Rightarrow> flow_state \<times> fw_state" where
  [eval_defs]: "update_flow_stats e s pctx st =
     (let st = st\<lparr>fs_packets := fs_packets st + 1\<rparr>;
          st = st\<lparr>fs_bytes := fs_bytes st + ucast (pm_pkt_len (pc_meta pctx))\<rparr>;
          (now, s) = bpf_ktime_get_ns e s
      in (st\<lparr>fs_last_seen := now\<rparr>, s))"

section \<open>Event sampling\<close>

definition should_emit_event :: "packet_ctx \<Rightarrow> flow_state \<Rightarrow> xdp_action \<Rightarrow> int" where
  [eval_defs]: "should_emit_event pctx st action =
     (if action \<noteq> XDP_PASS then 1
      else if pm_is_under_attack (pc_meta pctx) \<and> (fs_packets st AND LOG_ATTACK_MASK) = 0 then 2
      else if \<not> pm_is_under_attack (pc_meta pctx) \<or> (fs_packets st AND LOG_SAMPLE_MASK) = 0 then 1
      else 0)"

section \<open>Lemmas\<close>

lemma increment_stat_frame [simp]:
  "established_connections_map (increment_stat k s) = established_connections_map s"
  "temp_blocklist_map (increment_stat k s) = temp_blocklist_map s"
  "permanent_blocklist_map (increment_stat k s) = permanent_blocklist_map s"
  "flow_table (increment_stat k s) = flow_table s"
  "ticks (increment_stat k s) = ticks s"
  "l7_dpi_ringbuf (increment_stat k s) = l7_dpi_ringbuf s"
  by (simp_all add: increment_stat_def split: option.splits)

lemma global_stats_frame [simp]:
  "established_connections_map (global_stats n s) = established_connections_map s"
  "temp_blocklist_map (global_stats n s) = temp_blocklist_map s"
  "permanent_blocklist_map (global_stats n s) = permanent_blocklist_map s"
  "flow_table (global_stats n s) = flow_table s"
  "ticks (global_stats n s) = ticks s"
  "l7_dpi_ringbuf (global_stats n s) = l7_dpi_ringbuf s"
  "attack_status_map (global_stats n s) = attack_status_map s"
  "attack_score_map (global_stats n s) = attack_score_map s"
  by (simp_all add: global_stats_def add_global_stat_def split: option.splits)

lemma increment_stat_counts:
  assumes "maps_wf s" and "unat k < stats_map_max_entries"
  shows "\<exists>v. stats_map s k = Some v \<and> stats_map (increment_stat k s) = (stats_map s)(k \<mapsto> v + 1)"
proof -
  obtain v where "stats_map s k = Some v"
    using assms array_map_lookup unfolding maps_wf_def by blast
  then show ?thesis by (simp add: increment_stat_def)
qed

lemma dynamic_cooldown_bounds:
  "dynamic_cooldown c \<le> 60000000000"
  by (auto simp: dynamic_cooldown_def Let_def not_less)

end
