(* ===== verification/Buckets.thy ===== *)
theory Buckets
  imports Maps
begin

text \<open>
  The token buckets of \<open>src/src/ebpf/policy.h\<close>: the fuse, the global byte bucket, the
  per-flow byte bucket and the global packets-per-second bucket. Each is split as the source
  has it: a step on the bucket's record at a given clock reading (\<open>fuse_step\<close>,
  \<open>global_step\<close>, \<open>flow_step\<close>, \<open>pps_step\<close>) and the function that looks the bucket up in its
  map, reads the clock and writes the slot back. Arithmetic is that of the source: 64 bit
  products and sums wrap.

  What a rate limiter promises is the locale \<open>token_bucket\<close>: tokens are never created faster
  than the configured rate, and the balance never exceeds the capacity. Over any run with a
  clock that does not go backwards the admitted cost is therefore bounded by the burst plus the
  rate times the elapsed time (lemma \<open>run_conformance\<close>). All four buckets interpret it.
\<close>

section \<open>The fuse\<close>

definition FUSE_INIT_TOKEN :: u64 where [const_defs, eval_defs]: "FUSE_INIT_TOKEN = 2500"
definition REFILL_INTERVAL_NS :: u64 where [const_defs, eval_defs]: "REFILL_INTERVAL_NS = 1000000"
definition TOKENS_TO_ADD :: u64 where [const_defs, eval_defs]: "TOKENS_TO_ADD = 5"

definition fuse_refill :: "u64 \<Rightarrow> fuse_bucket \<Rightarrow> fuse_bucket" where
  [eval_defs]: "fuse_refill now fuse =
     (let delta = now - fb_last_time fuse in
      if delta \<ge> REFILL_INTERVAL_NS then
        let tokens_to_add = (delta div REFILL_INTERVAL_NS) * TOKENS_TO_ADD;
            new_tokens = ucast (fb_tokens fuse) + tokens_to_add
        in fuse\<lparr>fb_last_time := now - delta mod REFILL_INTERVAL_NS,
                fb_tokens := (if new_tokens > FUSE_INIT_TOKEN then ucast FUSE_INIT_TOKEN
                              else ucast new_tokens)\<rparr>
      else fuse)"

text \<open>The result is \<open>True\<close> when the fuse has blown (the packet is to be dropped).\<close>

definition fuse_step :: "u64 \<Rightarrow> fuse_bucket \<Rightarrow> bool \<times> fuse_bucket" where
  [eval_defs]: "fuse_step now fuse =
     (if fb_last_time fuse = 0
      then (False, fuse\<lparr>fb_last_time := now, fb_tokens := ucast FUSE_INIT_TOKEN\<rparr>)
      else let fuse = fuse_refill now fuse in
        if fb_tokens fuse < 1 then (True, fuse)
        else (False, fuse\<lparr>fb_tokens := fb_tokens fuse - 1\<rparr>))"

definition trigger_fuse_ratelimit :: "kenv \<Rightarrow> fw_state \<Rightarrow> bool \<times> fw_state" where
  [eval_defs]: "trigger_fuse_ratelimit e s =
     (case bpf_map_lookup_elem (fuse_ratelimit_map s) 0 of
        None \<Rightarrow> (False, s)
      | Some fuse \<Rightarrow>
          (let (now, s) = bpf_ktime_get_ns e s;
               (blown, fuse) = fuse_step now fuse
           in (blown, s\<lparr>fuse_ratelimit_map := (fuse_ratelimit_map s)(0 \<mapsto> fuse)\<rparr>)))"

section \<open>The global byte bucket\<close>

definition global_refill :: "u64 \<Rightarrow> u64 \<Rightarrow> u64 \<Rightarrow> global_bucket \<Rightarrow> global_bucket" where
  [eval_defs]: "global_refill rate burst now g =
     (let delta = now - gb_last_ts g;
          refill = (delta * rate) div 1000000000
      in if refill > 0
         then let tokens = gb_tokens g + refill
              in g\<lparr>gb_tokens := (if tokens > burst then burst else tokens), gb_last_ts := now\<rparr>
         else g)"

definition global_step ::
  "u64 \<Rightarrow> u64 \<Rightarrow> u64 \<Rightarrow> u64 \<Rightarrow> global_bucket \<Rightarrow> xdp_action \<times> global_bucket" where
  [eval_defs]: "global_step rate burst now pkt_len g =
     (if gb_last_ts g = 0 then (XDP_PASS, g\<lparr>gb_tokens := burst, gb_last_ts := now\<rparr>)
      else let g = global_refill rate burst now g in
        if gb_tokens g < pkt_len then (XDP_DROP, g)
        else (XDP_PASS, g\<lparr>gb_tokens := gb_tokens g - pkt_len\<rparr>))"

definition consume_global_tokens :: "kenv \<Rightarrow> fw_state \<Rightarrow> u64 \<Rightarrow> xdp_action \<times> fw_state" where
  [eval_defs]: "consume_global_tokens e s pkt_len =
     (case bpf_map_lookup_elem (global_bucket_map s) 0 of
        None \<Rightarrow> (XDP_PASS, s)
      | Some g \<Rightarrow>
          (let (now, s) = bpf_ktime_get_ns e s;
               (verdict, g) =
                 global_step (GLOBAL_RATE_BYTES_PER_SEC s) (GLOBAL_BURST s) now pkt_len g
           in (verdict, s\<lparr>global_bucket_map := bpf_map_update_elem (global_bucket_map s) 0 g\<rparr>)))"

section \<open>The per-flow byte bucket\<close>

text \<open>
  One invocation running alone: each compare-and-swap sees the value read before it and
  succeeds. Interleaved invocations on several CPUs are the subject of theory \<open>FlowRace\<close>.
\<close>

definition flow_active_rate :: "u64 \<Rightarrow> flow_state \<Rightarrow> u64" where
  [eval_defs]: "flow_active_rate rate st = (if fs_current_rate st \<noteq> 0 then fs_current_rate st else rate)"

definition flow_active_burst :: "u64 \<Rightarrow> flow_state \<Rightarrow> u64" where
  [eval_defs]: "flow_active_burst burst st =
     (if fs_current_burst st \<noteq> 0 then fs_current_burst st else burst)"

definition flow_refill :: "u64 \<Rightarrow> u64 \<Rightarrow> u64 \<Rightarrow> flow_state \<Rightarrow> flow_state" where
  [eval_defs]: "flow_refill rate burst now st =
     (let last_refill = fs_last_refill st;
          delta = now - last_refill;
          active_rate = flow_active_rate rate st;
          active_burst = flow_active_burst burst st
      in if delta > 0 then
           let refill = (delta * active_rate) div NS_PER_SEC in
           if refill > 0 then
             let curr = fs_tokens st + refill
             in st\<lparr>fs_last_refill := now, fs_tokens := (if curr > active_burst then active_burst else curr)\<rparr>
           else st
         else st)"

definition flow_step ::
  "u64 \<Rightarrow> u64 \<Rightarrow> u64 \<Rightarrow> u64 \<Rightarrow> flow_state \<Rightarrow> xdp_action \<times> flow_state" where
  [eval_defs]: "flow_step rate burst now pkt_len st =
     (let st = flow_refill rate burst now st;
          old = fs_tokens st;
          st = st\<lparr>fs_tokens := old - pkt_len\<rparr>
      in if old < pkt_len
         then (XDP_DROP, st\<lparr>fs_tokens := fs_tokens st + pkt_len\<rparr>)
         else (XDP_PASS, st))"

definition consume_flow_tokens ::
  "kenv \<Rightarrow> fw_state \<Rightarrow> flow_state option \<Rightarrow> u64 \<Rightarrow> xdp_action \<times> flow_state option \<times> fw_state" where
  [eval_defs]: "consume_flow_tokens e s st pkt_len =
     (case st of
        None \<Rightarrow> (XDP_PASS, None, s)
      | Some st \<Rightarrow>
          (let (now, s) = bpf_ktime_get_ns e s;
               (verdict, st) = flow_step (FLOW_RATE_BYTES_PER_SEC s) (FLOW_BURST s) now pkt_len st
           in (verdict, Some st, s)))"

section \<open>The global packets-per-second bucket\<close>

definition pps_refill :: "u64 \<Rightarrow> u64 \<Rightarrow> pps_bucket \<Rightarrow> pps_bucket" where
  [eval_defs]: "pps_refill limit now p =
     (let delta = now - pb_last_ts p;
          refill = (delta * limit) div 1000000000
      in if refill > 0
         then let tokens = pb_tokens p + refill
              in p\<lparr>pb_tokens := (if tokens > limit then limit else tokens), pb_last_ts := now\<rparr>
         else p)"

definition pps_step :: "u64 \<Rightarrow> u64 \<Rightarrow> pps_bucket \<Rightarrow> xdp_action \<times> pps_bucket" where
  [eval_defs]: "pps_step limit now p =
     (let p = pps_refill limit now p in
      if pb_tokens p < 1 then (XDP_DROP, p)
      else (XDP_PASS, p\<lparr>pb_tokens := pb_tokens p - 1\<rparr>))"

definition consume_global_pps :: "kenv \<Rightarrow> fw_state \<Rightarrow> xdp_action \<times> fw_state" where
  [eval_defs]: "consume_global_pps e s =
     (case bpf_map_lookup_elem (global_pps_map s) 0 of
        None \<Rightarrow> (XDP_DROP, s)
      | Some p \<Rightarrow>
          (let (now, s) = bpf_ktime_get_ns e s;
               (verdict, p) = pps_step (GLOBAL_PPS_LIMIT s) now p
           in (verdict, s\<lparr>global_pps_map := bpf_map_update_elem (global_pps_map s) 0 p\<rparr>)))"

section \<open>The contract of a token bucket\<close>

text \<open>
  A run of a bucket's operation over timed requests returns the admitted cost and the final
  bucket; \<open>timed t rs\<close> says that the clock readings of the requests, from \<open>t\<close> on, never go
  backwards.
\<close>

fun bucket_run :: "(u64 \<Rightarrow> u64 \<Rightarrow> 'b \<Rightarrow> bool \<times> 'b) \<Rightarrow> (u64 \<times> u64) list \<Rightarrow> 'b \<Rightarrow> nat \<times> 'b" where
  "bucket_run step [] b = (0, b)"
| "bucket_run step ((now, c) # rs) b =
     (let (ok, b') = step now c b; (n, b'') = bucket_run step rs b'
      in ((if ok then unat c else 0) + n, b''))"

fun timed :: "u64 \<Rightarrow> (u64 \<times> u64) list \<Rightarrow> bool" where
  "timed t [] = True"
| "timed t ((now, c) # rs) = (t \<le> now \<and> timed now rs)"

lemma timed_earlier: "t' \<le> t \<Longrightarrow> timed t rs \<Longrightarrow> timed t' rs"
  by (cases rs) (auto intro: order_trans)

text \<open>
  \<open>step now cost b\<close> is the bucket's operation (\<open>True\<close>: admitted). \<open>rate\<close> tokens accrue per
  \<open>period\<close> nanoseconds, up to \<open>cap\<close>; \<open>stamp\<close> is the instant up to which refills have been
  credited and \<open>started\<close> says that the bucket has been initialised.
\<close>

locale token_bucket =
  fixes step :: "u64 \<Rightarrow> u64 \<Rightarrow> 'b \<Rightarrow> bool \<times> 'b"
    and tokens :: "'b \<Rightarrow> nat" and stamp :: "'b \<Rightarrow> u64" and started :: "'b \<Rightarrow> bool"
    and rate period cap :: nat
  assumes clock: "started b \<Longrightarrow> stamp b \<le> now \<Longrightarrow> step now c b = (ok, b') \<Longrightarrow>
      started b' \<and> stamp b \<le> stamp b' \<and> stamp b' \<le> now"
    and conserve: "started b \<Longrightarrow> stamp b \<le> now \<Longrightarrow> step now c b = (ok, b') \<Longrightarrow>
      period * (tokens b' + (if ok then unat c else 0))
        \<le> period * tokens b + rate * (unat (stamp b') - unat (stamp b))"
    and capacity: "started b \<Longrightarrow> tokens b \<le> cap \<Longrightarrow> step now c b = (ok, b') \<Longrightarrow> tokens b' \<le> cap"
begin

lemma run_conserve:
  "started b \<Longrightarrow> timed (stamp b) rs \<Longrightarrow> bucket_run step rs b = (n, b') \<Longrightarrow>
     started b' \<and> stamp b \<le> stamp b' \<and>
     period * (tokens b' + n) \<le> period * tokens b + rate * (unat (stamp b') - unat (stamp b))"
proof (induction rs arbitrary: b n)
  case Nil
  then show ?case by simp
next
  case (Cons r rs)
  obtain now c where r: "r = (now, c)" by (cases r)
  obtain ok b1 where s: "step now c b = (ok, b1)" by (cases "step now c b")
  obtain m where m: "bucket_run step rs b1 = (m, b')" and n: "n = (if ok then unat c else 0) + m"
    using Cons.prems(3) r s by (auto split: prod.splits)
  have now: "stamp b \<le> now" and rest: "timed now rs"
    using Cons.prems(2) r by auto
  have c1: "started b1" "stamp b \<le> stamp b1" "stamp b1 \<le> now"
    using clock [OF Cons.prems(1) now s] by auto
  have ih: "started b' \<and> stamp b1 \<le> stamp b' \<and>
      period * (tokens b' + m) \<le> period * tokens b1 + rate * (unat (stamp b') - unat (stamp b1))"
    by (rule Cons.IH [OF c1(1) timed_earlier [OF c1(3) rest] m])
  have le: "unat (stamp b) \<le> unat (stamp b1)" "unat (stamp b1) \<le> unat (stamp b')"
    using c1(2) ih by (auto simp: word_le_nat_alt)
  have split: "rate * (unat (stamp b') - unat (stamp b))
      = rate * (unat (stamp b') - unat (stamp b1)) + rate * (unat (stamp b1) - unat (stamp b))"
    using le by (simp flip: add_mult_distrib2)
  show ?case
    using conserve [OF Cons.prems(1) now s] ih c1(2) split
    by (auto simp: n algebra_simps)
qed

lemma run_conformance:
  assumes "started b" and "tokens b \<le> cap" and "timed (stamp b) rs" and "bucket_run step rs b = (n, b')"
    and "stamp b' \<le> T"
  shows "period * n \<le> period * cap + rate * (unat T - unat (stamp b))"
proof -
  have "period * (tokens b' + n) \<le> period * tokens b + rate * (unat (stamp b') - unat (stamp b))"
    using run_conserve [OF assms(1,3,4)] by blast
  moreover have "rate * (unat (stamp b') - unat (stamp b)) \<le> rate * (unat T - unat (stamp b))"
    using assms(5) by (intro mult_le_mono2 diff_le_mono) (simp add: word_le_nat_alt)
  moreover have "period * tokens b \<le> period * cap" using assms(2) by simp
  ultimately show ?thesis unfolding distrib_left by linarith
qed

lemma run_stamp:
  "started b \<Longrightarrow> timed (stamp b) rs \<Longrightarrow> stamp b \<le> T \<Longrightarrow> \<forall>r\<in>set rs. fst r \<le> T \<Longrightarrow> bucket_run step rs b = (n, b') \<Longrightarrow>
     stamp b' \<le> T"
proof (induction rs arbitrary: b n)
  case Nil
  then show ?case by simp
next
  case (Cons r rs)
  obtain now c where r: "r = (now, c)" by (cases r)
  obtain ok b1 where s: "step now c b = (ok, b1)" by (cases "step now c b")
  obtain m where m: "bucket_run step rs b1 = (m, b')"
    using Cons.prems(5) r s by (auto split: prod.splits)
  have now: "stamp b \<le> now" "timed now rs" "now \<le> T" using Cons.prems(2,4) r by auto
  have c1: "started b1" "stamp b1 \<le> now" using clock [OF Cons.prems(1) now(1) s] by auto
  have "stamp b1 \<le> T" using c1(2) now(3) by (rule order_trans)
  with Cons.IH [OF c1(1) timed_earlier [OF c1(2) now(2)] _ _ m] Cons.prems(4) show ?case by simp
qed

lemma run_within_capacity:
  "started b \<Longrightarrow> tokens b \<le> cap \<Longrightarrow> timed (stamp b) rs \<Longrightarrow> bucket_run step rs b = (n, b') \<Longrightarrow> tokens b' \<le> cap"
proof (induction rs arbitrary: b n)
  case Nil
  then show ?case by simp
next
  case (Cons r rs)
  obtain now c where r: "r = (now, c)" by (cases r)
  obtain ok b1 where s: "step now c b = (ok, b1)" by (cases "step now c b")
  obtain m where m: "bucket_run step rs b1 = (m, b')"
    using Cons.prems(4) r s by (auto split: prod.splits)
  have now: "stamp b \<le> now" and rest: "timed now rs" using Cons.prems(3) r by auto
  have c1: "started b1" "stamp b1 \<le> now" using clock [OF Cons.prems(1) now s] by auto
  have "tokens b1 \<le> cap" by (rule capacity [OF Cons.prems(1,2) s])
  with Cons.IH [OF c1(1) _ timed_earlier [OF c1(2) rest] m] show ?case by blast
qed

end

section \<open>Buckets of several CPUs\<close>

text \<open>A PERCPU map gives each CPU a bucket of its own. A run over requests that name their CPU, and the
  requests of one of them.\<close>

fun cpus_run :: "(u64 \<Rightarrow> u64 \<Rightarrow> 'b \<Rightarrow> bool \<times> 'b) \<Rightarrow> (nat \<times> u64 \<times> u64) list \<Rightarrow> (nat \<Rightarrow> 'b) \<Rightarrow> nat \<times> (nat \<Rightarrow> 'b)" where
  "cpus_run step [] bs = (0, bs)"
| "cpus_run step ((cpu, now, c) # rs) bs =
     (let (ok, b) = step now c (bs cpu); (n, bs') = cpus_run step rs (bs(cpu := b))
      in ((if ok then unat c else 0) + n, bs'))"

definition of_cpu :: "nat \<Rightarrow> (nat \<times> u64 \<times> u64) list \<Rightarrow> (u64 \<times> u64) list" where
  "of_cpu i rs = map snd (filter (\<lambda>r. fst r = i) rs)"

lemma of_cpu_simps [simp]:
  "of_cpu i [] = []" "of_cpu i ((cpu, r) # rs) = (if cpu = i then r # of_cpu i rs else of_cpu i rs)"
  by (simp_all add: of_cpu_def)

lemma of_cpu_set: "r \<in> set (of_cpu i rs) \<Longrightarrow> (i, r) \<in> set rs"
  by (auto simp: of_cpu_def)

lemma of_cpu_timed: "timed t (map snd rs) \<Longrightarrow> timed t (of_cpu i rs)"
proof (induction rs arbitrary: t)
  case (Cons r rs)
  obtain cpu now c where r: "r = (cpu, now, c)" by (metis prod_cases3)
  have "t \<le> now" "timed now (of_cpu i rs)" using Cons r by auto
  then show ?case using timed_earlier by (auto simp: r)
qed simp

lemma cpus_run_sum:
  assumes "\<forall>r\<in>set rs. fst r < N" and "cpus_run step rs bs = (n, bs')"
  shows "n = (\<Sum>i<N. fst (bucket_run step (of_cpu i rs) (bs i))) \<and> (\<forall>i. bs' i = snd (bucket_run step (of_cpu i rs) (bs i)))"
  using assms
proof (induction rs arbitrary: bs n)
  case (Cons r rs)
  obtain cpu now c where r: "r = (cpu, now, c)" by (metis prod_cases3)
  obtain ok b where s: "step now c (bs cpu) = (ok, b)" by (cases "step now c (bs cpu)")
  obtain m where m: "cpus_run step rs (bs(cpu := b)) = (m, bs')" "n = (if ok then unat c else 0) + m"
    using Cons.prems(2) r s by (auto split: prod.splits)
  let ?f = "\<lambda>i. fst (bucket_run step (of_cpu i (r # rs)) (bs i))" and ?g = "\<lambda>i. fst (bucket_run step (of_cpu i rs) ((bs(cpu := b)) i))"
  have ih: "m = (\<Sum>i<N. ?g i)" "\<And>i. bs' i = snd (bucket_run step (of_cpu i rs) ((bs(cpu := b)) i))"
    using Cons.IH [OF _ m(1)] Cons.prems(1) by auto
  have here: "?f cpu = (if ok then unat c else 0) + ?g cpu" by (simp add: r s split: prod.split)
  have there: "?f i = ?g i" if "i \<noteq> cpu" for i using that by (auto simp: r)
  have cpu: "cpu \<in> {..<N}" using Cons.prems(1) r by simp
  have "(\<Sum>i<N. ?f i) = ?f cpu + (\<Sum>i\<in>{..<N} - {cpu}. ?f i)" by (rule sum.remove [OF finite_lessThan cpu])
  also have "(\<Sum>i\<in>{..<N} - {cpu}. ?f i) = (\<Sum>i\<in>{..<N} - {cpu}. ?g i)" by (rule sum.cong) (simp_all add: there)
  also have "?f cpu + \<dots> = (if ok then unat c else 0) + (?g cpu + \<dots>)" by (simp only: here add.assoc)
  also have "?g cpu + (\<Sum>i\<in>{..<N} - {cpu}. ?g i) = m" unfolding ih(1) by (rule sum.remove [OF finite_lessThan cpu, symmetric])
  finally have "n = (\<Sum>i<N. ?f i)" using m(2) by simp
  moreover have "bs' i = snd (bucket_run step (of_cpu i (r # rs)) (bs i))" for i
    using ih(2) [of i] s by (cases "i = cpu") (simp_all add: r split: prod.split)
  ultimately show ?case by simp
qed simp

section \<open>The buckets keep the contract\<close>

lemma refill_credit:
  fixes d r :: u64
  assumes "0 < p" and "p < 2 ^ 64"
  shows "p * unat ((d * r) div of_nat p) \<le> unat r * unat d"
proof -
  have "p * unat ((d * r) div of_nat p) = p * (unat (d * r) div p)"
    using assms(2) by (simp add: unat_div unat_of_nat)
  also have "\<dots> \<le> unat (d * r)" by (simp add: div_times_less_eq_dividend mult.commute)
  also have "\<dots> \<le> unat r * unat d" using unat_mult_le [of d r] by (simp add: mult.commute)
  finally show ?thesis .
qed

lemmas refill_credit_ns = refill_credit [where p = 1000000000, simplified]


text \<open>The arithmetic the byte and packet buckets share: a refill and a spend.\<close>

definition refill_of :: "u64 \<Rightarrow> u64 \<Rightarrow> u64 \<Rightarrow> u64" where
  "refill_of rate stamp now = ((now - stamp) * rate) div 1000000000"

definition refilled :: "u64 \<Rightarrow> u64 \<Rightarrow> u64 \<Rightarrow> u64 \<Rightarrow> u64 \<Rightarrow> u64" where
  "refilled rate burst stamp now t =
     (let r = refill_of rate stamp now in
      if 0 < r then (if t + r > burst then burst else t + r) else t)"

definition restamped :: "u64 \<Rightarrow> u64 \<Rightarrow> u64 \<Rightarrow> u64" where
  "restamped rate stamp now = (if 0 < refill_of rate stamp now then now else stamp)"

lemma restamped_between: "stamp \<le> now \<Longrightarrow> stamp \<le> restamped rate stamp now \<and> restamped rate stamp now \<le> now"
  by (simp add: restamped_def)

lemma refilled_cap: "unat t \<le> unat burst \<Longrightarrow> unat (refilled rate burst stamp now t) \<le> unat burst"
  by (auto simp: refilled_def Let_def word_less_nat_alt)

lemma refilled_credit:
  assumes "stamp \<le> now"
  shows "1000000000 * unat (refilled rate burst stamp now t)
    \<le> 1000000000 * unat t + unat rate * (unat (restamped rate stamp now) - unat stamp)"
proof (cases "0 < refill_of rate stamp now")
  case True
  let ?r = "refill_of rate stamp now"
  have "unat (refilled rate burst stamp now t) \<le> unat (t + ?r)"
    using True by (simp add: refilled_def Let_def word_less_nat_alt)
  also have "\<dots> \<le> unat t + unat ?r" by (rule unat_add_le)
  finally have "1000000000 * unat (refilled rate burst stamp now t)
      \<le> 1000000000 * unat t + 1000000000 * unat ?r" by simp
  moreover have "1000000000 * unat ?r \<le> unat rate * (unat now - unat stamp)"
    using refill_credit_ns [of "now - stamp" rate] assms by (simp add: refill_of_def unat_sub)
  ultimately show ?thesis using True by (simp add: restamped_def)
next
  case False
  then show ?thesis by (simp add: refilled_def restamped_def)
qed

lemma spend_exact: "\<not> t < (c::u64) \<Longrightarrow> unat (t - c) + unat c = unat t"
  by (simp add: unat_sub word_less_nat_alt word_le_nat_alt)

lemma spend_exact32: "\<not> t < (1::u32) \<Longrightarrow> Suc (unat (t - 1)) = unat t"
  by (simp add: unat_sub word_less_nat_alt word_le_nat_alt)

lemma spend_le: "\<not> t < (c::u64) \<Longrightarrow> unat (t - c) \<le> unat t"
  using spend_exact by (metis le_add1)

lemma zero_stamp: "(a::u64) \<noteq> 0 \<Longrightarrow> a \<le> b \<Longrightarrow> b \<noteq> 0"
  by (metis word_le_0_iff)

lemma spend_conserve:
  assumes "stamp \<le> now" and "t' = refilled rate burst stamp now t"
    and "ok = (\<not> t' < c)" and "v = (if ok then t' - c else t')"
  shows "1000000000 * (unat v + (if ok then unat c else 0))
    \<le> 1000000000 * unat t + unat rate * (unat (restamped rate stamp now) - unat stamp)"
  using refilled_credit [OF assms(1), of rate burst t] spend_exact [of t' c]
  unfolding assms(2-4) by auto

lemma spend_cap:
  assumes "unat t \<le> unat burst" and "t' = refilled rate burst stamp now t"
    and "ok = (\<not> t' < c)" and "v = (if ok then t' - c else t')"
  shows "unat v \<le> unat burst"
  using refilled_cap [OF assms(1), of rate stamp now] spend_le [of t' c]
  unfolding assms(2-4) by (auto intro: le_trans)

definition admitted :: "xdp_action \<times> 'b \<Rightarrow> bool \<times> 'b" where
  "admitted r = (fst r = XDP_PASS, snd r)"

lemma global_step_obs:
  assumes "gb_last_ts g \<noteq> 0" and "admitted (global_step rate burst now c g) = (ok, g')"
  defines "t' \<equiv> refilled rate burst (gb_last_ts g) now (gb_tokens g)"
  shows "ok = (\<not> t' < c)" and "gb_tokens g' = (if ok then t' - c else t')"
    and "gb_last_ts g' = restamped rate (gb_last_ts g) now"
  using assms(1,2) unfolding t'_def
  by (auto simp: admitted_def global_step_def global_refill_def refilled_def restamped_def refill_of_def
      Let_def split: if_splits)

interpretation gb: token_bucket "\<lambda>now c g. admitted (global_step rate burst now c g)"
    "\<lambda>g. unat (gb_tokens g)" gb_last_ts "\<lambda>g. gb_last_ts g \<noteq> 0"
    "unat rate" 1000000000 "unat burst" for rate burst
proof (unfold_locales, goal_cases)
  case (1 b now c ok b')
  have "gb_last_ts b \<le> gb_last_ts b' \<and> gb_last_ts b' \<le> now"
    unfolding global_step_obs(3) [OF 1(1,3)] by (rule restamped_between [OF 1(2)])
  then show ?case using zero_stamp [OF 1(1)] by blast
next
  case (2 b now c ok b')
  from spend_conserve [OF 2(2) refl global_step_obs(1,2) [OF 2(1,3)]] show ?case
    by (simp add: global_step_obs(3) [OF 2(1,3)])
next
  case (3 b now c ok b')
  show ?case by (rule spend_cap [OF 3(2) refl global_step_obs(1,2) [OF 3(1,3)]])
qed

lemma pps_step_obs:
  assumes "admitted (pps_step limit now p) = (ok, p')"
  defines "t' \<equiv> refilled limit limit (pb_last_ts p) now (pb_tokens p)"
  shows "ok = (\<not> t' < 1)" and "pb_tokens p' = (if ok then t' - 1 else t')"
    and "pb_last_ts p' = restamped limit (pb_last_ts p) now"
  using assms(1) unfolding t'_def
  by (auto simp: admitted_def pps_step_def pps_refill_def refilled_def restamped_def refill_of_def
      Let_def split: if_splits)

text \<open>The packet bucket charges one token per packet, whatever the cost of the request.\<close>

definition unit_cost :: "(u64 \<Rightarrow> 'b \<Rightarrow> bool \<times> 'b) \<Rightarrow> u64 \<Rightarrow> u64 \<Rightarrow> 'b \<Rightarrow> bool \<times> 'b" where
  "unit_cost f now c b = (if c = 1 then f now b else (False, b))"

interpretation pps: token_bucket "unit_cost (\<lambda>now p. admitted (pps_step limit now p))"
    "\<lambda>p. unat (pb_tokens p)" pb_last_ts "\<lambda>_. True" "unat limit" 1000000000 "unat limit" for limit
proof (unfold_locales, goal_cases)
  case (1 b now c ok b')
  then show ?case
    using restamped_between [of "pb_last_ts b" now limit]
    by (auto simp: unit_cost_def pps_step_obs(3) split: if_splits)
next
  case (2 b now c ok b')
  show ?case
  proof (cases "c = 1")
    case True
    with 2 have s: "admitted (pps_step limit now b) = (ok, b')" by (simp add: unit_cost_def)
    from spend_conserve [OF 2(2) refl pps_step_obs(1,2) [OF s]] True show ?thesis
      by (cases ok) (simp_all add: pps_step_obs(3) [OF s])
  qed (use 2 in \<open>simp add: unit_cost_def\<close>)
next
  case (3 b now c ok b')
  show ?case
  proof (cases "c = 1")
    case True
    with 3 have s: "admitted (pps_step limit now b) = (ok, b')" by (simp add: unit_cost_def)
    show ?thesis by (rule spend_cap [OF 3(2) refl pps_step_obs(1,2) [OF s]])
  qed (use 3 in \<open>simp add: unit_cost_def\<close>)
qed

lemma flow_step_obs:
  assumes "admitted (flow_step rate burst now c st) = (ok, st')"
  defines "t' \<equiv> refilled (flow_active_rate rate st) (flow_active_burst burst st)
                  (fs_last_refill st) now (fs_tokens st)"
  shows "ok = (\<not> t' < c)" and "fs_tokens st' = (if ok then t' - c else t')"
    and "fs_last_refill st' = restamped (flow_active_rate rate st) (fs_last_refill st) now"
    and "fs_current_rate st' = fs_current_rate st" and "fs_current_burst st' = fs_current_burst st"
  using assms(1) unfolding t'_def
  by (auto simp: admitted_def flow_step_def flow_refill_def refilled_def restamped_def refill_of_def
      NS_PER_SEC_def Let_def word_gt_0 split: if_splits)

interpretation flow: token_bucket "\<lambda>now c st. admitted (flow_step rate burst now c st)"
    "\<lambda>st. unat (fs_tokens st)" fs_last_refill
    "\<lambda>st. flow_active_rate rate st = r \<and> flow_active_burst burst st = m"
    "unat r" 1000000000 "unat m" for rate burst r m
proof (unfold_locales, goal_cases)
  case (1 b now c ok b')
  then show ?case
    using restamped_between [of "fs_last_refill b" now "flow_active_rate rate b"]
      flow_step_obs(3-5) [OF 1(3)]
    by (auto simp: flow_active_rate_def flow_active_burst_def)
next
  case (2 b now c ok b')
  from spend_conserve [OF 2(2) refl flow_step_obs(1,2) [OF 2(3)]] 2(1) show ?case
    by (simp add: flow_step_obs(3) [OF 2(3)])
next
  case (3 b now c ok b')
  from 3(1,2) have "unat (fs_tokens b) \<le> unat (flow_active_burst burst b)" by simp
  from spend_cap [OF this refl flow_step_obs(1,2) [OF 3(3)]] 3(1) show ?case by simp
qed

text \<open>The fuse charges one token per packet; its stamp moves by whole intervals.\<close>

definition unblown :: "bool \<times> 'b \<Rightarrow> bool \<times> 'b" where
  "unblown r = (\<not> fst r, snd r)"

lemma fuse_refill_stamp:
  assumes "fb_last_time f \<le> now"
  shows "fb_last_time f \<le> fb_last_time (fuse_refill now f) \<and> fb_last_time (fuse_refill now f) \<le> now"
proof -
  let ?d = "now - fb_last_time f" and ?m = "(now - fb_last_time f) mod REFILL_INTERVAL_NS"
  have m: "?m \<le> ?d" "?d \<le> now"
    using assms by (simp_all add: word_le_nat_alt unat_mod unat_sub)
  then have "unat (now - ?m) = unat now - unat ?m" by (intro unat_sub) (rule order_trans)
  with m assms show ?thesis
    by (auto simp: fuse_refill_def Let_def word_le_nat_alt unat_sub)
qed

lemma fuse_refill_cap:
  "unat (fb_tokens f) \<le> 2500 \<Longrightarrow> unat (fb_tokens (fuse_refill now f)) \<le> 2500"
proof -
  have "unat (ucast x :: u32) \<le> 2500" if "\<not> FUSE_INIT_TOKEN < x" for x :: u64
  proof -
    have "unat x \<le> 2500" using that by (simp add: FUSE_INIT_TOKEN_def word_less_nat_alt)
    with unat_ucast_le show ?thesis by (rule le_trans)
  qed
  then show "unat (fb_tokens f) \<le> 2500 \<Longrightarrow> unat (fb_tokens (fuse_refill now f)) \<le> 2500"
    by (auto simp: fuse_refill_def Let_def FUSE_INIT_TOKEN_def)
qed

lemma fuse_refill_credit:
  assumes "fb_last_time f \<le> now"
  shows "1000000 * unat (fb_tokens (fuse_refill now f))
    \<le> 1000000 * unat (fb_tokens f) + 5 * (unat (fb_last_time (fuse_refill now f)) - unat (fb_last_time f))"
proof (cases "REFILL_INTERVAL_NS \<le> now - fb_last_time f")
  case False
  then show ?thesis by (simp add: fuse_refill_def Let_def)
next
  case True
  define d where "d = now - fb_last_time f"
  define k where "k = d div REFILL_INTERVAL_NS"
  define new where "new = (ucast (fb_tokens f) :: u64) + k * TOKENS_TO_ADD"
  have ud: "unat d = unat now - unat (fb_last_time f)" using assms by (simp add: d_def unat_sub)
  have uk: "unat k = unat d div 1000000" by (simp add: k_def unat_div REFILL_INTERVAL_NS_def)
  have um: "unat (d mod REFILL_INTERVAL_NS) = unat d mod 1000000"
    by (simp add: unat_mod REFILL_INTERVAL_NS_def)
  have "unat new \<le> unat (ucast (fb_tokens f) :: u64) + unat k * unat TOKENS_TO_ADD"
    using unat_add_le [of "ucast (fb_tokens f)" "k * TOKENS_TO_ADD"] unat_mult_le [of k TOKENS_TO_ADD]
    unfolding new_def by linarith
  then have new: "unat new \<le> unat (fb_tokens f) + 5 * unat k"
    by (simp add: TOKENS_TO_ADD_def unat_ucast_up mult.commute)
  have fr: "fuse_refill now f = f\<lparr>fb_last_time := now - d mod REFILL_INTERVAL_NS,
      fb_tokens := (if new > FUSE_INIT_TOKEN then ucast FUSE_INIT_TOKEN else ucast new)\<rparr>"
    using True by (simp add: fuse_refill_def Let_def new_def k_def d_def)
  have "unat (ucast FUSE_INIT_TOKEN :: u32) \<le> unat FUSE_INIT_TOKEN"
    and "unat (ucast new :: u32) \<le> unat new" by (rule unat_ucast_le)+
  then have tok: "unat (fb_tokens (fuse_refill now f)) \<le> unat new"
    unfolding fr by (auto simp: word_less_nat_alt)
  have "d mod REFILL_INTERVAL_NS \<le> now"
    using ud mod_less_eq_dividend [of "unat d" 1000000] unfolding word_le_nat_alt um by linarith
  then have "unat (fb_last_time (fuse_refill now f)) = unat now - unat d mod 1000000"
    unfolding fr by (simp add: unat_sub um)
  moreover have "unat now - unat d mod 1000000 - unat (fb_last_time f) = 1000000 * unat k"
  proof -
    have "unat d = unat d div 1000000 * 1000000 + unat d mod 1000000" by simp
    with ud uk show ?thesis by linarith
  qed
  ultimately show ?thesis using new tok by simp
qed

lemma fuse_step_obs:
  assumes "fb_last_time f \<noteq> 0" and "unblown (fuse_step now f) = (ok, f')"
  defines "t' \<equiv> fb_tokens (fuse_refill now f)"
  shows "ok = (\<not> t' < 1)" and "fb_tokens f' = (if ok then t' - 1 else t')"
    and "fb_last_time f' = fb_last_time (fuse_refill now f)"
  using assms(1,2) unfolding t'_def
  by (auto simp: unblown_def fuse_step_def Let_def split: if_splits)

interpretation fuse: token_bucket "unit_cost (\<lambda>now f. unblown (fuse_step now f))"
    "\<lambda>f. unat (fb_tokens f)" fb_last_time "\<lambda>f. fb_last_time f \<noteq> 0" 5 1000000 2500
proof (unfold_locales, goal_cases)
  case (1 b now c ok b')
  have "fb_last_time b \<le> fb_last_time b' \<and> fb_last_time b' \<le> now"
    using fuse_refill_stamp [OF 1(2)] 1(2,3) fuse_step_obs(3) [OF 1(1)]
    by (auto simp: unit_cost_def split: if_splits)
  then show ?case using zero_stamp [OF 1(1)] by blast
next
  case (2 b now c ok b')
  show ?case
  proof (cases "c = 1")
    case True
    with 2 have s: "unblown (fuse_step now b) = (ok, b')" by (simp add: unit_cost_def)
    show ?thesis
      using fuse_refill_credit [OF 2(2)] fuse_step_obs [OF 2(1) s] True
        spend_exact32 [of "fb_tokens (fuse_refill now b)"]
      by (cases ok) simp_all
  qed (use 2 in \<open>simp add: unit_cost_def\<close>)
next
  case (3 b now c ok b')
  show ?case
  proof (cases "c = 1")
    case True
    with 3 have s: "unblown (fuse_step now b) = (ok, b')" by (simp add: unit_cost_def)
    show ?thesis
      using fuse_refill_cap [OF 3(2), of now] fuse_step_obs [OF 3(1) s]
        spend_exact32 [of "fb_tokens (fuse_refill now b)"]
      by (cases ok) simp_all
  qed (use 3 in \<open>simp add: unit_cost_def\<close>)
qed


section \<open>Properties\<close>

text \<open>A bucket of the byte limiter as the map has it: still zero, or not over-full. The first packet that meets a
  bucket that is zero fills it and passes without being charged.\<close>

definition bucket_ok :: "u64 \<Rightarrow> global_bucket \<Rightarrow> bool" where
  "bucket_ok burst g \<longleftrightarrow> gb_last_ts g = 0 \<or> unat (gb_tokens g) \<le> unat burst"

definition uncharged :: "global_bucket \<Rightarrow> (u64 \<times> u64) list \<Rightarrow> nat" where
  "uncharged g rs = (if gb_last_ts g = 0 \<and> rs \<noteq> [] then unat (snd (hd rs)) else 0)"

definition filled_since :: "u64 \<Rightarrow> global_bucket \<Rightarrow> u64" where
  "filled_since t g = (if gb_last_ts g = 0 then t else gb_last_ts g)"

lemma global_run_started:
  assumes "gb_last_ts g \<noteq> 0" and "unat (gb_tokens g) \<le> unat burst" and "timed (gb_last_ts g) rs" and "gb_last_ts g \<le> T"
    and "\<forall>r\<in>set rs. fst r \<le> T" and "bucket_run (\<lambda>now c g. admitted (global_step rate burst now c g)) rs g = (n, g')"
  shows "1000000000 * n \<le> 1000000000 * unat burst + unat rate * (unat T - unat (gb_last_ts g)) \<and> bucket_ok burst g'"
  using gb.run_conformance [OF assms(1-3,6) gb.run_stamp [OF assms(1,3-6)]] gb.run_within_capacity [OF assms(1-3,6)]
  by (simp add: bucket_ok_def)

lemma global_run:
  assumes "bucket_ok burst g" and "gb_last_ts g \<le> t" and "0 < t" and "timed t rs" and "\<forall>r\<in>set rs. fst r \<le> T"
    and "bucket_run (\<lambda>now c g. admitted (global_step rate burst now c g)) rs g = (n, g')"
  shows "1000000000 * n \<le> 1000000000 * (unat burst + uncharged g rs) + unat rate * (unat T - unat (filled_since t g)) \<and> bucket_ok burst g'"
proof (cases rs)
  case Nil
  then show ?thesis using assms(1,6) by simp
next
  case (Cons r rs')
  obtain now c where r: "r = (now, c)" by (cases r)
  have now: "t \<le> now" "timed now rs'" "now \<le> T" using assms(4,5) by (auto simp: Cons r)
  show ?thesis
  proof (cases "gb_last_ts g = 0")
    case False
    have "gb_last_ts g \<le> T" using assms(2) now by (meson order_trans)
    then show ?thesis
      using global_run_started [OF False _ timed_earlier [OF assms(2,4)] _ assms(5,6)] assms(1) False
      by (simp add: bucket_ok_def uncharged_def filled_since_def)
  next
    case True
    let ?g = "g\<lparr>gb_tokens := burst, gb_last_ts := now\<rparr>"
    have first: "admitted (global_step rate burst now c g) = (True, ?g)" using True by (simp add: global_step_def admitted_def)
    obtain m where m: "bucket_run (\<lambda>now c g. admitted (global_step rate burst now c g)) rs' ?g = (m, g')" "n = unat c + m"
      using assms(6) first by (auto simp: Cons r split: prod.splits)
    have "now \<noteq> 0" using assms(3) now(1) by (metis word_le_0_iff less_irrefl)
    then have "1000000000 * m \<le> 1000000000 * unat burst + unat rate * (unat T - unat now) \<and> bucket_ok burst g'"
      using global_run_started [of ?g burst rs' T rate m g'] now m(1) assms(5) by (simp add: Cons)
    moreover have "unat rate * (unat T - unat now) \<le> unat rate * (unat T - unat t)"
      using now(1) by (intro mult_le_mono2 diff_le_mono2) (simp add: word_le_nat_alt)
    ultimately have "1000000000 * m \<le> 1000000000 * unat burst + unat rate * (unat T - unat t)" "bucket_ok burst g'" by linarith+
    then show ?thesis using m(2) True by (simp add: uncharged_def filled_since_def Cons r)
  qed
qed

text \<open>C9: What the global byte limiter admits. Each CPU has a bucket of its own, which is zero when the program is
  loaded. Over any sequence of packets on \<open>N\<close> CPUs whose clock readings do not go backwards, while the
  configuration stays as it is, the bytes admitted up to the time \<open>T\<close> are at most, for each of the CPUs, the burst, plus the
  rate times the time since its bucket was filled last, or since the run began if its bucket was still zero, plus
  its first packet in that case, since that packet is not charged (both sides are scaled by a billion, for nanoseconds). And the
  buckets are left as they have to be found, so that the bound holds for any stretch of a run from the
  loading on. Wrap-around of the 64 bit products can only admit less.\<close>

theorem global_bucket_conformance:
  assumes "\<forall>i<N. bucket_ok burst (bs i) \<and> gb_last_ts (bs i) \<le> t" and "0 < t" and "timed t (map snd rs)"
    and "\<forall>(cpu, now, c)\<in>set rs. cpu < N \<and> now \<le> T"
    and "cpus_run (\<lambda>now c g. admitted (global_step rate burst now c g)) rs bs = (n, bs')"
  shows "1000000000 * n \<le> (\<Sum>i<N. 1000000000 * (unat burst + uncharged (bs i) (of_cpu i rs)) +
      unat rate * (unat T - unat (filled_since t (bs i)))) \<and>
    (\<forall>i<N. bucket_ok burst (bs' i))"
proof -
  let ?run = "\<lambda>i. bucket_run (\<lambda>now c g. admitted (global_step rate burst now c g)) (of_cpu i rs) (bs i)"
  let ?bound = "\<lambda>i. 1000000000 * (unat burst + uncharged (bs i) (of_cpu i rs)) + unat rate * (unat T - unat (filled_since t (bs i)))"
  have "\<forall>r\<in>set rs. fst r < N" using assms(4) by auto
  then have sum: "n = (\<Sum>i<N. fst (?run i))" "\<And>i. bs' i = snd (?run i)"
    using cpus_run_sum [OF _ assms(5), of N] by blast+
  have each: "1000000000 * fst (?run i) \<le> ?bound i \<and> bucket_ok burst (snd (?run i))" if "i < N" for i
  proof (rule global_run [OF _ _ assms(2) of_cpu_timed [OF assms(3)]])
    show "\<forall>r\<in>set (of_cpu i rs). fst r \<le> T" using assms(4) by (auto dest!: of_cpu_set)
  qed (use assms(1) that in simp_all)
  have "1000000000 * n = (\<Sum>i<N. 1000000000 * fst (?run i))" unfolding sum(1) by (rule sum_distrib_left)
  also have "\<dots> \<le> (\<Sum>i<N. ?bound i)" by (rule sum_mono) (use each in simp)
  finally show ?thesis using each sum(2) by simp
qed

text \<open>Two CPUs right after loading, with a burst of 500 bytes: the first packet of each passes although it is
  larger than the burst.\<close>

theorem global_bucket_conformance_witness:
  "\<exists>bs'. cpus_run (\<lambda>now c g. admitted (global_step 1000 500 now c g)) [(0, 5, 900), (1, 5, 900), (0, 6, 400), (0, 7, 400)]
      (\<lambda>_. \<lparr>gb_tokens = 0, gb_last_ts = 0\<rparr>) = (2200, bs') \<and> bucket_ok 500 (bs' 1) \<and>
   1000000000 * (2200::nat) \<le> (\<Sum>i<2. 1000000000 * (unat (500 :: u64) +
      uncharged \<lparr>gb_tokens = 0, gb_last_ts = 0\<rparr> (of_cpu i [(0, 5, 900), (1, 5, 900), (0, 6, 400), (0, 7, 400)])) +
      unat (1000 :: u64) * (unat (7 :: u64) - unat (filled_since 5 \<lparr>gb_tokens = 0, gb_last_ts = 0\<rparr>)))"
proof -
  let ?rs = "[(0, 5, 900), (1, 5, 900), (0, 6, 400), (0, 7, 400)] :: (nat \<times> u64 \<times> u64) list"
  obtain bs' where run: "cpus_run (\<lambda>now c g. admitted (global_step 1000 500 now c g)) ?rs (\<lambda>_. \<lparr>gb_tokens = 0, gb_last_ts = 0\<rparr>) = (2200, bs')"
    by (simp add: admitted_def global_step_def global_refill_def)
  have "\<forall>i<2. bucket_ok 500 \<lparr>gb_tokens = 0, gb_last_ts = 0\<rparr> \<and> gb_last_ts \<lparr>gb_tokens = 0, gb_last_ts = 0\<rparr> \<le> 5"
    by (simp add: bucket_ok_def)
  from global_bucket_conformance [OF this _ _ _ run, of 7] run show ?thesis by simp
qed

text \<open>The packets-per-second limiter honours its configuration: over any sequence of packets
  with a clock that does not go backwards, the packets admitted are at most one second's limit
  plus the limit times the elapsed time.\<close>

theorem pps_bucket_conformance:
  assumes "unat (pb_tokens p) \<le> unat limit" and "timed (pb_last_ts p) rs"
    and "bucket_run (unit_cost (\<lambda>now p. admitted (pps_step limit now p))) rs p = (n, p')"
    and "pb_last_ts p' \<le> T"
  shows "1000000000 * n \<le> 1000000000 * unat limit + unat limit * (unat T - unat (pb_last_ts p))"
  by (rule pps.run_conformance [OF TrueI assms])

theorem pps_bucket_conformance_witness:
  "bucket_run (unit_cost (\<lambda>now p. admitted (pps_step 2 now p)))
     [(100, 1), (200, 1), (300, 1), (500000000, 1)] \<lparr>pb_tokens = 2, pb_last_ts = 0\<rparr>
     = (3, \<lparr>pb_tokens = 0, pb_last_ts = 500000000\<rparr>) \<and>
   1000000000 * (3::nat) \<le> 1000000000 * unat (2 :: u64)
     + unat (2 :: u64) * (unat (500000000 :: u64) - unat (0 :: u64))"
proof -
  have run: "bucket_run (unit_cost (\<lambda>now p. admitted (pps_step 2 now p)))
     [(100, 1), (200, 1), (300, 1), (500000000, 1)] \<lparr>pb_tokens = 2, pb_last_ts = 0\<rparr>
     = (3, \<lparr>pb_tokens = 0, pb_last_ts = 500000000\<rparr>)"
    by (simp add: unit_cost_def admitted_def pps_step_def pps_refill_def)
  show ?thesis
    using run pps_bucket_conformance [OF _ _ run, of 500000000] by simp
qed

text \<open>The fuse never lets more than 2500 packets plus five per elapsed millisecond through, and
  its balance never exceeds 2500.\<close>

theorem fuse_conformance:
  assumes "fb_last_time f \<noteq> 0" and "unat (fb_tokens f) \<le> 2500" and "timed (fb_last_time f) rs"
    and "bucket_run (unit_cost (\<lambda>now f. unblown (fuse_step now f))) rs f = (n, f')"
    and "fb_last_time f' \<le> T"
  shows "1000000 * n \<le> 1000000 * 2500 + 5 * (unat T - unat (fb_last_time f)) \<and>
    unat (fb_tokens f') \<le> 2500"
  using fuse.run_conformance [OF assms] fuse.run_within_capacity [OF assms(1-4)] by simp

theorem fuse_conformance_witness:
  "bucket_run (unit_cost (\<lambda>now f. unblown (fuse_step now f)))
     [(10, 1), (20, 1), (1000007, 1)] \<lparr>fb_last_time = 5, fb_tokens = 1\<rparr>
     = (2, \<lparr>fb_last_time = 1000005, fb_tokens = 4\<rparr>) \<and>
   1000000 * (2::nat) \<le> 1000000 * 2500 + 5 * (unat (1000007 :: u64) - unat (5 :: u64)) \<and>
   unat (4 :: u32) \<le> 2500"
proof -
  have run: "bucket_run (unit_cost (\<lambda>now f. unblown (fuse_step now f)))
     [(10, 1), (20, 1), (1000007, 1)] \<lparr>fb_last_time = 5, fb_tokens = 1\<rparr>
     = (2, \<lparr>fb_last_time = 1000005, fb_tokens = 4\<rparr>)"
    by (simp add: unit_cost_def unblown_def fuse_step_def fuse_refill_def const_defs)
  show ?thesis
    using run fuse_conformance [OF _ _ _ run, of 1000007] by simp
qed

text \<open>C10: What the per-flow limiter admits when the packets of the flow are handled one at a time (two CPUs at once
  can break the bound: theory \<open>FlowRace\<close>), as long as the configuration and the whitelist rule of the flow stay
  as they are. From any entry of the table on, however full, the bytes admitted are at most its balance plus
  the time elapsed since its last refill times the rate that applies to the flow: its own (set by a
  whitelist rule) where that is not zero, the global one otherwise. And a balance within the burst that
  applies stays within it.\<close>

theorem flow_bucket_conformance:
  assumes "timed (fs_last_refill st) rs"
    and "bucket_run (\<lambda>now c st. admitted (flow_step rate burst now c st)) rs st = (n, st')"
    and "fs_last_refill st' \<le> T"
  shows "1000000000 * (unat (fs_tokens st') + n) \<le> 1000000000 * unat (fs_tokens st)
      + unat (flow_active_rate rate st) * (unat T - unat (fs_last_refill st)) \<and>
    (unat (fs_tokens st) \<le> unat (flow_active_burst burst st) \<longrightarrow> unat (fs_tokens st') \<le> unat (flow_active_burst burst st))"
proof -
  note run = flow.run_conserve [OF conjI [OF refl refl] assms(1,2)]
  have "unat (flow_active_rate rate st) * (unat (fs_last_refill st') - unat (fs_last_refill st)) \<le>
      unat (flow_active_rate rate st) * (unat T - unat (fs_last_refill st))"
    using assms(3) by (intro mult_le_mono2 diff_le_mono) (simp add: word_le_nat_alt)
  then show ?thesis
    using run flow.run_within_capacity [OF conjI [OF refl refl] _ assms(1,2)] by linarith
qed

theorem flow_bucket_conformance_witness:
  "\<exists>st'. bucket_run (\<lambda>now c st. admitted (flow_step 1000 500 now c st)) [(200000000, 300), (200000001, 300)]
      \<lparr>fs_packets = 0, fs_bytes = 0, fs_tokens = 250, fs_last_refill = 100000000, fs_first_seen = 0,
       fs_last_seen = 0, fs_flags = 0, fs_current_rate = 0, fs_current_burst = 0\<rparr> = (300, st') \<and>
   1000000000 * (unat (fs_tokens st') + 300) \<le> 1000000000 * unat (250 :: u64)
     + unat (1000 :: u64) * (unat (200000001 :: u64) - unat (100000000 :: u64))"
proof -
  let ?st = "\<lparr>fs_packets = 0, fs_bytes = 0, fs_tokens = 250, fs_last_refill = 100000000,
    fs_first_seen = 0, fs_last_seen = 0, fs_flags = 0, fs_current_rate = 0, fs_current_burst = 0\<rparr>"
  have run: "bucket_run (\<lambda>now c st. admitted (flow_step 1000 500 now c st))
      [(200000000, 300), (200000001, 300)] ?st
      = (300, ?st\<lparr>fs_tokens := 50, fs_last_refill := 200000000\<rparr>)"
    by (simp add: admitted_def flow_step_def flow_refill_def flow_active_rate_def
        flow_active_burst_def const_defs)
  show ?thesis
    using run flow_bucket_conformance [OF _ run, of 200000001]
    by (simp add: flow_active_rate_def flow_active_burst_def)
qed



text \<open>The product overflows in practice. At a rate of one gigabyte per second, a bucket that
  has been idle for 18.446744074 seconds is credited nothing at all, and a one-byte packet is
  dropped although some eighteen billion tokens have accrued.\<close>

theorem global_refill_overflow:
  "global_step 1000000000 1000000000 (18446744074 + 1) 1 \<lparr>gb_tokens = 0, gb_last_ts = 1\<rparr>
     = (XDP_DROP, \<lparr>gb_tokens = 0, gb_last_ts = 1\<rparr>)"
  by (simp add: global_step_def global_refill_def)

end
