(* ===== verification/Status.thy ===== *)
theory Status
  imports Prelude
begin

text \<open>
  The 32 bit status code of \<open>src/src/ebpf/fw_status_code.h\<close> (action in bits 24-31, stage in
  bits 16-23, reason in bits 0-15), its packing macro, and the userspace decoders of
  \<open>src/src/user/main.h\<close> that turn a code into the dashboard's text.
\<close>

section \<open>Masks\<close>

definition ACT_PASS :: u32 where [const_defs, eval_defs]: "ACT_PASS = 0x01000000"
definition ACT_DROP :: u32 where [const_defs, eval_defs]: "ACT_DROP = 0x02000000"
definition ACT_CHALLENGE :: u32 where [const_defs, eval_defs]: "ACT_CHALLENGE = 0x03000000"

definition STG_PARSE :: u32 where [const_defs, eval_defs]: "STG_PARSE = 0x00010000"
definition STG_FUSE :: u32 where [const_defs, eval_defs]: "STG_FUSE = 0x00020000"
definition STG_ESTABLISHED :: u32 where [const_defs, eval_defs]: "STG_ESTABLISHED = 0x00030000"
definition STG_PERM_BLK :: u32 where [const_defs, eval_defs]: "STG_PERM_BLK = 0x00040000"
definition STG_TEMP_BLK :: u32 where [const_defs, eval_defs]: "STG_TEMP_BLK = 0x00050000"
definition STG_PORT_WHT :: u32 where [const_defs, eval_defs]: "STG_PORT_WHT = 0x00060000"
definition STG_GLOBAL_LMT :: u32 where [const_defs, eval_defs]: "STG_GLOBAL_LMT = 0x00070000"
definition STG_FLOW_LMT :: u32 where [const_defs, eval_defs]: "STG_FLOW_LMT = 0x00080000"
definition STG_L4_CHAL :: u32 where [const_defs, eval_defs]: "STG_L4_CHAL = 0x00090000"

definition RSN_SUCCESS :: u32 where [const_defs, eval_defs]: "RSN_SUCCESS = 0x00000000"
definition RSN_BAD_PKT :: u32 where [const_defs, eval_defs]: "RSN_BAD_PKT = 0x00000001"
definition RSN_UNSUPPORTED :: u32 where [const_defs, eval_defs]: "RSN_UNSUPPORTED = 0x00000002"
definition RSN_FRAG_PKT :: u32 where [const_defs, eval_defs]: "RSN_FRAG_PKT = 0x00000005"
definition RSN_CONN_TRACK :: u32 where [const_defs, eval_defs]: "RSN_CONN_TRACK = 0x00000010"
definition RSN_CONN_NEW :: u32 where [const_defs, eval_defs]: "RSN_CONN_NEW = 0x00000011"
definition RSN_RULE_STATIC :: u32 where [const_defs, eval_defs]: "RSN_RULE_STATIC = 0x00000020"
definition RSN_RULE_DYNA :: u32 where [const_defs, eval_defs]: "RSN_RULE_DYNA = 0x00000021"
definition RSN_PORT_MISS :: u32 where [const_defs, eval_defs]: "RSN_PORT_MISS = 0x00000030"
definition RSN_LIMIT_BYTES :: u32 where [const_defs, eval_defs]: "RSN_LIMIT_BYTES = 0x00000040"
definition RSN_LIMIT_PPS :: u32 where [const_defs, eval_defs]: "RSN_LIMIT_PPS = 0x00000041"
definition RSN_CHAL_SEND :: u32 where [const_defs, eval_defs]: "RSN_CHAL_SEND = 0x00000050"
definition RSN_CHAL_VERIFY :: u32 where [const_defs, eval_defs]: "RSN_CHAL_VERIFY = 0x00000051"
definition RSN_DPI_PENDING :: u32 where [const_defs, eval_defs]: "RSN_DPI_PENDING = 0x00000060"
definition RSN_DPI_PASSED :: u32 where [const_defs, eval_defs]: "RSN_DPI_PASSED = 0x00000061"
definition RSN_DPI_VIOLATION :: u32 where [const_defs, eval_defs]: "RSN_DPI_VIOLATION = 0x00000062"
definition RSN_DPI_INCOMPLETE :: u32 where [const_defs, eval_defs]: "RSN_DPI_INCOMPLETE = 0x00000063"

section \<open>Packing and unpacking\<close>

definition MAKE_STATUS :: "u32 \<Rightarrow> u32 \<Rightarrow> u32 \<Rightarrow> u32" where
  [eval_defs]: "MAKE_STATUS act stg rsn = act OR stg OR rsn"

definition GET_ACTION :: "u32 \<Rightarrow> u32" where
  [eval_defs]: "GET_ACTION code = drop_bit 24 (code AND 0xFF000000)"

definition GET_STAGE :: "u32 \<Rightarrow> u32" where
  [eval_defs]: "GET_STAGE code = drop_bit 16 (code AND 0x00FF0000)"

definition GET_REASON :: "u32 \<Rightarrow> u32" where
  [eval_defs]: "GET_REASON code = code AND 0x0000FFFF"

text \<open>The constants of each group, in the order of the header.\<close>

definition all_actions :: "u32 list" where
  [eval_defs]: "all_actions = [ACT_PASS, ACT_DROP, ACT_CHALLENGE]"

definition all_stages :: "u32 list" where
  [eval_defs]: "all_stages = [STG_PARSE, STG_FUSE, STG_ESTABLISHED, STG_PERM_BLK, STG_TEMP_BLK,
     STG_PORT_WHT, STG_GLOBAL_LMT, STG_FLOW_LMT, STG_L4_CHAL]"

definition all_reasons :: "u32 list" where
  [eval_defs]: "all_reasons = [RSN_SUCCESS, RSN_BAD_PKT, RSN_UNSUPPORTED, RSN_FRAG_PKT, RSN_CONN_TRACK,
     RSN_CONN_NEW, RSN_RULE_STATIC, RSN_RULE_DYNA, RSN_PORT_MISS, RSN_LIMIT_BYTES, RSN_LIMIT_PPS,
     RSN_CHAL_SEND, RSN_CHAL_VERIFY, RSN_DPI_PENDING, RSN_DPI_PASSED, RSN_DPI_VIOLATION,
     RSN_DPI_INCOMPLETE]"

section \<open>The userspace decoders\<close>

definition action_icon :: "u32 \<Rightarrow> string" where
  [eval_defs]: "action_icon sc =
     (let a = GET_ACTION sc in
      if a = 0x01 then [CHR 0xF0, CHR 0x9F, CHR 0x9F, CHR 0xA2] @ '' PASS''
      else if a = 0x02 then [CHR 0xF0, CHR 0x9F, CHR 0x9A, CHR 0xA8] @ '' DROP''
      else if a = 0x03 then [CHR 0xE2, CHR 0x9A, CHR 0x94, CHR 0xEF, CHR 0xB8, CHR 0x8F] @ ''  CHAL''
      else [CHR 0xE2, CHR 0x9D, CHR 0x93] @ '' UNK'')"

definition stage_str :: "u32 \<Rightarrow> string" where
  [eval_defs]: "stage_str sc =
     (let s = GET_STAGE sc in
      if s = 0x01 then ''PARSE''
      else if s = 0x02 then ''FUSE''
      else if s = 0x03 then ''ESTABLISHED''
      else if s = 0x04 then ''PERM_BLK''
      else if s = 0x05 then ''TEMP_BLK''
      else if s = 0x06 then ''PORT_WHT''
      else if s = 0x07 then ''GLOBAL_LMT''
      else if s = 0x08 then ''FLOW_LMT''
      else if s = 0x09 then ''L4_CHAL''
      else ''?'')"

definition reason_str :: "u32 \<Rightarrow> string" where
  [eval_defs]: "reason_str sc =
     (let r = GET_REASON sc in
      if r = 0x0000 then ''SUCCESS''
      else if r = 0x0001 then ''BAD_PKT''
      else if r = 0x0002 then ''UNSUPPORTED''
      else if r = 0x0005 then ''FRAG_PKT''
      else if r = 0x0010 then ''CONN_TRACK''
      else if r = 0x0011 then ''CONN_NEW''
      else if r = 0x0020 then ''RULE_STATIC''
      else if r = 0x0021 then ''RULE_DYNA''
      else if r = 0x0030 then ''PORT_MISS''
      else if r = 0x0040 then ''LIMIT_BYTES''
      else if r = 0x0041 then ''LIMIT_PPS''
      else if r = 0x0050 then ''CHAL_SEND''
      else if r = 0x0051 then ''CHAL_VERIFY''
      else if r = 0x0060 then ''DPI_PENDING''
      else if r = 0x0061 then ''DPI_PASSED''
      else if r = 0x0062 then ''DPI_VIOLATION''
      else if r = 0x0064 then ''DPI_INCOMPLETE''
      else ''?'')"

section \<open>Lemmas\<close>

lemma and_or_distrib3: "(a OR b OR c) AND m = (a AND m) OR (b AND m) OR (c AND m :: 'a::len word)"
  by (rule bit_word_eqI) (auto simp: bit_simps)

lemma action_masks:
  "a \<in> set all_actions \<Longrightarrow>
    a AND 0xFF000000 = a \<and> a AND 0x00FF0000 = 0 \<and> a AND 0x0000FFFF = 0"
  by (auto simp: eval_defs)

lemma stage_masks:
  "s \<in> set all_stages \<Longrightarrow>
    s AND 0xFF000000 = 0 \<and> s AND 0x00FF0000 = s \<and> s AND 0x0000FFFF = 0"
  by (auto simp: eval_defs)

lemma reason_masks:
  "r \<in> set all_reasons \<Longrightarrow>
    r AND 0xFF000000 = 0 \<and> r AND 0x00FF0000 = 0 \<and> r AND 0x0000FFFF = r"
  by (auto simp: eval_defs)

lemma status_fields:
  assumes "a \<in> set all_actions" and "s \<in> set all_stages" and "r \<in> set all_reasons"
  shows "MAKE_STATUS a s r AND 0xFF000000 = a"
    and "MAKE_STATUS a s r AND 0x00FF0000 = s"
    and "MAKE_STATUS a s r AND 0x0000FFFF = r"
  using action_masks [OF assms(1)] stage_masks [OF assms(2)] reason_masks [OF assms(3)]
  by (simp_all only: MAKE_STATUS_def and_or_distrib3) simp_all

text \<open>Packing a status code loses nothing. For every action, stage and reason constant of
  the header, the three unpacking macros return exactly the constants that were packed (action
  and stage shifted down to their byte).\<close>

theorem status_roundtrip:
  assumes "a \<in> set all_actions" and "s \<in> set all_stages" and "r \<in> set all_reasons"
  shows "GET_ACTION (MAKE_STATUS a s r) = drop_bit 24 a \<and>
    GET_STAGE (MAKE_STATUS a s r) = drop_bit 16 s \<and> GET_REASON (MAKE_STATUS a s r) = r"
  using status_fields [OF assms]
  by (simp add: GET_ACTION_def GET_STAGE_def GET_REASON_def)

theorem status_roundtrip_witness:
  "GET_ACTION (MAKE_STATUS ACT_DROP STG_TEMP_BLK RSN_RULE_DYNA) = drop_bit 24 ACT_DROP \<and>
   GET_STAGE (MAKE_STATUS ACT_DROP STG_TEMP_BLK RSN_RULE_DYNA) = drop_bit 16 STG_TEMP_BLK \<and>
   GET_REASON (MAKE_STATUS ACT_DROP STG_TEMP_BLK RSN_RULE_DYNA) = RSN_RULE_DYNA"
  by (rule status_roundtrip) (simp_all add: all_actions_def all_stages_def all_reasons_def)

end
