(* ===== verification/Conntrack.thy ===== *)
theory Conntrack
  imports Status Maps
begin

text \<open>
  The connection table and the block lists of \<open>src/src/ebpf/policy.h\<close>:
  \<open>check_conntrack_and_blacklist\<close>, \<open>record_established\<close>, \<open>is_port_allowed\<close> and
  \<open>is_tls_payload\<close>, with the verdict codes of \<open>kcommon.h\<close>.

  A \<open>struct connection_state *\<close> points into \<open>established_connections_map\<close>; the model
  represents it by the key it was looked up with and the content read, and writes through it go
  to the map. \<open>None\<close> is the null pointer.

  The table is written by the egress program under the key of the outgoing packet and read by
  the ingress program under the reversed key of the incoming packet. That interface is the
  locale \<open>conn_table\<close>.
\<close>

section \<open>Verdicts\<close>

definition VDT_DROP :: int where [const_defs, eval_defs]: "VDT_DROP = -1"
definition VDT_PASS :: int where [const_defs, eval_defs]: "VDT_PASS = 0"
definition VDT_PASS_DPI :: int where [const_defs, eval_defs]: "VDT_PASS_DPI = 3"
definition VDT_DPI_PASSED :: int where [const_defs, eval_defs]: "VDT_DPI_PASSED = 1"
definition VDT_DPI_PENDING :: int where [const_defs, eval_defs]: "VDT_DPI_PENDING = 3"

type_synonym conn_ptr = "(flow_key \<times> connection_state) option"

definition set_status :: "u32 \<Rightarrow> u32 \<Rightarrow> u32 \<Rightarrow> packet_ctx \<Rightarrow> packet_ctx" where
  [eval_defs]: "set_status act stg rsn p =
     p\<lparr>pc_meta := (pc_meta p)\<lparr>pm_status_code := MAKE_STATUS act stg rsn\<rparr>\<rparr>"

section \<open>Operations\<close>

definition lookup_conn :: "fw_state \<Rightarrow> flow_key \<Rightarrow> conn_ptr" where
  [eval_defs]: "lookup_conn s k =
     map_option (Pair k) (bpf_map_lookup_elem (established_connections_map s) k)"

definition touch_conn :: "flow_key \<Rightarrow> connection_state \<Rightarrow> u64 \<Rightarrow> fw_state \<Rightarrow> fw_state" where
  [eval_defs]: "touch_conn k c now s =
     s\<lparr>established_connections_map :=
        (established_connections_map s)(k \<mapsto> c\<lparr>cs_last_seen := now\<rparr>)\<rparr>"

definition is_port_allowed :: "fw_state \<Rightarrow> u16 \<Rightarrow> bool \<Rightarrow> bool" where
  [eval_defs]: "is_port_allowed s port is_ingress =
     (let val = (if is_ingress then bpf_map_lookup_elem (ingress_allowed_ports s) port
                 else bpf_map_lookup_elem (egress_allowed_ports s) port)
      in val \<noteq> None)"

text \<open>The window test of the temporary block list (\<open>end = 0\<close> is a permanent entry).\<close>

definition blocked_now :: "u64 \<Rightarrow> blacklist_val \<Rightarrow> bool" where
  [eval_defs]: "blocked_now now_ns bv \<longleftrightarrow>
     now_ns \<ge> bv_start_absolute_ns bv \<and>
     (bv_end_absolute_ns bv = 0 \<or> now_ns < bv_end_absolute_ns bv)"

text \<open>The switch on \<open>dpi_state\<close> of a connection that exists.\<close>

definition conn_verdict ::
  "kenv \<Rightarrow> fw_state \<Rightarrow> packet_ctx \<Rightarrow> conn_ptr \<Rightarrow> int \<times> packet_ctx \<times> fw_state" where
  [eval_defs]: "conn_verdict e s pctx conn_state =
     (case conn_state of
        None \<Rightarrow> (VDT_DROP, set_status ACT_DROP STG_ESTABLISHED RSN_DPI_PENDING pctx, s)
      | Some (k, c) \<Rightarrow>
          if cs_dpi_state c = 1 then
            (let (now, s) = bpf_ktime_get_ns e s
             in (VDT_DPI_PASSED, set_status ACT_PASS STG_ESTABLISHED RSN_DPI_PASSED pctx,
                 touch_conn k c now s))
          else if cs_dpi_state c = 2 then
            (VDT_DROP, set_status ACT_DROP STG_ESTABLISHED RSN_DPI_VIOLATION pctx, s)
          else
            (let (now, s) = bpf_ktime_get_ns e s
             in (VDT_DPI_PENDING, set_status ACT_PASS STG_ESTABLISHED RSN_DPI_PENDING pctx,
                 touch_conn k c now s)))"

definition check_conntrack_and_blacklist ::
  "kenv \<Rightarrow> fw_state \<Rightarrow> packet_ctx \<Rightarrow> conn_ptr \<Rightarrow> int \<times> packet_ctx \<times> fw_state" where
  [eval_defs]: "check_conntrack_and_blacklist e s pctx conn_state =
     (let src_ip = fk_saddr (pm_key (pc_meta pctx)) in
      case bpf_map_lookup_elem (permanent_blocklist_map s) src_ip of
        Some bv \<Rightarrow> (VDT_DROP, set_status ACT_DROP STG_PERM_BLK RSN_RULE_STATIC pctx, s)
      | None \<Rightarrow>
          (case bpf_map_lookup_elem (temp_blocklist_map s) src_ip of
             Some bv \<Rightarrow>
               (let (now_ns, s) = bpf_ktime_get_ns e s
                in if blocked_now now_ns bv
                   then (VDT_DROP, set_status ACT_DROP STG_TEMP_BLK RSN_RULE_DYNA pctx, s)
                   else conn_verdict e s pctx conn_state)
           | None \<Rightarrow> conn_verdict e s pctx conn_state))"

definition reverse_key :: "flow_key \<Rightarrow> flow_key" where
  [eval_defs]: "reverse_key k = zero_key\<lparr>fk_saddr := fk_daddr k, fk_daddr := fk_saddr k,
     fk_sport := fk_dport k, fk_dport := fk_sport k, fk_proto := fk_proto k\<rparr>"

definition record_established :: "kenv \<Rightarrow> fw_state \<Rightarrow> packet_ctx \<Rightarrow> fw_state" where
  [eval_defs]: "record_established e s pctx =
     (if pm_ip_proto (pc_meta pctx) \<noteq> IPPROTO_TCP \<and> pm_ip_proto (pc_meta pctx) \<noteq> IPPROTO_UDP then s
      else
        (let rev = reverse_key (pm_key (pc_meta pctx));
             (now, s) = bpf_ktime_get_ns e s
         in case bpf_map_lookup_elem (established_connections_map s) rev of
              Some state \<Rightarrow> touch_conn rev state now s
            | None \<Rightarrow>
                if \<not> conn_insert_ok e then s
                else s\<lparr>established_connections_map :=
                   bpf_map_update_elem (established_connections_map s) rev
                     \<lparr>cs_last_seen = now, cs_dpi_state = 0, cs_tls_version = 0, cs_reserved = 0\<rparr>\<rparr>))"

definition is_tls_payload :: "nat \<Rightarrow> packet_ctx \<Rightarrow> bool" where
  [eval_defs]: "is_tls_payload ptr pctx =
     (let b = pc_data pctx in
      if ptr + 6 > pc_data_end pctx then False
      else if ld8 b ptr < 0x14 \<or> ld8 b ptr > 0x17 then False
      else if ld8 b (ptr + 1) \<noteq> 0x03 \<or> ld8 b (ptr + 2) < 0x01 \<or> ld8 b (ptr + 2) > 0x04 then False
      else True)"

section \<open>The connection table as an interface\<close>

definition unpadded :: "flow_key \<Rightarrow> bool" where
  [eval_defs]: "unpadded k \<longleftrightarrow> fk_pad1 k = 0 \<and> fk_pad2 k = 0"

text \<open>
  \<open>record_conn k c t\<close> stores an entry, \<open>find_conn t k\<close> reads one, \<open>rev\<close> turns a packet's key
  into the key of the opposite direction; \<open>proper\<close> are the keys the programs build.
\<close>

locale conn_table =
  fixes record_conn :: "'k \<Rightarrow> 'c \<Rightarrow> 't \<Rightarrow> 't"
    and find_conn :: "'t \<Rightarrow> 'k \<Rightarrow> 'c option"
    and rev :: "'k \<Rightarrow> 'k" and proper :: "'k \<Rightarrow> bool"
  assumes find_same: "find_conn (record_conn k c t) k = Some c"
    and find_other: "k \<noteq> k' \<Longrightarrow> find_conn (record_conn k c t) k' = find_conn t k'"
    and rev_rev: "proper k \<Longrightarrow> rev (rev k) = k"
    and proper_rev: "proper (rev k)"
begin

lemma rev_inject: "proper k \<Longrightarrow> proper k' \<Longrightarrow> rev k = rev k' \<longleftrightarrow> k = k'"
  by (metis rev_rev)

text \<open>A reply to a recorded packet is found; any other incoming packet sees the old table.\<close>

lemma reply_found: "proper k \<Longrightarrow> find_conn (record_conn k c t) (rev (rev k)) = Some c"
  by (simp add: rev_rev find_same)

lemma unrelated_unseen:
  "proper k \<Longrightarrow> proper k' \<Longrightarrow> k' \<noteq> rev k \<Longrightarrow> find_conn (record_conn k c t) (rev k') = find_conn t (rev k')"
  by (metis find_other rev_rev)

end

lemma reverse_key_involutive: "unpadded k \<Longrightarrow> reverse_key (reverse_key k) = k"
  by (simp add: reverse_key_def zero_key_def unpadded_def)

interpretation conns: conn_table "\<lambda>k c t. bpf_map_update_elem t k c" "\<lambda>t k. bpf_map_lookup_elem t k"
    reverse_key unpadded
  by unfold_locales (auto simp: reverse_key_involutive, simp add: eval_defs)

section \<open>Lemmas\<close>

lemma set_status_fields [simp]:
  "pm_status_code (pc_meta (set_status a g r p)) = MAKE_STATUS a g r"
  "pm_key (pc_meta (set_status a g r p)) = pm_key (pc_meta p)"
  "pm_ip_proto (pc_meta (set_status a g r p)) = pm_ip_proto (pc_meta p)"
  "pm_is_under_attack (pc_meta (set_status a g r p)) = pm_is_under_attack (pc_meta p)"
  "pm_pkt_len (pc_meta (set_status a g r p)) = pm_pkt_len (pc_meta p)"
  "pm_payload_len (pc_meta (set_status a g r p)) = pm_payload_len (pc_meta p)"
  "pc_data (set_status a g r p) = pc_data p"
  "pc_ip (set_status a g r p) = pc_ip p"
  by (simp_all add: set_status_def)

lemma ktime_frame [simp]:
  "snd (bpf_ktime_get_ns e s) = s\<lparr>ticks := Suc (ticks s)\<rparr>"
  "fst (bpf_ktime_get_ns e s) = ktime e (ticks s)"
  by (simp_all add: bpf_ktime_get_ns_def)

text \<open>The verdict is one of three codes, and only a present entry that is not marked as violating
  lets a packet through.\<close>

lemma conn_verdict_cases:
  assumes "conn_verdict e s pctx conn = (v, p', s')"
  shows "(v = VDT_DROP \<and> (conn = None \<or> (\<exists>k c. conn = Some (k, c) \<and> cs_dpi_state c = 2))) \<or>
    (v = VDT_DPI_PASSED \<and> (\<exists>k c. conn = Some (k, c) \<and> cs_dpi_state c = 1)) \<or>
    (v = VDT_DPI_PENDING \<and> (\<exists>k c. conn = Some (k, c) \<and> cs_dpi_state c \<noteq> 1 \<and> cs_dpi_state c \<noteq> 2))"
  using assms by (auto simp: conn_verdict_def Let_def split: option.splits if_splits prod.splits)

lemma conn_verdict_status:
  assumes "conn_verdict e s pctx conn = (v, p', s')"
  shows "pm_status_code (pc_meta p') AND 0xFF000000 = (if v = VDT_DROP then ACT_DROP else ACT_PASS)"
    and "pm_key (pc_meta p') = pm_key (pc_meta pctx)"
    and "pc_data p' = pc_data pctx" and "pc_ip p' = pc_ip pctx"
    and "permanent_blocklist_map s' = permanent_blocklist_map s"
    and "temp_blocklist_map s' = temp_blocklist_map s"
  using assms
  by (auto simp: conn_verdict_def touch_conn_def Let_def bpf_ktime_get_ns_def eval_defs
      split: option.splits if_splits prod.splits)

lemma check_verdict_range:
  assumes "check_conntrack_and_blacklist e s pctx conn = (v, p', s')"
  shows "v = VDT_DROP \<or> v = VDT_DPI_PASSED \<or> v = VDT_DPI_PENDING"
  using assms conn_verdict_cases
  by (fastforce simp: check_conntrack_and_blacklist_def Let_def split: option.splits if_splits prod.splits)

lemma check_status:
  assumes "check_conntrack_and_blacklist e s pctx conn = (v, p', s')"
  shows "pm_status_code (pc_meta p') AND 0xFF000000 = (if v = VDT_DROP then ACT_DROP else ACT_PASS)"
    and "pm_key (pc_meta p') = pm_key (pc_meta pctx)"
    and "pc_data p' = pc_data pctx" and "pc_ip p' = pc_ip pctx"
  using assms
  by (auto simp: check_conntrack_and_blacklist_def Let_def const_defs MAKE_STATUS_def
      dest: conn_verdict_status split: option.splits if_splits prod.splits)

end
