(* ===== verification/Parser.thy ===== *)
theory Parser
  imports Types
begin

text \<open>
  The header parsers of \<open>src/src/ebpf/parser.h\<close>. A parser takes the packet memory and the
  cursor \<open>nh->pos\<close> as an offset; it returns \<open>None\<close> for the source's \<open>-1\<close>, and otherwise
  its out-parameters with the new cursor. The bounds check \<open>(void *)(hdr + 1) > data_end\<close> is
  \<open>pos + size > length b\<close>.

  Header sizes and field offsets are those of the kernel's UAPI structs (\<open>ethhdr\<close>,
  \<open>vlan_hdr\<close>, \<open>iphdr\<close>, \<open>tcphdr\<close>, \<open>udphdr\<close>, \<open>icmphdr\<close>, \<open>igmpv3_grec\<close>), that is,
  of the wire formats; the bit fields \<open>ihl\<close> and \<open>doff\<close> are the low nibble of byte 0 of the
  IPv4 header and the high nibble of byte 12 of the TCP header.

  The contract all parsers keep is the locale \<open>header_parser\<close>: a successful parse moves the
  cursor forward and leaves it inside the packet, with the whole header before it. It is what
  makes every later field access of the programs an access inside the packet.
\<close>

section \<open>Wire formats\<close>

definition ETH_P_8021Q :: u16 where [const_defs, eval_defs]: "ETH_P_8021Q = 0x8100"
definition ETH_P_8021AD :: u16 where [const_defs, eval_defs]: "ETH_P_8021AD = 0x88A8"
definition ETH_P_IPV6 :: u16 where [const_defs, eval_defs]: "ETH_P_IPV6 = 0x86DD"
definition ETH_P_ARP :: u16 where [const_defs, eval_defs]: "ETH_P_ARP = 0x0806"

definition sizeof_ethhdr :: nat where [const_defs, eval_defs]: "sizeof_ethhdr = 14"
definition sizeof_vlan_hdr :: nat where [const_defs, eval_defs]: "sizeof_vlan_hdr = 4"
definition sizeof_mpls_hdr :: nat where [const_defs, eval_defs]: "sizeof_mpls_hdr = 4"
definition sizeof_iphdr :: nat where [const_defs, eval_defs]: "sizeof_iphdr = 20"
definition sizeof_tcphdr :: nat where [const_defs, eval_defs]: "sizeof_tcphdr = 20"
definition sizeof_udphdr :: nat where [const_defs, eval_defs]: "sizeof_udphdr = 8"
definition sizeof_icmphdr :: nat where [const_defs, eval_defs]: "sizeof_icmphdr = 8"
definition sizeof_igmpv3_grec :: nat where [const_defs, eval_defs]: "sizeof_igmpv3_grec = 8"

definition eth_h_proto :: "bytes \<Rightarrow> nat \<Rightarrow> u16" where
  [eval_defs]: "eth_h_proto b p = ld16 b (p + 12)"
definition vlan_encapsulated_proto :: "bytes \<Rightarrow> nat \<Rightarrow> u16" where
  [eval_defs]: "vlan_encapsulated_proto b p = ld16 b (p + 2)"

definition ip_ihl :: "bytes \<Rightarrow> nat \<Rightarrow> u8" where
  [eval_defs]: "ip_ihl b p = ld8 b p AND 0x0F"
definition ip_version :: "bytes \<Rightarrow> nat \<Rightarrow> u8" where
  [eval_defs]: "ip_version b p = drop_bit 4 (ld8 b p)"
definition ip_tot_len :: "bytes \<Rightarrow> nat \<Rightarrow> u16" where
  [eval_defs]: "ip_tot_len b p = ld16 b (p + 2)"
definition ip_frag_off :: "bytes \<Rightarrow> nat \<Rightarrow> u16" where
  [eval_defs]: "ip_frag_off b p = ld16 b (p + 6)"
definition ip_protocol :: "bytes \<Rightarrow> nat \<Rightarrow> u8" where
  [eval_defs]: "ip_protocol b p = ld8 b (p + 9)"
definition ip_saddr :: "bytes \<Rightarrow> nat \<Rightarrow> u32" where
  [eval_defs]: "ip_saddr b p = ld32 b (p + 12)"
definition ip_daddr :: "bytes \<Rightarrow> nat \<Rightarrow> u32" where
  [eval_defs]: "ip_daddr b p = ld32 b (p + 16)"

definition l4_source :: "bytes \<Rightarrow> nat \<Rightarrow> u16" where
  [eval_defs]: "l4_source b p = ld16 b p"
definition l4_dest :: "bytes \<Rightarrow> nat \<Rightarrow> u16" where
  [eval_defs]: "l4_dest b p = ld16 b (p + 2)"
definition tcp_seq :: "bytes \<Rightarrow> nat \<Rightarrow> u32" where
  [eval_defs]: "tcp_seq b p = ld32 b (p + 4)"
definition tcp_doff :: "bytes \<Rightarrow> nat \<Rightarrow> u8" where
  [eval_defs]: "tcp_doff b p = drop_bit 4 (ld8 b (p + 12))"
definition tcp_flags :: "bytes \<Rightarrow> nat \<Rightarrow> u8" where
  [eval_defs]: "tcp_flags b p = ld8 b (p + 13)"
definition tcp_check :: "bytes \<Rightarrow> nat \<Rightarrow> u16" where
  [eval_defs]: "tcp_check b p = ld16 b (p + 16)"
definition udp_len :: "bytes \<Rightarrow> nat \<Rightarrow> u16" where
  [eval_defs]: "udp_len b p = ld16 b (p + 4)"

section \<open>The parsers\<close>

text \<open>\<open>BPF_PTR_CHECK(ptr, end)\<close> of \<open>kcommon.h\<close>: fails when the pointer is past the end.\<close>

definition BPF_PTR_CHECK :: "nat \<Rightarrow> nat \<Rightarrow> unit option" where
  [eval_defs]: "BPF_PTR_CHECK ptr end_ptr = (if ptr > end_ptr then None else Some ())"

definition parse_eth :: "bytes \<Rightarrow> nat \<Rightarrow> (nat \<times> u16 \<times> nat) option" where
  [eval_defs]: "parse_eth b pos =
     (if pos + sizeof_ethhdr > length b then None
      else Some (pos, eth_h_proto b pos, pos + sizeof_ethhdr))"

definition parse_vlan :: "bytes \<Rightarrow> nat \<Rightarrow> (u16 \<times> nat) option" where
  [eval_defs]: "parse_vlan b pos =
     (if pos + sizeof_vlan_hdr > length b then None
      else Some (vlan_encapsulated_proto b pos, pos + sizeof_vlan_hdr))"

text \<open>The unrolled loop of \<open>parse_vlan_stack\<close>; its first argument counts the rounds left.\<close>

fun vlan_stack_loop :: "nat \<Rightarrow> bytes \<Rightarrow> nat \<Rightarrow> u16 \<Rightarrow> (u16 \<times> nat) option" where
  "vlan_stack_loop 0 b pos proto = Some (proto, pos)"
| "vlan_stack_loop (Suc n) b pos proto =
     (if proto \<noteq> bpf_htons ETH_P_8021Q \<and> proto \<noteq> bpf_htons ETH_P_8021AD then Some (proto, pos)
      else if pos + sizeof_vlan_hdr > length b then None
      else vlan_stack_loop n b (pos + sizeof_vlan_hdr) (vlan_encapsulated_proto b pos))"

definition parse_vlan_stack :: "bytes \<Rightarrow> nat \<Rightarrow> u16 \<Rightarrow> (u16 \<times> nat) option" where
  [eval_defs]: "parse_vlan_stack b pos proto = vlan_stack_loop 2 b pos proto"

definition parse_mpls :: "bytes \<Rightarrow> nat \<Rightarrow> (u32 \<times> nat) option" where
  [eval_defs]: "parse_mpls b pos =
     (if pos + sizeof_mpls_hdr > length b then None
      else Some (ld32 b pos, pos + sizeof_mpls_hdr))"

definition parse_ipv4 :: "bytes \<Rightarrow> nat \<Rightarrow> (nat \<times> u8 \<times> nat) option" where
  [eval_defs]: "parse_ipv4 b pos =
     (if pos + sizeof_iphdr > length b then None
      else if ip_ihl b pos < 5 then None
      else let ip_end = pos + unat (ip_ihl b pos) * 4 in
        if ip_end > length b then None
        else Some (pos, ip_protocol b pos, ip_end))"

definition parse_tcp :: "bytes \<Rightarrow> nat \<Rightarrow> nat \<Rightarrow> (nat \<times> u32 \<times> nat) option" where
  [eval_defs]: "parse_tcp b pos ip =
     (if pos + sizeof_tcphdr > length b then None
      else let tcp_hdr_len = (ucast (tcp_doff b pos) :: u32) * 4 in
        if tcp_hdr_len < 20 then None
        else let tcp_end = pos + unat tcp_hdr_len in
          if tcp_end > length b then None
          else let ip_total = (ucast (bpf_ntohs (ip_tot_len b ip)) :: u32);
                   ip_hdr_len = (ucast (ip_ihl b ip) :: u32) * 4;
                   out_payload_len = (if ip_total \<ge> ip_hdr_len + tcp_hdr_len
                                      then ip_total - ip_hdr_len - tcp_hdr_len else 0)
               in Some (pos, out_payload_len, tcp_end))"

definition parse_udp :: "bytes \<Rightarrow> nat \<Rightarrow> (nat \<times> nat) option" where
  [eval_defs]: "parse_udp b pos =
     (if pos + sizeof_udphdr > length b then None else Some (pos, pos + sizeof_udphdr))"

definition parse_icmp :: "bytes \<Rightarrow> nat \<Rightarrow> (nat \<times> nat) option" where
  [eval_defs]: "parse_icmp b pos =
     (if pos + sizeof_icmphdr > length b then None else Some (pos, pos + sizeof_icmphdr))"

definition grec :: "bytes \<Rightarrow> nat \<Rightarrow> (nat \<times> nat) option" where
  [eval_defs]: "grec b pos =
     (if pos + sizeof_igmpv3_grec > length b then None else Some (pos, pos + sizeof_igmpv3_grec))"

section \<open>The contract of a header parser\<close>

text \<open>
  \<open>cursor\<close> reads the new cursor from a parser's result; \<open>hdr\<close> is the number of bytes the
  parser has checked to be inside the packet.
\<close>

locale header_parser =
  fixes parse :: "bytes \<Rightarrow> nat \<Rightarrow> 'r option"
    and cursor :: "'r \<Rightarrow> nat"
    and hdr :: nat
  assumes advance: "parse b pos = Some r \<Longrightarrow> pos + hdr \<le> cursor r"
    and inside: "parse b pos = Some r \<Longrightarrow> cursor r \<le> length b"
    and short: "length b < pos + hdr \<Longrightarrow> parse b pos = None"
begin

lemma accepted_in_bounds:
  "parse b pos = Some r \<Longrightarrow> pos + hdr \<le> length b"
  using advance inside le_trans by blast

lemma field_in_bounds:
  "parse b pos = Some r \<Longrightarrow> i < hdr \<Longrightarrow> pos + i < length b"
  using accepted_in_bounds by fastforce

lemma rejects_empty_rest: "0 < hdr \<Longrightarrow> length b \<le> pos \<Longrightarrow> parse b pos = None"
  by (rule short) simp

end

text \<open>Two parsers in sequence (the second starts at the cursor of the first) keep the contract.\<close>

locale parser_chain =
  fst: header_parser parse1 cursor1 hdr1 + snd: header_parser parse2 cursor2 hdr2
  for parse1 :: "bytes \<Rightarrow> nat \<Rightarrow> 'r option" and cursor1 hdr1
    and parse2 :: "bytes \<Rightarrow> nat \<Rightarrow> 's option" and cursor2 hdr2
begin

lemma chain_in_bounds:
  assumes "parse1 b pos = Some r" and "parse2 b (cursor1 r) = Some q"
  shows "pos + hdr1 + hdr2 \<le> cursor2 q" and "cursor2 q \<le> length b"
proof -
  have "pos + hdr1 \<le> cursor1 r" by (rule fst.advance [OF assms(1)])
  moreover have "cursor1 r + hdr2 \<le> cursor2 q" by (rule snd.advance [OF assms(2)])
  ultimately show "pos + hdr1 + hdr2 \<le> cursor2 q" by linarith
  show "cursor2 q \<le> length b" by (rule snd.inside [OF assms(2)])
qed

end

lemma ip_ihl_bytes:
  "\<not> ip_ihl b pos < 5 \<Longrightarrow> 20 \<le> unat (ip_ihl b pos) * 4"
  by (simp add: word_less_nat_alt)

interpretation eth: header_parser parse_eth "\<lambda>(_, _, p). p" sizeof_ethhdr
  by unfold_locales (auto simp: parse_eth_def split: if_splits)

interpretation vlan: header_parser parse_vlan snd sizeof_vlan_hdr
  by unfold_locales (auto simp: parse_vlan_def split: if_splits)

interpretation mpls: header_parser parse_mpls snd sizeof_mpls_hdr
  by unfold_locales (auto simp: parse_mpls_def split: if_splits)

interpretation ipv4: header_parser parse_ipv4 "\<lambda>(_, _, p). p" sizeof_iphdr
  by unfold_locales
    (auto simp: parse_ipv4_def Let_def sizeof_iphdr_def dest: ip_ihl_bytes split: if_splits)

interpretation tcp: header_parser "\<lambda>b pos. parse_tcp b pos ip" "\<lambda>(_, _, p). p" sizeof_tcphdr for ip
  by unfold_locales
    (auto simp: parse_tcp_def Let_def sizeof_tcphdr_def word_less_nat_alt split: if_splits)

interpretation udp: header_parser parse_udp snd sizeof_udphdr
  by unfold_locales (auto simp: parse_udp_def split: if_splits)

interpretation icmp: header_parser parse_icmp snd sizeof_icmphdr
  by unfold_locales (auto simp: parse_icmp_def split: if_splits)

interpretation igmp: header_parser grec snd sizeof_igmpv3_grec
  by unfold_locales (auto simp: grec_def split: if_splits)

interpretation ip_tcp: parser_chain parse_ipv4 "\<lambda>(_, _, p). p" sizeof_iphdr
    "\<lambda>b pos. parse_tcp b pos ip" "\<lambda>(_, _, p). p" sizeof_tcphdr for ip
  by unfold_locales

interpretation ip_udp: parser_chain parse_ipv4 "\<lambda>(_, _, p). p" sizeof_iphdr
    parse_udp snd sizeof_udphdr
  by unfold_locales

end
