(* ===== verification/SynCookie.thy ===== *)
theory SynCookie
  imports Stats Parser
begin

text \<open>
  \<open>trigger_syncookie_challenge\<close> of \<open>src/src/ebpf/policy.h\<close>. The kernel function
  \<open>bpf_tcp_raw_gen_tsc_cookie\<close> is a weak symbol outside the repository: it is the field
  \<open>tsc_cookie\<close> of the kernel environment, \<open>None\<close> when the symbol is not resolved.

  The routine overwrites the sequence number of the received SYN in place and repairs the TCP
  checksum incrementally. The theory proves that repair correct: a segment whose one's complement
  sum was valid has a valid sum afterwards.
\<close>

section \<open>The challenge\<close>

definition th_fin :: "bytes \<Rightarrow> nat \<Rightarrow> bool" where [eval_defs]: "th_fin b t = bit (tcp_flags b t) 0"
definition th_syn :: "bytes \<Rightarrow> nat \<Rightarrow> bool" where [eval_defs]: "th_syn b t = bit (tcp_flags b t) 1"
definition th_rst :: "bytes \<Rightarrow> nat \<Rightarrow> bool" where [eval_defs]: "th_rst b t = bit (tcp_flags b t) 2"
definition th_ack :: "bytes \<Rightarrow> nat \<Rightarrow> bool" where [eval_defs]: "th_ack b t = bit (tcp_flags b t) 4"

text \<open>The checksum accumulator: \<open>inv16 x\<close> is the C expression \<open>~x & 0xFFFF\<close> on the promoted
  value. The three fold and complement statements at the end are \<open>csum_fold\<close>.\<close>

definition inv16 :: "u16 \<Rightarrow> u32" where
  [eval_defs]: "inv16 x = NOT (ucast x) AND 0xFFFF"

definition csum_sum :: "u16 \<Rightarrow> u32 \<Rightarrow> u32 \<Rightarrow> u32" where
  [eval_defs]: "csum_sum check old_seq new_seq =
     (let csum_acc = inv16 (bpf_ntohs check);
          csum_acc = csum_acc + inv16 (bpf_ntohs (ucast (drop_bit 16 old_seq)));
          csum_acc = csum_acc + inv16 (bpf_ntohs (ucast (old_seq AND 0xFFFF)));
          csum_acc = csum_acc + ucast (bpf_ntohs (ucast (drop_bit 16 new_seq)))
      in csum_acc + ucast (bpf_ntohs (ucast (new_seq AND 0xFFFF))))"

definition csum_fold :: "u32 \<Rightarrow> u16" where
  [eval_defs]: "csum_fold csum_acc =
     (let csum_acc = drop_bit 16 csum_acc + (csum_acc AND 0xFFFF);
          csum_acc = csum_acc + drop_bit 16 csum_acc
      in bpf_htons (ucast (NOT csum_acc AND 0xFFFF)))"

text \<open>The challenge returns its code with the packet memory and the state.\<close>

definition trigger_syncookie_challenge ::
  "kenv \<Rightarrow> fw_state \<Rightarrow> bytes \<Rightarrow> nat \<Rightarrow> nat \<Rightarrow> u32 \<Rightarrow> int \<times> bytes \<times> fw_state" where
  [eval_defs]: "trigger_syncookie_challenge e s b iph th ip_hdr_len =
     (if \<not> th_syn b th \<or> th_ack b th \<or> th_rst b th \<or> th_fin b th then (-2, b, s)
      else
        (case tsc_cookie e of
           None \<Rightarrow> (-99, b, increment_stat STAT_TCP_SYN_DROP s)
         | Some gen \<Rightarrow>
             (let cookie = gen b iph th ip_hdr_len in
              if sint cookie < 0 then (-99, b, increment_stat STAT_TCP_SYN_DROP s)
              else
                (let old_seq = tcp_seq b th;
                     new_seq = bpf_htonl (ucast cookie);
                     b = st32 b (th + 4) new_seq;
                     b = st16 b (th + 16) (csum_fold (csum_sum (tcp_check b th) old_seq new_seq))
                 in (777, b, s)))))"

section \<open>The one's complement sum\<close>

text \<open>The \<open>i\<close>-th 16-bit word of a segment in host order, and the sum of the first \<open>n\<close>.\<close>

definition tcp_word :: "bytes \<Rightarrow> nat \<Rightarrow> nat \<Rightarrow> u16" where
  "tcp_word b th i = bpf_ntohs (ld16 b (th + 2 * i))"

definition tcp_sum :: "bytes \<Rightarrow> nat \<Rightarrow> nat \<Rightarrow> nat" where
  "tcp_sum b th n = (\<Sum>i<n. unat (tcp_word b th i))"

lemma ffff_mask: "(0xFFFF :: u32) = mask 16" "(0xFFFF :: nat) = mask 16"
  by (simp_all add: mask_eq_exp_minus_1)

lemma inv16_not: "inv16 x = ucast (NOT x)"
  unfolding inv16_def ffff_mask by (rule bit_word_eqI) (auto simp: bit_simps)

lemma unat_not16: "unat (NOT x :: u16) = 65535 - unat x"
proof -
  have "NOT x = -1 - x" by (simp add: not_eq_complement)
  moreover have "unat (-1 - x :: u16) = unat (-1 :: u16) - unat x"
    by (rule unat_sub) (rule word_order.extremum)
  moreover have "unat (-1 :: u16) = 65535" by (simp add: unsigned_minus_1_eq_mask ffff_mask(2))
  ultimately show ?thesis by simp
qed

lemma unat_inv16: "unat (inv16 x) = 65535 - unat x"
  by (simp add: inv16_not unat_ucast_up unat_not16)

lemma unat_ucast16: "unat (ucast (x :: u16) :: u32) = unat x"
  by (simp add: unat_ucast_up)

lemma u16_bound: "unat (x :: u16) \<le> 65535"
proof -
  have "unat x < 2 ^ LENGTH(16)" by (rule unsigned_less)
  then show ?thesis by simp
qed

lemma u32_add_small: "unat a + unat b < 4294967296 \<Longrightarrow> unat (a + b :: u32) = unat a + unat b"
  by (simp add: unat_word_ariths)

text \<open>The accumulator never leaves 32 bits, so it is the sum of its five summands.\<close>

lemma unat_csum_sum:
  "unat (csum_sum c old new) =
     (65535 - unat (bpf_ntohs c)) + (65535 - unat (bpf_ntohs (ucast (drop_bit 16 old)))) +
     (65535 - unat (bpf_ntohs (ucast (old AND 0xFFFF)))) +
     unat (bpf_ntohs (ucast (drop_bit 16 new))) + unat (bpf_ntohs (ucast (new AND 0xFFFF)))"
  using u16_bound [of "bpf_ntohs (ucast (drop_bit 16 new))"] u16_bound [of "bpf_ntohs (ucast (new AND 0xFFFF))"]
  unfolding csum_sum_def Let_def by (simp add: u32_add_small unat_inv16 unat_ucast16)

lemma unat_csum_sum_le: "unat (csum_sum c old new) \<le> 327675"
  using u16_bound [of "bpf_ntohs (ucast (drop_bit 16 new))"] u16_bound [of "bpf_ntohs (ucast (new AND 0xFFFF))"]
  unfolding unat_csum_sum by linarith

text \<open>Two folds bring any such accumulator below 65536 without changing it modulo 65535.\<close>

lemma fold_once_mod:
  fixes f :: nat
  assumes "f \<le> 65540"
  shows "(f + f div 65536) mod 65536 mod 65535 = f mod 65535"
proof (cases "f < 65536")
  case False
  then have "f = 65536 \<or> f = 65537 \<or> f = 65538 \<or> f = 65539 \<or> f = 65540" using assms by linarith
  then show ?thesis by (elim disjE) simp_all
qed simp

lemma fold_mod:
  fixes a :: nat
  assumes "a \<le> 327675"
  shows "((a div 65536 + a mod 65536) + (a div 65536 + a mod 65536) div 65536) mod 65536 mod 65535 = a mod 65535"
proof -
  define q r where "q = a div 65536" and "r = a mod 65536"
  have a: "a = 65536 * q + r" "r < 65536" "q \<le> 4" using assms by (auto simp: q_def r_def)
  have "a mod 65535 = (q + r) mod 65535"
    using mod_mult_self2 [of "q + r" 65535 q] by (simp add: a(1) algebra_simps)
  then show ?thesis
    using fold_once_mod [of "q + r"] a(2,3) by (simp add: q_def [symmetric] r_def [symmetric])
qed

lemma unat_low16: "unat (ucast (x :: u32) :: u16) = unat x mod 65536"
  by (simp add: unsigned_ucast_eq take_bit_eq_mod)

lemma unat_mask16: "unat (x AND 0xFFFF :: u32) = unat x mod 65536"
  by (simp add: ffff_mask(1) take_bit_eq_mod unat_mod flip: take_bit_eq_mask)

lemma unat_drop16: "unat (drop_bit 16 (x :: u32)) = unat x div 65536"
  by (simp add: drop_bit_eq_div unat_div)

lemma complement_mod:
  fixes x a c :: nat
  assumes "c = 65535 - x" and "x mod 65535 = a mod 65535" and "x \<le> 65535"
  shows "(c + a) mod 65535 = 0"
proof -
  have "(c + a) mod 65535 = (c + x) mod 65535" using assms(2) by (metis mod_add_right_eq)
  also have "c + x = 65535" using assms by simp
  finally show ?thesis by simp
qed

lemma csum_fold_complement:
  assumes "unat acc \<le> 327675"
  shows "(unat (bpf_ntohs (csum_fold acc)) + unat acc) mod 65535 = 0"
proof -
  define f where "f = drop_bit 16 acc + (acc AND 0xFFFF)"
  define g where "g = f + drop_bit 16 f"
  have lo: "unat acc div 65536 \<le> 5" and hi: "unat acc mod 65536 < 65536" using assms by auto
  have f: "unat f = unat acc div 65536 + unat acc mod 65536"
    using lo hi unfolding f_def by (subst u32_add_small) (auto simp: unat_mask16 unat_drop16)
  have g: "unat g = unat f + unat f div 65536"
    using lo hi f unfolding g_def by (subst u32_add_small) (auto simp: unat_drop16)
  have "ucast (NOT g AND 0xFFFF) = (NOT (ucast g) :: u16)"
    unfolding ffff_mask by (rule bit_word_eqI) (auto simp: bit_simps)
  then have "bpf_ntohs (csum_fold acc) = NOT (ucast g :: u16)"
    by (simp add: csum_fold_def Let_def f_def g_def)
  then have "unat (bpf_ntohs (csum_fold acc)) = 65535 - unat g mod 65536"
    by (simp add: unat_not16 unat_low16)
  moreover have "unat g mod 65536 mod 65535 = unat acc mod 65535"
    unfolding g f using assms by (rule fold_mod)
  moreover have "unat g mod 65536 \<le> 65535" by (simp add: less_Suc_eq_le [symmetric])
  ultimately show ?thesis
    by (rule complement_mod)
qed

section \<open>The repaired segment\<close>

lemma bit_u8: "bit (x :: u8) n \<Longrightarrow> n < 8"
  using bit_imp_le_length [of x n] by simp

lemma bytes16:
  "ucast x OR push_bit 8 (ucast y) = (z :: u16) \<longleftrightarrow> x = ucast z \<and> y = ucast (drop_bit 8 z)"
    for x y :: u8
proof
  show "x = ucast z \<and> y = ucast (drop_bit 8 z) \<Longrightarrow> ucast x OR push_bit 8 (ucast y) = z"
    by (rule bit_word_eqI) (auto simp: bit_simps)
  show "ucast x OR push_bit 8 (ucast y) = z \<Longrightarrow> x = ucast z \<and> y = ucast (drop_bit 8 z)"
    by (auto intro!: bit_word_eqI simp: bit_simps dest: bit_u8)
qed

lemma st32_nth:
  assumes "i + 3 < length b"
  shows "st32 b i x ! i = ucast x" and "st32 b i x ! (i + 1) = ucast (drop_bit 8 x)"
    and "st32 b i x ! (i + 2) = ucast (drop_bit 16 x)" and "st32 b i x ! (i + 3) = ucast (drop_bit 24 x)"
  using assms by (auto simp: st32_def nth_list_update)

lemma ld32_st32_same:
  assumes "i + 3 < length b"
  shows "ld32 (st32 b i x) i = x"
  unfolding ld32_def st32_nth [OF assms]
proof (rule bit_word_eqI)
  fix n assume "n < LENGTH(32)"
  then consider "n < 8" | "8 \<le> n" "n < 16" | "16 \<le> n" "n < 24" | "24 \<le> n" "n < 32" by fastforce
  then show "bit (ucast (ucast x :: u8) OR push_bit 8 (ucast (ucast (drop_bit 8 x) :: u8)) OR
      push_bit 16 (ucast (ucast (drop_bit 16 x) :: u8)) OR push_bit 24 (ucast (ucast (drop_bit 24 x) :: u8)) :: u32) n
    = bit x n"
    by cases (auto simp: bit_simps)
qed

lemma st32_nth_other: "j < i \<or> i + 3 < j \<Longrightarrow> st32 b i x ! j = b ! j"
  unfolding st32_def by auto

lemma ld16_st16_same: "i + 1 < length b \<Longrightarrow> ld16 (st16 b i x) i = x"
  unfolding ld16_def st16_def by (simp add: bytes16)

lemma ld16_st16_other: "j + 1 < i \<or> i + 1 < j \<Longrightarrow> ld16 (st16 b i x) j = ld16 b j"
  unfolding ld16_def st16_def by auto

lemma ld16_st32_low: "i + 3 < length b \<Longrightarrow> ld16 (st32 b i x) i = ucast (x AND 0xFFFF)"
  unfolding ld16_def st32_nth bytes16 ffff_mask
  by (auto intro!: bit_word_eqI simp: bit_simps)

lemma ld16_st32_high: "i + 3 < length b \<Longrightarrow> j = i + 2 \<Longrightarrow> ld16 (st32 b i x) j = ucast (drop_bit 16 x)"
  using st32_nth(3,4) [of i b x] unfolding ld16_def bytes16
  by (auto intro!: bit_word_eqI simp: bit_simps eval_nat_numeral)

lemma ld16_st32_other: "j + 1 < i \<or> i + 3 < j \<Longrightarrow> ld16 (st32 b i x) j = ld16 b j"
  unfolding ld16_def by (elim disjE) (simp_all add: st32_nth_other)

lemma word_of_bytes:
  fixes w x y z :: u8
  shows "ucast ((ucast w OR push_bit 8 (ucast x) OR push_bit 16 (ucast y) OR push_bit 24 (ucast z) :: u32)
      AND 0xFFFF) = (ucast w OR push_bit 8 (ucast x) :: u16)"
    and "ucast (drop_bit 16 (ucast w OR push_bit 8 (ucast x) OR push_bit 16 (ucast y) OR push_bit 24 (ucast z) :: u32))
      = (ucast y OR push_bit 8 (ucast z) :: u16)"
  unfolding ffff_mask
   apply (rule bit_word_eqI, auto simp: bit_simps)[1]
  apply (rule bit_word_eqI)
  apply (auto simp: bit_simps dest: bit_u8)
  done

lemma ld16_ld32:
  "ld16 b i = ucast (ld32 b i AND 0xFFFF)"
  "j = i + 2 \<Longrightarrow> ld16 b j = ucast (drop_bit 16 (ld32 b i))"
  by (simp_all only: ld16_def ld32_def word_of_bytes add.assoc one_add_one numeral_plus_one add_num_simps)

text \<open>The bytes the challenge writes, as one function of the cookie.\<close>

definition challenged :: "bytes \<Rightarrow> nat \<Rightarrow> u64 \<Rightarrow> bytes" where
  [eval_defs]: "challenged b th cookie =
     st16 (st32 b (th + 4) (bpf_htonl (ucast cookie))) (th + 16)
       (csum_fold (csum_sum (tcp_check b th) (tcp_seq b th) (bpf_htonl (ucast cookie))))"

lemma tcp_check_st32: "tcp_check (st32 b (th + 4) x) th = tcp_check b th"
  by (simp add: tcp_check_def ld16_st32_other)

lemma syncookie_cases:
  "trigger_syncookie_challenge e s b iph th l =
     (if \<not> th_syn b th \<or> th_ack b th \<or> th_rst b th \<or> th_fin b th then (-2, b, s)
      else case tsc_cookie e of
        None \<Rightarrow> (-99, b, increment_stat STAT_TCP_SYN_DROP s)
      | Some gen \<Rightarrow>
          if sint (gen b iph th l) < 0 then (-99, b, increment_stat STAT_TCP_SYN_DROP s)
          else (777, challenged b th (gen b iph th l), s))"
  by (simp add: trigger_syncookie_challenge_def challenged_def Let_def tcp_check_st32 split: option.splits)

lemma challenged_words:
  assumes "th + 20 \<le> length b"
  shows "tcp_word (challenged b th c) th 2 = bpf_ntohs (ucast (bpf_htonl (ucast c) AND 0xFFFF))"
    and "tcp_word (challenged b th c) th 3 = bpf_ntohs (ucast (drop_bit 16 (bpf_htonl (ucast c))))"
    and "tcp_word (challenged b th c) th 8 =
      bpf_ntohs (csum_fold (csum_sum (tcp_check b th) (tcp_seq b th) (bpf_htonl (ucast c))))"
    and "i \<noteq> 2 \<Longrightarrow> i \<noteq> 3 \<Longrightarrow> i \<noteq> 8 \<Longrightarrow> tcp_word (challenged b th c) th i = tcp_word b th i"
proof -
  show "tcp_word (challenged b th c) th 2 = bpf_ntohs (ucast (bpf_htonl (ucast c) AND 0xFFFF))"
    using assms by (simp add: tcp_word_def challenged_def ld16_st16_other ld16_st32_low)
  have "ld16 (st32 b (th + 4) x) (th + 6) = ucast (drop_bit 16 x)" for x
    using assms by (intro ld16_st32_high) auto
  then show "tcp_word (challenged b th c) th 3 = bpf_ntohs (ucast (drop_bit 16 (bpf_htonl (ucast c))))"
    by (simp add: tcp_word_def challenged_def ld16_st16_other)
  show "tcp_word (challenged b th c) th 8 =
      bpf_ntohs (csum_fold (csum_sum (tcp_check b th) (tcp_seq b th) (bpf_htonl (ucast c))))"
    using assms by (simp add: tcp_word_def challenged_def ld16_st16_same)
  assume "i \<noteq> 2" "i \<noteq> 3" "i \<noteq> 8"
  then have "th + 2 * i + 1 < th + 16 \<or> th + 16 + 1 < th + 2 * i"
    and "th + 2 * i + 1 < th + 4 \<or> th + 4 + 3 < th + 2 * i" by linarith+
  then show "tcp_word (challenged b th c) th i = tcp_word b th i"
    unfolding tcp_word_def challenged_def by (simp only: ld16_st16_other ld16_st32_other)
qed

lemma tcp_sum_split:
  assumes "9 \<le> n"
  shows "tcp_sum b th n = unat (tcp_word b th 2) + unat (tcp_word b th 3) + unat (tcp_word b th 8) +
    (\<Sum>i\<in>{..<n} - {2, 3, 8}. unat (tcp_word b th i))"
proof -
  have "{2, 3, 8} \<subseteq> {..<n}" using assms by auto
  then have "tcp_sum b th n = (\<Sum>i\<in>{..<n} - {2, 3, 8}. unat (tcp_word b th i)) +
      (\<Sum>i\<in>{2, 3, 8}. unat (tcp_word b th i))"
    unfolding tcp_sum_def by (intro sum.subset_diff) auto
  then show ?thesis by simp
qed

lemma seq_words:
  "tcp_word b th 2 = bpf_ntohs (ucast (tcp_seq b th AND 0xFFFF))"
  "tcp_word b th 3 = bpf_ntohs (ucast (drop_bit 16 (tcp_seq b th)))"
  "tcp_word b th 8 = bpf_ntohs (tcp_check b th)"
  using ld16_ld32(1) [of b "th + 4"] ld16_ld32(2) [of "th + 6" "th + 4" b]
  by (simp_all add: tcp_word_def tcp_seq_def tcp_check_def)

lemma exchange_mod:
  fixes r c o1 o2 n1 n2 c' acc :: nat
  assumes "acc = (65535 - c) + (65535 - o1) + (65535 - o2) + n1 + n2"
    and "c \<le> 65535" "o1 \<le> 65535" "o2 \<le> 65535" and "(c' + acc) mod 65535 = 0"
  shows "(n2 + n1 + c' + r) mod 65535 = (o2 + o1 + c + r) mod 65535"
proof -
  have "n2 + n1 + c' + r + 65535 * 3 = (o2 + o1 + c + r) + (c' + acc)" using assms by simp
  then show ?thesis using assms(5) by (metis add.right_neutral mod_add_right_eq mod_mult_self2)
qed

text \<open>C11: The SYN challenge, when it is sent, installs the cookie as the sequence number in network
  order, changes no byte of the packet outside the sequence number and the checksum, and repairs
  the checksum: whatever number of 16-bit words of the segment (at least the nine that hold these
  fields) is summed up, the sum is the same modulo 65535, so a segment that verified before the
  rewrite verifies after it (with the same pseudo header). The routine does not turn the SYN into a SYN-ACK.\<close>

theorem syncookie_repairs_checksum:
  assumes "trigger_syncookie_challenge e s b iph th l = (777, b', s')"
    and "th + 20 \<le> length b" and "9 \<le> n"
  shows "(\<exists>gen. tsc_cookie e = Some gen \<and> tcp_seq b' th = bpf_htonl (ucast (gen b iph th l))) \<and>
    tcp_sum b' th n mod 65535 = tcp_sum b th n mod 65535 \<and>
    (\<forall>i. i \<notin> {th + 4..<th + 8} \<union> {th + 16, th + 17} \<longrightarrow> b' ! i = b ! i) \<and>
    length b' = length b \<and> s' = s"
proof -
  obtain gen where gen: "tsc_cookie e = Some gen" and b': "b' = challenged b th (gen b iph th l)" and "s' = s"
    using assms(1) by (auto simp: syncookie_cases split: if_splits option.splits)
  define c where "c = gen b iph th l"
  define new where "new = bpf_htonl (ucast c)"
  have "ld32 (challenged b th c) (th + 4) = new"
    using ld32_st32_same [of "th + 4" b new] assms(2)
    by (simp add: challenged_def ld32_def st16_def flip: new_def)
  then have seq: "tcp_seq b' th = new" by (simp add: tcp_seq_def b' c_def)
  have "(unat (bpf_ntohs (csum_fold (csum_sum (tcp_check b th) (tcp_seq b th) new))) +
      unat (csum_sum (tcp_check b th) (tcp_seq b th) new)) mod 65535 = 0"
    by (rule csum_fold_complement [OF unat_csum_sum_le])
  moreover have "(\<Sum>i\<in>{..<n} - {2, 3, 8}. unat (tcp_word (challenged b th c) th i)) =
      (\<Sum>i\<in>{..<n} - {2, 3, 8}. unat (tcp_word b th i))"
    by (rule sum.cong) (auto simp: challenged_words(4) [OF assms(2)])
  ultimately have "tcp_sum b' th n mod 65535 = tcp_sum b th n mod 65535"
    unfolding b' c_def [symmetric] tcp_sum_split [OF assms(3)] challenged_words(1-3) [OF assms(2)]
      seq_words [of b th] new_def [symmetric]
    using exchange_mod [OF unat_csum_sum u16_bound u16_bound u16_bound] by simp
  moreover have "b' ! i = b ! i" if "i \<notin> {th + 4..<th + 8} \<union> {th + 16, th + 17}" for i
    using that unfolding b' challenged_def st16_def by (auto simp: st32_nth_other)
  ultimately show ?thesis
    using gen seq \<open>s' = s\<close> by (auto simp: new_def c_def b' challenged_def)
qed

text \<open>A bare SYN segment of 20 bytes at offset 0 and a kernel that hands out the cookie 0x1234ABCD.\<close>

definition syn_segment :: bytes where
  [eval_defs]: "syn_segment =
     [0x9C, 0x40, 0x01, 0xBB, 1, 2, 3, 4, 0, 0, 0, 0, 0x50, 0x02, 0xFF, 0xFF, 0x3C, 0x41, 0, 0]"

definition cookie_env :: kenv where
  [eval_defs]: "cookie_env = (still_env 0)\<lparr>tsc_cookie := Some (\<lambda>_ _ _ _. 0x1234ABCD)\<rparr>"

theorem syncookie_repairs_checksum_witness:
  "\<forall>s. tcp_sum (challenged syn_segment 0 0x1234ABCD) 0 10 mod 65535 = tcp_sum syn_segment 0 10 mod 65535"
proof
  fix s :: fw_state
  have "trigger_syncookie_challenge cookie_env s syn_segment 0 0 20 = (777, challenged syn_segment 0 0x1234ABCD, s)"
    by (simp add: syncookie_cases th_syn_def th_ack_def th_rst_def th_fin_def tcp_flags_def ld8_def
        syn_segment_def cookie_env_def bit_simps)
  from syncookie_repairs_checksum [OF this, of 10] show
    "tcp_sum (challenged syn_segment 0 0x1234ABCD) 0 10 mod 65535 = tcp_sum syn_segment 0 10 mod 65535"
    by (simp add: syn_segment_def)
qed

end
