(* ===== verification/Policy.thy ===== *)
theory Policy
  imports Stats Buckets Conntrack SynCookie Parser
begin

text \<open>
  The decisions of \<open>src/src/ebpf/policy.h\<close> in the order the packet meets them:
  \<open>parse_packet_and_flood_protect\<close> (with its cases for TCP, UDP, ICMP and other protocols),
  \<open>enforce_l4_l7_policy_and_dpi\<close> and \<open>apply_policy\<close>, and \<open>build_flow_key\<close> of \<open>flow.h\<close>.

  Every function returns the packet context it has changed and the state, after the value the
  source returns. A clock reading is a step of the state's \<open>ticks\<close>. The log macro has no effect
  on the state and is left out.
\<close>

abbreviation bad_pkt :: "packet_ctx \<Rightarrow> packet_ctx" where
  "bad_pkt \<equiv> set_status ACT_DROP STG_PARSE RSN_BAD_PKT"

definition upd_meta :: "(packet_meta \<Rightarrow> packet_meta) \<Rightarrow> packet_ctx \<Rightarrow> packet_ctx" where
  [eval_defs]: "upd_meta f p = p\<lparr>pc_meta := f (pc_meta p)\<rparr>"

definition upd_key :: "(flow_key \<Rightarrow> flow_key) \<Rightarrow> packet_ctx \<Rightarrow> packet_ctx" where
  [eval_defs]: "upd_key f = upd_meta (\<lambda>m. m\<lparr>pm_key := f (pm_key m)\<rparr>)"

section \<open>Policy and DPI enforcement\<close>

text \<open>Reading through a connection pointer: the present content of the map slot.\<close>

definition deref_conn :: "fw_state \<Rightarrow> flow_key \<times> connection_state \<Rightarrow> connection_state" where
  [eval_defs]: "deref_conn s kc =
     (case established_connections_map s (fst kc) of Some c \<Rightarrow> c | None \<Rightarrow> snd kc)"

definition note_attack :: "kenv \<Rightarrow> fw_state \<Rightarrow> fw_state" where
  [eval_defs]: "note_attack e s =
     (let (now, s) = bpf_ktime_get_ns e s;
          s = (case bpf_map_lookup_elem (attack_score_map s) 0 of
                 None \<Rightarrow> s
               | Some score \<Rightarrow> s\<lparr>attack_score_map := (attack_score_map s)(0 \<mapsto> score + 1)\<rparr>)
      in s\<lparr>attack_status_map := bpf_map_update_elem (attack_status_map s) 0 now\<rparr>)"

definition is_system_port :: "u16 \<Rightarrow> u16 \<Rightarrow> bool" where
  [eval_defs]: "is_system_port sport_hs dport_hs \<longleftrightarrow>
     dport_hs = 53 \<or> sport_hs = 53 \<or> dport_hs = 123 \<or> sport_hs = 123 \<or> dport_hs = 67 \<or> dport_hs = 68"

definition enforce_l4_l7_policy_and_dpi ::
  "kenv \<Rightarrow> fw_state \<Rightarrow> packet_ctx \<Rightarrow> conn_ptr \<Rightarrow> int \<times> packet_ctx \<times> fw_state" where
  [eval_defs]: "enforce_l4_l7_policy_and_dpi e s pctx conn_state =
     (let dport_hs = bpf_ntohs (fk_dport (pm_key (pc_meta pctx)));
          sport_hs = bpf_ntohs (fk_sport (pm_key (pc_meta pctx)));
          (blown, s) = trigger_fuse_ratelimit e s;
          pctx = upd_meta (\<lambda>m. m\<lparr>pm_is_fuse_ratelimit := blown\<rparr>) pctx
      in if blown then (-1, set_status ACT_DROP STG_FUSE RSN_LIMIT_BYTES pctx, note_attack e s)
         else if pm_is_under_attack (pc_meta pctx) \<and> pm_ip_proto (pc_meta pctx) = IPPROTO_UDP
         then (-1, bad_pkt pctx, increment_stat STAT_UDP_DROP s)
         else if pm_is_under_attack (pc_meta pctx) \<and> pm_ip_proto (pc_meta pctx) = IPPROTO_ICMP
         then (-1, bad_pkt pctx, s)
         else
           (case conn_state of
              None \<Rightarrow> (-1, pctx, s)
            | Some kc \<Rightarrow>
                if cs_dpi_state (deref_conn s kc) = 1 then (0, pctx, s)
                else if cs_dpi_state (deref_conn s kc) = 0 \<and> is_system_port sport_hs dport_hs
                then (0, pctx, s\<lparr>established_connections_map :=
                        (established_connections_map s)(fst kc \<mapsto> (deref_conn s kc)\<lparr>cs_dpi_state := 1\<rparr>)\<rparr>)
                else (-1, pctx, s)))"

section \<open>The protocol cases of the parser stage\<close>

text \<open>The key under which the egress program has recorded the connection of an incoming packet.\<close>

definition conn_lookup_key :: "bytes \<Rightarrow> nat \<Rightarrow> nat \<Rightarrow> flow_key" where
  [eval_defs]: "conn_lookup_key b ip l4 =
     zero_key\<lparr>fk_saddr := ip_daddr b ip, fk_daddr := ip_saddr b ip, fk_proto := ip_protocol b ip,
       fk_sport := l4_dest b l4, fk_dport := l4_source b l4\<rparr>"

definition set_ports :: "bytes \<Rightarrow> nat \<Rightarrow> packet_ctx \<Rightarrow> packet_ctx" where
  [eval_defs]: "set_ports b l4 = upd_key (\<lambda>k. k\<lparr>fk_sport := l4_source b l4, fk_dport := l4_dest b l4\<rparr>)"

definition tcp_challenge ::
  "kenv \<Rightarrow> fw_state \<Rightarrow> packet_ctx \<Rightarrow> nat \<Rightarrow> nat \<Rightarrow> int \<times> packet_ctx \<times> fw_state" where
  [eval_defs]: "tcp_challenge e s pctx ip tcp =
     (let ip_hdr_len = (ucast (ip_ihl (pc_data pctx) ip) :: u32) * 4;
          (cookie_rc, b, s) = trigger_syncookie_challenge e s (pc_data pctx) ip tcp ip_hdr_len;
          pctx = pctx\<lparr>pc_data := b\<rparr>;
          s = increment_stat STAT_TCP_SYN_DROP s
      in if cookie_rc = 777 then (-1, set_status ACT_CHALLENGE STG_L4_CHAL RSN_CHAL_SEND pctx, s)
         else (-1, set_status ACT_DROP STG_L4_CHAL RSN_BAD_PKT pctx, s))"

definition handle_tcp ::
  "kenv \<Rightarrow> fw_state \<Rightarrow> packet_ctx \<Rightarrow> nat \<Rightarrow> nat \<Rightarrow> int \<times> packet_ctx \<times> fw_state" where
  [eval_defs]: "handle_tcp e s pctx ip pos =
     (let b = pc_data pctx in
      case parse_tcp b pos ip of
        None \<Rightarrow> (-1, bad_pkt pctx, s)
      | Some (tcp, exact_payload_len, pos) \<Rightarrow>
          (let pctx = upd_meta (\<lambda>m. m\<lparr>pm_payload_len := exact_payload_len\<rparr>)
                        (pctx\<lparr>pc_l4 := Some tcp, pc_payload := Some pos\<rparr>);
               pctx = set_ports b tcp pctx;
               conn_state = lookup_conn s (conn_lookup_key b ip tcp);
               (pass_res, pctx, s) = check_conntrack_and_blacklist e s pctx conn_state
           in if pass_res = -1 then (-1, pctx, increment_stat STAT_TCP_SYN_DROP s)
              else if pass_res = 1 then (1, pctx, increment_stat STAT_TCP_SYN_SUCCESS s)
              else if pass_res = 3 then (3, pctx, increment_stat STAT_TCP_SYN_SUCCESS s)
              else
                (let (rc, pctx, s) = enforce_l4_l7_policy_and_dpi e s pctx conn_state
                 in if rc < 0 then (-1, pctx, increment_stat STAT_TCP_SYN_DROP s)
                    else if pm_is_under_attack (pc_meta pctx) then tcp_challenge e s pctx ip tcp
                    else (0, pctx, increment_stat STAT_TCP_SYN_SUCCESS s))))"

text \<open>The payload length computed at the end of the function for UDP and ICMP.\<close>

definition tail_payload_len :: "packet_ctx \<Rightarrow> packet_ctx" where
  [eval_defs]: "tail_payload_len pctx =
     (case pc_payload pctx of
        None \<Rightarrow> upd_meta (\<lambda>m. m\<lparr>pm_payload_len := 0\<rparr>) pctx
      | Some header_len \<Rightarrow>
          upd_meta (\<lambda>m. m\<lparr>pm_payload_len :=
            (if unat (pm_pkt_len m) \<ge> header_len then pm_pkt_len m - of_nat header_len else 0)\<rparr>) pctx)"

definition handle_udp ::
  "kenv \<Rightarrow> fw_state \<Rightarrow> packet_ctx \<Rightarrow> nat \<Rightarrow> nat \<Rightarrow> int \<times> packet_ctx \<times> fw_state" where
  [eval_defs]: "handle_udp e s pctx ip pos =
     (let b = pc_data pctx in
      case parse_udp b pos of
        None \<Rightarrow> (-1, bad_pkt pctx, s)
      | Some (udp, pos) \<Rightarrow>
          (let pctx = set_ports b udp (pctx\<lparr>pc_l4 := Some udp, pc_payload := Some pos\<rparr>);
               exact_payload_len =
                 (if bpf_ntohs (udp_len b udp) > 8 then ucast (bpf_ntohs (udp_len b udp)) - 8 else 0);
               pctx = upd_meta (\<lambda>m. m\<lparr>pm_payload_len := exact_payload_len\<rparr>) pctx;
               conn_state = lookup_conn s (conn_lookup_key b ip udp);
               (pass_res, pctx, s) = check_conntrack_and_blacklist e s pctx conn_state
           in if pass_res = -1 then (-1, pctx, increment_stat STAT_UDP_DROP s)
              else if pass_res = 1 then (1, pctx, increment_stat STAT_UDP_PASS s)
              else if pass_res = 3 then (3, pctx, s)
              else
                (let (rc, pctx, s) = enforce_l4_l7_policy_and_dpi e s pctx conn_state
                 in if rc < 0 then (-1, pctx, increment_stat STAT_UDP_DROP s)
                    else (0, tail_payload_len pctx, increment_stat STAT_UDP_PASS s))))"

definition handle_icmp ::
  "kenv \<Rightarrow> fw_state \<Rightarrow> packet_ctx \<Rightarrow> nat \<Rightarrow> int \<times> packet_ctx \<times> fw_state" where
  [eval_defs]: "handle_icmp e s pctx pos =
     (case parse_icmp (pc_data pctx) pos of
        None \<Rightarrow> (-1, bad_pkt pctx, s)
      | Some (icmp, pos) \<Rightarrow>
          (let (rc, pctx, s) = enforce_l4_l7_policy_and_dpi e s (pctx\<lparr>pc_l4 := Some icmp\<rparr>) None
           in if rc < 0 then (-1, bad_pkt pctx, increment_stat STAT_ICMP_DROP s)
              else (0, tail_payload_len pctx, s)))"

definition handle_other :: "fw_state \<Rightarrow> packet_ctx \<Rightarrow> int \<times> packet_ctx \<times> fw_state" where
  [eval_defs]: "handle_other s pctx =
     (if pm_is_fuse_ratelimit (pc_meta pctx) then (-1, pctx, s)
      else (0, set_status ACT_PASS STG_PARSE RSN_UNSUPPORTED pctx, s))"

section \<open>The parser stage\<close>

text \<open>The part of the function after the IPv4 header has been parsed at \<open>ip\<close>.\<close>

definition handle_ipv4 ::
  "kenv \<Rightarrow> fw_state \<Rightarrow> packet_ctx \<Rightarrow> nat \<Rightarrow> u8 \<Rightarrow> nat \<Rightarrow> int \<times> packet_ctx \<times> fw_state" where
  [eval_defs]: "handle_ipv4 e s pctx ip ip_proto pos =
     (let b = pc_data pctx;
          pctx = upd_meta (\<lambda>m. m\<lparr>pm_ip_proto := ip_proto\<rparr>) (pctx\<lparr>pc_ip := Some ip\<rparr>);
          pctx = upd_key (\<lambda>k. k\<lparr>fk_saddr := ip_saddr b ip, fk_daddr := ip_daddr b ip,
                   fk_proto := ip_proto\<rparr>) pctx
      in if bpf_ntohs (ip_frag_off b ip) AND 0x3FFF \<noteq> 0 then (0, pctx, s)
         else
           (let pctx = pctx\<lparr>pc_payload := Some pos\<rparr> in
            if ip_proto = IPPROTO_TCP then handle_tcp e s pctx ip pos
            else if ip_proto = IPPROTO_UDP then handle_udp e s pctx ip pos
            else if ip_proto = IPPROTO_ICMP then handle_icmp e s pctx pos
            else handle_other s pctx))"

definition parse_packet_and_flood_protect ::
  "kenv \<Rightarrow> fw_state \<Rightarrow> packet_ctx \<Rightarrow> int \<times> packet_ctx \<times> fw_state" where
  [eval_defs]: "parse_packet_and_flood_protect e s pctx =
     (let b = pc_data pctx;
          pctx = upd_meta (\<lambda>m. m\<lparr>pm_is_fuse_ratelimit := False\<rparr>) pctx
      in case parse_eth b 0 of
           None \<Rightarrow> (-1, bad_pkt pctx, s)
         | Some (eth, proto, pos) \<Rightarrow>
             (let pctx = pctx\<lparr>pc_eth := Some eth\<rparr> in
              case parse_vlan_stack b pos proto of
                None \<Rightarrow> (-1, bad_pkt pctx, s)
              | Some (eth_proto, pos) \<Rightarrow>
                  (let pctx = upd_meta (\<lambda>m. m\<lparr>pm_pkt_len := of_nat (pc_data_end pctx)\<rparr>) pctx;
                       s = global_stats (pm_pkt_len (pc_meta pctx)) s;
                       (attack, s) = check_attack_status e s;
                       pctx = upd_meta (\<lambda>m. m\<lparr>pm_is_under_attack := attack\<rparr>) pctx
                   in if eth_proto \<noteq> bpf_htons ETH_P_IP then
                        (if eth_proto = bpf_htons ETH_P_ARP then (1, pctx, s)
                         else if eth_proto = bpf_htons ETH_P_IPV6
                         then (-1, set_status ACT_DROP STG_PARSE RSN_UNSUPPORTED pctx, s)
                         else (-1, pctx, s))
                      else
                        (case parse_ipv4 b pos of
                           None \<Rightarrow> (-1, bad_pkt pctx, s)
                         | Some (ip, ip_proto, pos') \<Rightarrow> handle_ipv4 e s pctx pos ip_proto pos'))))"

section \<open>The policy stage\<close>

definition is_special_udp :: "packet_meta \<Rightarrow> u16 \<Rightarrow> u16 \<Rightarrow> bool" where
  [eval_defs]: "is_special_udp m sport dport \<longleftrightarrow>
     pm_ip_proto m = IPPROTO_UDP \<and>
     (sport = 123 \<or> dport = 123 \<or> dport = 67 \<or> dport = 68 \<or> dport = 137 \<or> sport = 67 \<or> sport = 68 \<or>
      sport = 137 \<or> dport = 53 \<or> dport = 5353 \<or> sport = 53 \<or> sport = 5353)"

definition is_l4 :: "packet_meta \<Rightarrow> bool" where
  [eval_defs]: "is_l4 m \<longleftrightarrow> pm_ip_proto m = IPPROTO_TCP \<or> pm_ip_proto m = IPPROTO_UDP"

definition policy_rule_key :: "flow_key \<Rightarrow> rule_key" where
  [eval_defs]: "policy_rule_key k =
     \<lparr>rk_remote_ip = fk_saddr k, rk_remote_mask = 32, rk_remote_port = fk_sport k,
      rk_proto = IPPROTO_TCP, rk_pad = 0\<rparr>"

definition TEMP_BLOCK_NS :: u64 where [const_defs, eval_defs]: "TEMP_BLOCK_NS = 300 * 1000000000"

definition block_source :: "kenv \<Rightarrow> u32 \<Rightarrow> fw_state \<Rightarrow> fw_state" where
  [eval_defs]: "block_source e src_ip s =
     (let (cur_ns, s) = bpf_ktime_get_ns e s;
          new_bv = \<lparr>bv_action = xdp_code XDP_DROP, bv_reason = 0, bv_start_absolute_ns = cur_ns,
                    bv_end_absolute_ns = cur_ns + TEMP_BLOCK_NS\<rparr>
      in if \<not> block_insert_ok e then s
         else s\<lparr>temp_blocklist_map := bpf_map_update_elem (temp_blocklist_map s) src_ip new_bv\<rparr>)"

text \<open>Steps 5 and 6 of \<open>apply_policy\<close>, the two rate limits, with the rule of step 4.\<close>

definition flow_limit ::
  "kenv \<Rightarrow> fw_state \<Rightarrow> packet_ctx \<Rightarrow> flow_state option \<Rightarrow> rule_value option \<Rightarrow>
   packet_ctx \<times> flow_state option \<times> fw_state" where
  [eval_defs]: "flow_limit e s pctx st wl_rule =
     (let (verdict, st, s) = consume_flow_tokens e s st (ucast (pm_pkt_len (pc_meta pctx)))
      in if verdict = XDP_DROP then
           (set_status ACT_DROP STG_FLOW_LMT RSN_LIMIT_BYTES pctx, st,
            if wl_rule = None then block_source e (fk_saddr (pm_key (pc_meta pctx))) s else s)
         else (set_status ACT_PASS STG_FLOW_LMT RSN_SUCCESS pctx, st, s))"

definition rate_limits ::
  "kenv \<Rightarrow> fw_state \<Rightarrow> packet_ctx \<Rightarrow> flow_state option \<Rightarrow> rule_value option \<Rightarrow>
   packet_ctx \<times> flow_state option \<times> fw_state" where
  [eval_defs]: "rate_limits e s pctx st wl_rule =
     (case wl_rule of
        Some r \<Rightarrow> flow_limit e s pctx st wl_rule
      | None \<Rightarrow>
          (let (verdict, s) = consume_global_tokens e s (ucast (pm_pkt_len (pc_meta pctx)))
           in if verdict = XDP_DROP
              then (set_status ACT_DROP STG_GLOBAL_LMT RSN_LIMIT_BYTES pctx, st, s)
              else flow_limit e s pctx st wl_rule))"

definition apply_policy ::
  "kenv \<Rightarrow> fw_state \<Rightarrow> packet_ctx \<Rightarrow> flow_state option \<Rightarrow> packet_ctx \<times> flow_state option \<times> fw_state" where
  [eval_defs]: "apply_policy e s pctx st =
     (let m = pc_meta pctx;
          dport = bpf_ntohs (fk_dport (pm_key m));
          sport = bpf_ntohs (fk_sport (pm_key m))
      in if is_l4 m \<and> \<not> is_special_udp m sport dport \<and>
            \<not> is_port_allowed s dport True \<and> \<not> is_port_allowed s sport True
         then (set_status ACT_DROP STG_PORT_WHT RSN_PORT_MISS pctx, st, s)
         else
           (let s = (if is_l4 m then record_established e s pctx else s);
                wl_rule = (if is_l4 m
                           then bpf_map_lookup_elem (whitelist_rules_map s) (policy_rule_key (pm_key m))
                           else None);
                st = (case (wl_rule, st) of
                        (Some r, Some f) \<Rightarrow>
                          Some (f\<lparr>fs_current_rate := rv_custom_rate r, fs_current_burst := rv_custom_burst r\<rparr>)
                      | _ \<Rightarrow> st)
            in rate_limits e s pctx st wl_rule))"

section \<open>The flow key\<close>

text \<open>\<open>build_flow_key\<close> of \<open>flow.h\<close>.\<close>

definition build_flow_key :: "packet_ctx \<Rightarrow> packet_ctx" where
  [eval_defs]: "build_flow_key pctx =
     (case pc_ip pctx of
        None \<Rightarrow> pctx
      | Some ip \<Rightarrow>
          upd_key (\<lambda>k. k\<lparr>fk_saddr := ip_saddr (pc_data pctx) ip, fk_daddr := ip_daddr (pc_data pctx) ip,
            fk_proto := pm_ip_proto (pc_meta pctx)\<rparr>) pctx)"

end
