(* ===== verification/Events.thy ===== *)
theory Events
  imports Policy
begin

text \<open>
  Event reporting of \<open>src/src/ebpf/events.h\<close>: the event is assembled in the per-CPU slot of
  \<open>event_scratch_map\<close> by \<open>process_event\<close> and then copied to the DPI ring buffer
  (\<open>push_ol7event\<close>) or into the bucket of the source address (\<open>update_report_map\<close>). The slot
  keeps what earlier packets left in it, so every field the source does not write stays.

  Byte arrays are lists; writing \<open>n\<close> bytes at the start of an array is \<open>overwrite\<close>.
\<close>

section \<open>Assembling an event\<close>

definition DPI_PAYLOAD_SNAP_LEN_MASK :: u32 where
  [const_defs, eval_defs]: "DPI_PAYLOAD_SNAP_LEN_MASK = of_nat DPI_PAYLOAD_SNAP_LEN - 1"

definition overwrite :: "bytes \<Rightarrow> bytes \<Rightarrow> bytes" where
  [eval_defs]: "overwrite dst src = src @ drop (length src) dst"

text \<open>\<open>bpf_probe_read_kernel\<close> of packet bytes: the new destination and whether it succeeded.\<close>

definition bpf_probe_read_kernel :: "kenv \<Rightarrow> bytes \<Rightarrow> nat \<Rightarrow> bytes \<Rightarrow> nat \<Rightarrow> bytes \<times> bool" where
  [eval_defs]: "bpf_probe_read_kernel e dst n mem start =
     (case probe_fault e of
        None \<Rightarrow> (overwrite dst (take n (drop start mem)), True)
      | Some g \<Rightarrow> (overwrite dst (take n g), False))"

definition ssh_port :: "u16 \<Rightarrow> bool" where
  [eval_defs]: "ssh_port p \<longleftrightarrow> p = 22 \<or> p = bpf_htons 22"

text \<open>The gate that silences small passing SSH packets.\<close>

definition ssh_quiet :: "packet_meta \<Rightarrow> bool" where
  [eval_defs]: "ssh_quiet m \<longleftrightarrow>
     (ssh_port (fk_sport (pm_key m)) \<or> ssh_port (fk_dport (pm_key m))) \<and>
     pm_status_code m AND 0xFF000000 = ACT_PASS \<and> pm_payload_len m \<le> 6"

definition snapshot_l3 :: "kenv \<Rightarrow> packet_ctx \<Rightarrow> event \<Rightarrow> event" where
  [eval_defs]: "snapshot_l3 e pctx ev =
     (case pc_ip pctx of
        None \<Rightarrow> ev\<lparr>ev_payload_len := 0\<rparr>
      | Some l3_start \<Rightarrow>
          if l3_start < pc_data_end pctx then
            (let copy_len = of_nat (pc_data_end pctx - l3_start) AND DPI_PAYLOAD_SNAP_LEN_MASK in
             if copy_len > 0 then
               (let (payload, ok) = bpf_probe_read_kernel e (ev_payload ev) (unat copy_len)
                                      (pc_data pctx) l3_start
                in ev\<lparr>ev_payload := payload, ev_payload_len := (if ok then copy_len else 0)\<rparr>)
             else ev\<lparr>ev_payload_len := 0\<rparr>)
          else ev\<lparr>ev_payload_len := 0\<rparr>)"

definition process_event ::
  "kenv \<Rightarrow> fw_state \<Rightarrow> packet_ctx \<Rightarrow> u32 \<Rightarrow> event \<Rightarrow> event \<times> fw_state" where
  [eval_defs]: "process_event e s pctx type ev =
     (let m = pc_meta pctx in
      if ssh_quiet m then (ev, s)
      else
        (let (now, s) = bpf_ktime_get_ns e s;
             ev = ev\<lparr>ev_ts := now, ev_pkt_len := pm_pkt_len m, ev_key := pm_key m,
                     ev_status_code := pm_status_code m\<rparr>;
             len = (if pm_payload_len m > of_nat DPI_PAYLOAD_SNAP_LEN then of_nat DPI_PAYLOAD_SNAP_LEN
                    else pm_payload_len m)
         in if type = EVENT_TYPE_L7_DPI
            then (snapshot_l3 e pctx (ev\<lparr>ev_type := EVENT_TYPE_L7_DPI\<rparr>), s)
            else (ev\<lparr>ev_type := EVENT_TYPE_BASIC, ev_payload_len := len\<rparr>, s)))"

section \<open>Delivering an event\<close>

text \<open>The unrolled byte loop copies the first \<open>valid_len\<close> bytes; the rest of the reserved slot
  keeps the stale bytes of the ring buffer.\<close>

definition push_ol7event :: "kenv \<Rightarrow> event \<Rightarrow> fw_state \<Rightarrow> fw_state" where
  [eval_defs]: "push_ol7event e ev s =
     (if \<not> ringbuf_ok e then s
      else
        (let valid_len = (ucast (ev_payload_len ev) AND ucast DPI_PAYLOAD_SNAP_LEN_MASK :: u16) in
         s\<lparr>l7_dpi_ringbuf := l7_dpi_ringbuf s @
            [\<lparr>l7_src_ip = fk_saddr (ev_key ev), l7_dst_ip = fk_daddr (ev_key ev),
              l7_src_port = fk_sport (ev_key ev), l7_dst_port = fk_dport (ev_key ev),
              l7_ip_proto = fk_proto (ev_key ev), l7_timestamp_ns = ev_ts ev,
              l7_l3_packet_len = valid_len,
              l7_l3_packet = overwrite (ring_stale e) (take (unat valid_len) (ev_payload ev)),
              l7_dir = DIR_IN\<rparr>]\<rparr>))"

definition update_report_map :: "packet_ctx \<Rightarrow> event \<Rightarrow> fw_state \<Rightarrow> fw_state" where
  [eval_defs]: "update_report_map pctx ev s =
     (let bucket_key = fk_saddr (pm_key (pc_meta pctx)) mod 10000 in
      s\<lparr>report_to_user_map := bpf_map_update_elem (report_to_user_map s) bucket_key ev\<rparr>)"

definition emit_l7_event :: "kenv \<Rightarrow> fw_state \<Rightarrow> packet_ctx \<Rightarrow> u32 \<Rightarrow> fw_state" where
  [eval_defs]: "emit_l7_event e s pctx type =
     (case bpf_map_lookup_elem (event_scratch_map s) 0 of
        None \<Rightarrow> s
      | Some ev \<Rightarrow>
          (let (ev, s) = process_event e s pctx type ev;
               s = s\<lparr>event_scratch_map := (event_scratch_map s)(0 \<mapsto> ev)\<rparr>
           in push_ol7event e ev s))"

definition emit_event :: "kenv \<Rightarrow> fw_state \<Rightarrow> packet_ctx \<Rightarrow> u32 \<Rightarrow> fw_state" where
  [eval_defs]: "emit_event e s pctx type =
     (case bpf_map_lookup_elem (event_scratch_map s) 0 of
        None \<Rightarrow> s
      | Some ev \<Rightarrow>
          (let (ev, s) = process_event e s pctx type ev;
               s = s\<lparr>event_scratch_map := (event_scratch_map s)(0 \<mapsto> ev)\<rparr>
           in update_report_map pctx ev s))"

section \<open>Lemmas\<close>

lemma mask_1999: "DPI_PAYLOAD_SNAP_LEN_MASK = 1999"
  by (simp add: const_defs)

lemma masked_le: "unat (x AND DPI_PAYLOAD_SNAP_LEN_MASK) \<le> 1999"
  using word_and_le_unat [of x DPI_PAYLOAD_SNAP_LEN_MASK] by (simp add: mask_1999)

lemma length_overwrite: "length src \<le> length dst \<Longrightarrow> length (overwrite dst src) = length dst"
  by (simp add: overwrite_def)

lemma overwrite_nth:
  "i < length dst \<Longrightarrow> length src \<le> length dst \<Longrightarrow>
   overwrite dst src ! i = (if i < length src then src ! i else dst ! i)"
  by (simp add: overwrite_def nth_append)

lemma overwrite_loop:
  assumes "length dst = n" and "length src = n" and "k \<le> n"
  shows "overwrite dst (take k src) = map (\<lambda>i. if i < k then src ! i else dst ! i) [0..<n]"
  using assms by (intro nth_equalityI) (auto simp: overwrite_nth length_overwrite)

end
