(* ===== verification/XdpFw.thy ===== *)
theory XdpFw
  imports Events
begin

text \<open>
  The ingress program \<open>src/src/ebpf/xdp_fw.c\<close>: lazy initialisation of the rate parameters, the
  broadcast filter, the mapping from status codes to XDP verdicts, and the program \<open>xdp_fw\<close>.

  \<open>init_gconfig_and_gmap\<close> dereferences the configuration without a null check; the model
  returns \<open>None\<close> there, and so does \<open>xdp_fw\<close>. The invariant \<open>maps_wf\<close> excludes it.
\<close>

section \<open>Initialisation\<close>

definition init_gconfig_and_gmap :: "fw_state \<Rightarrow> fw_state option" where
  [eval_defs]: "init_gconfig_and_gmap s =
     (if isInitialed s then Some s
      else (case bpf_map_lookup_elem (global_config_map s) xdp_config_key of
              None \<Rightarrow> None
            | Some g \<Rightarrow> Some (s\<lparr>GLOBAL_RATE_BYTES_PER_SEC := ucast (gc_global_rate g),
                GLOBAL_BURST := ucast (gc_global_burst g),
                FLOW_RATE_BYTES_PER_SEC := ucast (gc_flow_rate g),
                FLOW_BURST := ucast (gc_flow_burst g),
                GLOBAL_PPS_LIMIT := gc_global_pps_limit g, isInitialed := True\<rparr>)))"

section \<open>Broadcast and multicast filter\<close>

definition IP_BROADCAST_NET :: u32 where [const_defs, eval_defs]: "IP_BROADCAST_NET = bpf_htonl 0xFFFFFFFF"
definition IP_MULTICAST_MASK_NET :: u32 where
  [const_defs, eval_defs]: "IP_MULTICAST_MASK_NET = bpf_htonl 0xF0000000"
definition IP_MULTICAST_START_NET :: u32 where
  [const_defs, eval_defs]: "IP_MULTICAST_START_NET = bpf_htonl 0xE0000000"

definition verify_broadcast_and_policy :: "fw_state \<Rightarrow> u32 \<Rightarrow> u32 \<Rightarrow> u16 \<Rightarrow> xdp_action" where
  [eval_defs]: "verify_broadcast_and_policy s saddr daddr dport =
     (if saddr = IP_BROADCAST_NET then XDP_DROP
      else if saddr AND IP_MULTICAST_MASK_NET = IP_MULTICAST_START_NET then XDP_DROP
      else if daddr = IP_BROADCAST_NET then (if dport = bpf_htons 67 then XDP_PASS else XDP_DROP)
      else if daddr AND IP_MULTICAST_MASK_NET = IP_MULTICAST_START_NET then XDP_DROP
      else if LOCAL_SUBNET_MASK s \<noteq> 0 \<and> daddr = (LOCAL_SUBNET_NET s OR NOT (LOCAL_SUBNET_MASK s))
      then XDP_DROP
      else XDP_PASS)"

section \<open>The program\<close>

definition resolve_action :: "packet_ctx \<Rightarrow> xdp_action" where
  [eval_defs]: "resolve_action pctx =
     (let policy_action = pm_status_code (pc_meta pctx) AND 0xFF000000 in
      if policy_action = ACT_DROP then XDP_DROP
      else if policy_action = ACT_CHALLENGE then XDP_TX
      else XDP_PASS)"

text \<open>The program's verdict, the packet as it leaves the program, and the state.\<close>

type_synonym xdp_result = "xdp_action \<times> bytes \<times> fw_state"

text \<open>The scratch slot of the packet description is the memory behind \<open>pctx.meta\<close>.\<close>

definition leave :: "xdp_action \<Rightarrow> packet_ctx \<Rightarrow> fw_state \<Rightarrow> xdp_result" where
  [eval_defs]: "leave act pctx s =
     (act, pc_data pctx, s\<lparr>pctx_scratch_map := (pctx_scratch_map s)(0 \<mapsto> pc_meta pctx)\<rparr>)"

definition fresh_ctx :: "bytes \<Rightarrow> packet_ctx" where
  [eval_defs]: "fresh_ctx pkt = \<lparr>pc_data = pkt, pc_eth = None, pc_ip = None, pc_l4 = None,
     pc_payload = None, pc_meta = zero_meta\<rparr>"

text \<open>Stages 4 to 6: the policy is applied to the flow entry, which is written back on every path.\<close>

definition xdp_policy_stage ::
  "kenv \<Rightarrow> fw_state \<Rightarrow> packet_ctx \<Rightarrow> flow_state \<Rightarrow> xdp_action \<Rightarrow> xdp_result" where
  [eval_defs]: "xdp_policy_stage e s pctx st0 xdp_action =
     (let key = pm_key (pc_meta pctx);
          (pctx, st', s) = apply_policy e s pctx (Some st0);
          st = (case st' of Some f \<Rightarrow> f | None \<Rightarrow> st0);
          xdp_action_af_policy = resolve_action pctx;
          sc = pm_status_code (pc_meta pctx);
          policy_stage = sc AND 0x00FF0000;
          policy_reason = sc AND 0x0000FFFF
      in if xdp_action_af_policy = XDP_DROP \<and>
            (policy_stage = STG_PERM_BLK \<or> policy_stage = STG_TEMP_BLK \<or> policy_reason = RSN_PORT_MISS)
         then
           (let s = (if should_emit_event pctx st xdp_action_af_policy = 2
                     then emit_event e s pctx EVENT_TYPE_BASIC else s)
            in leave XDP_DROP pctx (put_flow key st s))
         else
           (let (st, s) = update_flow_stats e s pctx st;
                s = (if should_emit_event pctx st xdp_action = 1
                     then emit_event e s pctx EVENT_TYPE_BASIC else s)
            in leave xdp_action pctx (put_flow key st s)))"

text \<open>Stages 1-2 to 3, for a packet whose parser stage returned neither a drop nor a shortcut.\<close>

definition xdp_limits_stage ::
  "kenv \<Rightarrow> fw_state \<Rightarrow> packet_ctx \<Rightarrow> xdp_action \<Rightarrow> xdp_result" where
  [eval_defs]: "xdp_limits_stage e s pctx xdp_action =
     (let (pps_rc, s) = consume_global_pps e s in
      if pps_rc = XDP_DROP then leave XDP_DROP pctx s
      else
        (let bcast_rc = (case pc_ip pctx of
               None \<Rightarrow> XDP_PASS
             | Some ip \<Rightarrow> verify_broadcast_and_policy s (ip_saddr (pc_data pctx) ip)
                 (ip_daddr (pc_data pctx) ip) (fk_dport (pm_key (pc_meta pctx))))
         in if bcast_rc = XDP_DROP then leave XDP_DROP pctx s
            else
              (let pctx = build_flow_key pctx;
                   (st, s) = lookup_or_create_flow e s (pm_key (pc_meta pctx))
               in case st of
                    None \<Rightarrow> leave XDP_PASS pctx s
                  | Some st \<Rightarrow> xdp_policy_stage e s pctx st xdp_action)))"

definition xdp_fw :: "kenv \<Rightarrow> bytes \<Rightarrow> fw_state \<Rightarrow> xdp_result option" where
  [eval_defs]: "xdp_fw e pkt s =
     (case init_gconfig_and_gmap s of
        None \<Rightarrow> None
      | Some s \<Rightarrow>
          (case bpf_map_lookup_elem (pctx_scratch_map s) 0 of
             None \<Rightarrow> Some (XDP_PASS, pkt, s)
           | Some meta \<Rightarrow>
               (let (parse_rc, pctx, s) = parse_packet_and_flood_protect e s (fresh_ctx pkt);
                    xdp_action = resolve_action pctx
                in Some
                     (if parse_rc < 0 then leave xdp_action pctx s
                      else if parse_rc = 1 then leave XDP_PASS pctx s
                      else if parse_rc = 3
                      then leave XDP_PASS pctx (emit_l7_event e s pctx EVENT_TYPE_L7_DPI)
                      else xdp_limits_stage e s pctx xdp_action))))"

end
