(* ===== verification/XdpSpec.thy ===== *)
theory XdpSpec
  imports XdpFw
begin

text \<open>
  The contract of the ingress program, and that \<open>xdp_fw\<close> keeps it. A packet is classified by
  its headers alone (\<open>classify\<close>); the verdict is then a table over the class and a few facts of
  the state (\<open>verdict_spec\<close>). Lemma \<open>xdp_fw_verdict\<close> says that the program, with all its
  bookkeeping, returns that verdict and never fails on well-formed maps.
\<close>

section \<open>Classification\<close>

datatype frame_class =
    BadFrame
  | ArpFrame
  | Ipv6Frame
  | OtherFrame
  | IcmpPacket nat
  | Conversation nat nat \<comment> \<open>an unfragmented TCP or UDP packet: offsets of IP and L4 headers\<close>
  | Uninspected nat \<comment> \<open>a fragment, or a protocol without a case of its own\<close>

definition is_fragment :: "bytes \<Rightarrow> nat \<Rightarrow> bool" where
  [eval_defs]: "is_fragment b ip \<longleftrightarrow> bpf_ntohs (ip_frag_off b ip) AND 0x3FFF \<noteq> 0"

definition classify_ipv4 :: "bytes \<Rightarrow> nat \<Rightarrow> frame_class" where
  [eval_defs]: "classify_ipv4 b ip =
     (case parse_ipv4 b ip of
        None \<Rightarrow> BadFrame
      | Some (_, proto, pos) \<Rightarrow>
          if is_fragment b ip then Uninspected ip
          else if proto = IPPROTO_TCP then
            (case parse_tcp b pos ip of None \<Rightarrow> BadFrame | Some (l4, _, _) \<Rightarrow> Conversation ip l4)
          else if proto = IPPROTO_UDP then
            (case parse_udp b pos of None \<Rightarrow> BadFrame | Some (l4, _) \<Rightarrow> Conversation ip l4)
          else if proto = IPPROTO_ICMP then
            (case parse_icmp b pos of None \<Rightarrow> BadFrame | Some _ \<Rightarrow> IcmpPacket ip)
          else Uninspected ip)"

definition classify :: "bytes \<Rightarrow> frame_class" where
  [eval_defs]: "classify b =
     (case parse_eth b 0 of
        None \<Rightarrow> BadFrame
      | Some (_, proto, pos) \<Rightarrow>
          (case parse_vlan_stack b pos proto of
             None \<Rightarrow> BadFrame
           | Some (p, pos) \<Rightarrow>
               if p = bpf_htons ETH_P_IP then classify_ipv4 b pos
               else if p = bpf_htons ETH_P_ARP then ArpFrame
               else if p = bpf_htons ETH_P_IPV6 then Ipv6Frame
               else OtherFrame))"

section \<open>The verdict table\<close>

text \<open>Clock readings of the attack mode before the connection check: one when an attack is on record.\<close>

definition attack_reads :: "fw_state \<Rightarrow> nat" where
  [eval_defs]: "attack_reads s = (if attack_status_map s 0 = None \<or> attack_status_map s 0 = Some 0 then 0 else 1)"

definition stage_time :: "kenv \<Rightarrow> fw_state \<Rightarrow> u64" where
  [eval_defs]: "stage_time e s = ktime e (ticks s + attack_reads s)"

text \<open>A source is listed at a time; a conversation is open when its source is not listed and the
  egress program has recorded it and not marked it as violating.\<close>

definition listed :: "fw_state \<Rightarrow> u64 \<Rightarrow> u32 \<Rightarrow> bool" where
  [eval_defs]: "listed s now src \<longleftrightarrow>
     permanent_blocklist_map s src \<noteq> None \<or>
     (case temp_blocklist_map s src of None \<Rightarrow> False | Some bv \<Rightarrow> blocked_now now bv)"

definition conn_open :: "fw_state \<Rightarrow> u64 \<Rightarrow> u32 \<Rightarrow> flow_key \<Rightarrow> bool" where
  [eval_defs]: "conn_open s now src k \<longleftrightarrow> \<not> listed s now src \<and>
     (case established_connections_map s k of None \<Rightarrow> False | Some c \<Rightarrow> cs_dpi_state c \<noteq> 2)"

definition pps_pass :: "fw_state \<Rightarrow> u64 \<Rightarrow> bool" where
  [eval_defs]: "pps_pass s now =
     (case global_pps_map s 0 of None \<Rightarrow> False
      | Some p \<Rightarrow> fst (pps_step (GLOBAL_PPS_LIMIT s) now p) = XDP_PASS)"

definition uninspected_key :: "bytes \<Rightarrow> nat \<Rightarrow> flow_key" where
  [eval_defs]: "uninspected_key b ip = zero_key\<lparr>fk_saddr := ip_saddr b ip, fk_daddr := ip_daddr b ip,
     fk_proto := ip_protocol b ip\<rparr>"

text \<open>A packet without ports passes the packet-rate limit and the broadcast filter; a TCP or UDP
  fragment also needs port 0 on the ingress list, unless its flow cannot be entered in the table.\<close>

definition uninspected_pass :: "kenv \<Rightarrow> fw_state \<Rightarrow> bytes \<Rightarrow> nat \<Rightarrow> bool" where
  [eval_defs]: "uninspected_pass e s b ip \<longleftrightarrow>
     pps_pass s (stage_time e s) \<and>
     verify_broadcast_and_policy s (ip_saddr b ip) (ip_daddr b ip) 0 = XDP_PASS \<and>
     (flow_table s (uninspected_key b ip) = None \<and> \<not> flow_insert_ok e \<or>
      (ip_protocol b ip \<noteq> IPPROTO_TCP \<and> ip_protocol b ip \<noteq> IPPROTO_UDP) \<or>
      is_port_allowed s 0 True)"

definition verdict_spec :: "kenv \<Rightarrow> fw_state \<Rightarrow> bytes \<Rightarrow> xdp_action" where
  [eval_defs]: "verdict_spec e s b =
     (case classify b of
        BadFrame \<Rightarrow> XDP_DROP
      | ArpFrame \<Rightarrow> XDP_PASS
      | Ipv6Frame \<Rightarrow> XDP_DROP
      | OtherFrame \<Rightarrow> XDP_PASS
      | IcmpPacket _ \<Rightarrow> XDP_DROP
      | Conversation ip l4 \<Rightarrow>
          if conn_open s (stage_time e s) (ip_saddr b ip) (conn_lookup_key b ip l4) then XDP_PASS else XDP_DROP
      | Uninspected ip \<Rightarrow> if uninspected_pass e s b ip then XDP_PASS else XDP_DROP)"

section \<open>Frame lemmas\<close>

text \<open>The bookkeeping of the parser stage leaves everything the verdict reads as it was.\<close>

definition untouched :: "nat \<Rightarrow> fw_state \<Rightarrow> fw_state \<Rightarrow> bool" where
  "untouched n s s' \<longleftrightarrow> ticks s' = ticks s + n \<and>
     established_connections_map s' = established_connections_map s \<and>
     permanent_blocklist_map s' = permanent_blocklist_map s \<and>
     temp_blocklist_map s' = temp_blocklist_map s \<and>
     global_pps_map s' = global_pps_map s \<and> GLOBAL_PPS_LIMIT s' = GLOBAL_PPS_LIMIT s \<and>
     flow_table s' = flow_table s \<and> ingress_allowed_ports s' = ingress_allowed_ports s \<and>
     LOCAL_SUBNET_NET s' = LOCAL_SUBNET_NET s \<and> LOCAL_SUBNET_MASK s' = LOCAL_SUBNET_MASK s"

lemma untouched_trans: "untouched m s s' \<Longrightarrow> untouched n s' s'' \<Longrightarrow> untouched (m + n) s s''"
  by (simp add: untouched_def)

lemma untouched_refl: "untouched 0 s s"
  by (simp add: untouched_def)

lemma untouched_stat: "untouched 0 s (increment_stat k s)"
  by (simp add: untouched_def increment_stat_def split: option.splits)

lemma untouched_global_stats: "untouched 0 s (global_stats n s)"
  by (simp add: untouched_def global_stats_def add_global_stat_def split: option.splits)

lemma untouched_attack:
  "check_attack_status e s = (a, s') \<Longrightarrow> untouched (attack_reads s) s s'"
  by (auto simp: check_attack_status_def untouched_def attack_reads_def bpf_ktime_get_ns_def Let_def
      split: option.splits if_splits)

lemma attack_reads_global_stats: "attack_reads (global_stats n s) = attack_reads s"
  by (simp add: attack_reads_def)

lemma untouched_conn_open:
  "untouched n s s' \<Longrightarrow> conn_open s' = conn_open s"
  by (simp add: untouched_def conn_open_def listed_def fun_eq_iff)

section \<open>The parser stage by class\<close>

text \<open>What the source returns to mean a dropped packet, with the verdict its status code resolves to.\<close>

definition stage_result :: "bytes \<Rightarrow> bool \<Rightarrow> int \<times> packet_ctx \<times> fw_state \<Rightarrow> bool" where
  "stage_result b open_conn r \<longleftrightarrow> pc_data (fst (snd r)) = b \<and>
     (if open_conn then fst r = 1 \<or> fst r = 3
      else fst r = -1 \<and> resolve_action (fst (snd r)) = XDP_DROP)"

lemma resolve_set_status:
  "act \<in> set all_actions \<Longrightarrow> stg \<in> set all_stages \<Longrightarrow> rsn \<in> set all_reasons \<Longrightarrow>
   resolve_action (set_status act stg rsn p) =
     (if act = ACT_DROP then XDP_DROP else if act = ACT_CHALLENGE then XDP_TX else XDP_PASS)"
  using status_fields [of act stg rsn] by (simp add: resolve_action_def GET_ACTION_def Let_def)

lemma resolve_bad_pkt [simp]: "resolve_action (bad_pkt p) = XDP_DROP"
  by (subst resolve_set_status) (simp_all add: all_actions_def all_stages_def all_reasons_def)

lemma check_spec:
  assumes "check_conntrack_and_blacklist e s p (lookup_conn s k) = (v, p', s')"
  shows "v \<in> {-1, 1, 3}"
    and "v = -1 \<longleftrightarrow> \<not> conn_open s (ktime e (ticks s)) (fk_saddr (pm_key (pc_meta p))) k"
proof -
  show "v \<in> {-1, 1, 3}" using check_verdict_range [OF assms] by (auto simp: const_defs)
  show "v = -1 \<longleftrightarrow> \<not> conn_open s (ktime e (ticks s)) (fk_saddr (pm_key (pc_meta p))) k"
    using assms
    by (auto simp: check_conntrack_and_blacklist_def conn_verdict_def lookup_conn_def conn_open_def listed_def
        bpf_ktime_get_ns_def Let_def VDT_DROP_def VDT_DPI_PASSED_def VDT_DPI_PENDING_def
        split: option.splits if_splits)
qed

lemma check_dropped_status:
  assumes "check_conntrack_and_blacklist e s p c = (-1, p', s')"
  shows "resolve_action p' = XDP_DROP"
  using check_status(1) [OF assms] by (simp add: resolve_action_def VDT_DROP_def Let_def)

lemma handle_tcp_spec:
  assumes "parse_tcp (pc_data p) pos ip = Some (l4, n, pos')"
  shows "stage_result (pc_data p)
    (conn_open s (ktime e (ticks s)) (fk_saddr (pm_key (pc_meta p))) (conn_lookup_key (pc_data p) ip l4))
    (handle_tcp e s p ip pos)"
proof -
  define q where "q = set_ports (pc_data p) l4 (upd_meta (\<lambda>m. m\<lparr>pm_payload_len := n\<rparr>)
                        (p\<lparr>pc_l4 := Some l4, pc_payload := Some pos'\<rparr>))"
  have q: "pc_data q = pc_data p" "fk_saddr (pm_key (pc_meta q)) = fk_saddr (pm_key (pc_meta p))"
    by (simp_all add: q_def set_ports_def upd_key_def upd_meta_def)
  obtain v p' s' where c: "check_conntrack_and_blacklist e s q (lookup_conn s (conn_lookup_key (pc_data p) ip l4)) = (v, p', s')"
    by (metis prod_cases3)
  have "handle_tcp e s p ip pos =
      (v, p', increment_stat (if v = -1 then STAT_TCP_SYN_DROP else STAT_TCP_SYN_SUCCESS) s')"
    using assms check_spec(1) [OF c] c
    by (auto simp: handle_tcp_def Let_def q_def upd_meta_def split: prod.splits)
  then show ?thesis
    using check_spec [OF c] check_dropped_status [of e s q _ p' s'] check_status(3) [OF c] c q
    by (auto simp: stage_result_def)
qed

lemma handle_udp_spec:
  assumes "parse_udp (pc_data p) pos = Some (l4, pos')"
  shows "stage_result (pc_data p)
    (conn_open s (ktime e (ticks s)) (fk_saddr (pm_key (pc_meta p))) (conn_lookup_key (pc_data p) ip l4))
    (handle_udp e s p ip pos)"
proof -
  define n :: u32 where "n = (if bpf_ntohs (udp_len (pc_data p) l4) > 8
    then ucast (bpf_ntohs (udp_len (pc_data p) l4)) - 8 else 0)"
  define q where "q = upd_meta (\<lambda>m. m\<lparr>pm_payload_len := n\<rparr>)
    (set_ports (pc_data p) l4 (p\<lparr>pc_l4 := Some l4, pc_payload := Some pos'\<rparr>))"
  have q: "pc_data q = pc_data p" "fk_saddr (pm_key (pc_meta q)) = fk_saddr (pm_key (pc_meta p))"
    by (simp_all add: q_def set_ports_def upd_key_def upd_meta_def)
  obtain v p' s' where c: "check_conntrack_and_blacklist e s q (lookup_conn s (conn_lookup_key (pc_data p) ip l4)) = (v, p', s')"
    by (metis prod_cases3)
  have "\<exists>t. handle_udp e s p ip pos = (v, p', t)"
    using assms check_spec(1) [OF c] c
    by (auto simp: handle_udp_def Let_def q_def n_def upd_meta_def set_ports_def upd_key_def split: prod.splits)
  then show ?thesis
    using check_spec [OF c] check_dropped_status [of e s q _ p' s'] check_status(3) [OF c] c q
    by (auto simp: stage_result_def)
qed

text \<open>Without a connection the enforcement step refuses every packet.\<close>

lemma enforce_without_conn:
  assumes "enforce_l4_l7_policy_and_dpi e s p None = (rc, p', s')"
  shows "rc = -1" and "pc_data p' = pc_data p"
  using assms
  by (auto simp: enforce_l4_l7_policy_and_dpi_def Let_def upd_meta_def split: prod.splits if_splits)

lemma handle_icmp_spec:
  assumes "parse_icmp (pc_data p) pos = Some r"
  shows "stage_result (pc_data p) False (handle_icmp e s p pos)"
  using assms by (auto simp: handle_icmp_def stage_result_def dest: enforce_without_conn split: prod.splits)

text \<open>What the parser stage hands on for a packet it does not decide.\<close>

definition handed_on :: "bytes \<Rightarrow> nat \<Rightarrow> packet_ctx \<Rightarrow> bool" where
  "handed_on b ip p \<longleftrightarrow> pc_data p = b \<and> pc_ip p = Some ip \<and>
     pm_key (pc_meta p) = uninspected_key b ip \<and> pm_ip_proto (pc_meta p) = ip_protocol b ip \<and>
     resolve_action p = XDP_PASS"

definition parse_spec :: "kenv \<Rightarrow> fw_state \<Rightarrow> bytes \<Rightarrow> int \<times> packet_ctx \<times> fw_state \<Rightarrow> bool" where
  "parse_spec e s b r \<longleftrightarrow>
     (case classify b of
        BadFrame \<Rightarrow> stage_result b False r
      | ArpFrame \<Rightarrow> stage_result b True r
      | Ipv6Frame \<Rightarrow> stage_result b False r
      | OtherFrame \<Rightarrow> pc_data (fst (snd r)) = b \<and> fst r = -1 \<and> resolve_action (fst (snd r)) = XDP_PASS
      | IcmpPacket _ \<Rightarrow> stage_result b False r
      | Conversation ip l4 \<Rightarrow>
          stage_result b (conn_open s (stage_time e s) (ip_saddr b ip) (conn_lookup_key b ip l4)) r
      | Uninspected ip \<Rightarrow> fst r = 0 \<and> handed_on b ip (fst (snd r)) \<and>
          untouched (attack_reads s) s (snd (snd r)))"

lemma upd_meta_fields [simp]:
  "pc_data (upd_meta f p) = pc_data p" "pc_ip (upd_meta f p) = pc_ip p"
  "pc_payload (upd_meta f p) = pc_payload p" "pc_meta (upd_meta f p) = f (pc_meta p)"
  by (simp_all add: upd_meta_def)

lemma fresh_ctx_fields [simp]: "pc_data (fresh_ctx b) = b" "pc_meta (fresh_ctx b) = zero_meta"
  by (simp_all add: fresh_ctx_def)

lemma handle_short:
  "parse_tcp (pc_data p) pos ip = None \<Longrightarrow> handle_tcp e s p ip pos = (-1, bad_pkt p, s)"
  "parse_udp (pc_data p) pos = None \<Longrightarrow> handle_udp e s p ip pos = (-1, bad_pkt p, s)"
  "parse_icmp (pc_data p) pos = None \<Longrightarrow> handle_icmp e s p pos = (-1, bad_pkt p, s)"
  by (simp_all add: handle_tcp_def handle_udp_def handle_icmp_def)

lemma stage_result_bad [simp]: "pc_data p = b \<Longrightarrow> stage_result b False (-1, bad_pkt p, s)"
  by (simp add: stage_result_def)

lemma handle_ipv4_spec:
  assumes "parse_ipv4 b ip = Some (i, proto, pos)" and "pc_data p = b"
    and "pm_key (pc_meta p) = zero_key" and "pm_is_fuse_ratelimit (pc_meta p) = False"
    and "pm_status_code (pc_meta p) = 0"
  shows "case classify_ipv4 b ip of
        BadFrame \<Rightarrow> stage_result b False (handle_ipv4 e s p ip proto pos)
      | IcmpPacket _ \<Rightarrow> stage_result b False (handle_ipv4 e s p ip proto pos)
      | Conversation ip' l4 \<Rightarrow> ip' = ip \<and>
          stage_result b (conn_open s (ktime e (ticks s)) (ip_saddr b ip) (conn_lookup_key b ip l4))
            (handle_ipv4 e s p ip proto pos)
      | Uninspected ip' \<Rightarrow> ip' = ip \<and> fst (handle_ipv4 e s p ip proto pos) = 0 \<and>
          handed_on b ip (fst (snd (handle_ipv4 e s p ip proto pos))) \<and>
          snd (snd (handle_ipv4 e s p ip proto pos)) = s
      | _ \<Rightarrow> False"
proof -
  define q where "q = upd_key (\<lambda>k. k\<lparr>fk_saddr := ip_saddr b ip, fk_daddr := ip_daddr b ip, fk_proto := proto\<rparr>)
    (upd_meta (\<lambda>m. m\<lparr>pm_ip_proto := proto\<rparr>) (p\<lparr>pc_ip := Some ip\<rparr>))"
  define r where "r = q\<lparr>pc_payload := Some pos\<rparr>"
  have proto: "proto = ip_protocol b ip"
    using assms(1) by (auto simp: parse_ipv4_def Let_def split: if_splits)
  have q: "handed_on b ip q"
    using assms(2-5) proto
    by (simp add: q_def handed_on_def upd_key_def upd_meta_def uninspected_key_def resolve_action_def
        ACT_DROP_def ACT_CHALLENGE_def)
  have r: "pc_data r = b" "fk_saddr (pm_key (pc_meta r)) = ip_saddr b ip"
    using q by (simp_all add: r_def handed_on_def uninspected_key_def zero_key_def)
  have other: "handle_other s r = (0, set_status ACT_PASS STG_PARSE RSN_UNSUPPORTED r, s)"
    using assms(4) by (simp add: handle_other_def r_def q_def upd_key_def upd_meta_def)
  have "handed_on b ip (set_status ACT_PASS STG_PARSE RSN_UNSUPPORTED r)"
    using q resolve_set_status [of ACT_PASS STG_PARSE RSN_UNSUPPORTED r]
    by (simp add: handed_on_def r_def all_actions_def all_stages_def all_reasons_def const_defs)
  moreover have "handle_ipv4 e s p ip proto pos =
      (if is_fragment b ip then (0, q, s)
       else if proto = IPPROTO_TCP then handle_tcp e s r ip pos
       else if proto = IPPROTO_UDP then handle_udp e s r ip pos
       else if proto = IPPROTO_ICMP then handle_icmp e s r pos
       else handle_other s r)"
    by (simp add: handle_ipv4_def Let_def q_def r_def is_fragment_def assms(2))
  ultimately show ?thesis
  proof -
    assume on: "handed_on b ip (set_status ACT_PASS STG_PARSE RSN_UNSUPPORTED r)"
      and run: "handle_ipv4 e s p ip proto pos =
        (if is_fragment b ip then (0, q, s)
         else if proto = IPPROTO_TCP then handle_tcp e s r ip pos
         else if proto = IPPROTO_UDP then handle_udp e s r ip pos
         else if proto = IPPROTO_ICMP then handle_icmp e s r pos
         else handle_other s r)"
    consider "is_fragment b ip" | "\<not> is_fragment b ip" "proto = IPPROTO_TCP"
      | "\<not> is_fragment b ip" "proto \<noteq> IPPROTO_TCP" "proto = IPPROTO_UDP"
      | "\<not> is_fragment b ip" "proto \<noteq> IPPROTO_TCP" "proto \<noteq> IPPROTO_UDP" "proto = IPPROTO_ICMP"
      | "\<not> is_fragment b ip" "proto \<noteq> IPPROTO_TCP" "proto \<noteq> IPPROTO_UDP" "proto \<noteq> IPPROTO_ICMP"
      by blast
    then show ?thesis
    proof cases
      case 1
      then show ?thesis using run q by (simp add: classify_ipv4_def assms(1))
    next
      case 2
      then show ?thesis
        using run r handle_tcp_spec [of r pos ip _ _ _ s e] handle_short(1) [of r pos ip e s]
        by (cases "parse_tcp b pos ip") (auto simp: classify_ipv4_def assms(1))
    next
      case 3
      then show ?thesis
        using run r handle_udp_spec [of r pos _ _ s e ip] handle_short(2) [of r pos e s ip]
        by (cases "parse_udp b pos") (auto simp: classify_ipv4_def assms(1))
    next
      case 4
      then show ?thesis
        using run r handle_icmp_spec [of r pos _ e s] handle_short(3) [of r pos e s]
        by (cases "parse_icmp b pos") (auto simp: classify_ipv4_def assms(1))
    next
      case 5
      then show ?thesis using run on other by (simp add: classify_ipv4_def assms(1))
    qed
  qed
qed

lemma parse_stage_spec: "parse_spec e s b (parse_packet_and_flood_protect e s (fresh_ctx b))"
proof (cases "parse_eth b 0")
  case None
  then show ?thesis
    by (simp add: parse_spec_def classify_def parse_packet_and_flood_protect_def fresh_ctx_def upd_meta_def)
next
  case (Some er)
  obtain eth proto pos where eth: "parse_eth b 0 = Some (eth, proto, pos)"
    using Some by (metis prod_cases3)
  show ?thesis
  proof (cases "parse_vlan_stack b pos proto")
    case None
    then show ?thesis
      by (simp add: parse_spec_def classify_def parse_packet_and_flood_protect_def fresh_ctx_def upd_meta_def eth)
  next
    case (Some vr)
    obtain pr p3 where vlan: "parse_vlan_stack b pos proto = Some (pr, p3)" using Some by (cases vr) auto
    define n where "n = (of_nat (length b) :: u32)"
    obtain a t where att: "check_attack_status e (global_stats n s) = (a, t)" by (metis surj_pair)
    define q where "q = upd_meta (\<lambda>m. m\<lparr>pm_is_under_attack := a\<rparr>)
      (upd_meta (\<lambda>m. m\<lparr>pm_pkt_len := n\<rparr>)
        ((upd_meta (\<lambda>m. m\<lparr>pm_is_fuse_ratelimit := False\<rparr>) (fresh_ctx b))\<lparr>pc_eth := Some eth\<rparr>))"
    have q: "pc_data q = b" "pm_key (pc_meta q) = zero_key" "pm_is_fuse_ratelimit (pc_meta q) = False"
      "pm_status_code (pc_meta q) = 0"
      by (simp_all add: q_def upd_meta_def fresh_ctx_def zero_meta_def)
    have t: "untouched (attack_reads s) s t"
      using untouched_trans [OF untouched_global_stats untouched_attack [OF att]]
      by (simp add: attack_reads_global_stats)
    then have time: "ktime e (ticks t) = stage_time e s" and op: "conn_open t = conn_open s"
      by (simp add: untouched_def stage_time_def, rule untouched_conn_open)
    have run: "parse_packet_and_flood_protect e s (fresh_ctx b) =
        (if pr \<noteq> bpf_htons ETH_P_IP then
           if pr = bpf_htons ETH_P_ARP then (1, q, t)
           else if pr = bpf_htons ETH_P_IPV6 then (-1, set_status ACT_DROP STG_PARSE RSN_UNSUPPORTED q, t)
           else (-1, q, t)
         else case parse_ipv4 b p3 of None \<Rightarrow> (-1, bad_pkt q, t)
           | Some (ip, ip_proto, pos') \<Rightarrow> handle_ipv4 e t q p3 ip_proto pos')"
      using eth vlan att
      by (simp add: parse_packet_and_flood_protect_def Let_def q_def n_def zero_meta_def pc_data_end_def
          split del: if_split cong: if_cong option.case_cong)
    have ethertypes: "bpf_htons ETH_P_ARP \<noteq> bpf_htons ETH_P_IP" "bpf_htons ETH_P_IPV6 \<noteq> bpf_htons ETH_P_IP"
      "bpf_htons ETH_P_IPV6 \<noteq> bpf_htons ETH_P_ARP"
      by (simp_all add: eval_defs)
    show ?thesis
    proof (cases "pr = bpf_htons ETH_P_IP")
      case False
      then show ?thesis
        using run q ethertypes resolve_set_status [of ACT_DROP STG_PARSE RSN_UNSUPPORTED q]
        by (simp add: parse_spec_def classify_def eth vlan stage_result_def resolve_action_def [of q]
            all_actions_def all_stages_def all_reasons_def ACT_DROP_def ACT_CHALLENGE_def)
    next
      case True
      show ?thesis
      proof (cases "parse_ipv4 b p3")
        case None
        then show ?thesis using True run q by (simp add: parse_spec_def classify_def eth vlan classify_ipv4_def)
      next
        case (Some ir)
        obtain i ipp pos' where ir: "parse_ipv4 b p3 = Some (i, ipp, pos')" using Some by (metis prod_cases3)
        then have "parse_packet_and_flood_protect e s (fresh_ctx b) = handle_ipv4 e t q p3 ipp pos'"
          using True run by simp
        then show ?thesis
          using handle_ipv4_spec [OF ir q, of e t] t time op
          by (auto simp: parse_spec_def classify_def eth vlan True split: frame_class.splits)
      qed
    qed
  qed
qed

section \<open>The policy stage\<close>

text \<open>The port gate of \<open>apply_policy\<close>.\<close>

definition gate_closed :: "fw_state \<Rightarrow> packet_meta \<Rightarrow> bool" where
  [eval_defs]: "gate_closed s m \<longleftrightarrow>
     (let dport = bpf_ntohs (fk_dport (pm_key m)); sport = bpf_ntohs (fk_sport (pm_key m)) in
      is_l4 m \<and> \<not> is_special_udp m sport dport \<and>
      \<not> is_port_allowed s dport True \<and> \<not> is_port_allowed s sport True)"

lemma flow_limit_status:
  assumes "flow_limit e s p st w = (p', st', s')"
  shows "p' = set_status ACT_DROP STG_FLOW_LMT RSN_LIMIT_BYTES p \<or> p' = set_status ACT_PASS STG_FLOW_LMT RSN_SUCCESS p"
  using assms by (auto simp: flow_limit_def Let_def split: prod.splits if_splits)

lemma rate_limits_status:
  assumes "rate_limits e s p st w = (p', st', s')"
  shows "p' = set_status ACT_DROP STG_GLOBAL_LMT RSN_LIMIT_BYTES p \<or>
    p' = set_status ACT_DROP STG_FLOW_LMT RSN_LIMIT_BYTES p \<or> p' = set_status ACT_PASS STG_FLOW_LMT RSN_SUCCESS p"
  using assms
  by (auto simp: rate_limits_def Let_def dest: flow_limit_status split: prod.splits if_splits option.splits)

lemma apply_policy_status:
  assumes "apply_policy e s p st = (p', st', s')"
  shows "if gate_closed s (pc_meta p) then p' = set_status ACT_DROP STG_PORT_WHT RSN_PORT_MISS p
    else p' = set_status ACT_DROP STG_GLOBAL_LMT RSN_LIMIT_BYTES p \<or>
      p' = set_status ACT_DROP STG_FLOW_LMT RSN_LIMIT_BYTES p \<or> p' = set_status ACT_PASS STG_FLOW_LMT RSN_SUCCESS p"
  using assms
  by (auto simp: apply_policy_def gate_closed_def Let_def split: if_splits dest!: rate_limits_status)

lemma status_consts [simp]:
  "ACT_DROP \<in> set all_actions" "ACT_PASS \<in> set all_actions" "ACT_CHALLENGE \<in> set all_actions"
  "STG_PORT_WHT \<in> set all_stages" "STG_GLOBAL_LMT \<in> set all_stages" "STG_FLOW_LMT \<in> set all_stages"
  "STG_PARSE \<in> set all_stages"
  "RSN_PORT_MISS \<in> set all_reasons" "RSN_LIMIT_BYTES \<in> set all_reasons" "RSN_SUCCESS \<in> set all_reasons"
  "RSN_UNSUPPORTED \<in> set all_reasons"
  by (simp_all add: all_actions_def all_stages_def all_reasons_def)

lemma leave_fst [simp]: "fst (leave a p s) = a" "fst (snd (leave a p s)) = pc_data p"
  by (simp_all add: leave_def)

lemma policy_stage_spec:
  shows "fst (xdp_policy_stage e s p st act) = (if gate_closed s (pc_meta p) then XDP_DROP else act)"
    and "fst (snd (xdp_policy_stage e s p st act)) = pc_data p"
proof -
  obtain p' st' s' where a: "apply_policy e s p (Some st) = (p', st', s')" by (metis prod_cases3)
  have data: "pc_data p' = pc_data p" using apply_policy_status [OF a] by (auto split: if_splits)
  define miss where "miss \<longleftrightarrow> resolve_action p' = XDP_DROP \<and>
    (pm_status_code (pc_meta p') AND 0x00FF0000 = STG_PERM_BLK \<or>
     pm_status_code (pc_meta p') AND 0x00FF0000 = STG_TEMP_BLK \<or>
     pm_status_code (pc_meta p') AND 0x0000FFFF = RSN_PORT_MISS)"
  have "miss \<longleftrightarrow> gate_closed s (pc_meta p)"
    using apply_policy_status [OF a] unfolding miss_def
    by (auto simp: resolve_action_def Let_def MAKE_STATUS_def ACT_DROP_def ACT_PASS_def ACT_CHALLENGE_def
        STG_PORT_WHT_def STG_GLOBAL_LMT_def STG_FLOW_LMT_def STG_PERM_BLK_def STG_TEMP_BLK_def
        RSN_PORT_MISS_def RSN_LIMIT_BYTES_def RSN_SUCCESS_def split: if_splits)
  then show "fst (xdp_policy_stage e s p st act) = (if gate_closed s (pc_meta p) then XDP_DROP else act)"
    and "fst (snd (xdp_policy_stage e s p st act)) = pc_data p"
    using data
    by (simp_all add: xdp_policy_stage_def a Let_def miss_def split: prod.split)
qed

section \<open>The limits stage\<close>

lemma untouched_pps: "consume_global_pps e s = (v, s') \<Longrightarrow>
   flow_table s' = flow_table s \<and> ingress_allowed_ports s' = ingress_allowed_ports s \<and>
   LOCAL_SUBNET_NET s' = LOCAL_SUBNET_NET s \<and> LOCAL_SUBNET_MASK s' = LOCAL_SUBNET_MASK s"
  by (auto simp: consume_global_pps_def bpf_ktime_get_ns_def Let_def split: option.splits prod.splits)

lemma consume_pps_spec: "fst (consume_global_pps e s) = XDP_DROP \<longleftrightarrow> \<not> pps_pass s (ktime e (ticks s))"
proof -
  have "fst (pps_step l n p) = XDP_DROP \<or> fst (pps_step l n p) = XDP_PASS" for l n p
    by (simp add: pps_step_def Let_def)
  then show ?thesis
    by (auto simp: consume_global_pps_def pps_pass_def bpf_ktime_get_ns_def Let_def
        split: option.splits prod.splits) (metis fst_conv xdp_action.distinct)+
qed

lemma build_key_handed_on:
  assumes "handed_on b ip p"
  shows "handed_on b ip (build_flow_key p)"
  using assms
  by (simp add: handed_on_def build_flow_key_def upd_key_def uninspected_key_def resolve_action_def)

lemma gate_closed_handed_on:
  assumes "handed_on b ip p"
  shows "gate_closed s (pc_meta p) \<longleftrightarrow>
    (ip_protocol b ip = IPPROTO_TCP \<or> ip_protocol b ip = IPPROTO_UDP) \<and> \<not> is_port_allowed s 0 True"
  using assms
  by (auto simp: handed_on_def gate_closed_def is_l4_def is_special_udp_def uninspected_key_def zero_key_def
      bpf_ntohs_def Let_def)

lemma lookup_or_create_spec:
  assumes "lookup_or_create_flow e s k = (r, s')"
  shows "r = None \<longleftrightarrow> flow_table s k = None \<and> \<not> flow_insert_ok e"
    and "ingress_allowed_ports s' = ingress_allowed_ports s"
  using assms by (auto simp: lookup_or_create_flow_def bpf_ktime_get_ns_def Let_def split: option.splits if_splits)

lemma limits_stage_spec:
  assumes h: "handed_on b ip p" and u: "untouched (attack_reads s) s t"
  shows "fst (xdp_limits_stage e t p XDP_PASS) = (if uninspected_pass e s b ip then XDP_PASS else XDP_DROP)"
    and "fst (snd (xdp_limits_stage e t p XDP_PASS)) = b"
proof -
  obtain v t1 where pps: "consume_global_pps e t = (v, t1)" by fastforce
  note t1 = untouched_pps [OF pps]
  have v: "v = XDP_DROP \<longleftrightarrow> \<not> pps_pass s (stage_time e s)"
    using consume_pps_spec [of e t] pps u
    by (simp add: untouched_def stage_time_def pps_pass_def cong: option.case_cong)
  define q where "q = build_flow_key p"
  have q: "handed_on b ip q" unfolding q_def by (rule build_key_handed_on [OF h])
  obtain r t2 where flow: "lookup_or_create_flow e t1 (pm_key (pc_meta q)) = (r, t2)" by fastforce
  note l = lookup_or_create_spec [OF flow]
  have bc: "verify_broadcast_and_policy t1 x y z = verify_broadcast_and_policy s x y z" for x y z
    using t1 u by (simp add: verify_broadcast_and_policy_def untouched_def)
  have gate: "gate_closed t2 (pc_meta q) \<longleftrightarrow>
      (ip_protocol b ip = IPPROTO_TCP \<or> ip_protocol b ip = IPPROTO_UDP) \<and> \<not> is_port_allowed s 0 True"
    using gate_closed_handed_on [OF q, of t2] l(2) t1 u by (simp add: is_port_allowed_def untouched_def)
  have none: "r = None \<longleftrightarrow> flow_table s (uninspected_key b ip) = None \<and> \<not> flow_insert_ok e"
    using l(1) t1 u q by (simp add: untouched_def handed_on_def)
  have run: "xdp_limits_stage e t p XDP_PASS =
      (if v = XDP_DROP then leave XDP_DROP p t1
       else if verify_broadcast_and_policy s (ip_saddr b ip) (ip_daddr b ip) 0 = XDP_DROP then leave XDP_DROP p t1
       else case r of None \<Rightarrow> leave XDP_PASS q t2 | Some st \<Rightarrow> xdp_policy_stage e t2 q st XDP_PASS)"
    using h pps flow bc
    by (simp add: xdp_limits_stage_def Let_def handed_on_def uninspected_key_def zero_key_def q_def [symmetric])
  have "verify_broadcast_and_policy s x y z = XDP_DROP \<or> verify_broadcast_and_policy s x y z = XDP_PASS" for x y z
    by (simp add: verify_broadcast_and_policy_def)
  then show "fst (xdp_limits_stage e t p XDP_PASS) = (if uninspected_pass e s b ip then XDP_PASS else XDP_DROP)"
    unfolding run uninspected_pass_def v
    using none gate by (auto simp: policy_stage_spec split: option.splits)
  show "fst (snd (xdp_limits_stage e t p XDP_PASS)) = b"
    unfolding run using h q by (auto simp: policy_stage_spec handed_on_def split: option.splits)
qed

section \<open>The refinement\<close>

lemma init_frame:
  assumes "init_gconfig_and_gmap s = Some s'"
  shows "maps_wf s' = maps_wf s" and "pctx_scratch_map s' = pctx_scratch_map s"
  using assms by (auto simp: init_gconfig_and_gmap_def maps_wf_def split: if_splits option.splits)

lemma init_some: "maps_wf s \<Longrightarrow> \<exists>s'. init_gconfig_and_gmap s = Some s'"
  using maps_wf_slots(1) [of s] by (auto simp: init_gconfig_and_gmap_def xdp_config_key_def)

text \<open>The program after initialisation, as its stages.\<close>

lemma xdp_fw_stages:
  assumes "init_gconfig_and_gmap s = Some s0" and "maps_wf s"
    and "parse_packet_and_flood_protect e s0 (fresh_ctx b) = (rc, p, t)"
  shows "xdp_fw e b s = Some
    (if rc < 0 then leave (resolve_action p) p t
     else if rc = 1 then leave XDP_PASS p t
     else if rc = 3 then leave XDP_PASS p (emit_l7_event e t p EVENT_TYPE_L7_DPI)
     else xdp_limits_stage e t p (resolve_action p))"
  using assms maps_wf_slots(7) [of s] init_frame [OF assms(1)]
  by (auto simp: xdp_fw_def Let_def)

lemma xdp_fw_verdict:
  assumes "maps_wf s" and "init_gconfig_and_gmap s = Some s0"
  shows "\<exists>s'. xdp_fw e b s = Some (verdict_spec e s0 b, b, s')"
proof -
  obtain rc p t where run: "parse_packet_and_flood_protect e s0 (fresh_ctx b) = (rc, p, t)" by (metis prod_cases3)
  have spec: "parse_spec e s0 b (rc, p, t)" using parse_stage_spec [of e s0 b] run by simp
  note fw = xdp_fw_stages [OF assms(2,1) run]
  have passes: "rc = 1 \<or> rc = 3 \<Longrightarrow> pc_data p = b \<Longrightarrow> \<exists>s'. xdp_fw e b s = Some (XDP_PASS, b, s')"
    using fw by (auto simp: leave_def)
  have shut: "rc = -1 \<Longrightarrow> pc_data p = b \<Longrightarrow> \<exists>s'. xdp_fw e b s = Some (resolve_action p, b, s')"
    using fw by (auto simp: leave_def)
  have late: "\<exists>s'. xdp_fw e b s = Some (if uninspected_pass e s0 b ip then XDP_PASS else XDP_DROP, b, s')"
    if "rc = 0" "handed_on b ip p" "untouched (attack_reads s0) s0 t" for ip
    using fw that(1,2) limits_stage_spec [OF that(2,3), of e]
    by (cases "xdp_limits_stage e t p XDP_PASS") (simp add: handed_on_def)
  show ?thesis
  proof (cases "\<exists>ip. classify b = Uninspected ip")
    case True
    then show ?thesis using spec late by (auto simp: parse_spec_def verdict_spec_def)
  next
    case False
    then show ?thesis
      using spec passes shut unfolding parse_spec_def verdict_spec_def
      by (auto simp: stage_result_def split: frame_class.splits if_splits)
  qed
qed

end
