(* ===== verification/TraceConnect.thy ===== *)
theory TraceConnect
  imports Policy Events
begin

text \<open>
  The egress program \<open>src/src/ebpf/trace_connect.c\<close>: the encoding of \<open>dpi_state\<close> in two nibbles,
  the classifier \<open>tc_egress_record\<close> at the egress hook of the network interface, and the
  tracepoint program \<open>trace_connect_tp\<close> that opens the whitelist for outgoing connections.

  \<open>established_connections_map\<close>, \<open>whitelist_rules_map\<close>, \<open>global_config_map\<close> and the DPI ring
  buffer are the ones of the ingress program (they are shared when the programs are loaded). The
  egress program has its own instance of \<open>permanent_blocklist_map\<close>; it is the parameter
  \<open>perm\<close>. \<open>None\<close> from \<open>skb_load_bytes\<close> is the negative return of the kernel helper. All paths
  of \<open>tc_egress_record\<close> return \<open>TC_ACT_OK\<close>, so the model returns the state alone.
\<close>

section \<open>The DPI state byte\<close>

definition DPI_ST_MASK :: u8 where [const_defs, eval_defs]: "DPI_ST_MASK = 0x0F"
definition DPI_ST :: "u8 \<Rightarrow> u8" where [eval_defs]: "DPI_ST x = x AND DPI_ST_MASK"
definition DPI_ATTEMPTS :: "u8 \<Rightarrow> u8" where [eval_defs]: "DPI_ATTEMPTS x = drop_bit 4 x"
definition DPI_MAKE :: "u8 \<Rightarrow> u8 \<Rightarrow> u8" where
  [eval_defs]: "DPI_MAKE st attempts = push_bit 4 (attempts AND 0x0F) OR (st AND DPI_ST_MASK)"

definition DPI_UNKNOWN :: u8 where [const_defs, eval_defs]: "DPI_UNKNOWN = 0"
definition DPI_IGNORE :: u8 where [const_defs, eval_defs]: "DPI_IGNORE = 1"
definition DPI_BLOCKLIST :: u8 where [const_defs, eval_defs]: "DPI_BLOCKLIST = 2"
definition DPI_TLS_PENDING :: u8 where [const_defs, eval_defs]: "DPI_TLS_PENDING = 3"
definition DPI_TLS_DONE :: u8 where [const_defs, eval_defs]: "DPI_TLS_DONE = 4"
definition MAX_DPI_ATTEMPTS :: u8 where [const_defs, eval_defs]: "MAX_DPI_ATTEMPTS = 5"
definition MAX_L7_PAYLOAD :: nat where [const_defs, eval_defs]: "MAX_L7_PAYLOAD = DPI_PAYLOAD_SNAP_LEN"
definition L3_OFFSET :: nat where [const_defs, eval_defs]: "L3_OFFSET = 14"

section \<open>The socket buffer\<close>

record sk_buff =
  skb_bytes :: bytes
  skb_protocol :: u16

definition skb_len :: "sk_buff \<Rightarrow> nat" where [eval_defs]: "skb_len skb = length (skb_bytes skb)"

definition skb_load_bytes :: "sk_buff \<Rightarrow> nat \<Rightarrow> nat \<Rightarrow> bytes option" where
  [eval_defs]: "skb_load_bytes skb off n =
     (if off + n \<le> skb_len skb then Some (take n (drop off (skb_bytes skb))) else None)"

section \<open>Building events\<close>

definition l7_copy_len :: "sk_buff \<Rightarrow> nat" where
  [eval_defs]: "l7_copy_len skb =
     (let copy_len = skb_len skb - L3_OFFSET;
          copy_len = (if copy_len > MAX_L7_PAYLOAD then MAX_L7_PAYLOAD else copy_len)
      in if copy_len \<le> 0 then 1 else copy_len)"

definition egress_event :: "kenv \<Rightarrow> flow_key \<Rightarrow> u64 \<Rightarrow> u8 \<Rightarrow> nat \<Rightarrow> bytes \<Rightarrow> l7_dpi_event" where
  [eval_defs]: "egress_event e key now dir n packet =
     \<lparr>l7_src_ip = fk_saddr key, l7_dst_ip = fk_daddr key, l7_src_port = fk_sport key,
      l7_dst_port = fk_dport key, l7_ip_proto = fk_proto key, l7_timestamp_ns = now,
      l7_l3_packet_len = of_nat n, l7_l3_packet = overwrite (ring_stale e) packet, l7_dir = dir\<rparr>"

text \<open>Filling and submitting a reserved slot; a failed load discards it. The result says whether it
  was submitted.\<close>

definition submit_l7 :: "kenv \<Rightarrow> sk_buff \<Rightarrow> flow_key \<Rightarrow> u64 \<Rightarrow> u8 \<Rightarrow> fw_state \<Rightarrow> bool \<times> fw_state" where
  [eval_defs]: "submit_l7 e skb key now dir s =
     (let copy_len = l7_copy_len skb in
      case skb_load_bytes skb L3_OFFSET copy_len of
        None \<Rightarrow> (False, s)
      | Some packet \<Rightarrow>
          (True, s\<lparr>l7_dpi_ringbuf := l7_dpi_ringbuf s @ [egress_event e key now dir copy_len packet]\<rparr>))"

section \<open>The egress program\<close>

definition put_conn :: "flow_key \<Rightarrow> connection_state \<Rightarrow> fw_state \<Rightarrow> fw_state" where
  [eval_defs]: "put_conn k c s =
     s\<lparr>established_connections_map := bpf_map_update_elem (established_connections_map s) k c\<rparr>"

text \<open>The branch for a connection whose TLS handshake is still incomplete.\<close>

definition tc_pending ::
  "kenv \<Rightarrow> sk_buff \<Rightarrow> flow_key \<Rightarrow> nat \<Rightarrow> u64 \<Rightarrow> connection_state \<Rightarrow> fw_state \<Rightarrow> fw_state" where
  [eval_defs]: "tc_pending e skb key l4_offset now existing s =
     (let attempts = DPI_ATTEMPTS (cs_dpi_state existing);
          existing = existing\<lparr>cs_last_seen := now\<rparr>;
          s = put_conn key existing s
      in if attempts \<ge> MAX_DPI_ATTEMPTS
         then put_conn key (existing\<lparr>cs_dpi_state := DPI_MAKE DPI_TLS_DONE attempts\<rparr>) s
         else
           (case skb_load_bytes skb (l4_offset + 12) 1 of
              None \<Rightarrow> s
            | Some tcp_data_offset \<Rightarrow>
                (let payload_offset = l4_offset + unat (drop_bit 4 (tcp_data_offset ! 0)) * 4 in
                 if skb_len skb \<le> payload_offset then s
                 else if \<not> ringbuf_ok e then s
                 else
                   (let (submitted, s) = submit_l7 e skb key now DIR_OUT s in
                    if submitted
                    then put_conn key (existing\<lparr>cs_dpi_state := DPI_MAKE DPI_TLS_PENDING (attempts + 1)\<rparr>) s
                    else s))))"

text \<open>The first six payload bytes of a TLS ClientHello record.\<close>

definition is_client_hello :: "bytes \<Rightarrow> bool" where
  [eval_defs]: "is_client_hello tls_hdr \<longleftrightarrow>
     tls_hdr ! 0 = 0x16 \<and> tls_hdr ! 1 = 0x03 \<and> tls_hdr ! 5 = 0x01"

text \<open>Classification of a packet of a connection that is not yet classified: the state, the TLS flag,
  and the state of the programs, \<open>None\<close> where the source returns without recording. The event of
  a ClientHello keeps the direction byte that the ring buffer slot had before.\<close>

definition tc_tls_check ::
  "kenv \<Rightarrow> sk_buff \<Rightarrow> flow_key \<Rightarrow> nat \<Rightarrow> u64 \<Rightarrow> fw_state \<Rightarrow> (u8 \<times> u8) option \<times> fw_state" where
  [eval_defs]: "tc_tls_check e skb key l4_offset now s =
     (case skb_load_bytes skb (l4_offset + 12) 1 of
        None \<Rightarrow> (Some (DPI_UNKNOWN, 0), s)
      | Some tcp_data_offset \<Rightarrow>
          (let payload_offset = l4_offset + unat (drop_bit 4 (tcp_data_offset ! 0)) * 4 in
           case skb_load_bytes skb payload_offset 6 of
             None \<Rightarrow> (Some (DPI_UNKNOWN, 0), s)
           | Some tls_hdr \<Rightarrow>
               if \<not> is_client_hello tls_hdr then (Some (DPI_UNKNOWN, 0), s)
               else if \<not> ringbuf_ok e then (Some (DPI_TLS_PENDING, 1), s)
               else if skb_len skb \<le> payload_offset then (None, s)
               else (Some (DPI_TLS_PENDING, 1), snd (submit_l7 e skb key now (ring_stale_dir e) s))))"

definition tc_classify ::
  "kenv \<Rightarrow> (u32 \<rightharpoonup> blacklist_val) \<Rightarrow> sk_buff \<Rightarrow> flow_key \<Rightarrow> nat \<Rightarrow> u64 \<Rightarrow> fw_state \<Rightarrow>
   (u8 \<times> u8) option \<times> fw_state" where
  [eval_defs]: "tc_classify e perm skb key l4_offset now s =
     (let dport_hs = bpf_ntohs (fk_dport key) in
      if bpf_map_lookup_elem perm (fk_daddr key) \<noteq> None then (Some (DPI_BLOCKLIST, 0), s)
      else if dport_hs = 53 \<or> dport_hs = 123 \<or> dport_hs = 67 \<or> dport_hs = 68 then (Some (DPI_IGNORE, 0), s)
      else if dport_hs = 443 \<or> dport_hs = 80 then
        (if fk_proto key = IPPROTO_TCP then tc_tls_check e skb key l4_offset now s
         else (Some (DPI_IGNORE, 0), s))
      else (Some (DPI_IGNORE, 0), s))"

definition tc_record ::
  "kenv \<Rightarrow> (u32 \<rightharpoonup> blacklist_val) \<Rightarrow> sk_buff \<Rightarrow> flow_key \<Rightarrow> nat \<Rightarrow> u64 \<Rightarrow> fw_state \<Rightarrow> fw_state" where
  [eval_defs]: "tc_record e perm skb key l4_offset now s =
     (case tc_classify e perm skb key l4_offset now s of
        (None, s) \<Rightarrow> s
      | (Some (dpi_state, tls_version), s) \<Rightarrow>
          if \<not> conn_insert_ok e then s
          else put_conn key \<lparr>cs_last_seen = now,
            cs_dpi_state = DPI_MAKE dpi_state (if dpi_state = DPI_TLS_PENDING then 1 else 0),
            cs_tls_version = tls_version, cs_reserved = 0\<rparr> s)"

definition tc_connection ::
  "kenv \<Rightarrow> (u32 \<rightharpoonup> blacklist_val) \<Rightarrow> sk_buff \<Rightarrow> flow_key \<Rightarrow> nat \<Rightarrow> fw_state \<Rightarrow> fw_state" where
  [eval_defs]: "tc_connection e perm skb key l4_offset s =
     (let (now, s) = bpf_ktime_get_ns e s in
      case bpf_map_lookup_elem (established_connections_map s) key of
        None \<Rightarrow> tc_record e perm skb key l4_offset now s
      | Some existing \<Rightarrow>
          (let st = DPI_ST (cs_dpi_state existing) in
           if st = DPI_IGNORE \<or> st = DPI_BLOCKLIST \<or> st = DPI_TLS_DONE
           then put_conn key (existing\<lparr>cs_last_seen := now\<rparr>) s
           else if st = DPI_TLS_PENDING then tc_pending e skb key l4_offset now existing s
           else tc_record e perm skb key l4_offset now s))"

text \<open>The key of an outgoing packet, and the program.\<close>

definition egress_key :: "sk_buff \<Rightarrow> flow_key" where
  [eval_defs]: "egress_key skb =
     (let b = skb_bytes skb; l4_offset = 14 + unat (ip_ihl b L3_OFFSET) * 4 in
      zero_key\<lparr>fk_saddr := ip_saddr b L3_OFFSET, fk_daddr := ip_daddr b L3_OFFSET,
        fk_proto := ip_protocol b L3_OFFSET,
        fk_sport := ld16 b l4_offset, fk_dport := ld16 b (l4_offset + 2)\<rparr>)"

definition egress_tracked :: "sk_buff \<Rightarrow> bool" where
  [eval_defs]: "egress_tracked skb \<longleftrightarrow>
     (let b = skb_bytes skb in
      34 \<le> skb_len skb \<and> skb_protocol skb = bpf_htons ETH_P_IP \<and>
      ip_version b L3_OFFSET = 4 \<and> 5 \<le> ip_ihl b L3_OFFSET \<and>
      (ip_protocol b L3_OFFSET = IPPROTO_TCP \<or> ip_protocol b L3_OFFSET = IPPROTO_UDP) \<and>
      skb_load_bytes skb (14 + unat (ip_ihl b L3_OFFSET) * 4) 4 \<noteq> None)"

definition tc_egress_record ::
  "kenv \<Rightarrow> (u32 \<rightharpoonup> blacklist_val) \<Rightarrow> sk_buff \<Rightarrow> fw_state \<Rightarrow> fw_state" where
  [eval_defs]: "tc_egress_record e perm skb s =
     (if \<not> egress_tracked skb then s
      else tc_connection e perm skb (egress_key skb)
             (14 + unat (ip_ihl (skb_bytes skb) L3_OFFSET) * 4) s)"

section \<open>The connect tracepoint\<close>

record sockaddr_in =
  sin_family :: u16
  sin_port :: u16
  sin_addr :: u32

definition AF_INET :: u16 where [const_defs, eval_defs]: "AF_INET = 2"
definition sizeof_sockaddr_in :: u64 where [const_defs, eval_defs]: "sizeof_sockaddr_in = 16"

definition connect_rule_key :: "sockaddr_in \<Rightarrow> rule_key" where
  [eval_defs]: "connect_rule_key sin =
     \<lparr>rk_remote_ip = sin_addr sin, rk_remote_mask = 32, rk_remote_port = sin_port sin,
      rk_proto = IPPROTO_TCP, rk_pad = 0\<rparr>"

text \<open>\<open>user_mem\<close> is what \<open>bpf_probe_read_user\<close> finds at the address argument, \<open>None\<close> when it
  faults. The length argument is compared as an unsigned number, as the C comparison does.\<close>

definition trace_connect_tp ::
  "kenv \<Rightarrow> sockaddr_in option \<Rightarrow> s64 \<Rightarrow> fw_state \<Rightarrow> int \<times> fw_state" where
  [eval_defs]: "trace_connect_tp e user_mem addrlen s =
     (if addrlen < sizeof_sockaddr_in then (0, s)
      else (case user_mem of
              None \<Rightarrow> (0, s)
            | Some sin \<Rightarrow>
                if sin_addr sin AND bpf_htonl 0xff000000 = bpf_htonl 0x7f000000 then (0, s)
                else if sin_family sin \<noteq> AF_INET then (0, s)
                else (case bpf_map_lookup_elem (global_config_map s) xdp_config_key of
                        None \<Rightarrow> (1, s)
                      | Some global_conf \<Rightarrow>
                          (let wl_rule = \<lparr>rv_action = 2, rv_priority = 1,
                                 rv_custom_rate = ucast (gc_custom_rate global_conf),
                                 rv_custom_burst = ucast (gc_custom_burst global_conf)\<rparr>
                           in if \<not> whitelist_insert_ok e then (0, s)
                              else (0, s\<lparr>whitelist_rules_map :=
                                bpf_map_update_elem (whitelist_rules_map s) (connect_rule_key sin) wl_rule\<rparr>)))))"

section \<open>The DPI state machine\<close>

text \<open>The steps of the state byte of one connection, and the states that occur.\<close>

inductive dpi_step :: "u8 \<Rightarrow> u8 \<Rightarrow> bool" where
  classified: "DPI_ST x = DPI_UNKNOWN \<Longrightarrow> y \<in> {0, 1, 2, 0x13} \<Longrightarrow> dpi_step x y"
| settled: "DPI_ST x \<in> {DPI_IGNORE, DPI_BLOCKLIST, DPI_TLS_DONE} \<Longrightarrow> dpi_step x x"
| waiting: "DPI_ST x = DPI_TLS_PENDING \<Longrightarrow> dpi_step x x"
| retry: "DPI_ST x = DPI_TLS_PENDING \<Longrightarrow> DPI_ATTEMPTS x < MAX_DPI_ATTEMPTS \<Longrightarrow>
    dpi_step x (DPI_MAKE DPI_TLS_PENDING (DPI_ATTEMPTS x + 1))"
| give_up: "DPI_ST x = DPI_TLS_PENDING \<Longrightarrow> MAX_DPI_ATTEMPTS \<le> DPI_ATTEMPTS x \<Longrightarrow>
    dpi_step x (DPI_MAKE DPI_TLS_DONE (DPI_ATTEMPTS x))"

inductive_simps dpi_step_iff: "dpi_step x y"

definition dpi_fresh :: "u8 set" where [eval_defs]: "dpi_fresh = {0, 1, 2, 0x13}"
definition dpi_states :: "u8 set" where
  [eval_defs]: "dpi_states = {0, 1, 2, 0x13, 0x23, 0x33, 0x43, 0x53, 0x54}"

lemmas dpi_consts = DPI_ST_def DPI_ATTEMPTS_def DPI_MAKE_def DPI_ST_MASK_def DPI_UNKNOWN_def DPI_IGNORE_def
  DPI_BLOCKLIST_def DPI_TLS_PENDING_def DPI_TLS_DONE_def MAX_DPI_ATTEMPTS_def

lemma dpi_fresh_states: "dpi_fresh \<subseteq> dpi_states"
  by (simp add: dpi_fresh_def dpi_states_def)

lemma dpi_states_cases:
  assumes "x \<in> dpi_states"
  obtains "x = 0" | "x = 1" | "x = 2" | "x = 0x13" | "x = 0x23" | "x = 0x33" | "x = 0x43" | "x = 0x53" | "x = 0x54"
  using assms unfolding dpi_states_def by blast

text \<open>The whole machine as a table.\<close>

lemma dpi_step_table:
  "dpi_step 0 y \<longleftrightarrow> y \<in> {0, 1, 2, 0x13}" "dpi_step 1 y \<longleftrightarrow> y = 1" "dpi_step 2 y \<longleftrightarrow> y = 2"
  "dpi_step 0x13 y \<longleftrightarrow> y \<in> {0x13, 0x23}" "dpi_step 0x23 y \<longleftrightarrow> y \<in> {0x23, 0x33}"
  "dpi_step 0x33 y \<longleftrightarrow> y \<in> {0x33, 0x43}" "dpi_step 0x43 y \<longleftrightarrow> y \<in> {0x43, 0x53}"
  "dpi_step 0x53 y \<longleftrightarrow> y \<in> {0x53, 0x54}" "dpi_step 0x54 y \<longleftrightarrow> y = 0x54"
  by (simp_all add: dpi_step_iff dpi_consts word_le_nat_alt word_less_nat_alt)

lemma dpi_step_refl: "x \<in> dpi_states \<Longrightarrow> dpi_step x x"
  by (erule dpi_states_cases) (simp_all add: dpi_step_table)

lemma dpi_step_states: "dpi_step x y \<Longrightarrow> x \<in> dpi_states \<Longrightarrow> y \<in> dpi_states"
  by (erule dpi_states_cases) (auto simp: dpi_step_table dpi_states_def)

lemma dpi_step_attempts:
  "dpi_step x y \<Longrightarrow> x \<in> dpi_states \<Longrightarrow> DPI_ATTEMPTS x \<le> DPI_ATTEMPTS y"
  by (erule dpi_states_cases) (auto simp: dpi_step_table dpi_consts)

lemma dpi_states_attempts: "x \<in> dpi_states \<Longrightarrow> unat (DPI_ATTEMPTS x) \<le> 5"
  by (auto simp: dpi_states_def dpi_consts)

lemma dpi_step_settled:
  "dpi_step x y \<Longrightarrow> x \<in> {1, 2, 0x54} \<Longrightarrow> y = x"
  by (auto simp: dpi_step_table)

section \<open>What one outgoing packet does\<close>

text \<open>The state byte of a connection, 0 when it has none.\<close>

definition dpi_of :: "fw_state \<Rightarrow> flow_key \<Rightarrow> u8" where
  [eval_defs]: "dpi_of s k = (case established_connections_map s k of None \<Rightarrow> 0 | Some c \<Rightarrow> cs_dpi_state c)"

definition event_of :: "flow_key \<Rightarrow> l7_dpi_event \<Rightarrow> bool" where
  [eval_defs]: "event_of k ev \<longleftrightarrow> l7_src_ip ev = fk_saddr k \<and> l7_dst_ip ev = fk_daddr k \<and>
     l7_src_port ev = fk_sport k \<and> l7_dst_port ev = fk_dport k \<and> l7_ip_proto ev = fk_proto k"

definition events_of :: "fw_state \<Rightarrow> flow_key \<Rightarrow> nat" where
  [eval_defs]: "events_of s k = length (filter (event_of k) (l7_dpi_ringbuf s))"

text \<open>The effect of one tracked packet of the connection \<open>k\<close>: the entry exists afterwards, the byte
  makes a step, no other entry changes, and at most one event of this connection is added, which
  the attempts counter has paid for. When the kernel refuses the insertion the table stays as it is,
  and an event may be added that nothing has paid for.\<close>

definition tc_refused :: "flow_key \<Rightarrow> fw_state \<Rightarrow> fw_state \<Rightarrow> bool" where
  "tc_refused k s s' \<longleftrightarrow>
     established_connections_map s' = established_connections_map s \<and> DPI_ST (dpi_of s k) = DPI_UNKNOWN \<and>
     (\<exists>evs. l7_dpi_ringbuf s' = l7_dpi_ringbuf s @ evs \<and> (\<forall>ev\<in>set evs. event_of k ev) \<and> length evs \<le> 1)"

definition tc_effect :: "flow_key \<Rightarrow> fw_state \<Rightarrow> fw_state \<Rightarrow> bool" where
  "tc_effect k s s' \<longleftrightarrow>
     (\<exists>c. established_connections_map s' = (established_connections_map s)(k \<mapsto> c) \<and>
       dpi_step (dpi_of s k) (cs_dpi_state c) \<and>
       (\<exists>evs. l7_dpi_ringbuf s' = l7_dpi_ringbuf s @ evs \<and> (\<forall>ev\<in>set evs. event_of k ev) \<and>
         (dpi_of s k \<in> dpi_states \<longrightarrow>
            unat (DPI_ATTEMPTS (dpi_of s k)) + length evs \<le> unat (DPI_ATTEMPTS (cs_dpi_state c)))))"

lemma submit_l7_effect:
  assumes "submit_l7 e skb k now d s = (ok, s')"
  shows "established_connections_map s' = established_connections_map s"
    and "\<exists>evs. l7_dpi_ringbuf s' = l7_dpi_ringbuf s @ evs \<and> (\<forall>ev\<in>set evs. event_of k ev) \<and>
      length evs = (if ok then 1 else 0)"
  using assms
  by (auto simp: submit_l7_def egress_event_def event_of_def Let_def split: option.splits)

text \<open>Six loaded bytes at the payload offset mean that there is a payload: the early return of the
  ClientHello branch is never taken.\<close>

lemma tc_tls_check_records:
  "\<exists>x. fst (tc_tls_check e skb k off now s) = Some x"
  by (auto simp: tc_tls_check_def skb_load_bytes_def Let_def split: option.splits if_splits)

lemma tc_tls_check_effect:
  assumes "tc_tls_check e skb k off now s = (r, s')"
  shows "\<exists>d v evs. r = Some (d, v) \<and> (d = DPI_UNKNOWN \<and> evs = [] \<or> d = DPI_TLS_PENDING \<and> length evs \<le> 1) \<and>
    established_connections_map s' = established_connections_map s \<and>
    l7_dpi_ringbuf s' = l7_dpi_ringbuf s @ evs \<and> (\<forall>ev\<in>set evs. event_of k ev)"
proof -
  obtain ok t where sub: "submit_l7 e skb k now (ring_stale_dir e) s = (ok, t)" by fastforce
  from submit_l7_effect [OF sub] tc_tls_check_records [of e skb k off now s] assms show ?thesis
    by (auto simp: tc_tls_check_def Let_def sub split: option.splits if_splits)
qed

lemma tc_classify_effect:
  assumes "tc_classify e perm skb k off now s = (r, s')"
  shows "\<exists>d v evs. r = Some (d, v) \<and>
    (d \<in> {DPI_UNKNOWN, DPI_IGNORE, DPI_BLOCKLIST} \<and> evs = [] \<or> d = DPI_TLS_PENDING \<and> length evs \<le> 1) \<and>
    (d = DPI_BLOCKLIST \<longrightarrow> perm (fk_daddr k) \<noteq> None) \<and>
    established_connections_map s' = established_connections_map s \<and>
    l7_dpi_ringbuf s' = l7_dpi_ringbuf s @ evs \<and> (\<forall>ev\<in>set evs. event_of k ev)"
  using assms tc_tls_check_effect [of e skb k off now s r s']
  by (auto simp: tc_classify_def Let_def DPI_IGNORE_def DPI_BLOCKLIST_def DPI_UNKNOWN_def DPI_TLS_PENDING_def
      split: if_splits)

lemma tc_record_effect:
  assumes "DPI_ST (dpi_of s k) = DPI_UNKNOWN"
  shows "if conn_insert_ok e then tc_effect k s (tc_record e perm skb k off now s)
    else tc_refused k s (tc_record e perm skb k off now s)"
proof -
  obtain r t where c: "tc_classify e perm skb k off now s = (r, t)" by fastforce
  from tc_classify_effect [OF c] obtain d v evs where r: "r = Some (d, v)"
    and d: "d \<in> {DPI_UNKNOWN, DPI_IGNORE, DPI_BLOCKLIST} \<and> evs = [] \<or> d = DPI_TLS_PENDING \<and> length evs \<le> 1"
    and t: "established_connections_map t = established_connections_map s"
      "l7_dpi_ringbuf t = l7_dpi_ringbuf s @ evs" "\<forall>ev\<in>set evs. event_of k ev" by blast
  define y where "y = DPI_MAKE d (if d = DPI_TLS_PENDING then 1 else 0)"
  have y: "y \<in> {0, 1, 2, 0x13}" and n: "length evs \<le> unat (DPI_ATTEMPTS y)"
    using d by (auto simp: y_def dpi_consts)
  have "dpi_of s k \<in> dpi_states \<Longrightarrow> DPI_ATTEMPTS (dpi_of s k) = 0"
    using assms by (auto simp: dpi_states_def dpi_consts)
  moreover have "length evs \<le> 1" using d by auto
  ultimately show ?thesis
    using t y n by (auto simp: tc_effect_def tc_refused_def tc_record_def c r put_conn_def y_def [symmetric] assms
        intro!: dpi_step.classified [OF assms])
qed

lemma tc_pending_effect:
  assumes c: "established_connections_map s k = Some c" and st: "DPI_ST (cs_dpi_state c) = DPI_TLS_PENDING"
  shows "tc_effect k s (tc_pending e skb k off now c s)"
proof -
  define x where "x = cs_dpi_state c"
  have x: "dpi_of s k = x" by (simp add: x_def c dpi_of_def)
  have up: "x \<in> dpi_states \<Longrightarrow> DPI_ATTEMPTS x < MAX_DPI_ATTEMPTS \<Longrightarrow>
      unat (DPI_ATTEMPTS x) + 1 \<le> unat (DPI_ATTEMPTS (DPI_MAKE DPI_TLS_PENDING (DPI_ATTEMPTS x + 1)))"
    by (erule dpi_states_cases) (simp_all add: dpi_consts)
  have done_: "x \<in> dpi_states \<Longrightarrow> MAX_DPI_ATTEMPTS \<le> DPI_ATTEMPTS x \<Longrightarrow>
      unat (DPI_ATTEMPTS x) \<le> unat (DPI_ATTEMPTS (DPI_MAKE DPI_TLS_DONE (DPI_ATTEMPTS x)))"
    by (erule dpi_states_cases) (simp_all add: dpi_consts)
  define s1 where "s1 = put_conn k (c\<lparr>cs_last_seen := now\<rparr>) s"
  obtain ok t where sub: "submit_l7 e skb k now DIR_OUT s1 = (ok, t)" by fastforce
  from submit_l7_effect [OF sub] obtain evs where
    t: "established_connections_map t = (established_connections_map s)(k \<mapsto> c\<lparr>cs_last_seen := now\<rparr>)"
      "l7_dpi_ringbuf t = l7_dpi_ringbuf s @ evs" "\<forall>ev\<in>set evs. event_of k ev" "length evs = (if ok then 1 else 0)"
    by (auto simp: s1_def put_conn_def)
  have stay: "dpi_step x x" and stop: "MAX_DPI_ATTEMPTS \<le> DPI_ATTEMPTS x \<Longrightarrow> dpi_step x (DPI_MAKE DPI_TLS_DONE (DPI_ATTEMPTS x))"
    and next_: "\<not> MAX_DPI_ATTEMPTS \<le> DPI_ATTEMPTS x \<Longrightarrow> dpi_step x (DPI_MAKE DPI_TLS_PENDING (DPI_ATTEMPTS x + 1))"
    using st by (auto simp: x_def not_le intro: dpi_step.intros)
  show ?thesis
    unfolding tc_effect_def x
    using t sub [unfolded s1_def put_conn_def bpf_map_update_elem_def] stay stop next_ up done_
    by (auto simp: tc_pending_def Let_def x_def [symmetric] put_conn_def not_le split: option.split)
qed

lemma tc_connection_effect:
  assumes "dpi_of s k \<in> dpi_states"
  shows "tc_effect k s (tc_connection e perm skb k off s) \<or>
    \<not> conn_insert_ok e \<and> tc_refused k s (tc_connection e perm skb k off s)"
proof -
  define t where "t = s\<lparr>ticks := Suc (ticks s)\<rparr>"
  have conn: "established_connections_map t = established_connections_map s" and ring: "l7_dpi_ringbuf t = l7_dpi_ringbuf s"
    by (simp_all add: t_def)
  then have same: "tc_effect k t s' \<longleftrightarrow> tc_effect k s s'" "tc_refused k t s' \<longleftrightarrow> tc_refused k s s'" for s'
    by (simp_all add: tc_effect_def tc_refused_def dpi_of_def)
  show ?thesis
  proof (cases "established_connections_map s k")
    case None
    then show ?thesis
      using tc_record_effect [of t k e perm skb off "ktime e (ticks s)"] conn same
      by (auto simp: tc_connection_def bpf_ktime_get_ns_def Let_def t_def [symmetric] dpi_of_def dpi_consts split: if_splits)
  next
    case (Some c)
    have st: "DPI_ST (cs_dpi_state c) \<in> {DPI_UNKNOWN, DPI_IGNORE, DPI_BLOCKLIST, DPI_TLS_PENDING, DPI_TLS_DONE}"
      using assms Some by (auto simp: dpi_of_def dpi_states_def dpi_consts)
    consider "DPI_ST (cs_dpi_state c) \<in> {DPI_IGNORE, DPI_BLOCKLIST, DPI_TLS_DONE}"
      | "DPI_ST (cs_dpi_state c) = DPI_TLS_PENDING" | "DPI_ST (cs_dpi_state c) = DPI_UNKNOWN"
      using st by blast
    then show ?thesis
    proof cases
      case 1
      then have "tc_effect k s (put_conn k (c\<lparr>cs_last_seen := ktime e (ticks s)\<rparr>) t)"
        using Some conn ring by (auto simp: tc_effect_def put_conn_def dpi_of_def intro!: dpi_step.settled)
      then show ?thesis
        using 1 Some by (auto simp: tc_connection_def bpf_ktime_get_ns_def Let_def t_def [symmetric] conn)
    next
      case 2
      moreover have "DPI_TLS_PENDING \<notin> {DPI_IGNORE, DPI_BLOCKLIST, DPI_TLS_DONE}" by (simp add: dpi_consts)
      ultimately show ?thesis
        using tc_pending_effect [of t k c e skb off "ktime e (ticks s)"] Some conn same
        by (auto simp: tc_connection_def bpf_ktime_get_ns_def Let_def t_def [symmetric])
    next
      case 3
      moreover have "DPI_UNKNOWN \<notin> {DPI_IGNORE, DPI_BLOCKLIST, DPI_TLS_DONE, DPI_TLS_PENDING}" by (simp add: dpi_consts)
      ultimately show ?thesis
        using tc_record_effect [of t k e perm skb off "ktime e (ticks s)"] Some conn same
        by (auto simp: tc_connection_def bpf_ktime_get_ns_def Let_def t_def [symmetric] dpi_of_def split: if_splits)
    qed
  qed
qed

section \<open>Runs of the egress program\<close>

fun tc_run :: "(u32 \<rightharpoonup> blacklist_val) \<Rightarrow> (kenv \<times> sk_buff) list \<Rightarrow> fw_state \<Rightarrow> fw_state" where
  "tc_run perm [] s = s"
| "tc_run perm ((e, skb) # xs) s = tc_run perm xs (tc_egress_record e perm skb s)"

definition conn_states_ok :: "fw_state \<Rightarrow> bool" where
  "conn_states_ok s \<longleftrightarrow> (\<forall>k. dpi_of s k \<in> dpi_states)"

lemma zero_dpi_state [simp]: "0 \<in> dpi_states"
  by (simp add: dpi_states_def)

lemma egress_effect:
  assumes "conn_states_ok s"
  shows "if egress_tracked skb
    then tc_effect (egress_key skb) s (tc_egress_record e perm skb s) \<or>
      \<not> conn_insert_ok e \<and> tc_refused (egress_key skb) s (tc_egress_record e perm skb s)
    else tc_egress_record e perm skb s = s"
  using assms tc_connection_effect by (simp add: tc_egress_record_def conn_states_ok_def)

lemma tc_effect_dpi:
  assumes "tc_effect k s s' \<or> tc_refused k s s'" and "dpi_of s k \<in> dpi_states"
  shows "dpi_step (dpi_of s k) (dpi_of s' k)" and "k' \<noteq> k \<Longrightarrow> dpi_of s' k' = dpi_of s k'"
  using assms dpi_step_refl [of "dpi_of s k"] by (auto simp: tc_effect_def tc_refused_def dpi_of_def)

lemma egress_states_ok:
  assumes "conn_states_ok s"
  shows "conn_states_ok (tc_egress_record e perm skb s)"
proof (cases "egress_tracked skb")
  case True
  define s' where "s' = tc_egress_record e perm skb s"
  have eff: "tc_effect (egress_key skb) s s' \<or> tc_refused (egress_key skb) s s'"
    using egress_effect [OF assms, of skb e perm] True by (auto simp: s'_def)
  have st: "\<And>k. dpi_of s k \<in> dpi_states" using assms by (simp add: conn_states_ok_def)
  show ?thesis
    unfolding conn_states_ok_def s'_def [symmetric]
  proof
    fix k show "dpi_of s' k \<in> dpi_states"
      using tc_effect_dpi [OF eff st] dpi_step_states st by metis
  qed
qed (use assms egress_effect in \<open>force\<close>)

lemma filter_event_of_other:
  "\<forall>ev\<in>set evs. event_of k ev \<Longrightarrow> unpadded k \<Longrightarrow> unpadded k' \<Longrightarrow> k' \<noteq> k \<Longrightarrow> filter (event_of k') evs = []"
  by (induction evs) (auto simp: event_of_def unpadded_def)

text \<open>A packet of the connection whose insertion the kernel refuses.\<close>

definition refused_packet :: "flow_key \<Rightarrow> kenv \<times> sk_buff \<Rightarrow> bool" where
  [eval_defs]: "refused_packet k x \<longleftrightarrow> \<not> conn_insert_ok (fst x) \<and> egress_key (snd x) = k"

lemma egress_events:
  assumes ok: "conn_states_ok s" and k: "unpadded k"
  shows "events_of (tc_egress_record e perm skb s) k + unat (DPI_ATTEMPTS (dpi_of s k)) \<le>
    events_of s k + unat (DPI_ATTEMPTS (dpi_of (tc_egress_record e perm skb s) k)) + of_bool (refused_packet k (e, skb))"
proof (cases "egress_tracked skb")
  case True
  define s' where "s' = tc_egress_record e perm skb s"
  have kk: "unpadded (egress_key skb)" by (simp add: egress_key_def unpadded_def zero_key_def Let_def)
  have st: "dpi_of s (egress_key skb) \<in> dpi_states" using ok by (simp add: conn_states_ok_def)
  have eff: "tc_effect (egress_key skb) s s' \<or> \<not> conn_insert_ok e \<and> tc_refused (egress_key skb) s s'"
    using egress_effect [OF ok, of skb e perm] True by (simp add: s'_def)
  then obtain evs where ring: "l7_dpi_ringbuf s' = l7_dpi_ringbuf s @ evs" "\<forall>ev\<in>set evs. event_of (egress_key skb) ev"
    and n: "unat (DPI_ATTEMPTS (dpi_of s (egress_key skb))) + length evs \<le>
      unat (DPI_ATTEMPTS (dpi_of s' (egress_key skb))) + of_bool (\<not> conn_insert_ok e)"
    using st by (fastforce simp: tc_effect_def tc_refused_def dpi_of_def)
  show ?thesis
  proof (cases "k = egress_key skb")
    case True
    have "length (filter (event_of k) evs) \<le> length evs" by simp
    then show ?thesis using n ring True unfolding s'_def [symmetric] by (simp add: events_of_def refused_packet_def)
  next
    case False
    have "tc_effect (egress_key skb) s s' \<or> tc_refused (egress_key skb) s s'" using eff by blast
    then show ?thesis
      using ring filter_event_of_other [OF ring(2) kk k] tc_effect_dpi(2) [OF _ st, of s' k] False unfolding s'_def [symmetric]
      by (simp add: events_of_def)
  qed
qed (use ok egress_effect in \<open>force\<close>)

lemma tc_run_events:
  assumes "conn_states_ok s" and "unpadded k"
  shows "conn_states_ok (tc_run perm xs s)"
    and "events_of (tc_run perm xs s) k + unat (DPI_ATTEMPTS (dpi_of s k)) \<le>
      events_of s k + unat (DPI_ATTEMPTS (dpi_of (tc_run perm xs s) k)) + length (filter (refused_packet k) xs)"
  using assms
proof (induction perm xs s rule: tc_run.induct)
  case (2 perm e skb xs s)
  {
    case 1 then show ?case using 2 egress_states_ok by simp
  next
    case 2
    then show ?case
      using "2.IH"(2) egress_states_ok [of s e perm skb] egress_events [of s k e perm skb] by force
  }
qed simp_all

end
