(* ===== verification/Samples.thy ===== *)
theory Samples
  imports TraceConnect XdpSpec
begin

text \<open>
  Concrete frames and states on which the witnesses of the properties run the programs: the
  server 93.184.216.34, port 443, and the local host 192.168.1.5, port 40000, exchange TCP
  segments.
\<close>

definition eth_header :: bytes where
  [eval_defs]: "eth_header = [2, 0, 0, 0, 0, 1, 2, 0, 0, 0, 0, 2, 0x08, 0x00]"

definition server_ip :: u32 where [eval_defs]: "server_ip = 0x22D8B85D"
definition local_ip :: u32 where [eval_defs]: "local_ip = 0x0501A8C0"

text \<open>A segment without payload from the server, and the ClientHello that the host has sent to it.\<close>

definition server_segment :: bytes where
  [eval_defs]: "server_segment = eth_header @
     [0x45, 0, 0, 40, 0, 1, 0x40, 0, 64, 6, 0, 0, 93, 184, 216, 34, 192, 168, 1, 5,
      0x01, 0xBB, 0x9C, 0x40, 0, 0, 0, 1, 0, 0, 0, 1, 0x50, 0x10, 1, 0, 0, 0, 0, 0]"

definition client_hello :: sk_buff where
  [eval_defs]: "client_hello = \<lparr>skb_bytes = eth_header @
     [0x45, 0, 0, 46, 0, 1, 0x40, 0, 64, 6, 0, 0, 192, 168, 1, 5, 93, 184, 216, 34,
      0x9C, 0x40, 0x01, 0xBB, 0, 0, 0, 1, 0, 0, 0, 1, 0x50, 0x18, 1, 0, 0, 0, 0, 0,
      0x16, 0x03, 0x01, 0x00, 0x05, 0x01], skb_protocol = bpf_htons ETH_P_IP\<rparr>"

text \<open>A first fragment of UDP from the server, and a broadcast-free fragment of protocol 47 (GRE).\<close>

definition udp_fragment :: bytes where
  [eval_defs]: "udp_fragment = eth_header @
     [0x45, 0, 0, 28, 0, 1, 0x20, 0, 64, 17, 0, 0, 93, 184, 216, 34, 192, 168, 1, 5,
      0, 53, 0x9C, 0x40, 0, 8, 0, 0]"

definition gre_packet :: bytes where
  [eval_defs]: "gre_packet = eth_header @
     [0x45, 0, 0, 24, 0, 1, 0, 0, 64, 47, 0, 0, 93, 184, 216, 34, 192, 168, 1, 5, 0, 0, 8, 0]"

definition ping :: bytes where
  [eval_defs]: "ping = eth_header @
     [0x45, 0, 0, 28, 0, 1, 0, 0, 64, 1, 0, 0, 93, 184, 216, 34, 192, 168, 1, 5, 8, 0, 0, 0, 0, 1, 0, 1]"

definition running :: fw_state where
  [eval_defs]: "running = boot_state\<lparr>isInitialed := True, GLOBAL_RATE_BYTES_PER_SEC := 100000,
     GLOBAL_BURST := 50000, FLOW_RATE_BYTES_PER_SEC := 5000, FLOW_BURST := 4000, GLOBAL_PPS_LIMIT := 1000\<rparr>"

lemma vlan_two: "vlan_stack_loop 2 b pos p = vlan_stack_loop (Suc (Suc 0)) b pos p"
  by (simp add: numeral_2_eq_2)

lemmas run_defs = eval_defs vlan_two

lemma classify_samples:
  "classify server_segment = Conversation 14 34"
  "classify udp_fragment = Uninspected 14"
  "classify gre_packet = Uninspected 14"
  "classify ping = IcmpPacket 14"
  by (simp_all add: run_defs)

lemma key_samples:
  "conn_lookup_key server_segment 14 34 = egress_key client_hello" "egress_tracked client_hello"
  "ip_saddr server_segment 14 = server_ip"
  by (simp_all add: run_defs)

lemma running_wf: "maps_wf running" "init_gconfig_and_gmap running = Some running"
  by (simp_all add: maps_wf_def running_def boot_state_def init_gconfig_and_gmap_def)

lemma verdict_samples:
  "verdict_spec (still_env 5) running server_segment = XDP_DROP"
  "verdict_spec (still_env 5) running gre_packet = XDP_DROP"
  "verdict_spec (still_env 3000000000) running gre_packet = XDP_PASS"
   apply (simp add: verdict_spec_def classify_samples conn_open_def running_def boot_state_def)
  apply (simp add: verdict_spec_def classify_samples run_defs running_def boot_state_def)
  apply (simp add: verdict_spec_def classify_samples run_defs running_def boot_state_def)
  done

end
