(* ===== verification/HeaderBounds.thy ===== *)
theory HeaderBounds
  imports XdpSpec Samples
begin

text \<open>
  Memory safety of the parse stage: the pointers that \<open>parse_packet_and_flood_protect\<close> leaves in
  the packet context (offsets in this model) stay inside the packet, in the order of the headers.
  The invariant \<open>ctx_ok\<close> of the packet context is kept by every function the stage calls.
\<close>

definition ctx_ok :: "packet_ctx \<Rightarrow> bool" where
  "ctx_ok p \<longleftrightarrow>
     (\<forall>ip. pc_ip p = Some ip \<longrightarrow> 14 \<le> ip \<and> ip + 20 \<le> pc_data_end p) \<and>
     (\<forall>l4. pc_l4 p = Some l4 \<longrightarrow> (\<exists>ip. pc_ip p = Some ip \<and> ip + 20 \<le> l4) \<and> l4 + 8 \<le> pc_data_end p \<and>
        (pm_ip_proto (pc_meta p) = IPPROTO_TCP \<longrightarrow> l4 + 20 \<le> pc_data_end p)) \<and>
     (\<forall>q. pc_payload p = Some q \<longrightarrow> q \<le> pc_data_end p)"

section \<open>Functions that leave the pointers alone\<close>

definition same_ptrs :: "packet_ctx \<Rightarrow> packet_ctx \<Rightarrow> bool" where
  "same_ptrs p q \<longleftrightarrow> pc_data_end q = pc_data_end p \<and> pc_ip q = pc_ip p \<and> pc_l4 q = pc_l4 p \<and>
     pc_payload q = pc_payload p \<and> pm_ip_proto (pc_meta q) = pm_ip_proto (pc_meta p)"

lemma same_ptrs_refl [simp]: "same_ptrs p p"
  by (simp add: same_ptrs_def)

lemma same_ptrs_trans: "same_ptrs p q \<Longrightarrow> same_ptrs q r \<Longrightarrow> same_ptrs p r"
  by (simp add: same_ptrs_def)

lemma same_ptrs_ok: "same_ptrs p q \<Longrightarrow> ctx_ok p \<Longrightarrow> ctx_ok q"
  by (simp add: same_ptrs_def ctx_ok_def)

lemma same_ptrs_status [simp]: "same_ptrs p (set_status a st r q) = same_ptrs p q"
  "same_ptrs (set_status a st r p) q = same_ptrs p q"
  by (simp_all add: same_ptrs_def pc_data_end_def set_status_def)

lemma same_ptrs_eth [simp]: "same_ptrs p (q\<lparr>pc_eth := x\<rparr>) = same_ptrs p q"
  by (simp add: same_ptrs_def pc_data_end_def)

lemma same_ptrs_upd_meta [simp]:
  "(\<And>m. pm_ip_proto (f m) = pm_ip_proto m) \<Longrightarrow> same_ptrs p (upd_meta f q) = same_ptrs p q"
  "(\<And>m. pm_ip_proto (f m) = pm_ip_proto m) \<Longrightarrow> same_ptrs (upd_meta f p) q = same_ptrs p q"
  by (simp_all add: same_ptrs_def pc_data_end_def upd_meta_def)

lemma same_ptrs_upd_key [simp]: "same_ptrs p (upd_key f q) = same_ptrs p q" "same_ptrs (upd_key f p) q = same_ptrs p q"
  by (simp_all add: upd_key_def)

lemma same_ptrs_set_ports [simp]: "same_ptrs p (set_ports b l4 q) = same_ptrs p q" "same_ptrs (set_ports b l4 p) q = same_ptrs p q"
  by (simp_all add: set_ports_def)

lemma same_ptrs_tail [simp]: "same_ptrs p (tail_payload_len q) = same_ptrs p q"
  by (simp add: tail_payload_len_def split: option.split)

lemma same_ptrs_verdict: "conn_verdict e s p c = (v, p', s') \<Longrightarrow> same_ptrs p p'"
  by (auto simp: conn_verdict_def split: option.splits if_splits prod.splits)

lemma same_ptrs_check: "check_conntrack_and_blacklist e s p c = (v, p', s') \<Longrightarrow> same_ptrs p p'"
  by (auto simp: check_conntrack_and_blacklist_def Let_def dest: same_ptrs_verdict split: option.splits if_splits prod.splits)

lemma same_ptrs_enforce: "enforce_l4_l7_policy_and_dpi e s p c = (v, p', s') \<Longrightarrow> same_ptrs p p'"
  by (auto simp: enforce_l4_l7_policy_and_dpi_def Let_def split: option.splits if_splits prod.splits)

lemma length_challenge: "trigger_syncookie_challenge e s b ip th l = (rc, b', s') \<Longrightarrow> length b' = length b"
  by (auto simp: syncookie_cases challenged_def split: if_splits option.splits)

lemma same_ptrs_challenge: "tcp_challenge e s p ip th = (v, p', s') \<Longrightarrow> same_ptrs p p'"
  by (auto simp: tcp_challenge_def Let_def same_ptrs_def pc_data_end_def set_status_def dest: length_challenge
      split: if_splits prod.splits)

lemmas ptr_frames = same_ptrs_check same_ptrs_enforce same_ptrs_challenge

section \<open>The protocol cases\<close>

lemma parse_tcp_bounds: "parse_tcp b pos ip = Some (l4, n, q) \<Longrightarrow> l4 = pos \<and> pos + 20 \<le> q \<and> q \<le> length b"
  using tcp.advance [of b pos ip "(l4, n, q)"] tcp.inside [of b pos ip "(l4, n, q)"]
  by (auto simp: sizeof_tcphdr_def) (auto simp: parse_tcp_def Let_def split: if_splits)

lemma parse_udp_bounds: "parse_udp b pos = Some (l4, q) \<Longrightarrow> l4 = pos \<and> pos + 8 \<le> q \<and> q \<le> length b"
  using udp.advance [of b pos "(l4, q)"] udp.inside [of b pos "(l4, q)"]
  by (auto simp: sizeof_udphdr_def) (auto simp: parse_udp_def split: if_splits)

lemma parse_icmp_bounds: "parse_icmp b pos = Some (l4, q) \<Longrightarrow> l4 = pos \<and> pos + 8 \<le> q \<and> q \<le> length b"
  using icmp.advance [of b pos "(l4, q)"] icmp.inside [of b pos "(l4, q)"]
  by (auto simp: sizeof_icmphdr_def) (auto simp: parse_icmp_def split: if_splits)

lemma parse_ipv4_bounds:
  "parse_ipv4 b ip = Some (i, proto, pos) \<Longrightarrow> ip + 20 \<le> pos \<and> pos \<le> length b"
  using ipv4.advance [of b ip "(i, proto, pos)"] ipv4.inside [of b ip "(i, proto, pos)"]
  by (auto simp: sizeof_iphdr_def)

lemma pc_data_upd [simp]:
  "pc_data (upd_meta f p) = pc_data p" "pc_data (upd_key g p) = pc_data p" "pc_data (set_status a st r p) = pc_data p"
  by (simp_all add: upd_key_def upd_meta_def set_status_def)

text \<open>Setting the transport pointers behind an IPv4 header keeps the invariant.\<close>

lemma ctx_ok_l4:
  assumes "ctx_ok p" and "pc_ip p = Some ip" and "ip + 20 \<le> l4" and "l4 + 8 \<le> q" and "q \<le> pc_data_end p"
    and "pm_ip_proto (pc_meta p) = IPPROTO_TCP \<Longrightarrow> l4 + 20 \<le> q"
  shows "ctx_ok (p\<lparr>pc_l4 := Some l4, pc_payload := Some q\<rparr>)"
    and "pc_payload p = Some pos \<Longrightarrow> ctx_ok (p\<lparr>pc_l4 := Some l4\<rparr>)"
  using assms by (auto simp: ctx_ok_def pc_data_end_def)

lemma handle_tcp_ok:
  assumes "ctx_ok p" and "pc_ip p = Some ip" and "ip + 20 \<le> pos" and "handle_tcp e s p ip pos = (v, p', s')"
  shows "ctx_ok p'"
proof (cases "parse_tcp (pc_data p) pos ip")
  case None
  then show ?thesis using assms by (auto simp: handle_tcp_def intro: same_ptrs_ok [of p])
next
  case (Some r)
  obtain l4 n q where r: "parse_tcp (pc_data p) pos ip = Some (l4, n, q)" using Some by (cases r) auto
  note b = parse_tcp_bounds [OF r]
  have ok: "ctx_ok (p\<lparr>pc_l4 := Some l4, pc_payload := Some q\<rparr>)"
    using ctx_ok_l4(1) [OF assms(1,2), of l4 q] b assms(3) by (simp add: pc_data_end_def)
  have "same_ptrs (p\<lparr>pc_l4 := Some l4, pc_payload := Some q\<rparr>) p'"
    using assms(4) by (auto simp: handle_tcp_def r Let_def split: if_splits prod.splits dest!: ptr_frames dest: same_ptrs_trans)
  then show ?thesis using ok by (rule same_ptrs_ok)
qed

lemma handle_udp_ok:
  assumes "ctx_ok p" and "pc_ip p = Some ip" and "ip + 20 \<le> pos" and "pm_ip_proto (pc_meta p) \<noteq> IPPROTO_TCP"
    and "handle_udp e s p ip pos = (v, p', s')"
  shows "ctx_ok p'"
proof (cases "parse_udp (pc_data p) pos")
  case None
  then show ?thesis using assms by (auto simp: handle_udp_def intro: same_ptrs_ok [of p])
next
  case (Some r)
  obtain l4 q where r: "parse_udp (pc_data p) pos = Some (l4, q)" using Some by (cases r) auto
  note b = parse_udp_bounds [OF r]
  have ok: "ctx_ok (p\<lparr>pc_l4 := Some l4, pc_payload := Some q\<rparr>)"
    using ctx_ok_l4(1) [OF assms(1,2), of l4 q] b assms(3,4) by (simp add: pc_data_end_def)
  have "same_ptrs (p\<lparr>pc_l4 := Some l4, pc_payload := Some q\<rparr>) p'"
    using assms(5) by (auto simp: handle_udp_def r Let_def split: if_splits prod.splits dest!: ptr_frames dest: same_ptrs_trans)
  then show ?thesis using ok by (rule same_ptrs_ok)
qed

lemma handle_icmp_ok:
  assumes "ctx_ok p" and "pc_ip p = Some ip" and "ip + 20 \<le> pos" and "pm_ip_proto (pc_meta p) \<noteq> IPPROTO_TCP"
    and "handle_icmp e s p pos = (v, p', s')"
  shows "ctx_ok p'"
proof (cases "parse_icmp (pc_data p) pos")
  case None
  then show ?thesis using assms by (auto simp: handle_icmp_def intro: same_ptrs_ok [of p])
next
  case (Some r)
  obtain l4 q where r: "parse_icmp (pc_data p) pos = Some (l4, q)" using Some by (cases r) auto
  note b = parse_icmp_bounds [OF r]
  have ok: "ctx_ok (p\<lparr>pc_l4 := Some l4\<rparr>)"
    using assms(1-4) b by (auto simp: ctx_ok_def pc_data_end_def)
  have "same_ptrs (p\<lparr>pc_l4 := Some l4\<rparr>) p'"
    using assms(5) by (auto simp: handle_icmp_def r Let_def split: if_splits prod.splits dest!: ptr_frames dest: same_ptrs_trans)
  then show ?thesis using ok by (rule same_ptrs_ok)
qed

section \<open>The parse stage\<close>

lemma protos_distinct: "IPPROTO_UDP \<noteq> IPPROTO_TCP" "IPPROTO_ICMP \<noteq> IPPROTO_TCP"
  by (simp_all add: IPPROTO_TCP_def IPPROTO_UDP_def IPPROTO_ICMP_def)

lemma handle_ipv4_ok:
  assumes "ctx_ok p" and "pc_l4 p = None" and "pc_payload p = None" and "14 \<le> ip"
    and "parse_ipv4 (pc_data p) ip = Some (i, proto, pos)" and "handle_ipv4 e s p ip proto pos = (v, p', s')"
  shows "ctx_ok p'"
proof -
  define m where "m = upd_key (\<lambda>k. k\<lparr>fk_saddr := ip_saddr (pc_data p) ip, fk_daddr := ip_daddr (pc_data p) ip,
    fk_proto := proto\<rparr>) (upd_meta (\<lambda>m. m\<lparr>pm_ip_proto := proto\<rparr>) (p\<lparr>pc_ip := Some ip\<rparr>))"
  define q where "q = m\<lparr>pc_payload := Some pos\<rparr>"
  note b = parse_ipv4_bounds [OF assms(5)]
  have m: "ctx_ok m" "pc_data m = pc_data p"
    using assms(1-4) b by (auto simp: m_def ctx_ok_def pc_data_end_def upd_key_def upd_meta_def)
  have q: "ctx_ok q" "pc_ip q = Some ip" "pm_ip_proto (pc_meta q) = proto" "ip + 20 \<le> pos"
    using assms(1-4) b by (auto simp: q_def m_def ctx_ok_def pc_data_end_def upd_key_def upd_meta_def)
  have "p' = m \<or> same_ptrs q p' \<or> (\<exists>v s'. handle_tcp e s q ip pos = (v, p', s')) \<or>
    proto \<noteq> IPPROTO_TCP \<and> ((\<exists>v s'. handle_udp e s q ip pos = (v, p', s')) \<or> (\<exists>v s'. handle_icmp e s q pos = (v, p', s')))"
    using assms(6) by (auto simp: handle_ipv4_def Let_def m_def [symmetric] q_def [symmetric] handle_other_def protos_distinct
      split: if_splits)
  then show ?thesis
    using m(1) q same_ptrs_ok [OF _ q(1)] handle_tcp_ok [OF q(1,2,4)] handle_udp_ok [OF q(1,2,4)] handle_icmp_ok [OF q(1,2,4)]
    by blast
qed

lemma l2_bounds:
  assumes "parse_eth b 0 = Some (i, t, pos)" and "parse_vlan_stack b pos t = Some (t', pos')"
  shows "14 \<le> pos'"
  using assms by (auto simp: parse_eth_def sizeof_ethhdr_def parse_vlan_stack_def vlan_two split: if_splits)

text \<open>C8: Memory safety of the parse stage: whatever the packet and the state of the maps, the pointers
  that the stage leaves behind, and every later stage reads through, point into the packet. The IPv4
  header starts behind the Ethernet header and its 20 bytes are inside; the transport header starts
  behind it and is inside with its 20 (TCP) or 8 bytes; the payload pointer is at most the end of the packet.\<close>

theorem headers_in_bounds:
  assumes "parse_packet_and_flood_protect e s (fresh_ctx b) = (v, p, s')"
  shows "(\<forall>ip. pc_ip p = Some ip \<longrightarrow> 14 \<le> ip \<and> ip + 20 \<le> length (pc_data p)) \<and>
    (\<forall>l4. pc_l4 p = Some l4 \<longrightarrow> (\<exists>ip. pc_ip p = Some ip \<and> ip + 20 \<le> l4) \<and> l4 + 8 \<le> length (pc_data p) \<and>
       (pm_ip_proto (pc_meta p) = IPPROTO_TCP \<longrightarrow> l4 + 20 \<le> length (pc_data p))) \<and>
    (\<forall>q. pc_payload p = Some q \<longrightarrow> q \<le> length (pc_data p))"
proof -
  have fresh: "ctx_ok (fresh_ctx b)" by (simp add: ctx_ok_def fresh_ctx_def)
  have "same_ptrs (fresh_ctx b) p \<or> (\<exists>q t ip i proto pos v' s'. same_ptrs (fresh_ctx b) q \<and> pc_data q = b \<and> 14 \<le> ip \<and>
      parse_ipv4 b ip = Some (i, proto, pos) \<and> handle_ipv4 e t q ip proto pos = (v', p, s'))"
    (is "_ \<or> ?ipv4")
  proof (cases "parse_eth b 0")
    case None
    then show ?thesis using assms by (auto simp: parse_packet_and_flood_protect_def Let_def)
  next
    case (Some er)
    obtain eth t pos where eth: "parse_eth b 0 = Some (eth, t, pos)" using Some by (metis prod_cases3)
    show ?thesis
    proof (cases "parse_vlan_stack b pos t")
      case None
      then show ?thesis using assms by (auto simp: parse_packet_and_flood_protect_def Let_def eth)
    next
      case (Some vr)
      obtain t' ip where vlan: "parse_vlan_stack b pos t = Some (t', ip)" using Some by (cases vr) auto
      obtain a u where att: "check_attack_status e (global_stats (of_nat (length b)) s) = (a, u)" by (metis surj_pair)
      define q where "q = upd_meta (\<lambda>m. m\<lparr>pm_is_under_attack := a\<rparr>) (upd_meta (\<lambda>m. m\<lparr>pm_pkt_len := of_nat (length b)\<rparr>)
        ((upd_meta (\<lambda>m. m\<lparr>pm_is_fuse_ratelimit := False\<rparr>) (fresh_ctx b))\<lparr>pc_eth := Some eth\<rparr>))"
      have q: "same_ptrs (fresh_ctx b) q" "pc_data q = b" by (simp_all add: q_def)
      show ?thesis using assms q l2_bounds [OF eth vlan]
        by (auto simp: parse_packet_and_flood_protect_def Let_def eth vlan att q_def [symmetric] pc_data_end_def
          split: if_splits option.splits)
    qed
  qed
  moreover have "ctx_ok p" if ?ipv4
  proof -
    from that obtain q t ip i proto pos v' s' where q: "same_ptrs (fresh_ctx b) q" "pc_data q = b" and
      ip: "14 \<le> ip" "parse_ipv4 b ip = Some (i, proto, pos)" "handle_ipv4 e t q ip proto pos = (v', p, s')" by blast
    have "pc_l4 q = None" "pc_payload q = None" using q(1) by (simp_all add: same_ptrs_def fresh_ctx_def)
    with handle_ipv4_ok [of q ip i proto pos e t] same_ptrs_ok [OF q(1) fresh] ip q(2) show ?thesis by blast
  qed
  ultimately have "ctx_ok p" using same_ptrs_ok [OF _ fresh] by blast
  then show ?thesis by (simp add: ctx_ok_def pc_data_end_def)
qed

theorem headers_in_bounds_witness:
  "\<exists>v p s'. parse_packet_and_flood_protect (still_env 5) running (fresh_ctx udp_fragment) = (v, p, s') \<and>
     pc_ip p = Some 14 \<and> 14 + 20 \<le> length (pc_data p)"
proof -
  obtain v p s' where run: "parse_packet_and_flood_protect (still_env 5) running (fresh_ctx udp_fragment) = (v, p, s')"
    by (metis prod_cases3)
  have "pc_ip p = Some 14"
    using parse_stage_spec [of "still_env 5" running udp_fragment] by (simp add: parse_spec_def classify_samples run handed_on_def)
  then show ?thesis using run headers_in_bounds [OF run] by auto
qed

end
