(* ===== verification/Invariant.thy ===== *)
theory Invariant
  imports TraceConnect XdpSpec
begin

text \<open>
  The invariant of the shared state and its preservation by every program: the ARRAY maps keep
  their slots, the connection table holds only states of the DPI machine, reports go to the ten
  thousand address buckets, and no event describes more bytes than its snapshot array holds.
\<close>

section \<open>The invariant\<close>

definition event_ok :: "event \<Rightarrow> bool" where
  [eval_defs]: "event_ok ev \<longleftrightarrow> length (ev_payload ev) = DPI_PAYLOAD_SNAP_LEN \<and>
     unat (ev_payload_len ev) \<le> DPI_PAYLOAD_SNAP_LEN"

definition ring_ok :: "fw_state \<Rightarrow> bool" where
  "ring_ok s \<longleftrightarrow> (\<forall>ev\<in>set (l7_dpi_ringbuf s). unat (l7_l3_packet_len ev) \<le> DPI_PAYLOAD_SNAP_LEN)"

definition reports_ok :: "fw_state \<Rightarrow> bool" where
  "reports_ok s \<longleftrightarrow> (\<forall>k ev. report_to_user_map s k = Some ev \<longrightarrow> unat k < 10000 \<and> event_ok ev)"

definition scratch_ok :: "fw_state \<Rightarrow> bool" where
  "scratch_ok s \<longleftrightarrow> (\<forall>ev. event_scratch_map s 0 = Some ev \<longrightarrow> event_ok ev)"

definition fw_inv :: "fw_state \<Rightarrow> bool" where
  "fw_inv s \<longleftrightarrow> maps_wf s \<and> conn_states_ok s \<and> ring_ok s \<and> reports_ok s \<and> scratch_ok s"

lemmas inv_defs = fw_inv_def maps_wf_def conn_states_ok_def ring_ok_def reports_ok_def scratch_ok_def dpi_of_def

lemmas sizes = stats_map_max_entries_def global_stats_map_max_entries_def

section \<open>Preservation\<close>

lemma inv_ktime: "bpf_ktime_get_ns e s = (t, s') \<Longrightarrow> fw_inv s \<Longrightarrow> fw_inv s'"
  by (auto simp: bpf_ktime_get_ns_def inv_defs)

lemma array_map_upd_present: "array_map n m \<Longrightarrow> m k = Some v \<Longrightarrow> array_map n (m(k \<mapsto> w))"
  by (auto simp: array_map_def)

lemma inv_increment_stat: "fw_inv s \<Longrightarrow> fw_inv (increment_stat k s)"
  by (auto simp: increment_stat_def inv_defs array_map_upd_present split: option.splits)

lemma inv_add_global_stat: "fw_inv s \<Longrightarrow> fw_inv (add_global_stat k n s)"
  by (auto simp: add_global_stat_def inv_defs array_map_upd_present split: option.splits)

lemma inv_global_stats: "fw_inv s \<Longrightarrow> fw_inv (global_stats n s)"
  by (simp add: global_stats_def inv_add_global_stat)

lemma inv_attack: "check_attack_status e s = (a, s') \<Longrightarrow> fw_inv s \<Longrightarrow> fw_inv s'"
  by (auto simp: check_attack_status_def bpf_ktime_get_ns_def Let_def inv_defs split: option.splits if_splits)

lemma inv_fuse: "trigger_fuse_ratelimit e s = (a, s') \<Longrightarrow> fw_inv s \<Longrightarrow> fw_inv s'"
  by (auto simp: trigger_fuse_ratelimit_def bpf_ktime_get_ns_def Let_def inv_defs
      split: option.splits prod.splits)

lemma inv_global_tokens: "consume_global_tokens e s n = (a, s') \<Longrightarrow> fw_inv s \<Longrightarrow> fw_inv s'"
  by (auto simp: consume_global_tokens_def bpf_ktime_get_ns_def Let_def inv_defs
      split: option.splits prod.splits)

lemma inv_flow_tokens: "consume_flow_tokens e s st n = (a, st', s') \<Longrightarrow> fw_inv s \<Longrightarrow> fw_inv s'"
  by (auto simp: consume_flow_tokens_def bpf_ktime_get_ns_def Let_def inv_defs
      split: option.splits prod.splits)

lemma inv_pps: "consume_global_pps e s = (a, s') \<Longrightarrow> fw_inv s \<Longrightarrow> fw_inv s'"
  by (auto simp: consume_global_pps_def bpf_ktime_get_ns_def Let_def inv_defs
      split: option.splits prod.splits)

lemma inv_put_flow: "fw_inv s \<Longrightarrow> fw_inv (put_flow k st s)"
  by (simp add: put_flow_def inv_defs)

lemma inv_lookup_flow: "lookup_or_create_flow e s k = (r, s') \<Longrightarrow> fw_inv s \<Longrightarrow> fw_inv s'"
  by (auto simp: lookup_or_create_flow_def bpf_ktime_get_ns_def Let_def inv_defs split: option.splits if_splits)

lemma inv_flow_stats: "update_flow_stats e s p st = (r, s') \<Longrightarrow> fw_inv s \<Longrightarrow> fw_inv s'"
  by (auto simp: update_flow_stats_def bpf_ktime_get_ns_def Let_def inv_defs)

lemma inv_block_source: "fw_inv s \<Longrightarrow> fw_inv (block_source e ip s)"
  by (simp add: block_source_def bpf_ktime_get_ns_def Let_def inv_defs)

lemma inv_note_attack: "fw_inv s \<Longrightarrow> fw_inv (note_attack e s)"
  by (auto simp: note_attack_def bpf_ktime_get_ns_def Let_def inv_defs array_map_upd_present split: option.splits)

text \<open>An entry of the connection table may change as long as its state byte stays in the machine.\<close>

lemma inv_put_conn:
  assumes "fw_inv s" and "cs_dpi_state c \<in> dpi_states"
  shows "fw_inv (s\<lparr>established_connections_map := (established_connections_map s)(k \<mapsto> c)\<rparr>)"
  using assms by (auto simp: inv_defs)

lemma inv_conn_state: "fw_inv s \<Longrightarrow> established_connections_map s k = Some c \<Longrightarrow> cs_dpi_state c \<in> dpi_states"
  unfolding fw_inv_def conn_states_ok_def dpi_of_def by (metis option.case(2))

lemma inv_ticks: "fw_inv (s\<lparr>ticks := n\<rparr>) = fw_inv s"
  by (simp add: inv_defs)

lemma inv_check_conn:
  assumes "check_conntrack_and_blacklist e s p (lookup_conn s k) = (v, p', s')" and "fw_inv s"
  shows "fw_inv s'"
proof -
  have touch: "fw_inv (touch_conn k c now (s\<lparr>ticks := n\<rparr>))" if "established_connections_map s k = Some c" for c now n
    unfolding touch_conn_def
    by (rule inv_put_conn) (use assms(2) inv_conn_state [OF assms(2) that] in \<open>simp_all add: inv_ticks\<close>)
  show ?thesis
    using assms touch
    by (auto simp: check_conntrack_and_blacklist_def conn_verdict_def lookup_conn_def bpf_ktime_get_ns_def
        Let_def inv_ticks split: option.splits if_splits)
qed

lemma inv_record_established: "fw_inv s \<Longrightarrow> fw_inv (record_established e s p)"
  by (auto simp: record_established_def touch_conn_def bpf_ktime_get_ns_def Let_def
      intro!: inv_put_conn [where s = "s\<lparr>ticks := _\<rparr>", simplified] dest: inv_conn_state
      simp: inv_ticks split: option.splits)

lemma inv_enforce:
  assumes "enforce_l4_l7_policy_and_dpi e s p c = (r, p', s')" and "fw_inv s"
  shows "fw_inv s'"
  using assms
  by (auto simp: enforce_l4_l7_policy_and_dpi_def Let_def dpi_states_def
      intro!: inv_put_conn inv_note_attack inv_increment_stat dest: inv_fuse
      split: option.splits if_splits prod.splits)

lemma inv_syncookie: "trigger_syncookie_challenge e s b ip th l = (r, b', s') \<Longrightarrow> fw_inv s \<Longrightarrow> fw_inv s'"
  by (auto simp: syncookie_cases intro: inv_increment_stat split: if_splits option.splits)

lemma inv_tcp_challenge: "tcp_challenge e s p ip th = (r, p', s') \<Longrightarrow> fw_inv s \<Longrightarrow> fw_inv s'"
  by (auto simp: tcp_challenge_def Let_def intro!: inv_increment_stat dest: inv_syncookie split: prod.splits if_splits)

lemma inv_handle_tcp: "handle_tcp e s p ip pos = (r, p', s') \<Longrightarrow> fw_inv s \<Longrightarrow> fw_inv s'"
  by (auto simp: handle_tcp_def Let_def intro!: inv_increment_stat
      dest: inv_check_conn inv_enforce inv_tcp_challenge split: option.splits prod.splits if_splits)

lemma inv_handle_udp: "handle_udp e s p ip pos = (r, p', s') \<Longrightarrow> fw_inv s \<Longrightarrow> fw_inv s'"
  unfolding handle_udp_def Let_def
  by (auto split: option.splits) (auto intro!: inv_increment_stat
      dest: inv_check_conn inv_enforce split: prod.splits if_splits)

lemma inv_handle_icmp: "handle_icmp e s p pos = (r, p', s') \<Longrightarrow> fw_inv s \<Longrightarrow> fw_inv s'"
  by (auto simp: handle_icmp_def Let_def intro!: inv_increment_stat dest: inv_enforce
      split: option.splits prod.splits if_splits)

lemma inv_handle_ipv4: "handle_ipv4 e s p ip proto pos = (r, p', s') \<Longrightarrow> fw_inv s \<Longrightarrow> fw_inv s'"
  by (auto simp: handle_ipv4_def handle_other_def Let_def
      dest: inv_handle_tcp inv_handle_udp inv_handle_icmp split: if_splits)

lemma inv_parse: "parse_packet_and_flood_protect e s p = (r, p', s') \<Longrightarrow> fw_inv s \<Longrightarrow> fw_inv s'"
  unfolding parse_packet_and_flood_protect_def Let_def
  by (auto dest: inv_handle_ipv4 inv_attack intro: inv_global_stats split: option.splits prod.splits if_splits)

lemma inv_flow_limit: "flow_limit e s p st w = (p', st', s') \<Longrightarrow> fw_inv s \<Longrightarrow> fw_inv s'"
  by (auto simp: flow_limit_def Let_def intro!: inv_block_source dest: inv_flow_tokens split: prod.splits if_splits)

lemma inv_rate_limits: "rate_limits e s p st w = (p', st', s') \<Longrightarrow> fw_inv s \<Longrightarrow> fw_inv s'"
  by (auto simp: rate_limits_def Let_def dest: inv_flow_limit inv_global_tokens
      split: option.splits prod.splits if_splits)

lemma inv_apply_policy: "apply_policy e s p st = (p', st', s') \<Longrightarrow> fw_inv s \<Longrightarrow> fw_inv s'"
  by (auto simp: apply_policy_def Let_def intro: inv_record_established dest!: inv_rate_limits split: if_splits)

section \<open>Events\<close>

lemma snapshot_ok:
  assumes "length (ev_payload ev) = DPI_PAYLOAD_SNAP_LEN"
  shows "event_ok (snapshot_l3 e p ev)"
proof -
  have "unat (x AND DPI_PAYLOAD_SNAP_LEN_MASK) \<le> DPI_PAYLOAD_SNAP_LEN" for x
    using masked_le [of x] by (simp add: DPI_PAYLOAD_SNAP_LEN_def)
  note le = this
  have "length (overwrite (ev_payload ev) (take (unat (x AND DPI_PAYLOAD_SNAP_LEN_MASK)) src)) = DPI_PAYLOAD_SNAP_LEN"
    for x src
    using le [of x] assms by (subst length_overwrite) auto
  then show ?thesis
    using assms le
    by (auto simp: snapshot_l3_def event_ok_def bpf_probe_read_kernel_def Let_def split: option.splits)
qed

lemma clipped_len:
  "unat (if m > of_nat DPI_PAYLOAD_SNAP_LEN then of_nat DPI_PAYLOAD_SNAP_LEN else m :: u32) \<le> DPI_PAYLOAD_SNAP_LEN"
  by (simp add: DPI_PAYLOAD_SNAP_LEN_def word_less_nat_alt)

lemma process_event_ok:
  assumes "process_event e s p t ev = (ev', s')" and "event_ok ev" and "fw_inv s"
  shows "event_ok ev'" and "fw_inv s'"
proof -
  have snap: "event_ok (snapshot_l3 e p x)" if "ev_payload x = ev_payload ev" for x
    using assms(2) that by (intro snapshot_ok) (simp add: event_ok_def)
  have basic: "event_ok (x\<lparr>ev_payload_len := if m > of_nat DPI_PAYLOAD_SNAP_LEN
      then of_nat DPI_PAYLOAD_SNAP_LEN else m\<rparr>)" if "ev_payload x = ev_payload ev" for x m
    using assms(2) that clipped_len by (simp add: event_ok_def del: if_split)
  consider "ssh_quiet (pc_meta p)" | "\<not> ssh_quiet (pc_meta p)" "t = EVENT_TYPE_L7_DPI"
    | "\<not> ssh_quiet (pc_meta p)" "t \<noteq> EVENT_TYPE_L7_DPI" by blast
  then have "event_ok ev' \<and> fw_inv s'"
  proof cases
    case 1 then show ?thesis using assms by (simp add: process_event_def)
  next
    case 2 then show ?thesis using assms snap by (auto simp: process_event_def Let_def bpf_ktime_get_ns_def inv_ticks)
  next
    case 3
    then have "s' = s\<lparr>ticks := Suc (ticks s)\<rparr>"
      and "\<exists>x. ev_payload x = ev_payload ev \<and> ev' = x\<lparr>ev_payload_len :=
        if pm_payload_len (pc_meta p) > of_nat DPI_PAYLOAD_SNAP_LEN then of_nat DPI_PAYLOAD_SNAP_LEN
        else pm_payload_len (pc_meta p)\<rparr>"
      using assms(1)
      by (auto simp: process_event_def Let_def bpf_ktime_get_ns_def simp del: if_split intro!: exI [of _ "ev\<lparr>ev_ts := ktime e (ticks s),
        ev_pkt_len := pm_pkt_len (pc_meta p), ev_key := pm_key (pc_meta p),
        ev_status_code := pm_status_code (pc_meta p), ev_type := EVENT_TYPE_BASIC\<rparr>"])
    then show ?thesis using basic assms(3) by (auto simp: inv_ticks simp del: if_split)
  qed
  then show "event_ok ev'" "fw_inv s'" by simp_all
qed

lemma inv_put_scratch:
  assumes "fw_inv s" and "event_ok ev"
  shows "fw_inv (s\<lparr>event_scratch_map := (event_scratch_map s)(0 \<mapsto> ev)\<rparr>)"
  using assms by (auto simp: inv_defs)

lemma inv_push: "fw_inv s \<Longrightarrow> fw_inv (push_ol7event e ev s)"
proof -
  have "unat (x AND ucast DPI_PAYLOAD_SNAP_LEN_MASK :: u16) \<le> DPI_PAYLOAD_SNAP_LEN" for x
    using word_and_le_unat [of x "ucast DPI_PAYLOAD_SNAP_LEN_MASK"] by (simp add: mask_1999 DPI_PAYLOAD_SNAP_LEN_def)
  then show "fw_inv s \<Longrightarrow> fw_inv (push_ol7event e ev s)"
    by (auto simp: push_ol7event_def Let_def inv_defs)
qed

lemma bucket_key_bound: "unat (x mod 10000 :: u32) < 10000"
  by (simp add: unat_mod)

lemma inv_report: "fw_inv s \<Longrightarrow> event_ok ev \<Longrightarrow> fw_inv (update_report_map p ev s)"
  using bucket_key_bound by (auto simp: update_report_map_def Let_def inv_defs)

lemma inv_emit:
  assumes "fw_inv s"
  shows "fw_inv (emit_l7_event e s p t)" and "fw_inv (emit_event e s p t)"
proof -
  have "fw_inv (emit_l7_event e s p t) \<and> fw_inv (emit_event e s p t)"
  proof (cases "event_scratch_map s 0")
    case (Some ev)
    obtain ev' s' where p: "process_event e s p t ev = (ev', s')" by fastforce
    have "event_ok ev" using assms Some by (simp add: fw_inv_def scratch_ok_def)
    note ok = process_event_ok [OF p this assms]
    show ?thesis
      using inv_push [OF inv_put_scratch [OF ok(2,1)]] inv_report [OF inv_put_scratch [OF ok(2,1)] ok(1)]
      by (simp add: emit_l7_event_def emit_event_def Some p)
  qed (simp add: emit_l7_event_def emit_event_def assms)
  then show "fw_inv (emit_l7_event e s p t)" "fw_inv (emit_event e s p t)" by simp_all
qed

section \<open>The programs\<close>

lemma inv_leave: "fw_inv s \<Longrightarrow> fw_inv (snd (snd (leave a p s)))"
  by (simp add: leave_def inv_defs)

lemma inv_policy_stage: "fw_inv s \<Longrightarrow> fw_inv (snd (snd (xdp_policy_stage e s p st a)))"
  unfolding xdp_policy_stage_def Let_def
  by (auto intro!: inv_leave inv_put_flow inv_emit dest: inv_apply_policy inv_flow_stats split: prod.split)

lemma inv_limits_stage: "fw_inv s \<Longrightarrow> fw_inv (snd (snd (xdp_limits_stage e s p a)))"
  unfolding xdp_limits_stage_def Let_def
  by (auto intro!: inv_leave inv_policy_stage dest: inv_pps inv_lookup_flow split: prod.split option.split)

lemma inv_init: "init_gconfig_and_gmap s = Some s' \<Longrightarrow> fw_inv s \<Longrightarrow> fw_inv s'"
  by (auto simp: init_gconfig_and_gmap_def inv_defs split: if_splits option.splits)

lemma inv_xdp:
  assumes "xdp_fw e b s = Some (a, b', s')" and "fw_inv s"
  shows "fw_inv s'"
proof -
  obtain s0 where s0: "init_gconfig_and_gmap s = Some s0" using assms(1) by (auto simp: xdp_fw_def split: option.splits)
  obtain r p t where run: "parse_packet_and_flood_protect e s0 (fresh_ctx b) = (r, p, t)" by (metis prod_cases3)
  have wf: "maps_wf s" using assms(2) by (simp add: fw_inv_def)
  have t: "fw_inv t" using inv_parse [OF run] inv_init [OF s0 assms(2)] by blast
  have "fw_inv (snd (snd (leave x p u)))" if "fw_inv u" for x u using that by (rule inv_leave)
  then show ?thesis
    using xdp_fw_stages [OF s0 wf run] assms(1) t inv_leave [OF t] inv_leave [OF inv_emit(1) [OF t]]
      inv_limits_stage [OF t]
    by (auto split: if_splits) (metis snd_conv)+
qed

lemma l7_copy_len_bound: "unat (of_nat (l7_copy_len skb) :: u16) \<le> DPI_PAYLOAD_SNAP_LEN"
  by (simp add: l7_copy_len_def Let_def MAX_L7_PAYLOAD_def DPI_PAYLOAD_SNAP_LEN_def unat_of_nat)

text \<open>The part of the invariant that does not look at the connection table.\<close>

definition rest_ok :: "fw_state \<Rightarrow> bool" where
  "rest_ok s \<longleftrightarrow> maps_wf s \<and> ring_ok s \<and> reports_ok s \<and> scratch_ok s"

lemma rest_put_conn: "rest_ok s \<Longrightarrow> rest_ok (put_conn k c s)"
  by (simp add: rest_ok_def put_conn_def maps_wf_def ring_ok_def reports_ok_def scratch_ok_def)

lemma rest_submit: "submit_l7 e skb k now d s = (ok, s') \<Longrightarrow> rest_ok s \<Longrightarrow> rest_ok s'"
  using l7_copy_len_bound
  by (auto simp: submit_l7_def egress_event_def rest_ok_def maps_wf_def ring_ok_def reports_ok_def scratch_ok_def
      Let_def split: option.splits)

lemma rest_tls_check: "tc_tls_check e skb k off now s = (r, s') \<Longrightarrow> rest_ok s \<Longrightarrow> rest_ok s'"
  by (auto simp: tc_tls_check_def Let_def dest: rest_submit intro: rest_submit [OF surjective_pairing]
      split: option.splits if_splits)

lemma rest_pending: "rest_ok s \<Longrightarrow> rest_ok (tc_pending e skb k off now c s)"
  by (auto simp: tc_pending_def Let_def intro!: rest_put_conn dest: rest_submit [OF _ rest_put_conn]
      split: option.split prod.split)

lemma rest_record: "rest_ok s \<Longrightarrow> rest_ok (tc_record e perm skb k off now s)"
  by (auto simp: tc_record_def tc_classify_def Let_def intro!: rest_put_conn dest: rest_tls_check
      split: option.splits prod.splits if_splits)

lemma rest_egress:
  assumes "rest_ok s"
  shows "rest_ok (tc_egress_record e perm skb s)"
proof -
  have "rest_ok (s\<lparr>ticks := Suc (ticks s)\<rparr>)"
    using assms by (simp add: rest_ok_def ring_ok_def reports_ok_def scratch_ok_def)
  then show ?thesis
    using assms
    by (auto simp: tc_egress_record_def tc_connection_def bpf_ktime_get_ns_def Let_def
        intro!: rest_put_conn rest_pending rest_record split: option.split)
qed

lemma inv_egress: "fw_inv s \<Longrightarrow> fw_inv (tc_egress_record e perm skb s)"
  using rest_egress egress_states_ok by (simp add: fw_inv_def rest_ok_def)

lemma inv_connect: "trace_connect_tp e m l s = (r, s') \<Longrightarrow> fw_inv s \<Longrightarrow> fw_inv s'"
  by (auto simp: trace_connect_tp_def Let_def inv_defs split: option.splits if_splits)

lemma inv_boot: "fw_inv boot_state"
  by (simp add: fw_inv_def boot_state_wf conn_states_ok_def ring_ok_def reports_ok_def scratch_ok_def dpi_of_def)
    (simp add: boot_state_def slots_def event_ok_def zero_event_def)

end
