(* ===== verification/System.thy ===== *)
theory System
  imports Invariant
begin

text \<open>
  The programs together: a step relation over the shared state whose steps are the programs'
  invocations, the kernel's evictions from the LRU maps, and the writes of the userspace program
  to the maps it manages. Invocations are atomic here; the interleaving of one invocation's
  accesses with another's is the subject of theory \<open>FlowRace\<close>.
\<close>

section \<open>The connection table under the ingress program\<close>

text \<open>Two states agree on what the DPI machine knows of every connection.\<close>

definition same_dpi :: "fw_state \<Rightarrow> fw_state \<Rightarrow> bool" where
  "same_dpi s s' \<longleftrightarrow> (\<forall>k. dpi_of s' k = dpi_of s k)"

lemma same_dpi_refl [simp]: "same_dpi s s"
  by (simp add: same_dpi_def)

lemma same_dpi_trans: "same_dpi s t \<Longrightarrow> same_dpi t u \<Longrightarrow> same_dpi s u"
  by (simp add: same_dpi_def)

lemma same_dpi_est: "established_connections_map s' = established_connections_map s \<Longrightarrow> same_dpi s s'"
  by (simp add: same_dpi_def dpi_of_def)

lemma same_dpi_stat: "same_dpi s (increment_stat k s)"
  by (rule same_dpi_est) simp

lemma same_dpi_global_stats: "same_dpi s (global_stats n s)"
  by (rule same_dpi_est) simp

lemma same_dpi_attack: "check_attack_status e s = (a, s') \<Longrightarrow> same_dpi s s'"
  using untouched_attack [of e s a s'] by (intro same_dpi_est) (simp add: untouched_def)

lemma same_dpi_touch:
  "established_connections_map t = established_connections_map s \<Longrightarrow>
   established_connections_map s k = Some c \<Longrightarrow> same_dpi s (touch_conn k c now t)"
  by (simp add: same_dpi_def dpi_of_def touch_conn_def)

lemma same_dpi_check:
  assumes "check_conntrack_and_blacklist e s p (lookup_conn s k) = (v, p', s')"
  shows "same_dpi s s'"
  using assms
  by (auto simp: check_conntrack_and_blacklist_def conn_verdict_def lookup_conn_def bpf_ktime_get_ns_def Let_def
      intro: same_dpi_est same_dpi_touch split: option.splits if_splits)

lemma same_dpi_record: "same_dpi s (record_established e s p)"
  by (auto simp: record_established_def bpf_ktime_get_ns_def Let_def intro: same_dpi_est same_dpi_touch
      split: option.splits) (simp_all add: same_dpi_def dpi_of_def)

lemma same_dpi_enforce:
  assumes "enforce_l4_l7_policy_and_dpi e s p None = (r, p', s')"
  shows "same_dpi s s'"
  using assms
  by (intro same_dpi_est)
    (auto simp: enforce_l4_l7_policy_and_dpi_def trigger_fuse_ratelimit_def note_attack_def bpf_ktime_get_ns_def
      Let_def split: option.splits if_splits prod.splits)

text \<open>The connection check answers every TCP and UDP packet, so the writes of the enforcement step to
  a connection's state are never reached.\<close>

lemma same_dpi_handle_tcp:
  assumes "handle_tcp e s p ip pos = (r, p', s')"
  shows "same_dpi s s'"
proof (cases "parse_tcp (pc_data p) pos ip")
  case (Some t)
  then show ?thesis
    using assms
    by (auto simp: handle_tcp_def Let_def dest: check_spec(1) intro: same_dpi_trans [OF same_dpi_check same_dpi_stat]
        split: prod.splits if_splits)
qed (use assms in \<open>simp add: handle_short\<close>)

lemma same_dpi_handle_udp:
  assumes "handle_udp e s p ip pos = (r, p', s')"
  shows "same_dpi s s'"
proof (cases "parse_udp (pc_data p) pos")
  case (Some t)
  obtain l4 pos' where t: "t = (l4, pos')" by fastforce
  then show ?thesis
    using assms Some
    by (auto simp: handle_udp_def Let_def dest: check_spec(1) simp del: if_split split: prod.splits)
      (auto dest: check_spec(1) intro: same_dpi_check same_dpi_trans [OF same_dpi_check same_dpi_stat] split: if_splits prod.splits)
qed (use assms in \<open>simp add: handle_short\<close>)

lemma same_dpi_handle_icmp:
  assumes "handle_icmp e s p pos = (r, p', s')"
  shows "same_dpi s s'"
  using assms
  by (auto simp: handle_icmp_def Let_def dest: same_dpi_enforce intro: same_dpi_trans [OF same_dpi_enforce same_dpi_stat]
      split: option.splits prod.splits if_splits)

lemma same_dpi_parse:
  assumes "parse_packet_and_flood_protect e s p = (r, p', s')"
  shows "same_dpi s s'"
proof -
  have ip: "handle_ipv4 e t q ip proto pos = (r, p', s') \<Longrightarrow> same_dpi t s'" for t q ip proto pos
    by (auto simp: handle_ipv4_def handle_other_def Let_def
        dest: same_dpi_handle_tcp same_dpi_handle_udp same_dpi_handle_icmp split: if_splits)
  have att: "check_attack_status e (global_stats n s) = (a, t) \<Longrightarrow> same_dpi s t" for n a t
    using same_dpi_trans [OF same_dpi_global_stats same_dpi_attack] by blast
  show ?thesis
    using assms unfolding parse_packet_and_flood_protect_def Let_def
    by (auto dest: att intro: same_dpi_trans [OF att ip] split: option.splits prod.splits if_splits)
qed

text \<open>The later stages write the connection table only through \<open>record_established\<close>.\<close>

lemma est_rate_limits: "rate_limits e s p st w = (p', st', s') \<Longrightarrow> established_connections_map s' = established_connections_map s"
  by (auto simp: rate_limits_def flow_limit_def consume_flow_tokens_def consume_global_tokens_def block_source_def
      bpf_ktime_get_ns_def Let_def split: option.splits prod.splits if_splits)

lemma same_dpi_apply_policy: "apply_policy e s p st = (p', st', s') \<Longrightarrow> same_dpi s s'"
  by (auto simp: apply_policy_def Let_def
      intro: same_dpi_est same_dpi_trans [OF same_dpi_record same_dpi_est] dest: est_rate_limits split: if_splits)

lemma est_emit [simp]:
  "established_connections_map (emit_l7_event e s p t) = established_connections_map s"
  "established_connections_map (emit_event e s p t) = established_connections_map s"
  by (auto simp: emit_l7_event_def emit_event_def process_event_def push_ol7event_def update_report_map_def
      bpf_ktime_get_ns_def Let_def split: option.splits)

lemma est_leave [simp]: "established_connections_map (snd (snd (leave a p s))) = established_connections_map s"
  by (simp add: leave_def)

lemma est_put_flow [simp]: "established_connections_map (put_flow k st s) = established_connections_map s"
  by (simp add: put_flow_def)

lemma same_dpi_policy_stage: "same_dpi s (snd (snd (xdp_policy_stage e s p st a)))"
proof -
  obtain p' st' t where a: "apply_policy e s p (Some st) = (p', st', t)" by (metis prod_cases3)
  have est: "established_connections_map u = established_connections_map t \<Longrightarrow> same_dpi s u" for u
    using same_dpi_trans [OF same_dpi_apply_policy [OF a] same_dpi_est] by blast
  show ?thesis
    by (rule est) (simp add: xdp_policy_stage_def a Let_def update_flow_stats_def bpf_ktime_get_ns_def)
qed

lemma same_dpi_limits_stage: "same_dpi s (snd (snd (xdp_limits_stage e s p a)))"
proof -
  have pps: "consume_global_pps e s = (v, t) \<Longrightarrow> same_dpi s t" for v t
    by (intro same_dpi_est) (auto simp: consume_global_pps_def bpf_ktime_get_ns_def Let_def split: option.splits prod.splits)
  have flow: "lookup_or_create_flow e t k = (r, u) \<Longrightarrow> same_dpi t u" for t k r u
    by (intro same_dpi_est)
      (auto simp: lookup_or_create_flow_def bpf_ktime_get_ns_def Let_def split: option.splits if_splits)
  have lv: "same_dpi s t \<Longrightarrow> same_dpi s (snd (snd (leave a p t)))" for t a p
    by (rule same_dpi_trans) (auto intro: same_dpi_est)
  show ?thesis
    unfolding xdp_limits_stage_def Let_def
    by (auto intro!: lv intro: same_dpi_trans [OF same_dpi_trans [OF pps flow]] same_dpi_policy_stage pps
        same_dpi_trans [OF pps flow] split: prod.split option.split)
qed

lemma xdp_same_dpi:
  assumes "xdp_fw e b s = Some (a, b', s')" and "maps_wf s"
  shows "same_dpi s s'"
proof -
  obtain s0 where s0: "init_gconfig_and_gmap s = Some s0" using assms(1) by (auto simp: xdp_fw_def split: option.splits)
  have i: "same_dpi s s0"
    using s0 by (intro same_dpi_est) (auto simp: init_gconfig_and_gmap_def split: if_splits option.splits)
  obtain r p t where run: "parse_packet_and_flood_protect e s0 (fresh_ctx b) = (r, p, t)" by (metis prod_cases3)
  have t: "same_dpi s t" by (rule same_dpi_trans [OF i same_dpi_parse [OF run]])
  have "s' = snd (snd
    (if r < 0 then leave (resolve_action p) p t
     else if r = 1 then leave XDP_PASS p t
     else if r = 3 then leave XDP_PASS p (emit_l7_event e t p EVENT_TYPE_L7_DPI)
     else xdp_limits_stage e t p (resolve_action p)))"
    using xdp_fw_stages [OF s0 assms(2) run] assms(1) by (metis option.inject snd_conv)
  then have "same_dpi t s'"
    using same_dpi_limits_stage [of t e p "resolve_action p"] by (auto intro!: same_dpi_est split: if_splits)
  then show ?thesis by (rule same_dpi_trans [OF t])
qed

section \<open>Steps of the system\<close>

inductive sys_step :: "(u32 \<rightharpoonup> blacklist_val) \<Rightarrow> fw_state \<Rightarrow> fw_state \<Rightarrow> bool"
  for perm where
  ingress: "xdp_fw e b s = Some (a, b', s') \<Longrightarrow> sys_step perm s s'"
| egress: "sys_step perm s (tc_egress_record e perm skb s)"
| connect: "trace_connect_tp e m l s = (r, s') \<Longrightarrow> sys_step perm s s'"
| evict_conn: "sys_step perm s (s\<lparr>established_connections_map := (established_connections_map s)(k := None)\<rparr>)"
| evict_flow: "sys_step perm s (s\<lparr>flow_table := (flow_table s)(k := None)\<rparr>)"
| evict_rule: "sys_step perm s (s\<lparr>whitelist_rules_map := (whitelist_rules_map s)(r := None)\<rparr>)"
| evict_temp: "sys_step perm s (s\<lparr>temp_blocklist_map := (temp_blocklist_map s)(ip := None)\<rparr>)"
| user_temp: "sys_step perm s (s\<lparr>temp_blocklist_map := (temp_blocklist_map s)(ip := bv)\<rparr>)"
| user_perm: "sys_step perm s (s\<lparr>permanent_blocklist_map := (permanent_blocklist_map s)(ip := bv)\<rparr>)"
| user_port: "sys_step perm s (s\<lparr>ingress_allowed_ports := (ingress_allowed_ports s)(port := v)\<rparr>)"
| user_egress_port: "sys_step perm s (s\<lparr>egress_allowed_ports := (egress_allowed_ports s)(port := v)\<rparr>)"
| user_pps: "sys_step perm s (s\<lparr>global_pps_map := (global_pps_map s)(0 \<mapsto> b)\<rparr>)"
| user_config: "sys_step perm s (s\<lparr>global_config_map := (global_config_map s)(0 \<mapsto> g)\<rparr>)"
| user_subnet: "sys_step perm s (s\<lparr>LOCAL_SUBNET_NET := net, LOCAL_SUBNET_MASK := msk\<rparr>)"
| ring_consumed: "sys_step perm s (s\<lparr>l7_dpi_ringbuf := drop n (l7_dpi_ringbuf s)\<rparr>)"
| report_taken: "sys_step perm s (s\<lparr>report_to_user_map := (report_to_user_map s)(key := None)\<rparr>)"

inductive reachable :: "(u32 \<rightharpoonup> blacklist_val) \<Rightarrow> fw_state \<Rightarrow> bool" for perm where
  boot: "reachable perm boot_state"
| step: "reachable perm s \<Longrightarrow> sys_step perm s s' \<Longrightarrow> reachable perm s'"

lemma fun_upd_None_ran: "(m(k := None)) x = Some v \<Longrightarrow> m x = Some v"
  by (simp split: if_splits)

lemma inv_step: "sys_step perm s s' \<Longrightarrow> fw_inv s \<Longrightarrow> fw_inv s'"
proof (induction rule: sys_step.induct)
  case (ingress e b s a b' s')
  then show ?case by (rule inv_xdp)
next
  case (egress s e skb)
  then show ?case by (rule inv_egress)
next
  case (connect e m l s r s')
  then show ?case by (rule inv_connect)
next
  case (ring_consumed s n)
  then show ?case by (auto simp: inv_defs dest: in_set_dropD)
qed (auto simp: inv_defs split: option.splits if_splits)

lemma reachable_inv: "reachable perm s \<Longrightarrow> fw_inv s"
  by (induction rule: reachable.induct) (auto intro: inv_boot inv_step)

text \<open>One step of the system is a step of the machine for every connection that stays in the table.\<close>

lemma egress_new_blocklist:
  assumes "conn_states_ok s" and "dpi_of (tc_egress_record e perm skb s) k = 2"
  shows "dpi_of s k = 2 \<or> perm (fk_daddr k) \<noteq> None"
proof (cases "egress_tracked skb \<and> egress_key skb = k")
  case True
  have st: "dpi_of s k \<in> dpi_states" using assms(1) by (simp add: conn_states_ok_def)
  have eff: "tc_effect k s (tc_egress_record e perm skb s) \<or> tc_refused k s (tc_egress_record e perm skb s)"
    using egress_effect [OF assms(1), of skb e perm] True by auto
  note step = tc_effect_dpi(1) [OF eff st, unfolded assms(2)]
  show ?thesis
  proof (cases "dpi_of s k = 0")
    case False
    then show ?thesis using st step by (elim dpi_states_cases) (simp_all add: dpi_step_table)
  next
    case zero: True
    define t where "t = s\<lparr>ticks := Suc (ticks s)\<rparr>"
    define off where "off = 14 + unat (ip_ihl (skb_bytes skb) L3_OFFSET) * 4"
    have t_est: "established_connections_map t = established_connections_map s" by (simp add: t_def)
    have run: "tc_egress_record e perm skb s = tc_record e perm skb k off (ktime e (ticks s)) t"
      using zero True
      by (auto simp: tc_egress_record_def tc_connection_def bpf_ktime_get_ns_def Let_def t_def off_def dpi_of_def
          dpi_consts split: option.splits)
    obtain r u where c: "tc_classify e perm skb k off (ktime e (ticks s)) t = (r, u)" by fastforce
    from tc_classify_effect [OF c] obtain d v where r: "r = Some (d, v)" and "d = DPI_BLOCKLIST \<longrightarrow> perm (fk_daddr k) \<noteq> None"
      and "established_connections_map u = established_connections_map t"
      and "d \<in> {DPI_UNKNOWN, DPI_IGNORE, DPI_BLOCKLIST, DPI_TLS_PENDING}" by blast
    then show ?thesis
      using assms(2) zero t_est unfolding run by (auto simp: tc_record_def c put_conn_def dpi_of_def dpi_consts split: if_splits)
  qed
next
  case False
  then show ?thesis
    using assms egress_effect [OF assms(1), of skb e perm] tc_effect_dpi(2) unfolding conn_states_ok_def by (metis (full_types))
qed

lemma step_dpi:
  assumes "sys_step perm s s'" and "fw_inv s"
  shows "dpi_of s' k = 0 \<and> established_connections_map s' k = None \<or>
    dpi_step (dpi_of s k) (dpi_of s' k) \<and> (dpi_of s' k = 2 \<longrightarrow> dpi_of s k = 2 \<or> perm (fk_daddr k) \<noteq> None)"
proof -
  have ok: "conn_states_ok s" and wf: "maps_wf s" using assms(2) by (simp_all add: fw_inv_def)
  then have refl: "same_dpi s t \<Longrightarrow> dpi_step (dpi_of s k) (dpi_of t k) \<and> (dpi_of t k = 2 \<longrightarrow> dpi_of s k = 2)" for t
    using dpi_step_refl by (simp add: same_dpi_def conn_states_ok_def)
  from assms(1) show ?thesis
  proof (cases rule: sys_step.cases)
    case (ingress e b a b')
    then show ?thesis using refl [OF xdp_same_dpi [OF _ wf]] by blast
  next
    case (egress e skb)
    have "dpi_step (dpi_of s k) (dpi_of s' k)"
      using egress egress_effect [OF ok, of skb e perm] tc_effect_dpi dpi_step_refl ok unfolding conn_states_ok_def
      by (metis (full_types))
    then show ?thesis using egress egress_new_blocklist [OF ok] by blast
  next
    case (connect e m l r)
    then have "same_dpi s s'"
      by (intro same_dpi_est) (auto simp: trace_connect_tp_def Let_def split: option.splits if_splits)
    then show ?thesis using refl by blast
  next
    case (evict_conn k')
    then show ?thesis
      using refl [OF same_dpi_refl] by (cases "k' = k") (auto simp: dpi_of_def)
  qed (use refl same_dpi_est in \<open>auto\<close>)
qed

lemma no_violation: "reachable perm s \<Longrightarrow> perm = Map.empty \<Longrightarrow> dpi_of s k \<noteq> 2"
proof (induction rule: reachable.induct)
  case boot
  then show ?case by (simp add: dpi_of_def boot_state_def)
next
  case (step s s')
  have "(0 :: u8) \<noteq> 2" by simp
  then show ?case using step step_dpi [OF step(2) reachable_inv [OF step(1)], of k] by auto
qed

end
