(* ===== verification/Guarantees.thy ===== *)
theory Guarantees
  imports System Samples
begin

text \<open>
  What the ingress program promises, end to end: its verdict on every packet, the reply to a
  recorded conversation, and what its rate limits do not enforce; that every header field it
  reads lies inside the packet; the window of a temporary block.
\<close>

section \<open>The verdict\<close>

text \<open>C1: On well-formed maps the ingress program always returns, it returns exactly the verdict of
  the table, and it leaves the packet as it was. So: malformed frames, IPv6 and all ICMP are
  dropped; ARP and every other non-IPv4 ethertype pass; an unfragmented TCP or UDP packet passes if
  and only if its conversation was recorded by the egress program, is not marked as violating and
  its source is not listed at the time of the check; fragments and other protocols depend on the
  packet-rate limit, the broadcast filter and (TCP, UDP) the entry for port 0.\<close>

theorem xdp_fw_refines:
  assumes "maps_wf s" and "init_gconfig_and_gmap s = Some s0"
  shows "\<exists>s'. xdp_fw e b s = Some (verdict_spec e s0 b, b, s')"
  by (rule xdp_fw_verdict [OF assms])

theorem xdp_fw_refines_witness:
  "\<exists>s'. xdp_fw (still_env 5) server_segment running = Some (XDP_DROP, server_segment, s')"
  using xdp_fw_refines [OF running_wf, of "still_env 5" server_segment] by (simp add: verdict_samples)

section \<open>Replies\<close>

text \<open>A packet whose conversation is open is passed; initialisation does not matter to it.\<close>

lemma init_same:
  assumes "init_gconfig_and_gmap s = Some s0"
  shows "established_connections_map s0 = established_connections_map s" and "listed s0 = listed s"
    and "stage_time e s0 = stage_time e s"
  using assms
  by (auto simp: init_gconfig_and_gmap_def listed_def stage_time_def attack_reads_def fun_eq_iff
      split: if_splits option.splits)

lemma open_conversation_passes:
  assumes "maps_wf s" and "classify b = Conversation ip l4"
    and "established_connections_map s (conn_lookup_key b ip l4) = Some c" and "cs_dpi_state c \<noteq> 2"
    and "\<not> listed s (stage_time e s) (ip_saddr b ip)"
  shows "\<exists>s'. xdp_fw e b s = Some (XDP_PASS, b, s')"
proof -
  obtain s0 where s0: "init_gconfig_and_gmap s = Some s0" using init_some [OF assms(1)] by blast
  from xdp_fw_verdict [OF assms(1) this, of e b] show ?thesis
    using assms(2-5) init_same [OF s0] by (simp add: verdict_spec_def conn_open_def)
qed

text \<open>The egress program does not touch what else the verdict depends on.\<close>

definition same_lists :: "fw_state \<Rightarrow> fw_state \<Rightarrow> bool" where
  "same_lists s s' \<longleftrightarrow> temp_blocklist_map s' = temp_blocklist_map s \<and>
     permanent_blocklist_map s' = permanent_blocklist_map s \<and>
     attack_status_map s' = attack_status_map s"

lemma same_lists_refl [simp]: "same_lists s s"
  by (simp add: same_lists_def)

lemma same_lists_put_conn [simp]: "same_lists s (put_conn k c t) = same_lists s t"
  by (simp add: same_lists_def put_conn_def)

lemma same_lists_submit: "submit_l7 e skb k now d t = (ok, t') \<Longrightarrow> same_lists s t \<Longrightarrow> same_lists s t'"
  by (auto simp: submit_l7_def same_lists_def Let_def split: option.splits)

lemma same_lists_tls: "tc_tls_check e skb k off now t = (r, t') \<Longrightarrow> same_lists s t \<Longrightarrow> same_lists s t'"
  by (auto simp: tc_tls_check_def Let_def intro: same_lists_submit [OF surjective_pairing] split: option.splits if_splits)

lemma same_lists_record: "same_lists s t \<Longrightarrow> same_lists s (tc_record e perm skb k off now t)"
  by (auto simp: tc_record_def tc_classify_def Let_def dest: same_lists_tls split: option.splits prod.splits if_splits)

lemma same_lists_pending: "same_lists s t \<Longrightarrow> same_lists s (tc_pending e skb k off now c t)"
  by (auto simp: tc_pending_def Let_def dest: same_lists_submit [where s = s] split: option.split prod.split)

lemma same_lists_egress: "same_lists s (tc_egress_record e perm skb s)"
proof -
  have "same_lists s (s\<lparr>ticks := n\<rparr>)" for n by (simp add: same_lists_def)
  then show ?thesis
    by (auto simp: tc_egress_record_def tc_connection_def bpf_ktime_get_ns_def Let_def
        intro!: same_lists_record same_lists_pending split: option.split)
qed

text \<open>C2: Stateful filtering end to end. When the host has sent a TCP or UDP packet, and the kernel has not
  refused a new entry for its conversation, an incoming packet of
  the same conversation in the other direction (its reversed key is the key the egress program
  recorded) is passed, whatever the rate limits say, unless its source is on a block list at the
  time or the conversation is blocked: the two programs, which build the key independently from
  the two directions, agree on it.\<close>

theorem reply_passes:
  assumes "reachable perm s" and "egress_tracked skb"
    and "perm (fk_daddr (egress_key skb)) = None" and "dpi_of s (egress_key skb) \<noteq> DPI_BLOCKLIST"
    and "conn_insert_ok e \<or> established_connections_map s (egress_key skb) \<noteq> None"
    and "classify b = Conversation ip l4" and "conn_lookup_key b ip l4 = egress_key skb"
    and "\<not> listed s (stage_time e' (tc_egress_record e perm skb s)) (ip_saddr b ip)"
  shows "\<exists>s'. xdp_fw e' b (tc_egress_record e perm skb s) = Some (XDP_PASS, b, s')"
proof -
  define s1 where "s1 = tc_egress_record e perm skb s"
  have inv: "fw_inv s" by (rule reachable_inv [OF assms(1)])
  then have ok: "conn_states_ok s" by (simp add: fw_inv_def)
  have lists: "same_lists s s1" unfolding s1_def by (rule same_lists_egress)
  have "tc_effect (egress_key skb) s s1 \<or> \<not> conn_insert_ok e \<and> tc_refused (egress_key skb) s s1"
    using egress_effect [OF ok, of skb e perm] assms(2) by (simp add: s1_def)
  then obtain c where c: "established_connections_map s1 (egress_key skb) = Some c"
    using assms(5) by (auto simp: tc_effect_def tc_refused_def)
  have "dpi_of s1 (egress_key skb) \<noteq> 2"
    using egress_new_blocklist [OF ok, of e perm skb "egress_key skb"] assms(3,4)
    by (auto simp: s1_def DPI_BLOCKLIST_def)
  then have "cs_dpi_state c \<noteq> 2" using c by (simp add: dpi_of_def)
  moreover have "maps_wf s1" using inv_egress [OF inv] by (simp add: s1_def fw_inv_def)
  moreover have "listed s1 = listed s" using lists by (simp add: same_lists_def listed_def fun_eq_iff)
  ultimately show ?thesis
    using open_conversation_passes [of s1 b ip l4 c e'] c assms(6,7,8) lists
    by (simp add: s1_def [symmetric] same_lists_def)
qed

theorem reply_passes_witness:
  "\<exists>s'. xdp_fw (still_env 5) server_segment (tc_egress_record (still_env 4) Map.empty client_hello boot_state) =
     Some (XDP_PASS, server_segment, s')"
  by (rule reply_passes [OF reachable.boot, of client_hello Map.empty "still_env 4" server_segment 14 34 "still_env 5"])
    (simp_all add: key_samples classify_samples dpi_of_def boot_state_def listed_def DPI_BLOCKLIST_def still_env_def)

section \<open>Rate limits\<close>

text \<open>C14: The byte limits do not reach the verdict. Whatever the content of the global byte bucket, the
  configured global and per-flow rates and bursts, the whitelist rules, and the tokens, rates and
  bursts of the flows in the table: the program returns the same action for every packet. The
  policy stage does compute a drop status for an exhausted bucket (lemma \<open>rate_limits_status\<close>), but the
  program returns the action resolved before that stage; of the decisions of
  \<open>apply_policy\<close> only the port gate is enforced.\<close>

theorem byte_limits_not_enforced:
  assumes "maps_wf s" and "isInitialed s" and "\<forall>k. ft k = None \<longleftrightarrow> flow_table s k = None"
    and "array_map 1 gbm"
  shows "map_option fst (xdp_fw e b (s\<lparr>global_bucket_map := gbm, GLOBAL_RATE_BYTES_PER_SEC := gr, GLOBAL_BURST := gb,
      FLOW_RATE_BYTES_PER_SEC := fr, FLOW_BURST := fb, whitelist_rules_map := wl, flow_table := ft\<rparr>)) =
    map_option fst (xdp_fw e b s)"
proof -
  define t where "t = s\<lparr>global_bucket_map := gbm, GLOBAL_RATE_BYTES_PER_SEC := gr, GLOBAL_BURST := gb,
      FLOW_RATE_BYTES_PER_SEC := fr, FLOW_BURST := fb, whitelist_rules_map := wl, flow_table := ft\<rparr>"
  have t: "maps_wf t" "init_gconfig_and_gmap t = Some t" "init_gconfig_and_gmap s = Some s"
    using assms by (simp_all add: t_def maps_wf_def init_gconfig_and_gmap_def)
  have "listed t = listed s" "stage_time e t = stage_time e s" "pps_pass t = pps_pass s"
    "verify_broadcast_and_policy t = verify_broadcast_and_policy s" "is_port_allowed t = is_port_allowed s"
    by (simp_all add: fun_eq_iff t_def listed_def stage_time_def attack_reads_def pps_pass_def
        verify_broadcast_and_policy_def is_port_allowed_def cong: option.case_cong)
  then have "verdict_spec e t b = verdict_spec e s b"
    using assms(3)
    by (simp add: verdict_spec_def conn_open_def uninspected_pass_def t_def split: frame_class.split)
  then show ?thesis
    using xdp_fw_verdict [OF t(1,2), of e b] xdp_fw_verdict [OF assms(1) t(3), of e b] by (auto simp: t_def)
qed

lemma running_parts: "isInitialed running" "flow_table running = Map.empty"
  by (simp_all add: running_def boot_state_def)

text \<open>A GRE packet of 38 bytes against a global bucket that holds one token and never refills.\<close>

theorem byte_limits_not_enforced_witness:
  "map_option fst (xdp_fw (still_env 3000000000) gre_packet (running\<lparr>global_bucket_map := slots 1 \<lparr>gb_tokens = 1, gb_last_ts = 1\<rparr>,
      GLOBAL_RATE_BYTES_PER_SEC := 0, GLOBAL_BURST := 1, FLOW_RATE_BYTES_PER_SEC := 0, FLOW_BURST := 0,
      whitelist_rules_map := Map.empty, flow_table := Map.empty\<rparr>)) = Some XDP_PASS"
proof -
  have "\<exists>s'. xdp_fw (still_env 3000000000) gre_packet running = Some (XDP_PASS, gre_packet, s')"
    using xdp_fw_verdict [OF running_wf, of "still_env 3000000000" gre_packet] by (simp add: verdict_samples)
  then show ?thesis
    by (subst byte_limits_not_enforced [OF running_wf(1) running_parts(1)]) (auto simp: running_parts(2))
qed

section \<open>Tagged frames\<close>

definition is_vlan_type :: "u16 \<Rightarrow> bool" where
  [eval_defs]: "is_vlan_type t \<longleftrightarrow> t = bpf_htons ETH_P_8021Q \<or> t = bpf_htons ETH_P_8021AD"

lemma triple_tag_class:
  assumes "22 \<le> length b" and "is_vlan_type (ld16 b 12)" and "is_vlan_type (ld16 b 16)" and "is_vlan_type (ld16 b 20)"
  shows "classify b = OtherFrame"
proof -
  have types: "is_vlan_type t \<Longrightarrow> t \<noteq> bpf_htons ETH_P_IP \<and> t \<noteq> bpf_htons ETH_P_ARP \<and> t \<noteq> bpf_htons ETH_P_IPV6" for t
    by (auto simp: is_vlan_type_def eval_defs)
  have "parse_eth b 0 = Some (0, ld16 b 12, 14)"
    using assms(1) by (simp add: parse_eth_def sizeof_ethhdr_def eth_h_proto_def)
  moreover have "parse_vlan_stack b 14 (ld16 b 12) = Some (ld16 b 20, 22)"
    using assms by (auto simp: parse_vlan_stack_def vlan_two sizeof_vlan_hdr_def vlan_encapsulated_proto_def is_vlan_type_def)
  ultimately show ?thesis using types [OF assms(4)] by (simp add: classify_def)
qed

text \<open>A hole in the filter: the parser strips two VLAN tags, and a frame whose ethertype is then
  neither IPv4, ARP nor IPv6 leaves with an empty status code, which resolves to a pass. So a frame
  with three stacked tags is passed in every state, whatever it carries and whoever is blocked.\<close>

theorem triple_tag_passes:
  assumes "maps_wf s" and "22 \<le> length b"
    and "is_vlan_type (ld16 b 12)" and "is_vlan_type (ld16 b 16)" and "is_vlan_type (ld16 b 20)"
  shows "\<exists>s'. xdp_fw e b s = Some (XDP_PASS, b, s')"
proof -
  obtain s0 where "init_gconfig_and_gmap s = Some s0" using init_some [OF assms(1)] by blast
  from xdp_fw_verdict [OF assms(1) this, of e b] show ?thesis
    using triple_tag_class [OF assms(2-5)] by (simp add: verdict_spec_def)
qed

text \<open>A triple-tagged copy of the server's segment, with every address on the permanent block list.\<close>

definition triple_tagged :: bytes where
  [eval_defs]: "triple_tagged = take 12 eth_header @ [0x81, 0, 0, 1, 0x81, 0, 0, 2, 0x81, 0, 0, 3] @ drop 12 server_segment"

definition block_all :: fw_state where
  [eval_defs]: "block_all = running\<lparr>permanent_blocklist_map :=
     (\<lambda>_. Some \<lparr>bv_action = 1, bv_reason = 0, bv_start_absolute_ns = 0, bv_end_absolute_ns = 0\<rparr>)\<rparr>"

theorem triple_tag_passes_witness:
  "\<exists>s'. xdp_fw (still_env 5) triple_tagged block_all = Some (XDP_PASS, triple_tagged, s')"
proof (rule triple_tag_passes)
  show "maps_wf block_all" using running_wf(1) by (simp add: block_all_def maps_wf_def)
qed (simp_all add: run_defs triple_tagged_def is_vlan_type_def)

section \<open>Memory safety\<close>

section \<open>Flood protection\<close>

lemma fuse_frame:
  "fuse_ratelimit_map (increment_stat k s) = fuse_ratelimit_map s"
  "attack_status_map (increment_stat k s) = attack_status_map s"
  "fuse_ratelimit_map (global_stats n s) = fuse_ratelimit_map s"
  by (simp_all add: increment_stat_def global_stats_def add_global_stat_def split: option.splits)

definition same_fuse :: "fw_state \<Rightarrow> fw_state \<Rightarrow> bool" where
  "same_fuse s s' \<longleftrightarrow> fuse_ratelimit_map s' = fuse_ratelimit_map s \<and> attack_status_map s' = attack_status_map s"

lemma same_fuse_simps [simp]:
  "same_fuse s s" "same_fuse s (increment_stat k t) = same_fuse s t" "same_fuse s (global_stats n t) = same_fuse s t"
  "same_fuse s (put_flow key st t) = same_fuse s t" "same_fuse s (snd (snd (leave a p t))) = same_fuse s t"
  "same_fuse s (touch_conn key c now t) = same_fuse s t" "same_fuse s (t\<lparr>ticks := tk\<rparr>) = same_fuse s t"
  by (simp_all add: same_fuse_def fuse_frame put_flow_def leave_def touch_conn_def)

lemma same_fuse_trans: "same_fuse s t \<Longrightarrow> same_fuse t u \<Longrightarrow> same_fuse s u"
  by (simp add: same_fuse_def)

lemma same_fuse_check:
  "check_conntrack_and_blacklist e s p (lookup_conn s k) = (v, p', s') \<Longrightarrow> same_fuse s s'"
  by (auto simp: check_conntrack_and_blacklist_def conn_verdict_def lookup_conn_def bpf_ktime_get_ns_def Let_def
      split: option.splits if_splits)

lemma same_fuse_tcp:
  assumes "handle_tcp e s p ip pos = (r, p', s')"
  shows "same_fuse s s'"
proof (cases "parse_tcp (pc_data p) pos ip")
  case (Some t)
  then show ?thesis
    using assms
    by (auto simp: handle_tcp_def Let_def dest: check_spec(1) same_fuse_check split: prod.splits if_splits)
qed (use assms in \<open>simp add: handle_short\<close>)

lemma same_fuse_udp:
  assumes "handle_udp e s p ip pos = (r, p', s')"
  shows "same_fuse s s'"
proof (cases "parse_udp (pc_data p) pos")
  case (Some t)
  then show ?thesis
    using assms
    by (auto simp: handle_udp_def Let_def simp del: if_split split: prod.splits)
      (auto dest: check_spec(1) same_fuse_check split: if_splits prod.splits)
qed (use assms in \<open>simp add: handle_short\<close>)

lemma same_fuse_ipv4:
  assumes "parse_ipv4 b ip = Some (i, proto, pos)" and "pc_data p = b"
    and "handle_ipv4 e s p ip proto pos = (r, p', s')" and "\<forall>x. classify_ipv4 b ip \<noteq> IcmpPacket x"
  shows "same_fuse s s'"
proof -
  have icmp: "IPPROTO_ICMP \<noteq> IPPROTO_TCP" "IPPROTO_ICMP \<noteq> IPPROTO_UDP"
    by (simp_all add: IPPROTO_TCP_def IPPROTO_UDP_def IPPROTO_ICMP_def)
  show ?thesis
  proof (cases "proto = IPPROTO_ICMP \<and> \<not> is_fragment b ip")
    case True
    then have "parse_icmp b pos = None"
      using assms(1,4) icmp by (simp add: classify_ipv4_def split: option.splits)
    then show ?thesis
      using assms(2,3) True icmp
      by (simp add: handle_ipv4_def Let_def is_fragment_def handle_icmp_def upd_key_def)
  next
    case False
    then show ?thesis
      using assms(2,3)
      by (auto simp: handle_ipv4_def handle_other_def Let_def is_fragment_def dest: same_fuse_tcp same_fuse_udp
          split: if_splits)
  qed
qed

lemma same_fuse_attack: "check_attack_status e s = (a, s') \<Longrightarrow> same_fuse s s'"
  by (auto simp: check_attack_status_def same_fuse_def bpf_ktime_get_ns_def Let_def split: option.splits if_splits)

lemma same_fuse_parse:
  assumes "parse_packet_and_flood_protect e s (fresh_ctx b) = (r, p', s')" and "\<forall>x. classify b \<noteq> IcmpPacket x"
  shows "same_fuse s s'"
proof -
  have att: "check_attack_status e (global_stats n s) = (a, t) \<Longrightarrow> same_fuse s t" for n a t
    using same_fuse_trans [of s "global_stats n s" t] same_fuse_attack by simp
  show ?thesis
  proof (cases "\<exists>i t pos pos'. parse_eth b 0 = Some (i, t, pos) \<and> parse_vlan_stack b pos t = Some (bpf_htons ETH_P_IP, pos')")
    case True
    then obtain i t pos pos' where
      l2: "parse_eth b 0 = Some (i, t, pos)" "parse_vlan_stack b pos t = Some (bpf_htons ETH_P_IP, pos')" by blast
    then have no: "\<forall>x. classify_ipv4 b pos' \<noteq> IcmpPacket x" using assms(2) by (simp add: classify_def)
    have "same_fuse u s'" if "handle_ipv4 e u q pos' x1 x2 = (r, p', s')" "pc_data q = b"
      "parse_ipv4 b pos' = Some (x0, x1, x2)" for u q x0 x1 x2
      by (rule same_fuse_ipv4 [OF that(3,2,1) no])
    note ip = same_fuse_trans [OF att this]
    show ?thesis
      using assms(1) l2 unfolding parse_packet_and_flood_protect_def Let_def
      by (auto dest: att split: option.splits prod.splits) (erule ip, assumption, simp_all)
  next
    case False
    then show ?thesis
      using assms(1) unfolding parse_packet_and_flood_protect_def Let_def
      by (auto dest: att split: option.splits prod.splits if_splits)
  qed
qed

lemma same_fuse_limits: "rate_limits e s p st w = (p', st', s') \<Longrightarrow> same_fuse s s'"
  by (auto simp: rate_limits_def flow_limit_def consume_flow_tokens_def consume_global_tokens_def
      block_source_def same_fuse_def bpf_ktime_get_ns_def Let_def split: option.splits prod.splits if_splits)

lemma same_fuse_record: "same_fuse s (record_established e s p)"
  by (auto simp: record_established_def touch_conn_def same_fuse_def bpf_ktime_get_ns_def Let_def split: option.split)

lemma same_fuse_policy: "apply_policy e s p st = (p', st', s') \<Longrightarrow> same_fuse s s'"
  by (auto simp: apply_policy_def Let_def intro: same_fuse_trans [OF same_fuse_record same_fuse_limits]
      dest: same_fuse_limits split: if_splits)

lemma same_fuse_emit [simp]:
  "same_fuse s (emit_l7_event e t p k) = same_fuse s t" "same_fuse s (emit_event e t p k) = same_fuse s t"
  by (auto simp: emit_l7_event_def emit_event_def process_event_def push_ol7event_def update_report_map_def
      same_fuse_def bpf_ktime_get_ns_def Let_def split: option.split prod.split)

lemma same_fuse_policy_stage: "same_fuse s (snd (snd (xdp_policy_stage e s p st a)))"
proof -
  obtain p' st' t where a: "apply_policy e s p (Some st) = (p', st', t)" by (metis prod_cases3)
  show ?thesis
    using same_fuse_policy [OF a] by (simp add: xdp_policy_stage_def a Let_def update_flow_stats_def bpf_ktime_get_ns_def)
qed

lemma same_fuse_limits_stage: "same_fuse s (snd (snd (xdp_limits_stage e s p a)))"
proof -
  obtain v t where pps: "consume_global_pps e s = (v, t)" by fastforce
  have t: "same_fuse s t"
    using pps by (auto simp: consume_global_pps_def same_fuse_def bpf_ktime_get_ns_def Let_def split: option.splits prod.splits)
  obtain r u where flow: "lookup_or_create_flow e t (pm_key (pc_meta (build_flow_key p))) = (r, u)" by fastforce
  have "same_fuse t u"
    using flow by (auto simp: lookup_or_create_flow_def same_fuse_def bpf_ktime_get_ns_def Let_def split: option.splits if_splits)
  then have u: "same_fuse s u" by (rule same_fuse_trans [OF t])
  show ?thesis
    using t u same_fuse_trans [OF u same_fuse_policy_stage]
    by (simp add: xdp_limits_stage_def pps flow Let_def split: option.split)
qed

text \<open>C15: The flood protection sees ICMP only. A packet of any other class neither consumes a fuse token
  nor changes the attack mode: the connection check answers every TCP and UDP packet before the
  fuse, so a flood of SYNs or of UDP datagrams cannot blow it, cannot start the attack mode, and
  cannot trigger a SYN cookie challenge.\<close>

theorem fuse_sees_icmp_only:
  assumes "maps_wf s" and "\<forall>ip. classify b \<noteq> IcmpPacket ip" and "xdp_fw e b s = Some (a, b', s')"
  shows "fuse_ratelimit_map s' = fuse_ratelimit_map s \<and> attack_status_map s' = attack_status_map s"
proof -
  obtain s0 where s0: "init_gconfig_and_gmap s = Some s0" using init_some [OF assms(1)] by blast
  have i: "same_fuse s s0"
    using s0 by (auto simp: init_gconfig_and_gmap_def same_fuse_def split: if_splits option.splits)
  obtain r p t where run: "parse_packet_and_flood_protect e s0 (fresh_ctx b) = (r, p, t)" by (metis prod_cases3)
  have t: "same_fuse s t" by (rule same_fuse_trans [OF i same_fuse_parse [OF run assms(2)]])
  have "s' = snd (snd
    (if r < 0 then leave (resolve_action p) p t
     else if r = 1 then leave XDP_PASS p t
     else if r = 3 then leave XDP_PASS p (emit_l7_event e t p EVENT_TYPE_L7_DPI)
     else xdp_limits_stage e t p (resolve_action p)))"
    using xdp_fw_stages [OF s0 assms(1) run] assms(3) by (metis option.inject snd_conv)
  then have "same_fuse s s'" using t same_fuse_trans [OF t same_fuse_limits_stage] by simp
  then show ?thesis by (simp add: same_fuse_def)
qed

theorem fuse_sees_icmp_only_witness:
  "\<exists>a b' s'. xdp_fw (still_env 5) server_segment running = Some (a, b', s') \<and>
     fuse_ratelimit_map s' = fuse_ratelimit_map running \<and> attack_status_map s' = attack_status_map running"
proof -
  obtain s' where run: "xdp_fw (still_env 5) server_segment running = Some (XDP_DROP, server_segment, s')"
    using xdp_fw_verdict [OF running_wf, of "still_env 5" server_segment] by (auto simp: verdict_samples)
  from fuse_sees_icmp_only [OF running_wf(1) _ run] show ?thesis using run by (simp add: classify_samples)
qed

end
