(* ===== verification/Rules.thy ===== *)
theory Rules
  imports System Samples
begin

text \<open>
  The rules the programs apply to addresses, times and rates: the window of a temporary block that
  the flow limit installs, the whitelist that the connect tracepoint opens and the policy stage
  reads, the broadcast filter in terms of address octets, and the attack mode with its cooldown.
\<close>

section \<open>Temporary blocks\<close>

lemma blocked_window:
  assumes "unat now + unat TEMP_BLOCK_NS < 2 ^ 64"
  shows "blocked_now t \<lparr>bv_action = a, bv_reason = r, bv_start_absolute_ns = now,
      bv_end_absolute_ns = now + TEMP_BLOCK_NS\<rparr> \<longleftrightarrow> unat now \<le> unat t \<and> unat t < unat now + 300 * 10 ^ 9"
proof -
  have T: "unat TEMP_BLOCK_NS = 300 * 10 ^ 9" by (simp add: TEMP_BLOCK_NS_def)
  have "unat (now + TEMP_BLOCK_NS) = unat now + unat TEMP_BLOCK_NS"
    using assms by (subst unat_plus_if_size) (simp_all add: word_size)
  then show ?thesis
    using T by (auto simp: blocked_now_def word_le_nat_alt word_less_nat_alt simp flip: unat_eq_0)
qed

text \<open>When a flow without a whitelist rule overdraws its byte bucket, its source (and no other
  address) is blocked from the time of the block for exactly 300 seconds: at a time in that window it is
  listed, outside it is listed only if it is on the permanent list.\<close>

theorem overdraft_blocks_source:
  assumes "consume_flow_tokens e s st (ucast (pm_pkt_len (pc_meta p))) = (XDP_DROP, st1, s1)"
    and "flow_limit e s p st None = (p', st', s')" and "src = fk_saddr (pm_key (pc_meta p))"
    and "now = ktime e (ticks s1)" and "unat now + unat TEMP_BLOCK_NS < 2 ^ 64" and "block_insert_ok e"
  shows "(listed s' t src \<longleftrightarrow> permanent_blocklist_map s src \<noteq> None \<or>
      unat now \<le> unat t \<and> unat t < unat now + 300 * 10 ^ 9) \<and>
    (x = src \<or> listed s' t x = listed s t x)"
proof -
  have s1: "permanent_blocklist_map s1 = permanent_blocklist_map s" "temp_blocklist_map s1 = temp_blocklist_map s"
    using assms(1) by (auto simp: consume_flow_tokens_def bpf_ktime_get_ns_def Let_def split: option.splits prod.splits)
  have s': "s' = block_source e src s1"
    using assms(1-3) by (simp add: flow_limit_def)
  show ?thesis
    using s1 blocked_window [OF assms(5)]
    by (auto simp: s' block_source_def bpf_ktime_get_ns_def Let_def listed_def assms(4) [symmetric] assms(6))
qed

theorem overdraft_blocks_source_witness:
  "\<exists>p' st' s'. flow_limit (still_env 7) running ((fresh_ctx [])\<lparr>pc_meta := zero_meta\<lparr>pm_pkt_len := 100\<rparr>\<rparr>)
      (Some (init_flow 0 7)) None = (p', st', s') \<and> listed s' 299000000000 0 \<and> \<not> listed s' 300000000007 0"
proof -
  define p where "p = (fresh_ctx [])\<lparr>pc_meta := zero_meta\<lparr>pm_pkt_len := 100\<rparr>\<rparr>"
  obtain p' st' s' where run: "flow_limit (still_env 7) running p (Some (init_flow 0 7)) None = (p', st', s')"
    by (metis prod_cases3)
  have "\<exists>st1. consume_flow_tokens (still_env 7) running (Some (init_flow 0 7)) (ucast (pm_pkt_len (pc_meta p))) =
      (XDP_DROP, st1, running\<lparr>ticks := 1\<rparr>)"
    by (simp add: p_def consume_flow_tokens_def flow_step_def flow_refill_def init_flow_def bpf_ktime_get_ns_def
        Let_def running_def boot_state_def still_env_def)
  then obtain st1 where c: "consume_flow_tokens (still_env 7) running (Some (init_flow 0 7))
      (ucast (pm_pkt_len (pc_meta p))) = (XDP_DROP, st1, running\<lparr>ticks := 1\<rparr>)" by blast
  have src: "0 = fk_saddr (pm_key (pc_meta p))" by (simp add: p_def zero_meta_def zero_key_def)
  have now: "7 = ktime (still_env 7) (ticks (running\<lparr>ticks := 1\<rparr>))" by (simp add: still_env_def)
  have none: "permanent_blocklist_map running 0 = None" by (simp add: running_def boot_state_def)
  show ?thesis
    using run overdraft_blocks_source [OF c run src now, of 299000000000 0]
      overdraft_blocks_source [OF c run src now, of 300000000007 0] none
    by (auto simp: p_def [symmetric] TEMP_BLOCK_NS_def still_env_def)
qed

section \<open>The whitelist\<close>

text \<open>The first octet of an address in network byte order.\<close>

definition first_octet :: "u32 \<Rightarrow> u8" where [eval_defs]: "first_octet ip = ucast ip"

lemma loopback_octet: "(ip AND bpf_htonl 0xff000000 = bpf_htonl 0x7f000000) \<longleftrightarrow> first_octet ip = 127"
proof -
  have "bpf_htonl 0xff000000 = mask 8" "bpf_htonl 0x7f000000 = 127"
    by (simp_all add: bpf_htonl_def mask_eq_exp_minus_1)
  moreover have "ip AND mask 8 = ucast (first_octet ip)"
    unfolding first_octet_def by (rule bit_word_eqI) (auto simp: bit_simps)
  moreover have "(ucast (x :: u8) :: u32) = 127 \<longleftrightarrow> x = 127" for x
    using unat_ucast_up [of x, where 'b = 32] by (auto simp: word_unat_eq_iff)
  ultimately show ?thesis by simp
qed

lemma connect_cases:
  "snd (trace_connect_tp e (Some sin) l s) =
     (if sizeof_sockaddr_in \<le> l \<and> first_octet (sin_addr sin) \<noteq> 127 \<and> sin_family sin = AF_INET \<and> whitelist_insert_ok e
      then case global_config_map s 0 of
        None \<Rightarrow> s
      | Some g \<Rightarrow> s\<lparr>whitelist_rules_map := (whitelist_rules_map s)(connect_rule_key sin \<mapsto>
          \<lparr>rv_action = 2, rv_priority = 1, rv_custom_rate = ucast (gc_custom_rate g),
           rv_custom_burst = ucast (gc_custom_burst g)\<rparr>)\<rparr>
      else s)"
  unfolding trace_connect_tp_def
  by (auto simp: loopback_octet Let_def xdp_config_key_def not_less split: option.split)

lemma flow_step_keeps:
  assumes "flow_step rate burst now n st = (v, st')"
  shows "fs_current_rate st' = fs_current_rate st" and "fs_current_burst st' = fs_current_burst st"
  using assms by (auto simp: flow_step_def flow_refill_def Let_def split: if_splits)

lemma whitelisted_limits:
  assumes "rate_limits e s p (Some f) (Some r) = (p', st', s')"
  shows "\<exists>f'. st' = Some f' \<and> fs_current_rate f' = fs_current_rate f \<and> fs_current_burst f' = fs_current_burst f"
    and "global_bucket_map s' = global_bucket_map s" and "temp_blocklist_map s' = temp_blocklist_map s"
  using assms
  by (auto simp: rate_limits_def flow_limit_def consume_flow_tokens_def bpf_ktime_get_ns_def Let_def
      dest: flow_step_keeps split: prod.splits if_splits)

text \<open>The two programs agree on the whitelist key. After a connect to a remote endpoint that is not
  loopback, a packet from that endpoint which passes the port gate is policed at the configured custom
  rate and burst, does not draw on the global byte bucket, and never puts its source on the temporary
  block list.\<close>

theorem connect_opens_whitelist:
  assumes "maps_wf s" and "trace_connect_tp e (Some sin) l s = (rc, s1)"
    and "sizeof_sockaddr_in \<le> l" and "first_octet (sin_addr sin) \<noteq> 127" and "sin_family sin = AF_INET"
    and "whitelist_insert_ok e" and "is_l4 (pc_meta p)"
    and "fk_saddr (pm_key (pc_meta p)) = sin_addr sin" and "fk_sport (pm_key (pc_meta p)) = sin_port sin"
    and "\<not> gate_closed s1 (pc_meta p)" and "apply_policy e' s1 p (Some f) = (p', st', s2)"
  shows "\<exists>g f'. global_config_map s 0 = Some g \<and> st' = Some f' \<and>
    fs_current_rate f' = ucast (gc_custom_rate g) \<and> fs_current_burst f' = ucast (gc_custom_burst g) \<and>
    global_bucket_map s2 = global_bucket_map s1 \<and> temp_blocklist_map s2 = temp_blocklist_map s1"
proof -
  obtain g where g: "global_config_map s 0 = Some g" using maps_wf_slots(1) [OF assms(1)] by blast
  define r where "r = \<lparr>rv_action = 2, rv_priority = 1, rv_custom_rate = ucast (gc_custom_rate g),
    rv_custom_burst = ucast (gc_custom_burst g)\<rparr>"
  have s1: "s1 = s\<lparr>whitelist_rules_map := (whitelist_rules_map s)(connect_rule_key sin \<mapsto> r)\<rparr>"
    using connect_cases [of e sin l s] assms(2-6) g by (simp add: r_def)
  define t where "t = record_established e' s1 p"
  have t: "whitelist_rules_map t = whitelist_rules_map s1" "global_bucket_map t = global_bucket_map s1"
    "temp_blocklist_map t = temp_blocklist_map s1"
    by (auto simp: t_def record_established_def touch_conn_def bpf_ktime_get_ns_def Let_def split: option.split)
  have "policy_rule_key (pm_key (pc_meta p)) = connect_rule_key sin"
    using assms(8,9) by (simp add: policy_rule_key_def connect_rule_key_def)
  then have "rate_limits e' t p (Some (f\<lparr>fs_current_rate := rv_custom_rate r, fs_current_burst := rv_custom_burst r\<rparr>))
      (Some r) = (p', st', s2)"
    using assms(7,10,11) t(1) by (auto simp: apply_policy_def gate_closed_def Let_def t_def s1 split: if_splits)
  from whitelisted_limits [OF this] show ?thesis using g t(2,3) by (auto simp: r_def)
qed

definition web_server :: sockaddr_in where
  [eval_defs]: "web_server = \<lparr>sin_family = 2, sin_port = bpf_htons 443, sin_addr = server_ip\<rparr>"

definition web_packet :: packet_ctx where
  [eval_defs]: "web_packet = (fresh_ctx [])\<lparr>pc_meta := zero_meta\<lparr>pm_ip_proto := 17, pm_pkt_len := 100,
     pm_key := zero_key\<lparr>fk_saddr := server_ip, fk_sport := bpf_htons 443, fk_dport := bpf_htons 53\<rparr>\<rparr>\<rparr>"

theorem connect_opens_whitelist_witness:
  "\<exists>p' f' s2. apply_policy (still_env 9) (snd (trace_connect_tp (still_env 8) (Some web_server) 16 running))
      web_packet (Some (init_flow 0 0)) = (p', Some f', s2) \<and> fs_current_rate f' = 9000"
proof -
  define s1 where "s1 = snd (trace_connect_tp (still_env 8) (Some web_server) 16 running)"
  obtain rc where t: "trace_connect_tp (still_env 8) (Some web_server) 16 running = (rc, s1)"
    using s1_def by (metis prod.collapse)
  obtain p' st' s2 where a: "apply_policy (still_env 9) s1 web_packet (Some (init_flow 0 0)) = (p', st', s2)"
    by (metis prod_cases3)
  have open_gate: "\<not> gate_closed s1 (pc_meta web_packet)"
    by (simp add: gate_closed_def is_special_udp_def web_packet_def Let_def IPPROTO_UDP_def)
  have "global_config_map running 0 = Some boot_config" by (simp add: running_def boot_state_def slots_def)
  then show ?thesis
    using connect_opens_whitelist [OF running_wf(1) t _ _ _ _ _ _ _ open_gate a] a
    by (auto simp: s1_def web_server_def web_packet_def server_ip_def first_octet_def AF_INET_def still_env_def
        sizeof_sockaddr_in_def is_l4_def IPPROTO_UDP_def boot_config_def)
qed

text \<open>The tracepoint compares the signed length argument of connect as an unsigned number: a call
  with any negative length, which the kernel itself refuses, still enters its target in the whitelist.\<close>

theorem negative_length_opens_whitelist:
  assumes "sint l < 0" and "maps_wf s" and "first_octet (sin_addr sin) \<noteq> 127" and "sin_family sin = AF_INET"
    and "whitelist_insert_ok e"
  shows "whitelist_rules_map (snd (trace_connect_tp e (Some sin) l s)) (connect_rule_key sin) \<noteq> None"
proof -
  have "sizeof_sockaddr_in \<le> l"
  proof (rule ccontr)
    assume "\<not> sizeof_sockaddr_in \<le> l"
    then have "unat l < 16" by (simp add: sizeof_sockaddr_in_def word_le_nat_alt)
    then have small: "uint l < 16" using uint_nat [of l] by linarith
    have "sint l = signed_take_bit 63 (uint l)" by (simp add: sint_uint)
    also have "\<dots> = uint l" by (rule signed_take_bit_int_eq_self) (rule order_trans [OF _ uint_ge_0], simp, use small in simp)
    finally have "0 \<le> sint l" by simp
    then show False using assms(1) by simp
  qed
  then show ?thesis
    using assms(2-5) maps_wf_slots(1) [OF assms(2)] by (auto simp: connect_cases)
qed

theorem negative_length_opens_whitelist_witness:
  "whitelist_rules_map (snd (trace_connect_tp (still_env 1) (Some web_server) (-1) running)) (connect_rule_key web_server) \<noteq> None"
  by (rule negative_length_opens_whitelist)
    (simp_all add: running_wf web_server_def server_ip_def first_octet_def AF_INET_def still_env_def)

section \<open>Broadcast and multicast\<close>

definition multicast_octet :: "u8 \<Rightarrow> bool" where
  [eval_defs]: "multicast_octet o1 \<longleftrightarrow> 224 \<le> o1 \<and> o1 \<le> 239"

lemma multicast_nibble: "o1 AND 0xF0 = 0xE0 \<longleftrightarrow> multicast_octet o1" for o1 :: u8
proof -
  have m: "(0xF0 :: u8) = push_bit 4 (mask 4)" by (simp add: mask_eq_exp_minus_1)
  have "o1 AND 0xF0 = push_bit 4 (drop_bit 4 o1)"
    unfolding m by (rule bit_word_eqI) (auto simp: bit_simps)
  moreover have "unat (push_bit 4 (drop_bit 4 o1)) = unat o1 div 16 * 16"
  proof -
    have "unat o1 < 2 ^ LENGTH(8)" by (rule unsigned_less)
    then have "unat o1 div 16 * 16 < 256" using div_times_less_eq_dividend [of "unat o1" 16] by simp
    then show ?thesis
      by (simp add: push_bit_eq_mult drop_bit_eq_div unat_word_ariths unat_div)
  qed
  ultimately have "o1 AND 0xF0 = 0xE0 \<longleftrightarrow> unat o1 div 16 * 16 = 224" by (simp add: word_unat_eq_iff)
  also have "\<dots> \<longleftrightarrow> 224 \<le> unat o1 \<and> unat o1 \<le> 239"
  proof
    assume "unat o1 div 16 * 16 = 224"
    moreover have "unat o1 mod 16 < 16" by simp
    ultimately show "224 \<le> unat o1 \<and> unat o1 \<le> 239" using div_mult_mod_eq [of "unat o1" 16] by linarith
  next
    assume "224 \<le> unat o1 \<and> unat o1 \<le> 239"
    then have "unat o1 div 16 = 14" by (intro div_nat_eqI) simp_all
    then show "unat o1 div 16 * 16 = 224" by simp
  qed
  finally show ?thesis by (simp add: multicast_octet_def word_le_nat_alt)
qed

lemma multicast_first_octet:
  "ip AND IP_MULTICAST_MASK_NET = IP_MULTICAST_START_NET \<longleftrightarrow> multicast_octet (first_octet ip)"
proof -
  have c: "IP_MULTICAST_MASK_NET = 0xF0" "IP_MULTICAST_START_NET = 0xE0"
    by (simp_all add: IP_MULTICAST_MASK_NET_def IP_MULTICAST_START_NET_def bpf_htonl_def)
  have m: "(0xF0 :: u32) = push_bit 4 (mask 4)" "(0xF0 :: u8) = push_bit 4 (mask 4)" by (simp_all add: mask_eq_exp_minus_1)
  have "ip AND 0xF0 = ucast (first_octet ip AND 0xF0)"
    unfolding first_octet_def m by (rule bit_word_eqI) (auto simp: bit_simps)
  moreover have "(ucast (x :: u8) :: u32) = 0xE0 \<longleftrightarrow> x = 0xE0" for x
    using unat_ucast_up [of x, where 'b = 32] by (auto simp: word_unat_eq_iff)
  ultimately show ?thesis by (simp add: c multicast_nibble)
qed

text \<open>The broadcast filter in terms of addresses as they are written: a packet is dropped if and only
  if its source is 255.255.255.255 or has a first octet from 224 to 239; or its destination is
  255.255.255.255 and its destination port is not 67; or its destination has a first octet from 224 to 239 or
  is the broadcast address of the configured local subnet.\<close>

theorem broadcast_filter:
  "verify_broadcast_and_policy s sa da dport = XDP_DROP \<longleftrightarrow>
     sa = 0xFFFFFFFF \<or> multicast_octet (first_octet sa) \<or>
     (if da = 0xFFFFFFFF then bpf_ntohs dport \<noteq> 67
      else multicast_octet (first_octet da) \<or>
        LOCAL_SUBNET_MASK s \<noteq> 0 \<and> da = (LOCAL_SUBNET_NET s OR NOT (LOCAL_SUBNET_MASK s)))"
proof -
  have b: "IP_BROADCAST_NET = 0xFFFFFFFF" by (simp add: IP_BROADCAST_NET_def bpf_htonl_def)
  have "dport = bpf_htons 67 \<longleftrightarrow> bpf_ntohs dport = 67" by (metis bpf_htons_ntohs_id bpf_ntohs_htons)
  then show ?thesis
    unfolding verify_broadcast_and_policy_def multicast_first_octet b by simp
qed

section \<open>Attack mode\<close>

lemma unat_cooldown:
  assumes "unat score \<le> 10 ^ 13"
  shows "unat (dynamic_cooldown score) = min (60 * 10 ^ 9) (5 * 10 ^ 9 + unat score div 1000 * 10 ^ 9)"
proof -
  have d: "unat (score div 1000) = unat score div 1000" by (simp add: unat_div)
  have "unat (score div 1000) * 10 ^ 9 \<le> 10 ^ 19" using assms unfolding d by simp
  then have "unat (score div 1000 * 1000000000) = unat score div 1000 * 10 ^ 9"
    by (subst unat_mult_lem [THEN iffD1]) (simp_all add: d)
  moreover have "unat score div 1000 * 10 ^ 9 \<le> 10 ^ 19" using assms by simp
  ultimately have "unat (5000000000 + score div 1000 * 1000000000) = 5 * 10 ^ 9 + unat score div 1000 * 10 ^ 9"
    by (subst unat_add_lem [THEN iffD1]) simp_all
  then show ?thesis by (auto simp: dynamic_cooldown_def Let_def word_less_nat_alt min_def)
qed

text \<open>The attack mode lasts for five seconds after the last recorded attack, one second more for
  every thousand points of the attack score, and at most a minute; the first packet after it finds
  the mode off and the score reset.\<close>

theorem attack_mode_window:
  assumes "attack_status_map s 0 = Some t0" and "t0 \<noteq> 0" and "attack_score_map s 0 = Some score"
    and "unat score \<le> 10 ^ 13" and "now = ktime e (ticks s)" and "t0 \<le> now"
    and "check_attack_status e s = (active, s')"
  shows "(active \<longleftrightarrow> unat now < unat t0 + min (60 * 10 ^ 9) (5 * 10 ^ 9 + unat score div 1000 * 10 ^ 9)) \<and>
    attack_score_map s' 0 = Some (if active then score else 0)"
proof -
  have diff: "unat (now - t0) = unat now - unat t0" using assms(6) by (rule unat_sub)
  have "now - t0 < dynamic_cooldown score \<longleftrightarrow>
      unat now < unat t0 + min (60 * 10 ^ 9) (5 * 10 ^ 9 + unat score div 1000 * 10 ^ 9)"
    using assms(6) unfolding word_less_nat_alt diff unat_cooldown [OF assms(4)]
    by (auto simp: word_le_nat_alt min_def)
  then show ?thesis
    using assms(1-3,5,7) by (auto simp: check_attack_status_def bpf_ktime_get_ns_def Let_def word_gt_0 split: if_splits)
qed

theorem attack_mode_window_witness:
  "\<exists>s'. check_attack_status (still_env 6000000000)
      (running\<lparr>attack_status_map := slots 1 1000000000, attack_score_map := slots 1 20\<rparr>) = (False, s') \<and>
     attack_score_map s' 0 = Some 0"
proof -
  define s where "s = running\<lparr>attack_status_map := slots 1 1000000000, attack_score_map := slots 1 20\<rparr>"
  obtain active s' where c: "check_attack_status (still_env 6000000000) s = (active, s')" by fastforce
  have "attack_status_map s 0 = Some 1000000000" "attack_score_map s 0 = Some 20"
    by (simp_all add: s_def slots_def)
  from attack_mode_window [OF this(1) _ this(2) _ _ _ c, of 6000000000]
  have "\<not> active \<and> attack_score_map s' 0 = Some (if active then 20 else 0)" by (simp add: still_env_def)
  then show ?thesis using c by (auto simp: s_def)
qed

end
