(* ===== verification/Reporting.thy ===== *)
theory Reporting
  imports System Samples
begin

text \<open>
  What the programs report: the event of an inspected packet, the sampling of passing packets, the
  packets that are never reported, and the fast path of classified connections.
\<close>

section \<open>The DPI event of the ingress program\<close>

lemma masked_u16:
  "(ucast (x AND DPI_PAYLOAD_SNAP_LEN_MASK) :: u16) AND ucast DPI_PAYLOAD_SNAP_LEN_MASK =
   ucast (x AND DPI_PAYLOAD_SNAP_LEN_MASK)"
  by (rule bit_word_eqI) (auto simp: bit_simps)

lemma unat_masked_u16:
  "unat (ucast (x AND DPI_PAYLOAD_SNAP_LEN_MASK) :: u16) = unat (x AND DPI_PAYLOAD_SNAP_LEN_MASK)"
  using masked_le [of x] by (simp add: unsigned_ucast_eq take_bit_nat_eq_self)

lemma unat_of_nat_le: "unat (of_nat n :: u32) \<le> n"
  by (simp add: unat_of_nat)

lemma and_le_unat: "unat (x AND y :: u32) \<le> unat x"
  by (metis and.commute word_and_le_unat)

text \<open>The event of an inspected incoming packet names the packet's own endpoints and direction, and
  its snapshot is a prefix of the packet from the IP header on: the bytes it announces are the
  packet's, as many as the packet has from the IP header, masked with 1999.\<close>

theorem l7_event_snapshot:
  assumes "event_scratch_map s 0 = Some ev0" and "event_ok ev0" and "\<not> ssh_quiet (pc_meta p)"
    and "pc_ip p = Some ip" and "ip < pc_data_end p" and "ringbuf_ok e" and "probe_fault e = None"
  shows "\<exists>ev. l7_dpi_ringbuf (emit_l7_event e s p EVENT_TYPE_L7_DPI) = l7_dpi_ringbuf s @ [ev] \<and>
    event_of (pm_key (pc_meta p)) ev \<and> l7_dir ev = DIR_IN \<and>
    unat (l7_l3_packet_len ev) = unat (of_nat (pc_data_end p - ip) AND DPI_PAYLOAD_SNAP_LEN_MASK) \<and>
    take (unat (l7_l3_packet_len ev)) (l7_l3_packet ev) =
      take (unat (l7_l3_packet_len ev)) (drop ip (pc_data p))"
proof -
  define c where "c = of_nat (pc_data_end p - ip) AND DPI_PAYLOAD_SNAP_LEN_MASK"
  have fits: "unat c \<le> length (drop ip (pc_data p))"
    using and_le_unat [of "of_nat (pc_data_end p - ip)" DPI_PAYLOAD_SNAP_LEN_MASK] unat_of_nat_le [of "pc_data_end p - ip"]
    by (simp add: c_def pc_data_end_def)
  have snap: "snapshot_l3 e p x = x\<lparr>ev_payload := overwrite (ev_payload x) (take (unat c) (drop ip (pc_data p))),
      ev_payload_len := c\<rparr>" for x
  proof (cases "c = 0")
    case True
    then show ?thesis
      using assms(4,5) by (simp add: snapshot_l3_def Let_def c_def [symmetric] overwrite_def del: of_nat_diff)
  next
    case False
    then have "0 < c" by (simp add: word_gt_0)
    then show ?thesis
      using assms(4,5,7) by (simp add: snapshot_l3_def Let_def c_def [symmetric] bpf_probe_read_kernel_def del: of_nat_diff)
  qed
  have len16: "(ucast c AND ucast DPI_PAYLOAD_SNAP_LEN_MASK :: u16) = ucast c" "unat (ucast c :: u16) = unat c"
    unfolding c_def by (rule masked_u16, rule unat_masked_u16)
  have pre: "take (unat c) (overwrite dst (take (unat c) (drop ip (pc_data p)))) = take (unat c) (drop ip (pc_data p))" for dst
    using fits by (simp add: overwrite_def)
  show ?thesis
    using assms(1,3,6) snap pre
    by (simp add: emit_l7_event_def process_event_def bpf_ktime_get_ns_def Let_def push_ol7event_def len16
        event_of_def c_def [symmetric] del: of_nat_diff)
qed

definition inspected :: packet_ctx where
  [eval_defs]: "inspected = (fresh_ctx server_segment)\<lparr>pc_ip := Some 14, pc_meta := zero_meta\<lparr>pm_ip_proto := 6,
     pm_key := \<lparr>fk_saddr = server_ip, fk_daddr = local_ip, fk_sport = bpf_htons 443, fk_dport = bpf_htons 40000,
       fk_proto = 6, fk_pad1 = 0, fk_pad2 = 0\<rparr>, pm_status_code := MAKE_STATUS ACT_PASS STG_ESTABLISHED RSN_DPI_PENDING\<rparr>\<rparr>"

lemma zero_event_ok: "event_ok zero_event"
  by (simp add: event_ok_def zero_event_def)

lemma running_scratch: "event_scratch_map running 0 = Some zero_event"
  by (simp add: running_def boot_state_def slots_def)

theorem l7_event_snapshot_witness:
  "\<exists>ev. l7_dpi_ringbuf (emit_l7_event (still_env 5) running inspected EVENT_TYPE_L7_DPI) = [ev] \<and>
     l7_src_ip ev = server_ip \<and> unat (l7_l3_packet_len ev) = 8"
proof -
  have ring: "l7_dpi_ringbuf running = []" by (simp add: running_def boot_state_def)
  have p: "\<not> ssh_quiet (pc_meta inspected)" "pc_ip inspected = Some 14" "pc_data_end inspected = 54"
    by (simp_all add: inspected_def ssh_quiet_def ssh_port_def pc_data_end_def server_segment_def eth_header_def
        bpf_htons_def)
  have "(40 AND DPI_PAYLOAD_SNAP_LEN_MASK) = 8" by (simp add: mask_1999)
  then show ?thesis
    using l7_event_snapshot [OF running_scratch zero_event_ok p(1,2), of "still_env 5"] p(3) ring
    by (auto simp: still_env_def event_of_def inspected_def)
qed

text \<open>The mask 1999 is not an all-ones mask, so masking is no clamp: a packet of 48 bytes from the IP
  header on is reported with an empty snapshot, one of 1500 bytes loses its last sixteen bytes. (The
  comment beside the mask claims that it never changes a legal length.)\<close>

theorem snapshot_mask_truncates:
  assumes "pc_ip p = Some ip" and "probe_fault e = None"
  shows "(pc_data_end p = ip + 48 \<longrightarrow> ev_payload_len (snapshot_l3 e p ev) = 0) \<and>
    (pc_data_end p = ip + 1500 \<longrightarrow> ev_payload_len (snapshot_l3 e p ev) = 1484)"
  using assms by (auto simp: snapshot_l3_def Let_def mask_1999 bpf_probe_read_kernel_def)

theorem snapshot_mask_truncates_witness:
  "ev_payload_len (snapshot_l3 (still_env 0) ((fresh_ctx (replicate 62 7))\<lparr>pc_ip := Some 14\<rparr>) zero_event) = 0"
  using snapshot_mask_truncates [of "(fresh_ctx (replicate 62 7))\<lparr>pc_ip := Some 14\<rparr>" 14 "still_env 0" zero_event]
  by (simp add: pc_data_end_def still_env_def)

text \<open>The SSH gate stops the event from being filled but not from being sent: a small passing SSH
  packet that reaches the DPI stage pushes the event that was in the scratch slot before, so the
  engine is told of the endpoints, the time and the bytes of an earlier packet.\<close>

theorem ssh_gate_sends_stale_event:
  assumes "event_scratch_map s 0 = Some ev0" and "ssh_quiet (pc_meta p)" and "ringbuf_ok e"
  shows "\<exists>ev. l7_dpi_ringbuf (emit_l7_event e s p EVENT_TYPE_L7_DPI) = l7_dpi_ringbuf s @ [ev] \<and>
    event_of (ev_key ev0) ev \<and> l7_timestamp_ns ev = ev_ts ev0 \<and>
    (\<exists>n rest. l7_l3_packet ev = take n (ev_payload ev0) @ rest)"
  using assms
  by (auto simp: emit_l7_event_def process_event_def push_ol7event_def event_of_def overwrite_def Let_def)

theorem ssh_gate_sends_stale_event_witness:
  "\<exists>ev. l7_dpi_ringbuf (emit_l7_event (still_env 5) running
      (upd_key (\<lambda>k. k\<lparr>fk_sport := 22\<rparr>) inspected) EVENT_TYPE_L7_DPI) = [ev] \<and> l7_src_ip ev = 0"
proof -
  have "ssh_quiet (pc_meta (upd_key (\<lambda>k. k\<lparr>fk_sport := 22\<rparr>) inspected))"
    by (simp add: ssh_quiet_def ssh_port_def upd_key_def inspected_def zero_meta_def MAKE_STATUS_def const_defs)
  from ssh_gate_sends_stale_event [OF running_scratch this, of "still_env 5"] show ?thesis
    by (auto simp: still_env_def event_of_def zero_event_def zero_key_def running_def boot_state_def)
qed

section \<open>Sampling\<close>

lemma sample_masks:
  "(x AND LOG_SAMPLE_MASK) = 0 \<longleftrightarrow> 1024 dvd unat x" "(x AND LOG_ATTACK_MASK) = 0 \<longleftrightarrow> 16384 dvd unat x"
proof -
  have m: "LOG_SAMPLE_MASK = mask 10" "LOG_ATTACK_MASK = mask 14"
    by (simp_all add: LOG_SAMPLE_MASK_def LOG_ATTACK_MASK_def mask_eq_exp_minus_1)
  show "(x AND LOG_SAMPLE_MASK) = 0 \<longleftrightarrow> 1024 dvd unat x" "(x AND LOG_ATTACK_MASK) = 0 \<longleftrightarrow> 16384 dvd unat x"
    unfolding m by (simp_all add: take_bit_eq_mod word_unat_eq_iff unat_mod dvd_eq_mod_eq_0 flip: take_bit_eq_mask)
qed

text \<open>A passing packet is reported always outside the attack mode, and inside it exactly when the
  flow's packet count is a multiple of 1024 but not of 16384.\<close>

theorem sampling_rate:
  "should_emit_event p st XDP_PASS = 1 \<longleftrightarrow>
     \<not> pm_is_under_attack (pc_meta p) \<or> 1024 dvd unat (fs_packets st) \<and> \<not> 16384 dvd unat (fs_packets st)"
  by (auto simp: should_emit_event_def sample_masks)

theorem sampling_rate_witness:
  "should_emit_event ((fresh_ctx [])\<lparr>pc_meta := zero_meta\<lparr>pm_is_under_attack := True\<rparr>\<rparr>) \<lparr>fs_packets = 2048, fs_bytes = 0,
     fs_tokens = 0, fs_last_refill = 0, fs_first_seen = 0, fs_last_seen = 0, fs_flags = 0, fs_current_rate = 0,
     fs_current_burst = 0\<rparr> XDP_PASS = 1"
  unfolding sampling_rate by simp

lemma report_apply_policy:
  "apply_policy e s p st = (p', st', s') \<Longrightarrow> gate_closed s (pc_meta p) \<Longrightarrow>
     report_to_user_map s' = report_to_user_map s \<and> resolve_action p' = XDP_DROP \<and>
     pm_status_code (pc_meta p') AND 0x0000FFFF = RSN_PORT_MISS"
  using resolve_set_status [of ACT_DROP STG_PORT_WHT RSN_PORT_MISS p] status_fields(3) [of ACT_DROP STG_PORT_WHT RSN_PORT_MISS]
  by (auto simp: apply_policy_def gate_closed_def Let_def split: if_splits)

text \<open>A packet refused by the port gate is never reported: the program asks for an event only when the
  sampling answers 2, and for a dropped packet it answers 1. The report map and the event scratch
  slot stay as they are.\<close>

theorem port_drop_unreported:
  assumes "gate_closed s (pc_meta p)" and "xdp_policy_stage e s p st a = (act, b, s')"
  shows "act = XDP_DROP \<and> report_to_user_map s' = report_to_user_map s \<and> event_scratch_map s' = event_scratch_map s"
proof -
  obtain p' st' t where pol: "apply_policy e s p (Some st) = (p', st', t)" by (metis prod_cases3)
  have t: "report_to_user_map t = report_to_user_map s" "event_scratch_map t = event_scratch_map s"
    using pol assms(1) by (auto simp: apply_policy_def gate_closed_def Let_def split: if_splits)
  have "should_emit_event q x XDP_DROP = 1" for q x by (simp add: should_emit_event_def)
  then have "xdp_policy_stage e s p st a =
      leave XDP_DROP p' (put_flow (pm_key (pc_meta p)) (case st' of Some f \<Rightarrow> f | None \<Rightarrow> st) t)"
    using report_apply_policy [OF pol assms(1)] by (simp add: xdp_policy_stage_def pol Let_def)
  then show ?thesis using assms(2) t by (auto simp: leave_def put_flow_def)
qed

definition udp_from_53000 :: packet_ctx where
  [eval_defs]: "udp_from_53000 = (fresh_ctx [])\<lparr>pc_meta := zero_meta\<lparr>pm_ip_proto := 17,
     pm_key := zero_key\<lparr>fk_sport := bpf_htons 53000, fk_dport := bpf_htons 53001\<rparr>\<rparr>\<rparr>"

theorem port_drop_unreported_witness:
  "\<exists>b s'. xdp_policy_stage (still_env 5) running udp_from_53000 (init_flow 9 9) XDP_PASS = (XDP_DROP, b, s') \<and>
     report_to_user_map s' = Map.empty"
proof -
  obtain act b s' where run: "xdp_policy_stage (still_env 5) running udp_from_53000 (init_flow 9 9) XDP_PASS = (act, b, s')"
    by (metis prod_cases3)
  have "gate_closed running (pc_meta udp_from_53000)"
    by (simp add: gate_closed_def is_l4_def is_special_udp_def is_port_allowed_def udp_from_53000_def running_def
        boot_state_def IPPROTO_UDP_def)
  from port_drop_unreported [OF this run] run show ?thesis by (auto simp: running_def boot_state_def)
qed

section \<open>The fast path\<close>

text \<open>The connection check of an inspected packet, as the program reaches it: on a state whose tables are
  those of the start, with the reversed key of the packet.\<close>

lemma ring_frames:
  "check_attack_status e s = (a, s') \<Longrightarrow> l7_dpi_ringbuf s' = l7_dpi_ringbuf s"
  "l7_dpi_ringbuf (global_stats n s) = l7_dpi_ringbuf s"
  by (auto simp: check_attack_status_def bpf_ktime_get_ns_def Let_def split: option.splits if_splits)

lemma fast_check:
  assumes "established_connections_map s k = Some c" and "cs_dpi_state c = 1"
    and "\<not> listed s (ktime e (ticks s)) (fk_saddr (pm_key (pc_meta p)))"
  shows "\<exists>j. check_conntrack_and_blacklist e s p (lookup_conn s k) =
    (1, set_status ACT_PASS STG_ESTABLISHED RSN_DPI_PASSED p,
     touch_conn k c (ktime e j) (s\<lparr>ticks := Suc j\<rparr>))"
  using assms
  by (cases "temp_blocklist_map s (fk_saddr (pm_key (pc_meta p)))")
    (auto simp: check_conntrack_and_blacklist_def conn_verdict_def lookup_conn_def listed_def bpf_ktime_get_ns_def
      VDT_DPI_PASSED_def Let_def)

lemma fast_tcp:
  assumes "parse_tcp (pc_data p) pos ip = Some (l4, n, q)" and "k = conn_lookup_key (pc_data p) ip l4"
    and "established_connections_map s k = Some c" and "cs_dpi_state c = 1"
    and "\<not> listed s (ktime e (ticks s)) (fk_saddr (pm_key (pc_meta p)))"
  shows "\<exists>p' j. handle_tcp e s p ip pos =
    (1, p', increment_stat STAT_TCP_SYN_SUCCESS (touch_conn k c (ktime e j) (s\<lparr>ticks := Suc j\<rparr>)))"
proof -
  define p1 where "p1 = set_ports (pc_data p) l4 (upd_meta (\<lambda>m. m\<lparr>pm_payload_len := n\<rparr>)
                        (p\<lparr>pc_l4 := Some l4, pc_payload := Some q\<rparr>))"
  have "fk_saddr (pm_key (pc_meta p1)) = fk_saddr (pm_key (pc_meta p))"
    by (simp add: p1_def set_ports_def upd_key_def)
  with fast_check [OF assms(3,4), of e p1] assms(5) obtain j where
    "check_conntrack_and_blacklist e s p1 (lookup_conn s k) =
      (1, set_status ACT_PASS STG_ESTABLISHED RSN_DPI_PASSED p1, touch_conn k c (ktime e j) (s\<lparr>ticks := Suc j\<rparr>))"
    by auto
  then show ?thesis
    using assms(1,2) by (auto simp: handle_tcp_def Let_def p1_def)
qed

lemma fast_udp:
  assumes "parse_udp (pc_data p) pos = Some (l4, q)" and "k = conn_lookup_key (pc_data p) ip l4"
    and "established_connections_map s k = Some c" and "cs_dpi_state c = 1"
    and "\<not> listed s (ktime e (ticks s)) (fk_saddr (pm_key (pc_meta p)))"
  shows "\<exists>p' j. handle_udp e s p ip pos =
    (1, p', increment_stat STAT_UDP_PASS (touch_conn k c (ktime e j) (s\<lparr>ticks := Suc j\<rparr>)))"
proof -
  define n :: u32 where "n = (if bpf_ntohs (udp_len (pc_data p) l4) > 8
    then ucast (bpf_ntohs (udp_len (pc_data p) l4)) - 8 else 0)"
  define p1 where "p1 = upd_meta (\<lambda>m. m\<lparr>pm_payload_len := n\<rparr>)
    (set_ports (pc_data p) l4 (p\<lparr>pc_l4 := Some l4, pc_payload := Some q\<rparr>))"
  have "fk_saddr (pm_key (pc_meta p1)) = fk_saddr (pm_key (pc_meta p))"
    by (simp add: p1_def set_ports_def upd_key_def)
  with fast_check [OF assms(3,4), of e p1] assms(5) obtain j where
    "check_conntrack_and_blacklist e s p1 (lookup_conn s k) =
      (1, set_status ACT_PASS STG_ESTABLISHED RSN_DPI_PASSED p1, touch_conn k c (ktime e j) (s\<lparr>ticks := Suc j\<rparr>))"
    by auto
  then show ?thesis
    using assms(1,2) by (auto simp: handle_udp_def Let_def p1_def n_def)
qed

lemma parse_reaches_ipv4:
  assumes "parse_eth b 0 = Some (eth, ty, pos)" and "parse_vlan_stack b pos ty = Some (bpf_htons ETH_P_IP, ip)"
    and "parse_ipv4 b ip = Some (i, proto, pos')"
  shows "\<exists>q t. parse_packet_and_flood_protect e s (fresh_ctx b) = handle_ipv4 e t q ip proto pos' \<and>
    pc_data q = b \<and> untouched (attack_reads s) s t \<and> l7_dpi_ringbuf t = l7_dpi_ringbuf s"
proof -
  obtain a t where att: "check_attack_status e (global_stats (of_nat (length b)) s) = (a, t)" by (metis surj_pair)
  have t: "untouched (attack_reads s) s t"
    using untouched_trans [OF untouched_global_stats untouched_attack [OF att]] by (simp add: attack_reads_global_stats)
  have r: "l7_dpi_ringbuf t = l7_dpi_ringbuf s" using ring_frames(1) [OF att] by simp
  define q where "q = upd_meta (\<lambda>m. m\<lparr>pm_is_under_attack := a\<rparr>)
      (upd_meta (\<lambda>m. m\<lparr>pm_pkt_len := of_nat (length b)\<rparr>)
        ((upd_meta (\<lambda>m. m\<lparr>pm_is_fuse_ratelimit := False\<rparr>) (fresh_ctx b))\<lparr>pc_eth := Some eth\<rparr>))"
  have "parse_packet_and_flood_protect e s (fresh_ctx b) = handle_ipv4 e t q ip proto pos'"
    using assms att by (simp add: parse_packet_and_flood_protect_def Let_def pc_data_end_def q_def)
  moreover have "pc_data q = b" by (simp add: q_def)
  ultimately show ?thesis using t r by blast
qed

lemma classify_conversation:
  assumes "classify b = Conversation ip l4"
  obtains eth ty pos i proto pos' where "parse_eth b 0 = Some (eth, ty, pos)"
    and "parse_vlan_stack b pos ty = Some (bpf_htons ETH_P_IP, ip)" and "parse_ipv4 b ip = Some (i, proto, pos')"
    and "\<not> is_fragment b ip"
    and "proto = IPPROTO_TCP \<and> (\<exists>n q. parse_tcp b pos' ip = Some (l4, n, q)) \<or>
      proto = IPPROTO_UDP \<and> (\<exists>q. parse_udp b pos' = Some (l4, q))"
  using assms
  by (auto simp: classify_def classify_ipv4_def split: option.splits if_splits)

text \<open>A connection the egress program has classified as not needing inspection takes the fast path: its
  incoming packets pass without any event, without touching the packet-rate bucket or the flow table;
  the connection table changes only in the last-seen time of that connection.\<close>

theorem fast_path:
  assumes "maps_wf s" and "isInitialed s" and "classify b = Conversation ip l4"
    and "established_connections_map s (conn_lookup_key b ip l4) = Some c" and "cs_dpi_state c = DPI_IGNORE"
    and "\<not> listed s (stage_time e s) (ip_saddr b ip)" and "xdp_fw e b s = Some (a, b', s')"
  shows "a = XDP_PASS \<and> l7_dpi_ringbuf s' = l7_dpi_ringbuf s \<and>
    (\<exists>t. established_connections_map s' =
       (established_connections_map s)(conn_lookup_key b ip l4 \<mapsto> c\<lparr>cs_last_seen := t\<rparr>)) \<and>
    global_pps_map s' = global_pps_map s \<and> flow_table s' = flow_table s"
proof -
  obtain eth ty pos i proto pos' where l: "parse_eth b 0 = Some (eth, ty, pos)"
    "parse_vlan_stack b pos ty = Some (bpf_htons ETH_P_IP, ip)" "parse_ipv4 b ip = Some (i, proto, pos')"
    and nf: "\<not> is_fragment b ip"
    and l4: "proto = IPPROTO_TCP \<and> (\<exists>n q. parse_tcp b pos' ip = Some (l4, n, q)) \<or>
      proto = IPPROTO_UDP \<and> (\<exists>q. parse_udp b pos' = Some (l4, q))"
    by (rule classify_conversation [OF assms(3)])
  from parse_reaches_ipv4 [OF l, of e s] obtain q t where
    run: "parse_packet_and_flood_protect e s (fresh_ctx b) = handle_ipv4 e t q ip proto pos'"
    and q: "pc_data q = b" and t: "untouched (attack_reads s) s t" "l7_dpi_ringbuf t = l7_dpi_ringbuf s" by blast
  define k where "k = conn_lookup_key b ip l4"
  define r where "r = (upd_key (\<lambda>k. k\<lparr>fk_saddr := ip_saddr b ip, fk_daddr := ip_daddr b ip, fk_proto := proto\<rparr>)
    (upd_meta (\<lambda>m. m\<lparr>pm_ip_proto := proto\<rparr>) (q\<lparr>pc_ip := Some ip\<rparr>)))\<lparr>pc_payload := Some pos'\<rparr>"
  have r: "pc_data r = b" "fk_saddr (pm_key (pc_meta r)) = ip_saddr b ip"
    using q by (simp_all add: r_def upd_key_def)
  have c: "established_connections_map t k = Some c" "cs_dpi_state c = 1"
    using t assms(4,5) by (simp_all add: untouched_def k_def DPI_IGNORE_def)
  have nl: "\<not> listed t (ktime e (ticks t)) (ip_saddr b ip)"
    using t assms(6) by (simp add: untouched_def listed_def stage_time_def)
  have protos: "IPPROTO_UDP \<noteq> IPPROTO_TCP" by (simp add: IPPROTO_TCP_def IPPROTO_UDP_def)
  have ip: "handle_ipv4 e t q ip proto pos' =
      (if proto = IPPROTO_TCP then handle_tcp e t r ip pos' else handle_udp e t r ip pos')"
    using nf l4 q protos by (auto simp: handle_ipv4_def Let_def is_fragment_def r_def)
  have "\<exists>p' j x. handle_ipv4 e t q ip proto pos' = (1, p', increment_stat x (touch_conn k c (ktime e j) (t\<lparr>ticks := Suc j\<rparr>)))"
  proof (cases "proto = IPPROTO_TCP")
    case True
    then obtain n q where "parse_tcp b pos' ip = Some (l4, n, q)" using l4 protos by auto
    from fast_tcp [of r pos' ip l4 n q k t c e] this True show ?thesis using r c nl unfolding ip k_def by fastforce
  next
    case False
    then obtain q where "parse_udp b pos' = Some (l4, q)" using l4 by auto
    from fast_udp [of r pos' l4 q k ip t c e] this False show ?thesis using r c nl unfolding ip k_def by fastforce
  qed
  then obtain p' j x where res: "parse_packet_and_flood_protect e s (fresh_ctx b) =
      (1, p', increment_stat x (touch_conn k c (ktime e j) (t\<lparr>ticks := Suc j\<rparr>)))"
    unfolding run by blast
  have "init_gconfig_and_gmap s = Some s" using assms(2) by (simp add: init_gconfig_and_gmap_def)
  from xdp_fw_stages [OF this assms(1) res] assms(7)
  have out: "a = XDP_PASS" "s' = snd (snd (leave XDP_PASS p' (increment_stat x (touch_conn k c (ktime e j) (t\<lparr>ticks := Suc j\<rparr>)))))"
    by (simp_all add: leave_def)
  have "global_pps_map (increment_stat y u) = global_pps_map u" for y u
    by (simp add: increment_stat_def split: option.split)
  then show ?thesis
    using t out by (auto simp: leave_def touch_conn_def untouched_def k_def)
qed

definition ssh_client :: fw_state where
  [eval_defs]: "ssh_client = running\<lparr>established_connections_map :=
     [egress_key client_hello \<mapsto> \<lparr>cs_last_seen = 1, cs_dpi_state = 1, cs_tls_version = 0, cs_reserved = 0\<rparr>]\<rparr>"

theorem fast_path_witness:
  "\<exists>s'. xdp_fw (still_env 5) server_segment ssh_client = Some (XDP_PASS, server_segment, s') \<and>
     l7_dpi_ringbuf s' = [] \<and> flow_table s' = Map.empty"
proof -
  have wf: "maps_wf ssh_client" using running_wf(1) by (simp add: ssh_client_def maps_wf_def)
  have init: "isInitialed ssh_client" by (simp add: ssh_client_def running_def)
  then have i: "init_gconfig_and_gmap ssh_client = Some ssh_client" by (simp add: init_gconfig_and_gmap_def)
  obtain s' a where run: "xdp_fw (still_env 5) server_segment ssh_client = Some (a, server_segment, s')"
    using xdp_fw_verdict [OF wf i] by blast
  have nl: "\<not> listed ssh_client t x" for t x by (simp add: listed_def ssh_client_def running_def boot_state_def)
  have c: "established_connections_map ssh_client (conn_lookup_key server_segment 14 34) =
      Some \<lparr>cs_last_seen = 1, cs_dpi_state = 1, cs_tls_version = 0, cs_reserved = 0\<rparr>"
    by (simp add: key_samples ssh_client_def)
  from fast_path [OF wf init classify_samples(1) c _ nl run] show ?thesis
    using run by (simp add: DPI_IGNORE_def) (simp add: ssh_client_def running_def boot_state_def)
qed

end
