(* ===== verification/Egress.thy ===== *)
theory Egress
  imports System Samples
begin

text \<open>
  What the egress program promises: the encoding of its state byte, the classification of a
  ClientHello, the bound on the events of a connection; and what holds of the whole system in every
  reachable state.
\<close>

section \<open>The state byte\<close>

text \<open>Packing a DPI state and an attempts counter into one byte loses nothing, for all states and
  counters that fit a nibble; and the byte of a connection that has not been retried is its state.\<close>

theorem dpi_byte_roundtrip:
  assumes "unat st < 16" and "unat n < 16"
  shows "DPI_ST (DPI_MAKE st n) = st \<and> DPI_ATTEMPTS (DPI_MAKE st n) = n \<and> DPI_MAKE st 0 = st"
proof -
  have low: "x AND mask 4 = x" if "unat x < 16" for x :: u8
    using that by (simp add: take_bit_eq_mask [symmetric] take_bit_eq_mod word_unat_eq_iff unat_mod)
  have m: "DPI_ST_MASK = mask 4" "(0x0F :: u8) = mask 4" by (simp_all add: DPI_ST_MASK_def mask_eq_exp_minus_1)
  have "DPI_ST (DPI_MAKE st n) = st AND mask 4"
    unfolding DPI_ST_def DPI_MAKE_def m by (rule bit_word_eqI) (auto simp: bit_simps)
  moreover have "DPI_ATTEMPTS (DPI_MAKE st n) = n AND mask 4"
    unfolding DPI_ATTEMPTS_def DPI_MAKE_def m by (rule bit_word_eqI) (auto simp: bit_simps)
  moreover have "DPI_MAKE st 0 = st AND mask 4" unfolding DPI_MAKE_def m by simp
  ultimately show ?thesis using low [OF assms(1)] low [OF assms(2)] by simp
qed

theorem dpi_byte_roundtrip_witness: "DPI_ST (DPI_MAKE DPI_TLS_PENDING 5) = DPI_TLS_PENDING \<and> DPI_ATTEMPTS (DPI_MAKE DPI_TLS_PENDING 5) = 5"
  using dpi_byte_roundtrip [of DPI_TLS_PENDING 5] by (simp add: DPI_TLS_PENDING_def)

section \<open>A ClientHello\<close>

lemma l7_copy_len_clamped: "14 < skb_len skb \<Longrightarrow> l7_copy_len skb = min DPI_PAYLOAD_SNAP_LEN (skb_len skb - 14)"
  by (auto simp: l7_copy_len_def Let_def L3_OFFSET_def MAX_L7_PAYLOAD_def DPI_PAYLOAD_SNAP_LEN_def)

lemma submit_l7_exact:
  assumes "14 < skb_len skb"
  shows "submit_l7 e skb k now d s = (True, s\<lparr>l7_dpi_ringbuf := l7_dpi_ringbuf s @
    [egress_event e k now d (l7_copy_len skb) (take (l7_copy_len skb) (drop 14 (skb_bytes skb)))]\<rparr>)"
  using assms by (simp add: submit_l7_def skb_load_bytes_def l7_copy_len_clamped Let_def L3_OFFSET_def)

text \<open>The first ClientHello of a connection: the entry and the event.\<close>

lemma client_hello_event:
  assumes "egress_tracked skb" and "k = egress_key skb" and "established_connections_map s k = None"
    and "perm (fk_daddr k) = None" and "fk_proto k = IPPROTO_TCP" and "bpf_ntohs (fk_dport k) \<in> {443, 80}"
    and "off = 14 + unat (ip_ihl (skb_bytes skb) L3_OFFSET) * 4"
    and "skb_load_bytes skb (off + 12) 1 = Some d"
    and "skb_load_bytes skb (off + unat (drop_bit 4 (d ! 0)) * 4) 6 = Some h" and "is_client_hello h"
    and "ringbuf_ok e"
  shows "conn_insert_ok e \<Longrightarrow> dpi_of (tc_egress_record e perm skb s) k = DPI_MAKE DPI_TLS_PENDING 1"
    and "n = min DPI_PAYLOAD_SNAP_LEN (skb_len skb - 14) \<Longrightarrow>
      l7_dpi_ringbuf (tc_egress_record e perm skb s) = l7_dpi_ringbuf s @
        [egress_event e k (ktime e (ticks s)) (ring_stale_dir e) n (take n (drop 14 (skb_bytes skb)))]"
proof -
  have len: "34 \<le> skb_len skb" using assms(1) by (simp add: egress_tracked_def Let_def)
  let ?n = "l7_copy_len skb"
  have n: "?n = min DPI_PAYLOAD_SNAP_LEN (skb_len skb - 14)" using len by (intro l7_copy_len_clamped) simp
  have port: "\<not> (bpf_ntohs (fk_dport k) = 53 \<or> bpf_ntohs (fk_dport k) = 123 \<or> bpf_ntohs (fk_dport k) = 67 \<or>
      bpf_ntohs (fk_dport k) = 68)" using assms(6) by auto
  have room: "\<not> skb_len skb \<le> off + unat (drop_bit 4 (d ! 0)) * 4"
    using assms(9) by (simp add: skb_load_bytes_def split: if_splits)
  have sub: "submit_l7 e skb k now x t = (True, t\<lparr>l7_dpi_ringbuf := l7_dpi_ringbuf t @
      [egress_event e k now x ?n (take ?n (drop 14 (skb_bytes skb)))]\<rparr>)" for now x t
    using len by (intro submit_l7_exact) simp
  have check: "tc_tls_check e skb k off now t = (Some (DPI_TLS_PENDING, 1), t\<lparr>l7_dpi_ringbuf := l7_dpi_ringbuf t @
      [egress_event e k now (ring_stale_dir e) ?n (take ?n (drop 14 (skb_bytes skb)))]\<rparr>)" for now t
    using assms(8-11) room by (simp add: tc_tls_check_def Let_def sub)
  have rec: "tc_classify e perm skb k off now t = tc_tls_check e skb k off now t" for now t
    using assms(4-6) port by (auto simp: tc_classify_def Let_def)
  have run: "tc_egress_record e perm skb s = tc_record e perm skb k off (ktime e (ticks s)) (s\<lparr>ticks := Suc (ticks s)\<rparr>)"
    using assms(1-3,7) by (simp add: tc_egress_record_def tc_connection_def bpf_ktime_get_ns_def Let_def)
  show "dpi_of (tc_egress_record e perm skb s) k = DPI_MAKE DPI_TLS_PENDING 1" if "conn_insert_ok e"
    using that unfolding run tc_record_def rec check by (simp add: put_conn_def dpi_of_def)
  show "l7_dpi_ringbuf (tc_egress_record e perm skb s) = l7_dpi_ringbuf s @
      [egress_event e k (ktime e (ticks s)) (ring_stale_dir e) n (take n (drop 14 (skb_bytes skb)))]"
    if "n = min DPI_PAYLOAD_SNAP_LEN (skb_len skb - 14)"
    unfolding run tc_record_def rec check by (simp add: put_conn_def that n)
qed

text \<open>The first packet of a new TCP connection to port 443 or 80 that carries a ClientHello record is
  recorded as pending with one attempt and reported: the event names its endpoints, and its snapshot
  is the packet from the IP header on, clamped to the snapshot size. Its direction byte is whatever the
  ring buffer slot held before: this branch, unlike the retry branch, does not set it.\<close>

theorem client_hello_reported:
  assumes "egress_tracked skb" and "k = egress_key skb" and "established_connections_map s k = None"
    and "perm (fk_daddr k) = None" and "fk_proto k = IPPROTO_TCP" and "bpf_ntohs (fk_dport k) \<in> {443, 80}"
    and "off = 14 + unat (ip_ihl (skb_bytes skb) L3_OFFSET) * 4"
    and "skb_load_bytes skb (off + 12) 1 = Some d"
    and "skb_load_bytes skb (off + unat (drop_bit 4 (d ! 0)) * 4) 6 = Some h" and "is_client_hello h"
    and "ringbuf_ok e" and inserted: "conn_insert_ok e"
  shows "dpi_of (tc_egress_record e perm skb s) k = DPI_MAKE DPI_TLS_PENDING 1 \<and>
    (\<exists>ev. l7_dpi_ringbuf (tc_egress_record e perm skb s) = l7_dpi_ringbuf s @ [ev] \<and> event_of k ev \<and>
      unat (l7_l3_packet_len ev) = min DPI_PAYLOAD_SNAP_LEN (skb_len skb - 14) \<and>
      take (unat (l7_l3_packet_len ev)) (l7_l3_packet ev) =
        take (unat (l7_l3_packet_len ev)) (drop 14 (skb_bytes skb)) \<and>
      l7_dir ev = ring_stale_dir e)"
proof -
  define n where "n = min DPI_PAYLOAD_SNAP_LEN (skb_len skb - 14)"
  have n16: "unat (of_nat n :: u16) = n" by (simp add: unat_of_nat n_def DPI_PAYLOAD_SNAP_LEN_def)
  have fits: "n \<le> length (drop 14 (skb_bytes skb))" by (simp add: n_def skb_len_def)
  show ?thesis
    using client_hello_event(1) [of skb k s perm off d h e, OF assms] client_hello_event(2) [of skb k s perm off d h e, OF assms(1-11) n_def] fits
    by (simp add: egress_event_def event_of_def n16 n_def [symmetric] overwrite_def)
qed

theorem client_hello_reported_witness:
  "\<exists>ev. l7_dpi_ringbuf (tc_egress_record (still_env 1) Map.empty client_hello boot_state) = [ev] \<and>
     unat (l7_l3_packet_len ev) = 46 \<and> l7_dir ev = DIR_IN"
proof -
  have "fk_proto (egress_key client_hello) = IPPROTO_TCP" "bpf_ntohs (fk_dport (egress_key client_hello)) \<in> {443, 80}"
    "skb_load_bytes client_hello (14 + unat (ip_ihl (skb_bytes client_hello) L3_OFFSET) * 4 + 12) 1 = Some [0x50]"
    "skb_load_bytes client_hello (14 + unat (ip_ihl (skb_bytes client_hello) L3_OFFSET) * 4 + unat (drop_bit 4 ([0x50 :: u8] ! 0)) * 4) 6
      = Some [0x16, 0x03, 0x01, 0x00, 0x05, 0x01]" "skb_len client_hello = 60"
    by (simp_all add: run_defs)
  then show ?thesis
    using client_hello_reported [OF key_samples(2) refl, of boot_state Map.empty _ "[0x50]"
        "[0x16, 0x03, 0x01, 0x00, 0x05, 0x01]" "still_env 1"]
    by (simp add: boot_state_def is_client_hello_def still_env_def DPI_PAYLOAD_SNAP_LEN_def DIR_IN_def)
      (metis (no_types, lifting))
qed

section \<open>Runs\<close>

text \<open>C5: Over any sequence of outgoing packets of any connections, in any order and under any
  kernel decisions, the egress program keeps every connection's state byte in the nine states of
  the machine (at most five attempts), and reports at most five packets of one connection to the
  DPI engine while its entry lives: the retry counter bounds the load on the ring buffer. A packet whose
  entry the kernel refuses to insert is counted nowhere and may add one report each time.\<close>

theorem tc_events_bounded:
  assumes "conn_states_ok s" and "unpadded k"
  shows "conn_states_ok (tc_run perm xs s) \<and>
    events_of (tc_run perm xs s) k \<le> events_of s k + 5 + length (filter (refused_packet k) xs)"
proof -
  have "unat (DPI_ATTEMPTS (dpi_of (tc_run perm xs s) k)) \<le> 5"
    using tc_run_events(1) [OF assms] dpi_states_attempts by (simp add: conn_states_ok_def)
  then show ?thesis using tc_run_events [OF assms, of perm xs] by simp
qed

theorem tc_events_bounded_witness:
  "events_of (tc_run Map.empty (replicate 9 (still_env 1, client_hello)) boot_state) (egress_key client_hello) \<le> 5"
proof -
  have ok: "conn_states_ok boot_state" using inv_boot by (simp add: fw_inv_def)
  have "unpadded (egress_key client_hello)" by (simp add: egress_key_def unpadded_def zero_key_def Let_def)
  moreover have "filter (refused_packet (egress_key client_hello)) (replicate 9 (still_env 1, client_hello)) = []"
    by (simp add: filter_False refused_packet_def still_env_def)
  ultimately show ?thesis
    using tc_events_bounded [OF ok, of "egress_key client_hello" Map.empty "replicate 9 (still_env 1, client_hello)"]
    by (simp add: events_of_def boot_state_def)
qed

section \<open>The system\<close>

text \<open>C3: In every state the system can reach, under any interleaving of ingress and egress packets,
  connects, evictions and userspace writes: the ARRAY maps keep all their slots; every connection
  is in one of the nine DPI states with at most five attempts; the report map holds only the ten
  thousand address buckets, so it can never overflow its capacity; and no event in the ring buffer or in the
  report map describes more bytes than its snapshot array holds.\<close>

theorem reachable_safe:
  fixes perm
  assumes "reachable perm s"
  shows "maps_wf s \<and> conn_states_ok s \<and> card (dom (report_to_user_map s)) \<le> report_to_user_map_max_entries \<and>
    (\<forall>ev\<in>set (l7_dpi_ringbuf s). unat (l7_l3_packet_len ev) \<le> DPI_PAYLOAD_SNAP_LEN) \<and>
    (\<forall>ev\<in>ran (report_to_user_map s). unat (ev_payload_len ev) \<le> length (ev_payload ev))"
proof -
  have inv: "fw_inv s" by (rule reachable_inv [OF assms])
  have "unat ` dom (report_to_user_map s) \<subseteq> {..<10000}"
    using inv by (auto simp: fw_inv_def reports_ok_def)
  then have "card (unat ` dom (report_to_user_map s)) \<le> card {..<10000 :: nat}" by (intro card_mono) simp_all
  moreover have "card (unat ` dom (report_to_user_map s)) = card (dom (report_to_user_map s))"
    by (intro card_image inj_onI) (simp add: word_unat_eq_iff)
  ultimately have "card (dom (report_to_user_map s)) \<le> report_to_user_map_max_entries"
    by (simp add: report_to_user_map_max_entries_def)
  then show ?thesis
    using inv by (auto simp: fw_inv_def ring_ok_def reports_ok_def event_ok_def ran_def)
qed

theorem reachable_safe_witness:
  "maps_wf (tc_egress_record (still_env 1) Map.empty client_hello boot_state)"
  using reachable_safe [OF reachable.step [OF reachable.boot sys_step.egress]] by blast

text \<open>C6: The classification of a connection only ever moves along the DPI machine while its entry
  lives, whatever the rest of the system does: an ignored, blocked or finished connection keeps its
  state, a pending one retries upwards. The blocked state is entered only for destinations on the
  egress program's own copy of the permanent block list; nothing in the repository fills that copy,
  so with it empty no connection is ever marked as violating.\<close>

theorem dpi_machine_followed:
  assumes "reachable perm s" and "sys_step perm s s'" and "established_connections_map s' k \<noteq> None"
  shows "dpi_step (dpi_of s k) (dpi_of s' k) \<and>
    (dpi_of s' k = DPI_BLOCKLIST \<longrightarrow> dpi_of s k = DPI_BLOCKLIST \<or> perm (fk_daddr k) \<noteq> None)"
  using step_dpi [OF assms(2) reachable_inv [OF assms(1)], of k] assms(3) by (simp add: DPI_BLOCKLIST_def)

theorem dpi_machine_followed_witness:
  "dpi_step 0 (dpi_of (tc_egress_record (still_env 1) Map.empty client_hello boot_state) (egress_key client_hello))"
proof -
  have ok: "conn_states_ok boot_state" using inv_boot by (simp add: fw_inv_def)
  have "tc_effect (egress_key client_hello) boot_state (tc_egress_record (still_env 1) Map.empty client_hello boot_state)"
    using egress_effect [OF ok, of client_hello "still_env 1"] key_samples(2) by (simp add: still_env_def)
  then have "established_connections_map (tc_egress_record (still_env 1) Map.empty client_hello boot_state)
      (egress_key client_hello) \<noteq> None"
    by (auto simp: tc_effect_def)
  from dpi_machine_followed [OF reachable.boot sys_step.egress this] show ?thesis
    by (simp add: dpi_of_def boot_state_def)
qed

text \<open>In the system as it is loaded (the egress program's block list empty), no reachable state
  marks a connection as violating, so the ingress verdict \<open>RSN_DPI_VIOLATION\<close> is never given.\<close>

theorem violation_never_recorded:
  assumes "reachable Map.empty s" and "check_conntrack_and_blacklist e s p (lookup_conn s k) = (v, p', s')"
  shows "pm_status_code (pc_meta p') \<noteq> MAKE_STATUS ACT_DROP STG_ESTABLISHED RSN_DPI_VIOLATION"
  using assms(2) no_violation [OF assms(1), of k]
  by (auto simp: check_conntrack_and_blacklist_def conn_verdict_def lookup_conn_def bpf_ktime_get_ns_def Let_def
      dpi_of_def MAKE_STATUS_def const_defs split: option.splits if_splits)

theorem violation_never_recorded_witness:
  "\<exists>v p' s'. check_conntrack_and_blacklist (still_env 1) boot_state (fresh_ctx []) (lookup_conn boot_state zero_key) = (v, p', s') \<and>
     pm_status_code (pc_meta p') \<noteq> MAKE_STATUS ACT_DROP STG_ESTABLISHED RSN_DPI_VIOLATION"
  using violation_never_recorded [OF reachable.boot] by (metis prod_cases3)

end
