(* ===== verification/FlowRace.thy ===== *)
theory FlowRace
  imports Buckets
begin

text \<open>
  \<open>consume_flow_tokens\<close> of \<open>src/src/ebpf/policy.h\<close> as the sequence of its atomic accesses to a
  flow entry that several CPUs share: each plain read, \<open>__sync_bool_compare_and_swap\<close>,
  \<open>__sync_fetch_and_add\<close> and \<open>__sync_fetch_and_sub\<close> is one step, and a schedule decides which
  invocation makes the next one.

  An invocation that runs alone is the function of theory \<open>Buckets\<close> (\<open>flow_alone\<close>). Two that
  overlap are not: the subtraction comes before the test, so for the time between one invocation's
  subtraction and its giving back, another one sees a wrapped balance.
\<close>

section \<open>Invocations and schedules\<close>

datatype flow_pc =
    Read_refill | Swap_refill | Add_tokens | Read_tokens | Clamp_tokens | Take_tokens | Give_back
  | Returned xdp_action

record invocation =
  iv_pc :: flow_pc
  iv_now :: u64
  iv_len :: u64
  iv_last_refill :: u64
  iv_refill :: u64
  iv_burst :: u64
  iv_curr :: u64

definition enter :: "u64 \<Rightarrow> u64 \<Rightarrow> invocation" where
  [eval_defs]: "enter now pkt_len = \<lparr>iv_pc = Read_refill, iv_now = now, iv_len = pkt_len, iv_last_refill = 0,
     iv_refill = 0, iv_burst = 0, iv_curr = 0\<rparr>"

definition access :: "u64 \<Rightarrow> u64 \<Rightarrow> invocation \<Rightarrow> flow_state \<Rightarrow> invocation \<times> flow_state" where
  [eval_defs]: "access rate burst iv st =
     (case iv_pc iv of
        Read_refill \<Rightarrow>
          (let last_refill = fs_last_refill st;
               delta = iv_now iv - last_refill;
               refill = (delta * flow_active_rate rate st) div NS_PER_SEC
           in (iv\<lparr>iv_last_refill := last_refill, iv_refill := refill, iv_burst := flow_active_burst burst st,
                 iv_pc := (if delta > 0 \<and> refill > 0 then Swap_refill else Take_tokens)\<rparr>, st))
      | Swap_refill \<Rightarrow>
          if fs_last_refill st = iv_last_refill iv
          then (iv\<lparr>iv_pc := Add_tokens\<rparr>, st\<lparr>fs_last_refill := iv_now iv\<rparr>)
          else (iv\<lparr>iv_pc := Take_tokens\<rparr>, st)
      | Add_tokens \<Rightarrow> (iv\<lparr>iv_pc := Read_tokens\<rparr>, st\<lparr>fs_tokens := fs_tokens st + iv_refill iv\<rparr>)
      | Read_tokens \<Rightarrow>
          (iv\<lparr>iv_curr := fs_tokens st,
              iv_pc := (if fs_tokens st > iv_burst iv then Clamp_tokens else Take_tokens)\<rparr>, st)
      | Clamp_tokens \<Rightarrow>
          (iv\<lparr>iv_pc := Take_tokens\<rparr>,
           if fs_tokens st = iv_curr iv then st\<lparr>fs_tokens := iv_burst iv\<rparr> else st)
      | Take_tokens \<Rightarrow>
          (iv\<lparr>iv_pc := (if fs_tokens st < iv_len iv then Give_back else Returned XDP_PASS)\<rparr>,
           st\<lparr>fs_tokens := fs_tokens st - iv_len iv\<rparr>)
      | Give_back \<Rightarrow> (iv\<lparr>iv_pc := Returned XDP_DROP\<rparr>, st\<lparr>fs_tokens := fs_tokens st + iv_len iv\<rparr>)
      | Returned v \<Rightarrow> (iv, st))"

text \<open>A schedule is the list of the indices of the invocations that make the next access.\<close>

fun schedule :: "u64 \<Rightarrow> u64 \<Rightarrow> nat list \<Rightarrow> invocation list \<Rightarrow> flow_state \<Rightarrow> invocation list \<times> flow_state" where
  "schedule rate burst [] ivs st = (ivs, st)"
| "schedule rate burst (i # is) ivs st =
     (if i < length ivs
      then (let (iv, st') = access rate burst (ivs ! i) st in schedule rate burst is (ivs[i := iv]) st')
      else schedule rate burst is ivs st)"

section \<open>One invocation alone\<close>

lemma access_pc:
  "iv_pc iv = Take_tokens \<Longrightarrow> access rate burst iv st =
     (iv\<lparr>iv_pc := (if fs_tokens st < iv_len iv then Give_back else Returned XDP_PASS)\<rparr>,
      st\<lparr>fs_tokens := fs_tokens st - iv_len iv\<rparr>)"
  "iv_pc iv = Give_back \<Longrightarrow> access rate burst iv st =
     (iv\<lparr>iv_pc := Returned XDP_DROP\<rparr>, st\<lparr>fs_tokens := fs_tokens st + iv_len iv\<rparr>)"
  "iv_pc iv = Returned v \<Longrightarrow> access rate burst iv st = (iv, st)"
  by (simp_all add: access_def)

lemma schedule_alone:
  "schedule rate burst (0 # is) [iv] st = schedule rate burst is [fst (access rate burst iv st)] (snd (access rate burst iv st))"
  by (simp split: prod.split)

lemma alone_step:
  "access rate burst iv st = (iv', st') \<Longrightarrow> schedule rate burst (0 # is) [iv] st = schedule rate burst is [iv'] st'"
  by simp

lemma alone_returned:
  "iv_pc iv = Returned v \<Longrightarrow> schedule rate burst (replicate n 0) [iv] st = ([iv], st)"
  by (induction n) (simp_all add: access_pc)

text \<open>From the subtraction on: the rest of \<open>flow_step\<close> after the refill.\<close>

lemma alone_take:
  assumes "iv_pc iv = Take_tokens" and "iv_len iv = len" and "flow_refill rate burst now st0 = st"
  shows "\<exists>iv'. schedule rate burst (0 # 0 # replicate n 0) [iv] st = ([iv'], snd (flow_step rate burst now len st0)) \<and>
    iv_pc iv' = Returned (fst (flow_step rate burst now len st0))"
proof (cases "fs_tokens st < len")
  case True
  then show ?thesis
    unfolding schedule_alone using assms
    by (simp add: access_pc alone_returned [where v = XDP_DROP] flow_step_def Let_def)
next
  case False
  then show ?thesis
    unfolding schedule_alone using assms
    by (simp add: access_pc alone_returned [where v = XDP_PASS] flow_step_def Let_def)
qed

lemma seven: "replicate 7 (0 :: nat) = 0 # 0 # 0 # replicate 4 0" "replicate 7 (0 :: nat) = 0 # 0 # 0 # 0 # 0 # replicate 2 0"
    "replicate 7 (0 :: nat) = 0 # 0 # 0 # 0 # 0 # 0 # replicate 1 0"
    "replicate 7 (0 :: nat) = 0 # 0 # 0 # 0 # 0 # 0 # 0 # replicate 0 0"
  by (simp_all add: eval_nat_numeral)

text \<open>An invocation that is not interleaved with another one makes at most seven accesses, returns,
  and has exactly the effect and the verdict of the sequential function.\<close>

theorem flow_alone:
  "\<exists>iv. schedule rate burst (replicate 7 0) [enter now pkt_len] st =
     ([iv], snd (flow_step rate burst now pkt_len st)) \<and>
     iv_pc iv = Returned (fst (flow_step rate burst now pkt_len st))"
proof -
  define delta refill cap where "delta = now - fs_last_refill st"
    and "refill = (delta * flow_active_rate rate st) div NS_PER_SEC" and "cap = flow_active_burst burst st"
  note defs = delta_def [symmetric] refill_def [symmetric] cap_def [symmetric]
  consider "\<not> (delta > 0 \<and> refill > 0)" | "delta > 0" "refill > 0" "fs_tokens st + refill > cap"
    | "delta > 0" "refill > 0" "\<not> fs_tokens st + refill > cap" by blast
  then show ?thesis
  proof cases
    case 1
    have first: "access rate burst (enter now pkt_len) st =
        ((enter now pkt_len)\<lparr>iv_last_refill := fs_last_refill st, iv_refill := refill, iv_burst := cap,
           iv_pc := Take_tokens\<rparr>, st)"
      using 1 by (auto simp: access_def enter_def Let_def defs)
    have "flow_refill rate burst now st = st" using 1 by (auto simp: flow_refill_def Let_def defs)
    moreover have "iv_pc (fst (access rate burst (enter now pkt_len) st)) = Take_tokens"
      "iv_len (fst (access rate burst (enter now pkt_len) st)) = pkt_len" "snd (access rate burst (enter now pkt_len) st) = st"
      unfolding first by (simp_all add: enter_def)
    ultimately show ?thesis
      unfolding seven(1) using alone_take [of "fst (access rate burst (enter now pkt_len) st)" pkt_len rate burst now st st 4]
      by (subst schedule_alone) simp
  next
    case 2
    define iv where "iv pc = (enter now pkt_len)\<lparr>iv_last_refill := fs_last_refill st, iv_refill := refill,
      iv_burst := cap, iv_pc := pc\<rparr>" for pc
    define full where "full = st\<lparr>fs_last_refill := now, fs_tokens := fs_tokens st + refill\<rparr>"
    have a: "access rate burst (enter now pkt_len) st = (iv Swap_refill, st)"
      "access rate burst (iv Swap_refill) st = (iv Add_tokens, st\<lparr>fs_last_refill := now\<rparr>)"
      "access rate burst (iv Add_tokens) (st\<lparr>fs_last_refill := now\<rparr>) = (iv Read_tokens, full)"
      "access rate burst (iv Read_tokens) full = ((iv Clamp_tokens)\<lparr>iv_curr := fs_tokens full\<rparr>, full)"
      "access rate burst ((iv Clamp_tokens)\<lparr>iv_curr := fs_tokens full\<rparr>) full =
        ((iv Take_tokens)\<lparr>iv_curr := fs_tokens full\<rparr>, st\<lparr>fs_last_refill := now, fs_tokens := cap\<rparr>)"
      using 2 by (simp_all add: access_def enter_def iv_def full_def Let_def defs)
    have "flow_refill rate burst now st = st\<lparr>fs_last_refill := now, fs_tokens := cap\<rparr>"
      using 2 by (simp add: flow_refill_def Let_def defs)
    then show ?thesis
      unfolding seven(4) a [THEN alone_step] by (intro alone_take) (simp_all add: iv_def enter_def)
  next
    case 3
    define iv where "iv pc = (enter now pkt_len)\<lparr>iv_last_refill := fs_last_refill st, iv_refill := refill,
      iv_burst := cap, iv_pc := pc\<rparr>" for pc
    define full where "full = st\<lparr>fs_last_refill := now, fs_tokens := fs_tokens st + refill\<rparr>"
    have a: "access rate burst (enter now pkt_len) st = (iv Swap_refill, st)"
      "access rate burst (iv Swap_refill) st = (iv Add_tokens, st\<lparr>fs_last_refill := now\<rparr>)"
      "access rate burst (iv Add_tokens) (st\<lparr>fs_last_refill := now\<rparr>) = (iv Read_tokens, full)"
      "access rate burst (iv Read_tokens) full = ((iv Take_tokens)\<lparr>iv_curr := fs_tokens full\<rparr>, full)"
      using 3 by (simp_all add: access_def enter_def iv_def full_def Let_def defs)
    have "flow_refill rate burst now st = full"
      using 3 by (simp add: flow_refill_def full_def Let_def defs)
    then show ?thesis
      unfolding seven(3) a [THEN alone_step] by (intro alone_take) (simp_all add: iv_def enter_def)
  qed
qed

section \<open>Two invocations\<close>

text \<open>C12: The race. Two packets of the same length arrive for a flow whose tokens do not suffice for
  either, at a time when nothing is refilled. If the second subtracts between the first one's
  subtraction and its giving back, the first is dropped but the second is passed, and the bucket is
  left with a wrapped balance of more than \<open>2^63\<close> tokens: until the next refill clamps it, every further
  packet of the flow passes.\<close>

theorem overdraft_race:
  assumes "fs_last_refill st = now" and "unat (fs_tokens st) < unat pkt_len" and "unat pkt_len < 2 ^ 62"
  shows "\<exists>iv1 iv2 st'. schedule rate burst [0, 1, 0, 1, 0] [enter now pkt_len, enter now pkt_len] st = ([iv1, iv2], st') \<and>
    iv_pc iv1 = Returned XDP_DROP \<and> iv_pc iv2 = Returned XDP_PASS \<and> 2 ^ 63 < unat (fs_tokens st')"
proof -
  define t where "t = fs_tokens st"
  have low: "t < pkt_len" using assms(2) by (simp add: t_def word_less_nat_alt)
  have wrap: "unat (t - pkt_len) = 2 ^ 64 + unat t - unat pkt_len"
    using assms(2) by (simp add: t_def unat_sub_if_size word_size)
  have big: "\<not> t - pkt_len < pkt_len" using assms(3) wrap by (simp add: word_less_nat_alt)
  have final: "2 ^ 63 < unat (t - pkt_len)" using assms(3) wrap by simp
  show ?thesis
    using low big final assms(1)
    by (simp add: access_def enter_def Let_def t_def [symmetric])
qed

theorem overdraft_race_witness:
  "\<exists>iv1 iv2 st'. schedule 1000 500 [0, 1, 0, 1, 0] [enter 9 100, enter 9 100]
      \<lparr>fs_packets = 1, fs_bytes = 1, fs_tokens = 50, fs_last_refill = 9, fs_first_seen = 1, fs_last_seen = 1,
       fs_flags = 0, fs_current_rate = 0, fs_current_burst = 0\<rparr> = ([iv1, iv2], st') \<and>
    iv_pc iv2 = Returned XDP_PASS \<and> 2 ^ 63 < unat (fs_tokens st')"
  using overdraft_race [of "\<lparr>fs_packets = 1, fs_bytes = 1, fs_tokens = 50, fs_last_refill = 9, fs_first_seen = 1,
      fs_last_seen = 1, fs_flags = 0, fs_current_rate = 0, fs_current_burst = 0\<rparr>" 9 100 1000 500] by auto

end
