(* ===== verification/EventQueue.thy ===== *)
theory EventQueue
  imports Prelude
begin

text \<open>
  The queue between the ring buffer thread and the analysis thread:
  \<open>src/src/user/util/LockFreeSPSCQueue.hpp\<close> and its two users in \<open>src/src/user/main.cpp\<close>.

  \<open>push\<close> and \<open>pop\<close> are first the operations of one thread at a time, on a record with the fields of
  the class. Then every atomic access of the two operations is a step of its own, and a run is any
  interleaving of one producer with one consumer. The parameter \<open>relaxed\<close> of the step relation tells
  whether the two stores of \<open>push\<close> become visible in the order of the program: the class uses
  \<open>memory_order_relaxed\<close> throughout, which does not promise it.
\<close>

section \<open>The queue\<close>

record 'a spsc =
  buffer :: "'a list"
  head :: nat
  tail :: nat

text \<open>The member \<open>capacity_\<close> is the length of the buffer, which never changes.\<close>

definition capacity :: "'a spsc \<Rightarrow> nat" where
  "capacity q = length (buffer q)"

definition new_queue :: "nat \<Rightarrow> 'a \<Rightarrow> 'a spsc" where
  "new_queue n blank = \<lparr>buffer = replicate n blank, head = 0, tail = 0\<rparr>"

definition spsc_push :: "'a \<Rightarrow> 'a spsc \<Rightarrow> bool \<times> 'a spsc" where
  "spsc_push v q =
     (let current_head = head q; current_tail = tail q in
      if (current_head + 1) mod capacity q = current_tail then (False, q)
      else (True, q\<lparr>buffer := (buffer q)[current_head := v], head := (current_head + 1) mod capacity q\<rparr>))"

definition spsc_pop :: "'a spsc \<Rightarrow> 'a option \<times> 'a spsc" where
  "spsc_pop q =
     (let current_tail = tail q; current_head = head q in
      if current_tail = current_head then (None, q)
      else (Some (buffer q ! current_tail), q\<lparr>tail := (current_tail + 1) mod capacity q\<rparr>))"

section \<open>The abstract queue\<close>

definition queue_ok :: "'a spsc \<Rightarrow> bool" where
  "queue_ok q \<longleftrightarrow> head q < capacity q \<and> tail q < capacity q"

text \<open>The number of slots from one index round to another.\<close>

definition dist :: "nat \<Rightarrow> nat \<Rightarrow> nat \<Rightarrow> nat" where
  "dist c i j = (if i \<le> j then j - i else c - i + j)"

definition segment :: "'a list \<Rightarrow> nat \<Rightarrow> nat \<Rightarrow> 'a list" where
  "segment b i j = map (\<lambda>n. b ! ((i + n) mod length b)) [0..<dist (length b) i j]"

definition contents :: "'a spsc \<Rightarrow> 'a list" where
  "contents q = segment (buffer q) (tail q) (head q)"

lemma dist_less: "i < c \<Longrightarrow> j < c \<Longrightarrow> dist c i j < c"
  by (auto simp: dist_def)

lemma dist_self: "dist c i i = 0"
  by (simp add: dist_def)

lemma dist_zero [simp]: "i < c \<Longrightarrow> j < c \<Longrightarrow> dist c i j = 0 \<longleftrightarrow> i = j"
  by (auto simp: dist_def)

lemma mod_step: "i < c \<Longrightarrow> Suc i mod c = (if Suc i = c then 0 else Suc i)"
  by simp

lemma next_less: "i < (c::nat) \<Longrightarrow> Suc i mod c < c"
  by (rule mod_less_divisor) simp

lemma next_inject: "i < c \<Longrightarrow> j < c \<Longrightarrow> Suc i mod c = Suc j mod c \<longleftrightarrow> i = j"
  using mod_step [of i c] mod_step [of j c] by (auto split: if_splits)

lemma dist_push: "i < c \<Longrightarrow> j < c \<Longrightarrow> Suc j mod c \<noteq> i \<Longrightarrow> dist c i (Suc j mod c) = Suc (dist c i j)"
  unfolding mod_step by (auto simp: dist_def split: if_splits)

lemma dist_pop: "i < c \<Longrightarrow> j < c \<Longrightarrow> i \<noteq> j \<Longrightarrow> dist c i j = Suc (dist c (Suc i mod c) j)"
  unfolding mod_step by (auto simp: dist_def split: if_splits)

lemma dist_index: "i < c \<Longrightarrow> j < c \<Longrightarrow> (i + dist c i j) mod c = j"
  by (auto simp: dist_def)

lemma dist_avoids: "i < c \<Longrightarrow> j < c \<Longrightarrow> n < dist c i j \<Longrightarrow> (i + n) mod c \<noteq> j"
proof (cases "i + n < c")
  case False
  assume "i < c" "j < c" "n < dist c i j"
  moreover from this have "n < c" using dist_less less_trans by blast
  ultimately have "(i + n) mod c = i + n - c" using False by (simp add: mod_if)
  then show ?thesis using False \<open>i < c\<close> \<open>j < c\<close> \<open>n < dist c i j\<close> by (auto simp: dist_def split: if_splits)
qed (auto simp: dist_def split: if_splits)

lemma segment_empty [simp]: "i < length b \<Longrightarrow> segment b i i = []"
  by (simp add: segment_def dist_def)

lemma segment_cons:
  assumes "i < length b" and "j < length b" and "i \<noteq> j"
  shows "segment b i j = b ! i # segment b (Suc i mod length b) j"
proof -
  have "(Suc i mod length b + n) mod length b = (i + Suc n) mod length b" for n
    by (simp add: mod_add_left_eq)
  moreover have "[0..<dist (length b) i j] = 0 # map Suc [0..<dist (length b) (Suc i mod length b) j]"
    by (simp only: dist_pop [OF assms] map_Suc_upt) (simp add: upt_conv_Cons)
  ultimately show ?thesis using assms(1) by (simp add: segment_def)
qed

text \<open>Writing outside of a segment does not change it, and the slot at its end extends it.\<close>

lemma segment_update:
  "i < length b \<Longrightarrow> j < length b \<Longrightarrow> segment (b[j := v]) i j = segment b i j"
  by (auto simp: segment_def nth_list_update dest: dist_avoids)

lemma segment_snoc:
  assumes "i < length b" and "j < length b" and "Suc j mod length b \<noteq> i"
  shows "segment b i (Suc j mod length b) = segment b i j @ [b ! j]"
  by (simp only: segment_def dist_push [OF assms] upt_Suc_append [OF le0] map_append list.map dist_index [OF assms(1,2)])

lemma length_contents: "queue_ok q \<Longrightarrow> length (contents q) = dist (capacity q) (tail q) (head q)"
  by (simp add: contents_def segment_def queue_ok_def capacity_def)

lemma contents_bound: "queue_ok q \<Longrightarrow> length (contents q) < capacity q"
  by (simp add: length_contents queue_ok_def dist_less)

section \<open>The interface that the two threads rely on\<close>

text \<open>A bounded queue with its contents, its invariant and its room.\<close>

locale bounded_queue =
  fixes push :: "'a \<Rightarrow> 'q \<Rightarrow> bool \<times> 'q" and pop :: "'q \<Rightarrow> 'a option \<times> 'q"
    and abs :: "'q \<Rightarrow> 'a list" and inv :: "'q \<Rightarrow> bool" and room :: "'q \<Rightarrow> nat"
  assumes push_room: "inv q \<Longrightarrow> length (abs q) < room q \<Longrightarrow>
      \<exists>q'. push v q = (True, q') \<and> inv q' \<and> abs q' = abs q @ [v] \<and> room q' = room q"
    and push_full: "inv q \<Longrightarrow> \<not> length (abs q) < room q \<Longrightarrow> push v q = (False, q)"
    and pop_first: "inv q \<Longrightarrow> abs q = v # vs \<Longrightarrow> \<exists>q'. pop q = (Some v, q') \<and> inv q' \<and> abs q' = vs \<and> room q' = room q"
    and pop_empty: "inv q \<Longrightarrow> abs q = [] \<Longrightarrow> pop q = (None, q)"

text \<open>The ring buffer callback \<open>push_l7event\<close> with the counter \<open>g_dropped_userspace_logs\<close>, and the loop of
  \<open>consume_and_print_userspace_logs\<close>, which hands the events to the engine until the queue is empty.\<close>

definition push_l7event ::
  "('a \<Rightarrow> 'q \<Rightarrow> bool \<times> 'q) \<Rightarrow> nat \<Rightarrow> nat \<times> 'a \<Rightarrow> 'q \<times> u64 \<Rightarrow> 'q \<times> u64" where
  "push_l7event push sizeof_event data st =
     (let (size, ev) = data; (q, dropped) = st in
      if size \<noteq> sizeof_event then st
      else (case push ev q of (True, q) \<Rightarrow> (q, dropped) | (False, q) \<Rightarrow> (q, dropped + 1)))"

fun consume_logs :: "('q \<Rightarrow> 'a option \<times> 'q) \<Rightarrow> nat \<Rightarrow> 'q \<Rightarrow> 'a list \<times> 'q" where
  "consume_logs pop 0 q = ([], q)"
| "consume_logs pop (Suc fuel) q =
     (case pop q of
        (None, q) \<Rightarrow> ([], q)
      | (Some v, q) \<Rightarrow> (let (vs, q) = consume_logs pop fuel q in (v # vs, q)))"

context bounded_queue begin

lemma offer_all:
  "inv q \<Longrightarrow> length (abs q) \<le> room q \<Longrightarrow>
   \<exists>q'. fold (push_l7event push n) (map (Pair n) es) (q, d) =
       (q', d + of_nat (length es - (room q - length (abs q)))) \<and>
     inv q' \<and> abs q' = abs q @ take (room q - length (abs q)) es \<and> room q' = room q"
proof (induction es arbitrary: q d)
  case (Cons e es)
  show ?case
  proof (cases "length (abs q) < room q")
    case True
    obtain q1 where q1: "push e q = (True, q1)" "inv q1" "abs q1 = abs q @ [e]" "room q1 = room q"
      using push_room [OF Cons.prems(1) True] by blast
    have more: "room q - length (abs q) = Suc (room q - length (abs q1))" using True q1(3) by simp
    show ?thesis using Cons.IH [of q1 d] q1 True more by (auto simp: push_l7event_def)
  next
    case False
    have none: "room q - length (abs q) = 0" using False by simp
    show ?thesis using Cons.IH [of q "d + 1"] Cons.prems none push_full [OF Cons.prems(1) False]
      by (auto simp: push_l7event_def)
  qed
qed simp

lemma drain:
  "inv q \<Longrightarrow> length (abs q) < fuel \<Longrightarrow>
   \<exists>q'. consume_logs pop fuel q = (abs q, q') \<and> inv q' \<and> abs q' = [] \<and> room q' = room q"
proof (induction fuel arbitrary: q)
  case (Suc fuel)
  show ?case
  proof (cases "abs q")
    case Nil
    then show ?thesis using pop_empty Suc.prems by simp
  next
    case (Cons v vs)
    obtain q1 where q1: "pop q = (Some v, q1)" "inv q1" "abs q1 = vs" "room q1 = room q"
      using pop_first [OF Suc.prems(1) Cons] by blast
    then show ?thesis using Suc.IH [of q1] Suc.prems(2) Cons by auto
  qed
qed simp

lemma delivered:
  assumes "inv q" and "abs q = []" and "room q < fuel"
  shows "\<exists>q1 q2. fold (push_l7event push n) (map (Pair n) es) (q, 0) = (q1, of_nat (length es - room q)) \<and>
    consume_logs pop fuel q1 = (take (room q) es, q2) \<and> abs q2 = []"
proof -
  obtain q1 where q1: "fold (push_l7event push n) (map (Pair n) es) (q, 0) = (q1, of_nat (length es - room q))"
    "inv q1" "abs q1 = take (room q) es"
    using offer_all [OF assms(1), of n es 0] assms(2) by auto
  moreover obtain q2 where "consume_logs pop fuel q1 = (abs q1, q2)" "abs q2 = []"
    using drain [OF q1(2), of fuel] q1(3) assms(3) by fastforce
  ultimately show ?thesis by auto
qed

end

text \<open>The queue of the class is such a queue, with one slot less than its capacity.\<close>

lemma push_accepts: "queue_ok q \<Longrightarrow> Suc (head q) mod capacity q \<noteq> tail q \<longleftrightarrow> Suc (length (contents q)) < capacity q"
  unfolding length_contents using mod_step [of "head q" "capacity q"]
  by (auto simp: queue_ok_def dist_def split: if_splits)

interpretation spsc: bounded_queue spsc_push spsc_pop contents queue_ok "\<lambda>q. capacity q - 1"
proof
  fix q :: "'a spsc" and v
  assume ok: "queue_ok q"
  then have b: "head q < length (buffer q)" "tail q < length (buffer q)" by (simp_all add: queue_ok_def capacity_def)
  let ?q = "q\<lparr>buffer := (buffer q)[head q := v], head := Suc (head q) mod capacity q\<rparr>"
  show "\<exists>q'. spsc_push v q = (True, q') \<and> queue_ok q' \<and> contents q' = contents q @ [v] \<and> capacity q' - 1 = capacity q - 1"
    if "length (contents q) < capacity q - 1"
  proof -
    have free: "Suc (head q) mod capacity q \<noteq> tail q" using that push_accepts [OF ok] by simp
    have "contents ?q = contents q @ [v]"
      using segment_snoc [of "tail q" "(buffer q)[head q := v]" "head q"] segment_update [of "tail q" "buffer q" "head q" v] b free
      by (simp add: contents_def capacity_def)
    moreover have "queue_ok ?q" using b next_less [OF b(1)] by (simp add: queue_ok_def capacity_def)
    ultimately show ?thesis using free by (simp add: spsc_push_def Let_def capacity_def)
  qed
  show "spsc_push v q = (False, q)" if "\<not> length (contents q) < capacity q - 1"
    using that push_accepts [OF ok] by (auto simp: spsc_push_def Let_def)
  show "\<exists>q'. spsc_pop q = (Some v, q') \<and> queue_ok q' \<and> contents q' = vs \<and> capacity q' - 1 = capacity q - 1"
    if "contents q = v # vs" for vs
  proof -
    have ne: "tail q \<noteq> head q" using that b by (auto simp: contents_def)
    have "contents q = buffer q ! tail q # segment (buffer q) (Suc (tail q) mod capacity q) (head q)"
      using segment_cons [OF b(2,1) ne] by (simp add: contents_def capacity_def)
    with that b ne next_less [OF b(2)] show ?thesis
      by (auto simp: spsc_pop_def Let_def queue_ok_def capacity_def contents_def)
  qed
  show "spsc_pop q = (None, q)" if "contents q = []"
    using that length_contents [OF ok] ok by (simp add: spsc_pop_def queue_ok_def)
qed

section \<open>Two threads\<close>

text \<open>The program points of \<open>push\<close> and \<open>pop\<close> with the values the thread has loaded. \<open>P_early\<close> is reached only
  when the two stores of \<open>push\<close> become visible in the other order.\<close>

datatype 'a producer = P_idle | P_head 'a nat | P_tail 'a nat nat | P_written 'a nat | P_early 'a nat
datatype 'a consumer = C_idle | C_tail nat | C_both nat nat | C_read nat 'a

text \<open>Besides the queue and the threads, the values pushed (made visible) and popped so far.\<close>

record 'a threads =
  queue :: "'a spsc"
  prod :: "'a producer"
  cons :: "'a consumer"
  pushed :: "'a list"
  popped :: "'a list"

datatype 'a action = Producer 'a | Producer_early 'a | Consumer

text \<open>The next access of the producer (which starts a push of the given value when it is idle, and lets the
  store of the head overtake the store of the value when \<open>early\<close> holds) and of the consumer.\<close>

definition producer_step :: "bool \<Rightarrow> 'a \<Rightarrow> 'a threads \<Rightarrow> 'a threads" where
  "producer_step early val r =
     (let q = queue r in
      case prod r of
        P_idle \<Rightarrow> r\<lparr>prod := P_head val (head q)\<rparr>
      | P_head v h \<Rightarrow> r\<lparr>prod := P_tail v h (tail q)\<rparr>
      | P_tail v h t \<Rightarrow>
          if (h + 1) mod capacity q = t then r\<lparr>prod := P_idle\<rparr>
          else if early
          then r\<lparr>queue := q\<lparr>head := (h + 1) mod capacity q\<rparr>, prod := P_early v h, pushed := pushed r @ [v]\<rparr>
          else r\<lparr>queue := q\<lparr>buffer := (buffer q)[h := v]\<rparr>, prod := P_written v h\<rparr>
      | P_written v h \<Rightarrow>
          r\<lparr>queue := q\<lparr>head := (h + 1) mod capacity q\<rparr>, prod := P_idle, pushed := pushed r @ [v]\<rparr>
      | P_early v h \<Rightarrow> r\<lparr>queue := q\<lparr>buffer := (buffer q)[h := v]\<rparr>, prod := P_idle\<rparr>)"

definition consumer_step :: "'a threads \<Rightarrow> 'a threads" where
  "consumer_step r =
     (let q = queue r in
      case cons r of
        C_idle \<Rightarrow> r\<lparr>cons := C_tail (tail q)\<rparr>
      | C_tail t \<Rightarrow> r\<lparr>cons := C_both t (head q)\<rparr>
      | C_both t h \<Rightarrow> if t = h then r\<lparr>cons := C_idle\<rparr> else r\<lparr>cons := C_read t (buffer q ! t)\<rparr>
      | C_read t v \<Rightarrow> r\<lparr>queue := q\<lparr>tail := (t + 1) mod capacity q\<rparr>, cons := C_idle, popped := popped r @ [v]\<rparr>)"

fun thread_step :: "'a action \<Rightarrow> 'a threads \<Rightarrow> 'a threads" where
  "thread_step (Producer v) r = producer_step False v r"
| "thread_step (Producer_early v) r = producer_step True v r"
| "thread_step Consumer r = consumer_step r"

definition start_threads :: "nat \<Rightarrow> 'a \<Rightarrow> 'a threads" where
  "start_threads n blank = \<lparr>queue = new_queue n blank, prod = P_idle, cons = C_idle, pushed = [], popped = []\<rparr>"

text \<open>With the stores in program order, what a thread has loaded is exact for its own index and safe for
  the other one.\<close>

definition producer_ok :: "'a spsc \<Rightarrow> 'a producer \<Rightarrow> bool" where
  "producer_ok q p \<longleftrightarrow>
     (case p of
        P_idle \<Rightarrow> True
      | P_head v h \<Rightarrow> h = head q
      | P_tail v h t \<Rightarrow> h = head q \<and> t < capacity q \<and> dist (capacity q) (tail q) h \<le> dist (capacity q) t h
      | P_written v h \<Rightarrow> h = head q \<and> buffer q ! h = v \<and> Suc h mod capacity q \<noteq> tail q
      | P_early v h \<Rightarrow> False)"

definition consumer_ok :: "'a spsc \<Rightarrow> 'a consumer \<Rightarrow> bool" where
  "consumer_ok q c \<longleftrightarrow>
     (case c of
        C_idle \<Rightarrow> True
      | C_tail t \<Rightarrow> t = tail q
      | C_both t h \<Rightarrow> t = tail q \<and> h < capacity q \<and> dist (capacity q) t h \<le> dist (capacity q) t (head q)
      | C_read t v \<Rightarrow> t = tail q \<and> t \<noteq> head q \<and> v = buffer q ! t)"

definition threads_ok :: "'a threads \<Rightarrow> bool" where
  "threads_ok r \<longleftrightarrow> queue_ok (queue r) \<and> producer_ok (queue r) (prod r) \<and> consumer_ok (queue r) (cons r) \<and>
     pushed r = popped r @ contents (queue r)"

lemmas threads_defs = threads_ok_def queue_ok_def capacity_def contents_def Let_def

lemma producer_ok_simps [simp]:
  "producer_ok q P_idle" "producer_ok q (P_head v h) \<longleftrightarrow> h = head q"
  "producer_ok q (P_tail v h t) \<longleftrightarrow> h = head q \<and> t < capacity q \<and> dist (capacity q) (tail q) h \<le> dist (capacity q) t h"
  "producer_ok q (P_written v h) \<longleftrightarrow> h = head q \<and> buffer q ! h = v \<and> Suc h mod capacity q \<noteq> tail q" "\<not> producer_ok q (P_early v h)"
  by (simp_all add: producer_ok_def)

lemma consumer_ok_simps [simp]:
  "consumer_ok q C_idle" "consumer_ok q (C_tail t) \<longleftrightarrow> t = tail q"
  "consumer_ok q (C_both t h) \<longleftrightarrow> t = tail q \<and> h < capacity q \<and> dist (capacity q) t h \<le> dist (capacity q) t (head q)"
  "consumer_ok q (C_read t v) \<longleftrightarrow> t = tail q \<and> t \<noteq> head q \<and> v = buffer q ! t"
  by (simp_all add: consumer_ok_def)

lemma not_full:
  assumes "h < c" and "t < c" and "u < c" and "dist c u h \<le> dist c t h" and "Suc h mod c \<noteq> t"
  shows "Suc h mod c \<noteq> u"
  using assms mod_step [OF assms(1)] by (auto simp: dist_def split: if_splits)

lemma producer_keeps:
  assumes "threads_ok r"
  shows "threads_ok (producer_step False v r)"
proof -
  have b: "head (queue r) < length (buffer (queue r))" "tail (queue r) < length (buffer (queue r))"
    using assms by (auto simp: threads_defs)
  show ?thesis
  proof (cases "prod r")
    case P_idle
    then show ?thesis using assms by (simp add: producer_step_def threads_defs)
  next
    case (P_head w h)
    then show ?thesis using assms by (simp add: producer_step_def threads_defs)
  next
    case (P_tail w h t)
    have h: "h = head (queue r)" using assms P_tail by (simp add: threads_defs)
    have "Suc h mod length (buffer (queue r)) \<noteq> tail (queue r)" if "Suc h mod length (buffer (queue r)) \<noteq> t"
      using not_full [of h "length (buffer (queue r))" t "tail (queue r)"] assms P_tail that b by (auto simp: threads_defs)
    then show ?thesis
      using assms P_tail b h segment_update [of "tail (queue r)" "buffer (queue r)" h w]
      by (cases "cons r") (auto simp: producer_step_def threads_defs nth_list_update)
  next
    case (P_written w h)
    have h: "h = head (queue r)" "buffer (queue r) ! h = w" "Suc h mod length (buffer (queue r)) \<noteq> tail (queue r)"
      using assms P_written by (auto simp: threads_defs)
    note snoc = segment_snoc [OF b(2) b(1)]
    note grow = dist_push [OF b(2) b(1)]
    show ?thesis
      using assms P_written h b snoc grow next_less [OF b(1)]
      by (cases "cons r") (auto simp: producer_step_def threads_defs)
  next
    case (P_early w h)
    then show ?thesis using assms by (simp add: threads_defs)
  qed
qed

lemma consumer_keeps:
  assumes "threads_ok r"
  shows "threads_ok (consumer_step r)"
proof -
  have b: "head (queue r) < length (buffer (queue r))" "tail (queue r) < length (buffer (queue r))"
    using assms by (auto simp: threads_defs)
  show ?thesis
  proof (cases "cons r")
    case C_idle
    then show ?thesis using assms by (simp add: consumer_step_def threads_defs)
  next
    case (C_tail t)
    then show ?thesis using assms b by (simp add: consumer_step_def threads_defs)
  next
    case (C_both t h)
    have "t \<noteq> head (queue r)" if "t \<noteq> h"
      using that assms C_both b dist_zero [of t "length (buffer (queue r))" h] by (auto simp: threads_defs dist_self simp del: dist_zero)
    then show ?thesis using assms C_both by (auto simp: consumer_step_def threads_defs)
  next
    case (C_read t v)
    have t: "t = tail (queue r)" "t \<noteq> head (queue r)" "v = buffer (queue r) ! t"
      using assms C_read by (simp_all add: threads_defs)
    note first = segment_cons [OF b(2) b(1)]
    note shrink = dist_pop [OF b(2) b(1)]
    show ?thesis
      using assms C_read t b first shrink next_less [OF b(2)] next_inject [OF b]
      by (cases "prod r") (auto simp: consumer_step_def threads_defs)
  qed
qed

section \<open>Properties\<close>

text \<open>C17: Under every interleaving of the accesses of one producer and one consumer, in program order, the
  queue is first in, first out and loses nothing: the values whose push has completed are the values
  popped, in the same order, followed by the values still stored, of which there is room for one less
  than the capacity.\<close>

theorem spsc_fifo:
  assumes "0 < n" and "\<forall>v. Producer_early v \<notin> set acts" and "r = fold thread_step acts (start_threads n blank)"
  shows "pushed r = popped r @ contents (queue r) \<and> length (contents (queue r)) < n"
proof -
  have start: "threads_ok (start_threads n blank)" "capacity (queue (start_threads n blank)) = n"
    using assms(1) by (simp_all add: start_threads_def new_queue_def threads_defs)
  have "threads_ok (fold thread_step acts r0) \<and> capacity (queue (fold thread_step acts r0)) = capacity (queue r0)"
    if "threads_ok r0" for r0
    using assms(2) that
  proof (induction acts arbitrary: r0)
    case (Cons a acts)
    have cap: "capacity (queue (thread_step a r0)) = capacity (queue r0)"
      by (cases a) (auto simp: producer_step_def consumer_step_def capacity_def Let_def split: producer.split consumer.split)
    have "threads_ok (thread_step a r0)"
      using Cons.prems producer_keeps consumer_keeps by (cases a) auto
    then show ?case using Cons.IH [of "thread_step a r0"] Cons.prems cap by simp
  qed simp
  from this [OF start(1)] start(2) assms(3) have "threads_ok r" "capacity (queue r) = n" by simp_all
  then show ?thesis using contents_bound [of "queue r"] by (simp add: threads_ok_def)
qed

theorem spsc_fifo_witness:
  "pushed (fold thread_step [Producer 7, Consumer, Producer 7, Producer 7, Consumer, Producer 7, Consumer] (start_threads 2 (0::nat)))
     = [7]"
  using spsc_fifo [of 2 "[Producer 7, Consumer, Producer 7, Producer 7, Consumer, Producer 7, Consumer]" _ 0, OF _ _ refl]
  by (simp add: start_threads_def new_queue_def producer_step_def consumer_step_def capacity_def contents_def segment_def
      dist_def Let_def)

text \<open>The memory order that the class asks for does not give program order. When the store of the head
  becomes visible before the store of the value, the consumer takes a value out of the queue that
  nobody pushed (the one the slot held before), and the value pushed is lost.\<close>

theorem spsc_relaxed_stale:
  "\<exists>r. r = fold thread_step [Producer 7, Producer 7, Producer_early 7, Consumer, Consumer, Consumer, Consumer, Producer 7]
     (start_threads 2 (0::nat)) \<and> pushed r = [7] \<and> popped r = [0] \<and> contents (queue r) = []"
  by (simp add: start_threads_def new_queue_def producer_step_def consumer_step_def capacity_def contents_def segment_def
      dist_def Let_def)

text \<open>C18: The ring buffer thread fills the empty queue and the analysis thread empties it: the engine is
  given the first events of the burst, as many as the queue has room for (one less than its capacity),
  in the order of their arrival, and the drop counter has counted every other one.\<close>

theorem burst_delivered:
  assumes "0 < n"
  shows "\<exists>q1 q2. fold (push_l7event spsc_push sz) (map (Pair sz) es) (new_queue n blank, 0) =
      (q1, of_nat (length es - (n - 1))) \<and>
    consume_logs spsc_pop n q1 = (take (n - 1) es, q2) \<and> contents q2 = []"
proof -
  have q: "queue_ok (new_queue n blank)" "contents (new_queue n blank) = []" "capacity (new_queue n blank) = n"
    using assms by (simp_all add: new_queue_def queue_ok_def capacity_def contents_def)
  show ?thesis using spsc.delivered [OF q(1,2), of n sz es] q(3) assms by simp
qed

theorem burst_delivered_witness:
  "\<exists>q1 q2. fold (push_l7event spsc_push 1) (map (Pair 1) [10, 20, 30, 40]) (new_queue 3 (0::nat), 0) = (q1, 2) \<and>
    consume_logs spsc_pop 3 q1 = ([10, 20], q2)"
  using burst_delivered [of 3 1 "[10, 20, 30, 40]" "0::nat"] by auto

end
