(* ===== verification/TextScan.thy ===== *)
theory TextScan
  imports Prelude
begin

text \<open>
  What the user-space code uses of the C and C++ libraries to read text: cutting at separators
  (\<open>find\<close> and \<open>substr\<close>), lines (\<open>getline\<close>) and blank-separated words (\<open>fscanf\<close>), decimal numbers
  (\<open>std::stoi\<close>, \<open>strtoul\<close>) and dotted addresses (\<open>inet_pton\<close>). Strings are lists of characters; an
  address is the number that the little-endian machine reads from its four bytes in network order.
\<close>

section \<open>Exceptions\<close>

text \<open>The exceptions that the user-space code throws itself or lets through from the library. A function
  that may throw returns \<open>exn + 'a\<close>.\<close>

datatype exn = runtime_error string | invalid_argument | out_of_range | bad_alloc

section \<open>Cutting\<close>

fun split_on :: "char \<Rightarrow> string \<Rightarrow> string list" where
  "split_on c [] = [[]]"
| "split_on c (x # xs) =
     (if x = c then [] # split_on c xs
      else (case split_on c xs of [] \<Rightarrow> [[x]] | w # ws \<Rightarrow> (x # w) # ws))"

fun join_with :: "char \<Rightarrow> string list \<Rightarrow> string" where
  "join_with c [] = []"
| "join_with c [w] = w"
| "join_with c (w # ws) = w @ c # join_with c ws"

lemma split_on_ne [simp]: "split_on c s \<noteq> []"
  by (induction s) (auto split: list.split)

lemma split_on_plain: "c \<notin> set w \<Longrightarrow> split_on c w = [w]"
  by (induction w) auto

lemma split_on_append: "c \<notin> set w \<Longrightarrow> split_on c (w @ c # s) = w # split_on c s"
  by (induction w) auto

lemma split_join: "ws \<noteq> [] \<Longrightarrow> \<forall>w\<in>set ws. c \<notin> set w \<Longrightarrow> split_on c (join_with c ws) = ws"
  by (induction c ws rule: join_with.induct) (auto simp: split_on_plain split_on_append)

lemma split_on_cut:
  "c \<in> set s \<Longrightarrow> split_on c s = takeWhile (\<lambda>x. x \<noteq> c) s # split_on c (tl (dropWhile (\<lambda>x. x \<noteq> c) s))"
  by (induction s) auto

text \<open>The lines that \<open>getline\<close> delivers: a final newline ends the last line and starts no other one.\<close>

definition newline :: char where [eval_defs]: "newline = CHR 0x0A"

definition lines_of :: "string \<Rightarrow> string list" where
  "lines_of s = (let ls = split_on newline s in if last ls = [] then butlast ls else ls)"

definition is_blank :: "char \<Rightarrow> bool" where
  [eval_defs]: "is_blank c \<longleftrightarrow> c \<in> {CHR '' '', CHR 0x09, CHR 0x0A, CHR 0x0B, CHR 0x0C, CHR 0x0D}"

text \<open>The words that \<open>fscanf\<close> reads with \<open>%63s\<close>: a longer run of characters is cut after 63 of them.\<close>

fun words63 :: "nat \<Rightarrow> string \<Rightarrow> string \<Rightarrow> string list" where
  "words63 n w [] = (if w = [] then [] else [rev w])"
| "words63 n w (c # s) =
     (if is_blank c then (if w = [] then words63 63 [] s else rev w # words63 63 [] s)
      else if n = 0 then rev w # words63 62 [c] s
      else words63 (n - 1) (c # w) s)"

section \<open>Decimal numbers\<close>

definition digit_val :: "char \<Rightarrow> nat" where
  [eval_defs]: "digit_val c = of_char c - 48"

definition is_digit :: "char \<Rightarrow> bool" where
  [eval_defs]: "is_digit c \<longleftrightarrow> 48 \<le> (of_char c :: nat) \<and> (of_char c :: nat) \<le> 57"

definition digit_chr :: "nat \<Rightarrow> char" where
  [eval_defs]: "digit_chr d = char_of (48 + d)"

definition num_of :: "string \<Rightarrow> nat" where
  [eval_defs]: "num_of s = fold (\<lambda>c n. n * 10 + digit_val c) s 0"

fun show_nat :: "nat \<Rightarrow> string" where
  "show_nat n = (if n < 10 then [digit_chr n] else show_nat (n div 10) @ [digit_chr (n mod 10)])"

declare show_nat.simps [simp del]

lemma digit_chr [simp]: "d < 10 \<Longrightarrow> is_digit (digit_chr d)" "d < 10 \<Longrightarrow> digit_val (digit_chr d) = d"
  by (simp_all add: is_digit_def digit_val_def digit_chr_def)

lemma num_of_snoc: "num_of (s @ [c]) = num_of s * 10 + digit_val c"
  by (simp add: num_of_def)

lemma num_of_show [simp]: "num_of (show_nat n) = n"
proof (induction n rule: show_nat.induct)
  case (1 n)
  then show ?case by (subst show_nat.simps) (auto simp: num_of_snoc, simp add: num_of_def)
qed

lemma show_nat_digits: "c \<in> set (show_nat n) \<Longrightarrow> is_digit c"
proof (induction n rule: show_nat.induct)
  case (1 n)
  then show ?case by (subst (asm) show_nat.simps) (auto split: if_splits)
qed

lemma show_nat_ne [simp]: "show_nat n \<noteq> []"
  by (subst show_nat.simps) simp

text \<open>No digit is a separator or a sign.\<close>

lemma digit_not: "is_digit c \<Longrightarrow> c \<noteq> CHR ''.'' \<and> c \<noteq> CHR ''-'' \<and> c \<noteq> CHR ''+'' \<and> c \<noteq> CHR '','' \<and> c \<noteq> CHR ''='' \<and> \<not> is_blank c"
  by (auto simp: is_digit_def is_blank_def)

lemma show_nat_all: "list_all is_digit (show_nat n)"
  by (simp add: list_all_iff show_nat_digits)

text \<open>An optional sign after blanks, and the digits behind it.\<close>

definition strip_sign :: "string \<Rightarrow> bool \<times> string" where
  [eval_defs]: "strip_sign s =
     (case dropWhile is_blank s of
        [] \<Rightarrow> (False, [])
      | c # cs \<Rightarrow> if c = CHR ''-'' then (True, cs) else if c = CHR ''+'' then (False, cs) else (False, c # cs))"

definition stoi :: "string \<Rightarrow> exn + int" where
  [eval_defs]: "stoi s =
     (let (neg, r) = strip_sign s; ds = takeWhile is_digit r;
          v = (if neg then - int (num_of ds) else int (num_of ds))
      in if ds = [] then Inl invalid_argument
         else if v < - (2 ^ 31) \<or> 2 ^ 31 \<le> v then Inl out_of_range
         else Inr v)"

definition strtoul :: "string \<Rightarrow> u64" where
  [eval_defs]: "strtoul s =
     (let (neg, r) = strip_sign s; n = num_of (takeWhile is_digit r)
      in if 2 ^ 64 \<le> n then -1 else if neg then - of_nat n else of_nat n)"

lemma strip_digits: "list_all is_digit ds \<Longrightarrow> strip_sign ds = (False, ds)"
  by (cases ds) (auto simp: strip_sign_def dest: digit_not)

lemma take_digits: "list_all is_digit ds \<Longrightarrow> takeWhile is_digit ds = ds"
  by (simp add: takeWhile_eq_all_conv list_all_iff)

lemma stoi_show: "n < 2 ^ 31 \<Longrightarrow> stoi (show_nat n) = Inr (int n)"
  by (simp add: stoi_def strip_digits show_nat_all take_digits)

lemma strtoul_show: "n < 2 ^ 64 \<Longrightarrow> strtoul (show_nat n) = of_nat n"
  by (simp add: strtoul_def strip_digits show_nat_all take_digits)

section \<open>Addresses\<close>

text \<open>One field of a dotted address: decimal, without a leading zero, at most 255.\<close>

definition octet :: "string \<Rightarrow> u32 option" where
  [eval_defs]: "octet w =
     (if w \<noteq> [] \<and> list_all is_digit w \<and> (length w = 1 \<or> hd w \<noteq> CHR ''0'') \<and> num_of w \<le> 255
      then Some (of_nat (num_of w)) else None)"

definition address :: "u32 \<Rightarrow> u32 \<Rightarrow> u32 \<Rightarrow> u32 \<Rightarrow> u32" where
  [eval_defs]: "address a b c d = a OR push_bit 8 b OR push_bit 16 c OR push_bit 24 d"

definition inet_pton :: "string \<Rightarrow> u32 option" where
  [eval_defs]: "inet_pton s =
     (case map octet (split_on CHR ''.'' s) of
        [Some a, Some b, Some c, Some d] \<Rightarrow> Some (address a b c d)
      | _ \<Rightarrow> None)"

definition dotted :: "nat \<Rightarrow> nat \<Rightarrow> nat \<Rightarrow> nat \<Rightarrow> string" where
  [eval_defs]: "dotted a b c d = join_with CHR ''.'' (map show_nat [a, b, c, d])"

lemma show_nat_hd: "0 < n \<Longrightarrow> hd (show_nat n) \<noteq> CHR ''0''"
proof (induction n rule: show_nat.induct)
  case (1 n)
  have "digit_chr n \<noteq> CHR ''0''" if "n < 10" "0 < n"
    using digit_chr(2) [OF that(1)] that(2) by (auto simp: digit_val_def)
  with 1 show ?case by (subst show_nat.simps) (auto simp: hd_append)
qed

lemma octet_show: "n \<le> 255 \<Longrightarrow> octet (show_nat n) = Some (of_nat n)"
proof (cases "n = 0")
  case True
  then show ?thesis using num_of_show [of 0] show_nat_all [of 0] by (simp add: octet_def show_nat.simps [of 0])
next
  case False
  assume "n \<le> 255"
  then show ?thesis using False show_nat_hd [of n] by (simp add: octet_def show_nat_all)
qed

lemma inet_pton_dotted:
  assumes "a \<le> 255" and "b \<le> 255" and "c \<le> 255" and "d \<le> 255"
  shows "inet_pton (dotted a b c d) = Some (address (of_nat a) (of_nat b) (of_nat c) (of_nat d))"
proof -
  have "split_on CHR ''.'' (dotted a b c d) = map show_nat [a, b, c, d]"
    unfolding dotted_def by (rule split_join) (auto dest!: show_nat_digits digit_not)
  then show ?thesis using assms by (simp add: inet_pton_def octet_show)
qed

end
