(* ===== verification/UserConfig.thy ===== *)
theory UserConfig
  imports TextScan Maps
begin

text \<open>
  The configuration of the user-space program: reading sizes and levels, loading \<open>config.json\<close>
  (\<open>src/src/user/config/xdp_fw_config.h\<close>), the two logging macros (\<open>user_log.h\<close> and the kernel's \<open>log.h\<close>), and
  the transfer to the kernel's maps (\<open>fill_xfg_and_update_xdpmap\<close>, \<open>load_allow_ports_to_map\<close> and
  \<open>init_global_pps_limit\<close> of \<open>main.cpp\<close>, \<open>sync_xdp_config_map\<close> of \<open>xdp_fw_config.hpp\<close>).

  The JSON library is an argument: what its typed accessors deliver for a path, \<open>None\<close> where they throw.
\<close>

section \<open>Log levels\<close>

definition log_level_map :: "string \<rightharpoonup> u32" where
  "log_level_map = map_of [(''TRACE'', 4), (''DEBUG'', 3), (''INFO'', 2), (''WARN'', 1), (''ERROR'', 0)]"

definition get_log_level :: "string \<Rightarrow> u32" where
  "get_log_level level = (case log_level_map level of Some v \<Rightarrow> v | None \<Rightarrow> 1)"

text \<open>The levels of \<open>user_log.h\<close> and the test of its macro; the levels of \<open>log.h\<close> and the test of its
  macro, which dereferences the configuration entry.\<close>

definition USER_LVL_TRACE :: u32 where [const_defs]: "USER_LVL_TRACE = 4"
definition USER_LVL_DEBUG :: u32 where [const_defs]: "USER_LVL_DEBUG = 3"
definition USER_LVL_INFO :: u32 where [const_defs]: "USER_LVL_INFO = 2"
definition USER_LVL_WARN :: u32 where [const_defs]: "USER_LVL_WARN = 1"
definition USER_LVL_ERROR :: u32 where [const_defs]: "USER_LVL_ERROR = 0"

definition user_log_prints :: "string \<Rightarrow> u32 \<Rightarrow> bool" where
  "user_log_prints config_level level \<longleftrightarrow> level \<le> get_log_level config_level"

definition LOG_LVL_INFO :: u32 where [const_defs]: "LOG_LVL_INFO = 1"
definition LOG_LVL_WARN :: u32 where [const_defs]: "LOG_LVL_WARN = 2"
definition LOG_LVL_DEBUG :: u32 where [const_defs]: "LOG_LVL_DEBUG = 3"
definition LOG_LVL_ERROR :: u32 where [const_defs]: "LOG_LVL_ERROR = 4"

definition slf_log_prints :: "fw_state \<Rightarrow> u32 \<Rightarrow> bool" where
  "slf_log_prints s level \<longleftrightarrow> (case get_debug_level s of None \<Rightarrow> False | Some l \<Rightarrow> level \<le> l)"

section \<open>Sizes\<close>

text \<open>The floating-point number that \<open>%lf\<close> reads, as a sign, a decimal mantissa and a power of ten, and the
  rest of the text. Hexadecimal, infinite and undefined forms are not read.\<close>

record decimal =
  dc_neg :: bool
  dc_mant :: nat
  dc_exp :: int

text \<open>An exponent is read only when a digit follows its letter and sign.\<close>

definition scan_exponent :: "string \<Rightarrow> int \<times> string" where
  "scan_exponent s =
     (case s of
        [] \<Rightarrow> (0, s)
      | c # r \<Rightarrow>
          if c = CHR ''e'' \<or> c = CHR ''E'' then
            (let (neg, ds) = (case r of [] \<Rightarrow> (False, r)
                  | x # t \<Rightarrow> if x = CHR ''-'' then (True, t) else if x = CHR ''+'' then (False, t) else (False, r));
                 e = takeWhile is_digit ds
             in if e = [] then (0, s)
                else ((if neg then - int (num_of e) else int (num_of e)), dropWhile is_digit ds))
          else (0, s))"

definition scan_decimal :: "string \<Rightarrow> (decimal \<times> string) option" where
  "scan_decimal s =
     (let (neg, r) = strip_sign s;
          whole = takeWhile is_digit r; r = dropWhile is_digit r;
          (frac, r) = (case r of [] \<Rightarrow> ([], r)
             | c # t \<Rightarrow> if c = CHR ''.'' then (takeWhile is_digit t, dropWhile is_digit t) else ([], r))
      in if whole = [] \<and> frac = [] then None
         else (let (e, r) = scan_exponent r
               in Some (\<lparr>dc_neg = neg, dc_mant = num_of (whole @ frac), dc_exp = e - int (length frac)\<rparr>, r)))"

text \<open>The unit is a word of at most 15 characters behind the number, blanks skipped.\<close>

definition scan_unit :: "string \<Rightarrow> string option" where
  "scan_unit s = (let w = takeWhile (\<lambda>c. \<not> is_blank c) (dropWhile is_blank s) in if w = [] then None else Some (take 15 w))"

text \<open>The conversion of the product to \<open>uint64_t\<close>: it cuts off the fraction; \<open>oob\<close> stands for what the
  platform delivers when the value does not fit. The exact product is cut here, the C code cuts the
  rounded one; they agree as long as the product is below \<open>2^53\<close> divided by ten for every decimal place.\<close>

definition cast_u64 :: "u64 \<Rightarrow> decimal \<Rightarrow> nat \<Rightarrow> u64" where
  "cast_u64 oob d factor =
     (let mag = (if dc_exp d \<ge> 0 then dc_mant d * 10 ^ nat (dc_exp d) * factor
                 else dc_mant d * factor div 10 ^ nat (- dc_exp d))
      in if 2 ^ 64 \<le> mag \<or> dc_neg d \<and> mag \<noteq> 0 then oob else of_nat mag)"

definition parse_size :: "u64 \<Rightarrow> string \<Rightarrow> exn + u64" where
  "parse_size oob str =
     (case scan_decimal str of
        None \<Rightarrow> Inl (runtime_error (''invalid size: '' @ str))
      | Some (val, rest) \<Rightarrow>
          (case scan_unit rest of
             None \<Rightarrow> Inl (runtime_error (''invalid size: '' @ str))
           | Some unit \<Rightarrow>
               if unit = ''KB'' \<or> unit = ''KB/s'' then Inr (cast_u64 oob val 1024)
               else if unit = ''MB'' \<or> unit = ''MB/s'' then Inr (cast_u64 oob val (1024 * 1024))
               else if unit = ''GB'' \<or> unit = ''GB/s'' then Inr (cast_u64 oob val (1024 * 1024 * 1024))
               else Inr (cast_u64 oob val 1)))"

definition factor_of :: "string \<Rightarrow> nat" where
  "factor_of unit =
     (if unit = ''KB'' \<or> unit = ''KB/s'' then 1024
      else if unit = ''MB'' \<or> unit = ''MB/s'' then 1024 * 1024
      else if unit = ''GB'' \<or> unit = ''GB/s'' then 1024 * 1024 * 1024 else 1)"

text \<open>A unit that the scanner takes as one: it does not continue the number.\<close>

definition unit_ok :: "string \<Rightarrow> bool" where
  "unit_ok unit \<longleftrightarrow> unit \<noteq> [] \<and> length unit \<le> 15 \<and> list_all (\<lambda>c. \<not> is_blank c) unit \<and>
     \<not> is_digit (hd unit) \<and> hd unit \<noteq> CHR ''.'' \<and> hd unit \<noteq> CHR ''e'' \<and> hd unit \<noteq> CHR ''E''"

lemma span_digits:
  "list_all is_digit ds \<Longrightarrow> r = [] \<or> \<not> is_digit (hd r) \<Longrightarrow> takeWhile is_digit (ds @ r) = ds \<and> dropWhile is_digit (ds @ r) = r"
  by (cases r) (auto simp: takeWhile_append dropWhile_append list_all_iff)

lemma strip_sign_digits: "list_all is_digit ds \<Longrightarrow> ds \<noteq> [] \<Longrightarrow> strip_sign (ds @ r) = (False, ds @ r)"
  by (cases ds) (auto simp: strip_sign_def dest: digit_not)

lemma scan_whole:
  assumes "unit_ok unit"
  shows "scan_decimal (show_nat n @ unit) = Some (\<lparr>dc_neg = False, dc_mant = n, dc_exp = 0\<rparr>, unit)" and "scan_unit unit = Some unit"
proof -
  obtain c u where u: "unit = c # u" using assms by (cases unit) (auto simp: unit_ok_def)
  have "takeWhile is_digit (show_nat n @ unit) = show_nat n" "dropWhile is_digit (show_nat n @ unit) = unit"
    using span_digits [OF show_nat_all, of unit n] assms by (auto simp: unit_ok_def)
  then show "scan_decimal (show_nat n @ unit) = Some (\<lparr>dc_neg = False, dc_mant = n, dc_exp = 0\<rparr>, unit)"
    using assms by (simp add: scan_decimal_def strip_sign_digits show_nat_all u scan_exponent_def unit_ok_def)
  have word: "takeWhile (\<lambda>c. \<not> is_blank c) unit = unit" using assms by (simp add: unit_ok_def takeWhile_eq_all_conv list_all_iff)
  have blanks: "dropWhile is_blank unit = unit" using assms by (simp add: u unit_ok_def)
  show "scan_unit unit = Some unit"
    unfolding scan_unit_def blanks word Let_def using assms by (simp add: unit_ok_def)
qed

text \<open>A size written as a whole number and a unit is read as the number times the unit's factor, for
  every product below \<open>2^64\<close>; a unit that the program does not know (also one in lower case) is taken
  for bytes without complaint.\<close>

theorem size_roundtrip:
  assumes "unit_ok unit" and "n * factor_of unit < 2 ^ 64"
  shows "parse_size oob (show_nat n @ unit) = Inr (of_nat (n * factor_of unit))"
proof -
  have "parse_size oob (show_nat n @ unit) = Inr (cast_u64 oob \<lparr>dc_neg = False, dc_mant = n, dc_exp = 0\<rparr> (factor_of unit))"
    by (simp add: parse_size_def scan_whole [OF assms(1)] factor_of_def)
  then show ?thesis using assms(2) by (simp add: cast_u64_def)
qed

theorem size_roundtrip_witness:
  "parse_size 0 ''10MB/s'' = Inr 10485760 \<and> parse_size 0 ''10mb'' = Inr 10"
proof -
  have n: "show_nat 10 = ''10''" by code_simp
  have ok: "unit_ok ''MB/s''" "unit_ok ''mb''" by (simp_all add: unit_ok_def is_blank_def is_digit_def)
  show ?thesis using size_roundtrip [OF ok(1), of 10 0] size_roundtrip [OF ok(2), of 10 0] by (simp add: n factor_of_def)
qed

section \<open>The configuration object\<close>

record rate_limit_config =
  global_pps_limit :: u64
  global_rate :: string
  global_burst :: string
  custom_rate :: string
  custom_burst :: string
  flow_rate :: string
  flow_burst :: string

record allow_ports_config =
  src_port :: "string list"
  dst_port :: "string list"

record black_list_config =
  temp_list_path :: string
  perm_list_path :: string

record risk_config_info =
  remoteSourceUrl :: string
  fileSourcePath :: string
  fileSourceBinaryPath :: string
  authTokenPath :: string
  checksumStoragePath :: string
  apiKey :: string
  syncIntervalSeconds :: u64
  retryLimit :: u64
  timeoutSeconds :: u64
  forceReload :: bool

record ssl_conf =
  caPath :: string
  keyPath :: string
  certPath :: string
  certPasswd :: string
  tlsVersion :: string
  ciphers :: string
  isActive :: bool
  enableMtls :: bool

record exporter_config =
  enableExporter :: bool
  enableSocket :: bool
  socketPath :: string
  metricsPort :: int
  updateIntervalMs :: int

record xdp_fw_config =
  cfg_port :: u16
  cfg_log_level :: string
  cfg_log_path :: string
  cfg_rule_file_path :: string
  cfg_time_format :: string
  cfg_enable_dpi :: bool
  cfg_rate_limit :: rate_limit_config
  cfg_white_list_path :: string
  cfg_black_list :: black_list_config
  cfg_allow_ports :: allow_ports_config
  cfg_risk :: risk_config_info
  cfg_ssl :: ssl_conf
  cfg_exporter :: exporter_config
  cfg_cpu_values :: "u64 list option"

text \<open>\<open>clear_resources\<close> frees the counter buffer and empties the two lists that \<open>load\<close> appends to.\<close>

definition clear_resources :: "xdp_fw_config \<Rightarrow> xdp_fw_config" where
  "clear_resources c = c\<lparr>cfg_cpu_values := None, cfg_allow_ports := \<lparr>src_port = [], dst_port = []\<rparr>\<rparr>"

text \<open>The typed accessors of the JSON document, by path. An array is the list of what its elements deliver as
  strings.\<close>

record json_doc =
  get_object :: "string list \<Rightarrow> bool"
  get_string :: "string list \<Rightarrow> string option"
  get_uint64 :: "string list \<Rightarrow> u64 option"
  get_int64 :: "string list \<Rightarrow> u64 option"
  get_bool :: "string list \<Rightarrow> bool option"
  get_array :: "string list \<Rightarrow> string option list option"

text \<open>An assignment of \<open>load\<close>: it throws and leaves the object as it is, or stores the value.\<close>

type_synonym load_step = "xdp_fw_config \<Rightarrow> (exn + unit) \<times> xdp_fw_config"

definition json_error :: exn where "json_error = runtime_error ''simdjson''"

definition assign :: "'v option \<Rightarrow> ('v \<Rightarrow> xdp_fw_config \<Rightarrow> xdp_fw_config) \<Rightarrow> load_step" where
  "assign x upd c = (case x of None \<Rightarrow> (Inl json_error, c) | Some v \<Rightarrow> (Inr (), upd v c))"

definition section_at :: "json_doc \<Rightarrow> string list \<Rightarrow> load_step" where
  "section_at d path c = (if get_object d path then (Inr (), c) else (Inl json_error, c))"

fun run_steps :: "load_step list \<Rightarrow> load_step" where
  "run_steps [] c = (Inr (), c)"
| "run_steps (st # sts) c = (case st c of (Inl x, c) \<Rightarrow> (Inl x, c) | (Inr _, c) \<Rightarrow> run_steps sts c)"

text \<open>The loop over an array appends one element at a time.\<close>

fun append_all :: "string option list \<Rightarrow> (string \<Rightarrow> xdp_fw_config \<Rightarrow> xdp_fw_config) \<Rightarrow> load_step" where
  "append_all [] add c = (Inr (), c)"
| "append_all (None # xs) add c = (Inl json_error, c)"
| "append_all (Some v # xs) add c = append_all xs add (add v c)"

definition append_array :: "string option list option \<Rightarrow> (string \<Rightarrow> xdp_fw_config \<Rightarrow> xdp_fw_config) \<Rightarrow> load_step" where
  "append_array arr add c = (case arr of None \<Rightarrow> (Inl json_error, c) | Some xs \<Rightarrow> append_all xs add c)"

abbreviation upd_rate :: "(rate_limit_config \<Rightarrow> rate_limit_config) \<Rightarrow> xdp_fw_config \<Rightarrow> xdp_fw_config" where
  "upd_rate f c \<equiv> c\<lparr>cfg_rate_limit := f (cfg_rate_limit c)\<rparr>"
abbreviation upd_risk :: "(risk_config_info \<Rightarrow> risk_config_info) \<Rightarrow> xdp_fw_config \<Rightarrow> xdp_fw_config" where
  "upd_risk f c \<equiv> c\<lparr>cfg_risk := f (cfg_risk c)\<rparr>"
abbreviation upd_ssl :: "(ssl_conf \<Rightarrow> ssl_conf) \<Rightarrow> xdp_fw_config \<Rightarrow> xdp_fw_config" where
  "upd_ssl f c \<equiv> c\<lparr>cfg_ssl := f (cfg_ssl c)\<rparr>"
abbreviation upd_exporter :: "(exporter_config \<Rightarrow> exporter_config) \<Rightarrow> xdp_fw_config \<Rightarrow> xdp_fw_config" where
  "upd_exporter f c \<equiv> c\<lparr>cfg_exporter := f (cfg_exporter c)\<rparr>"
abbreviation upd_black :: "(black_list_config \<Rightarrow> black_list_config) \<Rightarrow> xdp_fw_config \<Rightarrow> xdp_fw_config" where
  "upd_black f c \<equiv> c\<lparr>cfg_black_list := f (cfg_black_list c)\<rparr>"
abbreviation upd_ports :: "(allow_ports_config \<Rightarrow> allow_ports_config) \<Rightarrow> xdp_fw_config \<Rightarrow> xdp_fw_config" where
  "upd_ports f c \<equiv> c\<lparr>cfg_allow_ports := f (cfg_allow_ports c)\<rparr>"

text \<open>The assignments in the order of the source, one group per section of the file.\<close>

definition load_global :: "json_doc \<Rightarrow> load_step list" where
  "load_global d =
     [section_at d [''global''],
      assign (get_uint64 d [''global'', ''port'']) (\<lambda>v c. c\<lparr>cfg_port := ucast v\<rparr>),
      assign (get_string d [''global'', ''log_level'']) (\<lambda>v c. c\<lparr>cfg_log_level := v\<rparr>),
      assign (get_string d [''global'', ''log_path'']) (\<lambda>v c. c\<lparr>cfg_log_path := v\<rparr>),
      assign (get_string d [''global'', ''rule_file_path'']) (\<lambda>v c. c\<lparr>cfg_rule_file_path := v\<rparr>),
      assign (get_string d [''global'', ''time_format'']) (\<lambda>v c. c\<lparr>cfg_time_format := v\<rparr>)]"

definition load_rate :: "json_doc \<Rightarrow> load_step list" where
  "load_rate d =
     (let at = \<lambda>k. [''global'', ''rate_limit'', k] in
      [section_at d [''global'', ''rate_limit''],
       assign (get_uint64 d (at ''global_pps_limit'')) (\<lambda>v. upd_rate (\<lambda>r. r\<lparr>global_pps_limit := v\<rparr>)),
       assign (get_string d (at ''global_rate'')) (\<lambda>v. upd_rate (\<lambda>r. r\<lparr>global_rate := v\<rparr>)),
       assign (get_string d (at ''global_burst'')) (\<lambda>v. upd_rate (\<lambda>r. r\<lparr>global_burst := v\<rparr>)),
       assign (get_string d (at ''custom_rate'')) (\<lambda>v. upd_rate (\<lambda>r. r\<lparr>custom_rate := v\<rparr>)),
       assign (get_string d (at ''custom_burst'')) (\<lambda>v. upd_rate (\<lambda>r. r\<lparr>custom_burst := v\<rparr>)),
       assign (get_string d (at ''flow_rate'')) (\<lambda>v. upd_rate (\<lambda>r. r\<lparr>flow_rate := v\<rparr>)),
       assign (get_string d (at ''flow_burst'')) (\<lambda>v. upd_rate (\<lambda>r. r\<lparr>flow_burst := v\<rparr>))])"

definition load_lists :: "json_doc \<Rightarrow> load_step list" where
  "load_lists d =
     [assign (get_string d [''white_list'', ''path'']) (\<lambda>v c. c\<lparr>cfg_white_list_path := v\<rparr>),
      assign (get_string d [''black_list'', ''temp_list'', ''path'']) (\<lambda>v. upd_black (\<lambda>b. b\<lparr>temp_list_path := v\<rparr>)),
      assign (get_string d [''black_list'', ''perm_list'', ''path'']) (\<lambda>v. upd_black (\<lambda>b. b\<lparr>perm_list_path := v\<rparr>)),
      append_array (get_array d [''allow_ports'', ''src_port'']) (\<lambda>v. upd_ports (\<lambda>a. a\<lparr>src_port := src_port a @ [v]\<rparr>)),
      append_array (get_array d [''allow_ports'', ''dest_port'']) (\<lambda>v. upd_ports (\<lambda>a. a\<lparr>dst_port := dst_port a @ [v]\<rparr>)),
      assign (get_bool d [''enable_dpi'']) (\<lambda>v c. c\<lparr>cfg_enable_dpi := v\<rparr>)]"

definition load_risk :: "json_doc \<Rightarrow> load_step list" where
  "load_risk d =
     (let at = \<lambda>k. [''risk_config_info'', k] in
      [section_at d [''risk_config_info''],
       assign (get_string d (at ''remote_source_url'')) (\<lambda>v. upd_risk (\<lambda>r. r\<lparr>remoteSourceUrl := v\<rparr>)),
       assign (get_string d (at ''file_source_path'')) (\<lambda>v. upd_risk (\<lambda>r. r\<lparr>fileSourcePath := v\<rparr>)),
       assign (get_string d (at ''file_source_binary_path'')) (\<lambda>v. upd_risk (\<lambda>r. r\<lparr>fileSourceBinaryPath := v\<rparr>)),
       assign (get_string d (at ''auth_token_path'')) (\<lambda>v. upd_risk (\<lambda>r. r\<lparr>authTokenPath := v\<rparr>)),
       assign (get_string d (at ''checksum_storage_path'')) (\<lambda>v. upd_risk (\<lambda>r. r\<lparr>checksumStoragePath := v\<rparr>)),
       assign (get_int64 d (at ''sync_interval_seconds'')) (\<lambda>v. upd_risk (\<lambda>r. r\<lparr>syncIntervalSeconds := v\<rparr>)),
       assign (get_int64 d (at ''retry_limit'')) (\<lambda>v. upd_risk (\<lambda>r. r\<lparr>retryLimit := v\<rparr>)),
       assign (get_int64 d (at ''timeout_seconds'')) (\<lambda>v. upd_risk (\<lambda>r. r\<lparr>timeoutSeconds := v\<rparr>)),
       assign (get_string d (at ''api_key'')) (\<lambda>v. upd_risk (\<lambda>r. r\<lparr>apiKey := v\<rparr>)),
       assign (get_bool d (at ''force_reload'')) (\<lambda>v. upd_risk (\<lambda>r. r\<lparr>forceReload := v\<rparr>))])"

definition load_ssl :: "json_doc \<Rightarrow> load_step list" where
  "load_ssl d =
     (let at = \<lambda>k. [''ssl_conf'', k] in
      [section_at d [''ssl_conf''],
       assign (get_bool d (at ''is_active'')) (\<lambda>v. upd_ssl (\<lambda>r. r\<lparr>isActive := v\<rparr>)),
       assign (get_bool d (at ''enable_mtls'')) (\<lambda>v. upd_ssl (\<lambda>r. r\<lparr>enableMtls := v\<rparr>)),
       assign (get_string d (at ''ca_path'')) (\<lambda>v. upd_ssl (\<lambda>r. r\<lparr>caPath := v\<rparr>)),
       assign (get_string d (at ''key_path'')) (\<lambda>v. upd_ssl (\<lambda>r. r\<lparr>keyPath := v\<rparr>)),
       assign (get_string d (at ''cert_path'')) (\<lambda>v. upd_ssl (\<lambda>r. r\<lparr>certPath := v\<rparr>)),
       assign (get_string d (at ''cert_passwd'')) (\<lambda>v. upd_ssl (\<lambda>r. r\<lparr>certPasswd := v\<rparr>)),
       assign (get_string d (at ''tls_version'')) (\<lambda>v. upd_ssl (\<lambda>r. r\<lparr>tlsVersion := v\<rparr>)),
       assign (get_string d (at ''ciphers'')) (\<lambda>v. upd_ssl (\<lambda>r. r\<lparr>ciphers := v\<rparr>))])"

definition load_exporter :: "json_doc \<Rightarrow> load_step list" where
  "load_exporter d =
     (let at = \<lambda>k. [''exporter_config'', k] in
      [section_at d [''exporter_config''],
       assign (get_bool d (at ''enable_exporter'')) (\<lambda>v. upd_exporter (\<lambda>r. r\<lparr>enableExporter := v\<rparr>)),
       assign (get_bool d (at ''enable_socket'')) (\<lambda>v. upd_exporter (\<lambda>r. r\<lparr>enableSocket := v\<rparr>)),
       assign (get_string d (at ''socket_path'')) (\<lambda>v. upd_exporter (\<lambda>r. r\<lparr>socketPath := v\<rparr>)),
       assign (get_uint64 d (at ''metrics_port'')) (\<lambda>v. upd_exporter (\<lambda>r. r\<lparr>metricsPort := sint (ucast v :: 32 word)\<rparr>)),
       assign (get_uint64 d (at ''update_interval_ms'')) (\<lambda>v. upd_exporter (\<lambda>r. r\<lparr>updateIntervalMs := sint (ucast v :: 32 word)\<rparr>))])"

definition load_steps :: "json_doc \<Rightarrow> load_step list" where
  "load_steps d = load_global d @ load_rate d @ load_lists d @ load_risk d @ load_ssl d @ load_exporter d"

text \<open>The whole of \<open>load\<close>: \<open>file\<close> is \<open>None\<close> when the file does not exist, and the parsed document is \<open>None\<close>
  when it cannot be parsed; the object has been cleared by then.\<close>

definition load_config :: "json_doc option option \<Rightarrow> load_step" where
  "load_config file c =
     (case file of
        None \<Rightarrow> (Inl (runtime_error ''no such file''), c)
      | Some None \<Rightarrow> (Inl json_error, clear_resources c)
      | Some (Some d) \<Rightarrow> run_steps (load_steps d) (clear_resources c))"

section \<open>What a load leaves\<close>

text \<open>The configuration that a document describes.\<close>

definition rate_of :: "json_doc \<Rightarrow> rate_limit_config" where
  "rate_of d = (let str = \<lambda>k. the (get_string d [''global'', ''rate_limit'', k]) in
     \<lparr>global_pps_limit = the (get_uint64 d [''global'', ''rate_limit'', ''global_pps_limit'']),
      global_rate = str ''global_rate'', global_burst = str ''global_burst'', custom_rate = str ''custom_rate'',
      custom_burst = str ''custom_burst'', flow_rate = str ''flow_rate'', flow_burst = str ''flow_burst''\<rparr>)"

definition risk_of :: "json_doc \<Rightarrow> risk_config_info" where
  "risk_of d = (let str = \<lambda>k. the (get_string d [''risk_config_info'', k]); int = \<lambda>k. the (get_int64 d [''risk_config_info'', k]) in
     \<lparr>remoteSourceUrl = str ''remote_source_url'', fileSourcePath = str ''file_source_path'',
      fileSourceBinaryPath = str ''file_source_binary_path'', authTokenPath = str ''auth_token_path'',
      checksumStoragePath = str ''checksum_storage_path'', apiKey = str ''api_key'',
      syncIntervalSeconds = int ''sync_interval_seconds'', retryLimit = int ''retry_limit'',
      timeoutSeconds = int ''timeout_seconds'', forceReload = the (get_bool d [''risk_config_info'', ''force_reload''])\<rparr>)"

definition ssl_of :: "json_doc \<Rightarrow> ssl_conf" where
  "ssl_of d = (let str = \<lambda>k. the (get_string d [''ssl_conf'', k]) in
     \<lparr>caPath = str ''ca_path'', keyPath = str ''key_path'', certPath = str ''cert_path'', certPasswd = str ''cert_passwd'',
      tlsVersion = str ''tls_version'', ciphers = str ''ciphers'', isActive = the (get_bool d [''ssl_conf'', ''is_active'']),
      enableMtls = the (get_bool d [''ssl_conf'', ''enable_mtls''])\<rparr>)"

definition exporter_of :: "json_doc \<Rightarrow> exporter_config" where
  "exporter_of d = (let int = \<lambda>k. sint (ucast (the (get_uint64 d [''exporter_config'', k])) :: 32 word) in
     \<lparr>enableExporter = the (get_bool d [''exporter_config'', ''enable_exporter'']),
      enableSocket = the (get_bool d [''exporter_config'', ''enable_socket'']),
      socketPath = the (get_string d [''exporter_config'', ''socket_path'']),
      metricsPort = int ''metrics_port'', updateIntervalMs = int ''update_interval_ms''\<rparr>)"

definition config_of :: "json_doc \<Rightarrow> xdp_fw_config" where
  "config_of d =
     \<lparr>cfg_port = ucast (the (get_uint64 d [''global'', ''port''])), cfg_log_level = the (get_string d [''global'', ''log_level'']),
      cfg_log_path = the (get_string d [''global'', ''log_path'']), cfg_rule_file_path = the (get_string d [''global'', ''rule_file_path'']),
      cfg_time_format = the (get_string d [''global'', ''time_format'']), cfg_enable_dpi = the (get_bool d [''enable_dpi'']),
      cfg_rate_limit = rate_of d, cfg_white_list_path = the (get_string d [''white_list'', ''path'']),
      cfg_black_list = \<lparr>temp_list_path = the (get_string d [''black_list'', ''temp_list'', ''path'']),
        perm_list_path = the (get_string d [''black_list'', ''perm_list'', ''path''])\<rparr>,
      cfg_allow_ports = \<lparr>src_port = map the (the (get_array d [''allow_ports'', ''src_port''])),
        dst_port = map the (the (get_array d [''allow_ports'', ''dest_port'']))\<rparr>,
      cfg_risk = risk_of d, cfg_ssl = ssl_of d, cfg_exporter = exporter_of d, cfg_cpu_values = None\<rparr>"

lemma run_append: "run_steps (xs @ ys) c = (case run_steps xs c of (Inl x, c) \<Rightarrow> (Inl x, c) | (Inr _, c) \<Rightarrow> run_steps ys c)"
  by (induction xs arbitrary: c) (auto split: prod.split sum.split)

lemma run_append_ok:
  "run_steps (xs @ ys) c = (Inr (), c1) \<longleftrightarrow> (\<exists>c2. run_steps xs c = (Inr (), c2) \<and> run_steps ys c2 = (Inr (), c1))"
  by (auto simp: run_append split: prod.splits sum.splits)

declare run_steps.simps(2) [simp del]

lemma run_step_ok:
  "run_steps (assign x upd # sts) c = (Inr (), c1) \<longleftrightarrow> (\<exists>v. x = Some v \<and> run_steps sts (upd v c) = (Inr (), c1))"
  "run_steps (section_at d path # sts) c = (Inr (), c1) \<longleftrightarrow> get_object d path \<and> run_steps sts c = (Inr (), c1)"
  "run_steps (append_array arr add # sts) c = (Inr (), c1) \<longleftrightarrow>
     (\<exists>xs c2. arr = Some xs \<and> append_all xs add c = (Inr (), c2) \<and> run_steps sts c2 = (Inr (), c1))"
  by (auto simp: run_steps.simps(2) assign_def section_at_def append_array_def split: option.splits prod.splits sum.splits)

lemma append_all_ok:
  "append_all xs (\<lambda>v. upd_ports (\<lambda>a. a\<lparr>src_port := src_port a @ [v]\<rparr>)) c = (Inr (), c1) \<Longrightarrow>
     c1 = upd_ports (\<lambda>a. a\<lparr>src_port := src_port a @ map the xs\<rparr>) c"
  "append_all xs (\<lambda>v. upd_ports (\<lambda>a. a\<lparr>dst_port := dst_port a @ [v]\<rparr>)) c = (Inr (), c1) \<Longrightarrow>
     c1 = upd_ports (\<lambda>a. a\<lparr>dst_port := dst_port a @ map the xs\<rparr>) c"
  by (induction xs arbitrary: c) (auto split: option.splits elim!: append_all.elims)

lemmas group_simps = run_step_ok run_steps.simps(1) Let_def

lemma load_global_ok: "run_steps (load_global d) c = (Inr (), c1) \<Longrightarrow>
   c1 = c\<lparr>cfg_port := cfg_port (config_of d), cfg_log_level := cfg_log_level (config_of d), cfg_log_path := cfg_log_path (config_of d),
     cfg_rule_file_path := cfg_rule_file_path (config_of d), cfg_time_format := cfg_time_format (config_of d)\<rparr>"
  by (auto simp: load_global_def config_of_def group_simps)

lemma load_rate_ok: "run_steps (load_rate d) c = (Inr (), c1) \<Longrightarrow> c1 = c\<lparr>cfg_rate_limit := rate_of d\<rparr>"
  by (cases "cfg_rate_limit c") (auto simp: load_rate_def rate_of_def group_simps)

lemma load_lists_ok: "run_steps (load_lists d) c = (Inr (), c1) \<Longrightarrow>
   c1 = c\<lparr>cfg_white_list_path := cfg_white_list_path (config_of d), cfg_black_list := cfg_black_list (config_of d),
     cfg_allow_ports := \<lparr>src_port = src_port (cfg_allow_ports c) @ src_port (cfg_allow_ports (config_of d)),
       dst_port = dst_port (cfg_allow_ports c) @ dst_port (cfg_allow_ports (config_of d))\<rparr>,
     cfg_enable_dpi := cfg_enable_dpi (config_of d)\<rparr>"
  by (cases "cfg_allow_ports c"; cases "cfg_black_list c") (auto simp: load_lists_def config_of_def group_simps dest!: append_all_ok)

lemma load_risk_ok: "run_steps (load_risk d) c = (Inr (), c1) \<Longrightarrow> c1 = c\<lparr>cfg_risk := risk_of d\<rparr>"
  by (cases "cfg_risk c") (auto simp: load_risk_def risk_of_def group_simps)

lemma load_ssl_ok: "run_steps (load_ssl d) c = (Inr (), c1) \<Longrightarrow> c1 = c\<lparr>cfg_ssl := ssl_of d\<rparr>"
  by (cases "cfg_ssl c") (auto simp: load_ssl_def ssl_of_def group_simps)

lemma load_exporter_ok: "run_steps (load_exporter d) c = (Inr (), c1) \<Longrightarrow> c1 = c\<lparr>cfg_exporter := exporter_of d\<rparr>"
  by (cases "cfg_exporter c") (auto simp: load_exporter_def exporter_of_def group_simps)

lemma load_ok_config:
  assumes "load_config (Some (Some d)) c = (Inr (), c1)"
  shows "c1 = config_of d"
proof -
  obtain c2 c3 c4 c5 c6 where
    "run_steps (load_global d) (clear_resources c) = (Inr (), c2)" "run_steps (load_rate d) c2 = (Inr (), c3)"
    "run_steps (load_lists d) c3 = (Inr (), c4)" "run_steps (load_risk d) c4 = (Inr (), c5)"
    "run_steps (load_ssl d) c5 = (Inr (), c6)" "run_steps (load_exporter d) c6 = (Inr (), c1)"
    using assms by (auto simp: load_config_def load_steps_def run_append_ok)
  then have "c1 = clear_resources c\<lparr>cfg_port := cfg_port (config_of d), cfg_log_level := cfg_log_level (config_of d),
      cfg_log_path := cfg_log_path (config_of d), cfg_rule_file_path := cfg_rule_file_path (config_of d),
      cfg_time_format := cfg_time_format (config_of d), cfg_rate_limit := rate_of d,
      cfg_white_list_path := cfg_white_list_path (config_of d), cfg_black_list := cfg_black_list (config_of d),
      cfg_allow_ports := cfg_allow_ports (config_of d), cfg_enable_dpi := cfg_enable_dpi (config_of d),
      cfg_risk := risk_of d, cfg_ssl := ssl_of d, cfg_exporter := exporter_of d\<rparr>"
    by (auto dest!: load_global_ok load_rate_ok load_lists_ok load_risk_ok load_ssl_ok load_exporter_ok simp: clear_resources_def)
  then show ?thesis by (cases c) (simp add: clear_resources_def config_of_def)
qed

text \<open>A load that succeeds leaves exactly the configuration that the document describes: every field of
  the object is the document's, and nothing of an earlier load survives (the port lists, which the
  loader appends to, included).\<close>

theorem load_complete:
  assumes "load_config (Some (Some d)) c = (Inr (), c1)"
  shows "c1 = config_of d"
  by (rule load_ok_config [OF assms])

text \<open>A document in which every value is there.\<close>

definition sample_doc :: json_doc where
  "sample_doc = \<lparr>get_object = (\<lambda>_. True), get_string = (\<lambda>p. Some (if last p = ''log_level'' then ''DEBUG'' else ''4GB'')),
     get_uint64 = (\<lambda>_. Some 9443), get_int64 = (\<lambda>_. Some 5), get_bool = (\<lambda>_. Some True),
     get_array = (\<lambda>_. Some [Some ''443'', Some ''80''])\<rparr>"

definition blank_config :: xdp_fw_config where
  "blank_config = \<lparr>cfg_port = 9443, cfg_log_level = [], cfg_log_path = [], cfg_rule_file_path = [], cfg_time_format = [],
     cfg_enable_dpi = False, cfg_rate_limit = \<lparr>global_pps_limit = 0, global_rate = [], global_burst = [], custom_rate = [],
       custom_burst = [], flow_rate = [], flow_burst = []\<rparr>, cfg_white_list_path = [],
     cfg_black_list = \<lparr>temp_list_path = [], perm_list_path = []\<rparr>, cfg_allow_ports = \<lparr>src_port = [''22''], dst_port = []\<rparr>,
     cfg_risk = \<lparr>remoteSourceUrl = [], fileSourcePath = [], fileSourceBinaryPath = [], authTokenPath = [],
       checksumStoragePath = [], apiKey = [], syncIntervalSeconds = 0, retryLimit = 0, timeoutSeconds = 0, forceReload = False\<rparr>,
     cfg_ssl = \<lparr>caPath = [], keyPath = [], certPath = [], certPasswd = [], tlsVersion = [], ciphers = [], isActive = False,
       enableMtls = False\<rparr>,
     cfg_exporter = \<lparr>enableExporter = False, enableSocket = False, socketPath = [], metricsPort = 0, updateIntervalMs = 0\<rparr>,
     cfg_cpu_values = None\<rparr>"

lemma sample_groups:
  "fst (run_steps (load_global sample_doc) c) = Inr ()" "fst (run_steps (load_rate sample_doc) c) = Inr ()"
  "fst (run_steps (load_lists sample_doc) c) = Inr ()" "fst (run_steps (load_risk sample_doc) c) = Inr ()"
  "fst (run_steps (load_ssl sample_doc) c) = Inr ()" "fst (run_steps (load_exporter sample_doc) c) = Inr ()"
  by (simp_all add: load_global_def load_rate_def load_lists_def load_risk_def load_ssl_def load_exporter_def sample_doc_def
      run_steps.simps(2) assign_def section_at_def append_array_def Let_def)

lemma sample_loads: "\<exists>c1. load_config (Some (Some sample_doc)) c = (Inr (), c1)"
proof -
  have "fst (run_steps (xs @ ys) c) = Inr ()" if "\<And>c. fst (run_steps xs c) = Inr ()" "\<And>c. fst (run_steps ys c) = Inr ()" for xs ys c
    using that [of c] that(2) by (auto simp: run_append split: prod.split sum.split)
  then have "fst (run_steps (load_steps sample_doc) c) = Inr ()" for c
    unfolding load_steps_def using sample_groups by simp
  then show ?thesis by (simp add: load_config_def prod_eq_iff)
qed

theorem load_complete_witness:
  "\<exists>c1. load_config (Some (Some sample_doc)) blank_config = (Inr (), c1) \<and> src_port (cfg_allow_ports c1) = [''443'', ''80'']"
proof -
  obtain c1 where run: "load_config (Some (Some sample_doc)) blank_config = (Inr (), c1)" using sample_loads by blast
  from load_complete [OF run] run show ?thesis by (simp add: config_of_def sample_doc_def)
qed

text \<open>A load that fails is not undone. When the document has its first two sections but no white list
  path, \<open>load\<close> throws and leaves a mixture: the new levels and rates, the old path, and no allowed ports
  at all.\<close>

theorem load_failure_mixes:
  assumes "run_steps (load_global d @ load_rate d) (clear_resources c) = (Inr (), c2)"
    and "get_string d [''white_list'', ''path''] = None"
  shows "\<exists>c1. load_config (Some (Some d)) c = (Inl json_error, c1) \<and>
    cfg_log_level c1 = cfg_log_level (config_of d) \<and> cfg_rate_limit c1 = cfg_rate_limit (config_of d) \<and>
    cfg_white_list_path c1 = cfg_white_list_path c \<and> cfg_allow_ports c1 = \<lparr>src_port = [], dst_port = []\<rparr>"
proof -
  have "load_config (Some (Some d)) c = (Inl json_error, c2)"
    using assms(1) run_append [of "load_global d @ load_rate d" "load_lists d @ load_risk d @ load_ssl d @ load_exporter d"] assms(2)
    by (simp add: load_config_def load_steps_def load_lists_def run_steps.simps(2) assign_def)
  moreover obtain c3 where "run_steps (load_global d) (clear_resources c) = (Inr (), c3)" "run_steps (load_rate d) c3 = (Inr (), c2)"
    using assms(1) by (auto simp: run_append_ok)
  then have "c2 = clear_resources c\<lparr>cfg_port := cfg_port (config_of d), cfg_log_level := cfg_log_level (config_of d),
      cfg_log_path := cfg_log_path (config_of d), cfg_rule_file_path := cfg_rule_file_path (config_of d),
      cfg_time_format := cfg_time_format (config_of d), cfg_rate_limit := rate_of d\<rparr>"
    by (auto dest!: load_global_ok load_rate_ok)
  ultimately show ?thesis by (auto simp: clear_resources_def config_of_def)
qed

theorem load_failure_mixes_witness:
  "\<exists>c1. load_config (Some (Some (sample_doc\<lparr>get_string := (\<lambda>p. if hd p = ''global'' then Some ''x'' else None)\<rparr>))) blank_config
      = (Inl json_error, c1) \<and> cfg_log_level c1 = ''x'' \<and> src_port (cfg_allow_ports c1) = []"
proof -
  let ?d = "sample_doc\<lparr>get_string := (\<lambda>p. if hd p = ''global'' then Some ''x'' else None)\<rparr>"
  have "\<exists>c2. run_steps (load_global ?d @ load_rate ?d) (clear_resources blank_config) = (Inr (), c2)"
    by (simp add: load_global_def load_rate_def sample_doc_def run_steps.simps(2) assign_def section_at_def Let_def)
  then obtain c2 where run: "run_steps (load_global ?d @ load_rate ?d) (clear_resources blank_config) = (Inr (), c2)" by blast
  from load_failure_mixes [OF run] show ?thesis by (auto simp: config_of_def)
qed

section \<open>The transfer to the kernel\<close>

text \<open>The loops over the configured ports; at most \<open>MAX_PORTS\<close> of them are read.\<close>

fun fill_ports :: "nat \<Rightarrow> string list \<Rightarrow> u16 list \<Rightarrow> exn + u16 list" where
  "fill_ports i [] arr = Inr arr"
| "fill_ports i (p # ps) arr =
     (if i < MAX_PORTS
      then (case stoi p of Inl x \<Rightarrow> Inl x | Inr v \<Rightarrow> fill_ports (Suc i) ps (arr[i := of_int v]))
      else Inr arr)"

definition convert_to_struct :: "string list \<Rightarrow> string list \<Rightarrow> global_config \<Rightarrow> exn + global_config" where
  "convert_to_struct src_ports dst_ports g =
     (case fill_ports 0 src_ports (replicate MAX_PORTS 0) of
        Inl x \<Rightarrow> Inl x
      | Inr src \<Rightarrow>
          (case fill_ports 0 dst_ports (replicate MAX_PORTS 0) of
             Inl x \<Rightarrow> Inl x
           | Inr dst \<Rightarrow> Inr (g\<lparr>gc_src_ports := src, gc_dst_ports := dst\<rparr>)))"

fun insert_ports :: "nat \<Rightarrow> string list \<Rightarrow> (u16 \<rightharpoonup> u8) \<Rightarrow> (exn + unit) \<times> (u16 \<rightharpoonup> u8)" where
  "insert_ports i [] m = (Inr (), m)"
| "insert_ports i (p # ps) m =
     (if i < MAX_PORTS
      then (case stoi p of
              Inl x \<Rightarrow> (Inl x, m)
            | Inr v \<Rightarrow> insert_ports (Suc i) ps
                (if of_int v \<noteq> (0 :: u16) then bpf_map_update_elem m (of_int v) 1 else m))
      else (Inr (), m))"

definition load_allow_ports_to_map ::
  "string list \<Rightarrow> string list \<Rightarrow> global_config \<Rightarrow> fw_state \<Rightarrow> (exn + global_config) \<times> fw_state" where
  "load_allow_ports_to_map src_ports dst_ports g s =
     (case convert_to_struct src_ports dst_ports g of
        Inl x \<Rightarrow> (Inl x, s)
      | Inr g \<Rightarrow>
          (case insert_ports 0 src_ports (ingress_allowed_ports s) of
             (Inl x, m) \<Rightarrow> (Inl x, s\<lparr>ingress_allowed_ports := m\<rparr>)
           | (Inr _, m) \<Rightarrow>
               (case insert_ports 0 dst_ports (egress_allowed_ports s) of
                  (Inl x, n) \<Rightarrow> (Inl x, s\<lparr>ingress_allowed_ports := m, egress_allowed_ports := n\<rparr>)
                | (Inr _, n) \<Rightarrow> (Inr g, s\<lparr>ingress_allowed_ports := m, egress_allowed_ports := n\<rparr>))))"

text \<open>The rates of \<open>fill_xfg_and_update_xdpmap\<close>: 64 bit sizes, divided by the number of processors where the
  source divides, stored in fields of 32 bits.\<close>

definition online_cpus :: "int \<Rightarrow> u64" where
  "online_cpus sysconf = (if sysconf \<le> 0 then 1 else of_int sysconf)"

definition fill_rates :: "u64 \<Rightarrow> int \<Rightarrow> xdp_fw_config \<Rightarrow> global_config \<Rightarrow> exn + global_config" where
  "fill_rates oob sysconf c g =
     (let num_cpus = online_cpus sysconf; rl = cfg_rate_limit c;
          g = g\<lparr>gc_log_level := get_log_level (cfg_log_level c)\<rparr>
      in case parse_size oob (flow_burst rl) of Inl x \<Rightarrow> Inl x | Inr fb \<Rightarrow>
         (case parse_size oob (flow_rate rl) of Inl x \<Rightarrow> Inl x | Inr fr \<Rightarrow>
         (case parse_size oob (global_burst rl) of Inl x \<Rightarrow> Inl x | Inr gb \<Rightarrow>
         (case parse_size oob (global_rate rl) of Inl x \<Rightarrow> Inl x | Inr gr \<Rightarrow>
         (case parse_size oob (custom_rate rl) of Inl x \<Rightarrow> Inl x | Inr cr \<Rightarrow>
         (case parse_size oob (custom_burst rl) of Inl x \<Rightarrow> Inl x | Inr cb \<Rightarrow>
           Inr (g\<lparr>gc_flow_burst := ucast fb, gc_flow_rate := ucast (fr div num_cpus), gc_global_burst := ucast gb,
             gc_global_rate := ucast (gr div num_cpus), gc_custom_rate := ucast (cr div num_cpus), gc_custom_burst := ucast cb,
             gc_global_pps_limit := global_pps_limit rl, gc_enable_dpi := (if cfg_enable_dpi c then 1 else 0)\<rparr>)))))))"

text \<open>The second copy, a member of \<open>xdp_fw_global_config\<close> that nothing calls: it does not divide the rates by the
  number of CPUs, and leaves the custom limits, the ports and the lists alone.\<close>

definition fill_rates_member :: "u64 \<Rightarrow> xdp_fw_config \<Rightarrow> global_config \<Rightarrow> exn + global_config" where
  "fill_rates_member oob c g =
     (let rl = cfg_rate_limit c; g = g\<lparr>gc_log_level := get_log_level (cfg_log_level c)\<rparr>
      in case parse_size oob (flow_burst rl) of Inl x \<Rightarrow> Inl x | Inr fb \<Rightarrow>
         (case parse_size oob (flow_rate rl) of Inl x \<Rightarrow> Inl x | Inr fr \<Rightarrow>
         (case parse_size oob (global_burst rl) of Inl x \<Rightarrow> Inl x | Inr gb \<Rightarrow>
         (case parse_size oob (global_rate rl) of Inl x \<Rightarrow> Inl x | Inr gr \<Rightarrow>
           Inr (g\<lparr>gc_flow_burst := ucast fb, gc_flow_rate := ucast fr, gc_global_burst := ucast gb, gc_global_rate := ucast gr,
             gc_global_pps_limit := global_pps_limit rl, gc_enable_dpi := (if cfg_enable_dpi c then 1 else 0)\<rparr>)))))"

text \<open>On a host with one CPU the two agree but for the custom limits.\<close>

lemma fill_member_agrees:
  assumes "fill_rates oob sysconf c g = Inr g'" and "sysconf \<le> 1"
  shows "fill_rates_member oob c g = Inr (g'\<lparr>gc_custom_rate := gc_custom_rate g, gc_custom_burst := gc_custom_burst g\<rparr>)"
proof -
  have "online_cpus sysconf = 1" using assms(2) by (cases "sysconf = 1") (simp_all add: online_cpus_def)
  then show ?thesis
    using assms(1) by (auto simp: fill_rates_def fill_rates_member_def Let_def split: sum.splits)
qed

definition init_global_pps_limit :: "u64 \<Rightarrow> fw_state \<Rightarrow> fw_state" where
  "init_global_pps_limit pps_limit s =
     s\<lparr>global_pps_map := bpf_map_update_elem (global_pps_map s) 0 \<lparr>pb_tokens = pps_limit, pb_last_ts = 0\<rparr>\<rparr>"

definition sync_xdp_config_map :: "global_config \<Rightarrow> fw_state \<Rightarrow> fw_state" where
  "sync_xdp_config_map g s = s\<lparr>global_config_map := bpf_map_update_elem (global_config_map s) 0 g\<rparr>"

end
