(* ===== verification/BlockRules.thy ===== *)
theory BlockRules
  imports TextScan XdpSpec
begin

text \<open>
  The block lists as user space fills them: the rule files of \<open>src/src/user/util/RuleParser.hpp\<close>, their
  transfer to the kernel (\<open>load_blocklist_to_map\<close> of \<open>main.cpp\<close>, \<open>sync_xdp_block_map\<close> of
  \<open>xdp_fw_config.cpp\<close>, \<open>parse_time\<close> of \<open>xdp_fw_config.hpp\<close>), and the control file that is read on SIGUSR1
  (\<open>Firewall.hpp\<close>).

  File contents are strings (\<open>None\<close> for a file that cannot be opened). The clocks and the calendar
  functions that depend on the time zone (\<open>std::get_time\<close> and \<open>strptime\<close> with \<open>mktime\<close>) are an
  argument, one reading per call. A map is written through its file descriptor: a number that is
  not the descriptor of a map makes the update fail, and the code does not look at the result.
\<close>

section \<open>Rule files\<close>

type_synonym ac_map = "string \<rightharpoonup> string"

definition process_pair :: "string \<Rightarrow> ac_map \<Rightarrow> ac_map" where
  "process_pair pair rules =
     (if CHR ''='' \<in> set pair
      then rules(takeWhile (\<lambda>c. c \<noteq> CHR ''='') pair \<mapsto> tl (dropWhile (\<lambda>c. c \<noteq> CHR ''='') pair))
      else rules)"

text \<open>The loop over the commas, on the rest of the line from \<open>start\<close> on.\<close>

function parse_pairs :: "string \<Rightarrow> ac_map \<Rightarrow> ac_map" where
  "parse_pairs rest rules =
     (if CHR '','' \<in> set rest
      then parse_pairs (tl (dropWhile (\<lambda>c. c \<noteq> CHR '','') rest)) (process_pair (takeWhile (\<lambda>c. c \<noteq> CHR '','') rest) rules)
      else process_pair rest rules)"
  by auto
termination
proof (relation "measure (\<lambda>(rest, _). length rest)")
  fix rest :: string and rules :: ac_map
  assume "CHR '','' \<in> set rest"
  then have "0 < length rest" by (cases rest) auto
  with length_dropWhile_le [of "\<lambda>c. c \<noteq> CHR '',''" rest]
  have "length (dropWhile (\<lambda>c. c \<noteq> CHR '','') rest) - 1 < length rest" by linarith
  then show "((tl (dropWhile (\<lambda>c. c \<noteq> CHR '','') rest), process_pair (takeWhile (\<lambda>c. c \<noteq> CHR '','') rest) rules), rest, rules)
      \<in> measure (\<lambda>(rest, _). length rest)"
    by simp
qed simp

declare parse_pairs.simps [simp del]

definition parse_line :: "string \<Rightarrow> ac_map" where
  "parse_line line = parse_pairs line Map.empty"

definition parse_file :: "string option \<Rightarrow> ac_map list" where
  "parse_file file =
     (case file of
        None \<Rightarrow> []
      | Some text \<Rightarrow> map parse_line (filter (\<lambda>line. line \<noteq> [] \<and> hd line \<noteq> CHR ''#'') (lines_of text)))"

text \<open>The shared pointer to the rules in force: it is replaced as a whole.\<close>

definition reload_and_get :: "ac_map list \<Rightarrow> ac_map list \<Rightarrow> ac_map list \<times> ac_map list" where
  "reload_and_get nVec c_ptr = (let c_ptr = nVec in (c_ptr, c_ptr))"

lemma parse_pairs_fold: "parse_pairs s m = fold process_pair (split_on CHR '','' s) m"
proof (induction s m rule: parse_pairs.induct)
  case (1 s m)
  then show ?case
    by (subst parse_pairs.simps) (auto simp: split_on_cut split_on_plain)
qed

text \<open>How a rule is written: pairs of key and value.\<close>

definition render_pair :: "string \<times> string \<Rightarrow> string" where
  "render_pair kv = fst kv @ CHR ''='' # snd kv"

definition render_rule :: "(string \<times> string) list \<Rightarrow> string" where
  "render_rule kvs = join_with CHR '','' (map render_pair kvs)"

definition clean_pair :: "string \<times> string \<Rightarrow> bool" where
  "clean_pair kv \<longleftrightarrow> CHR ''='' \<notin> set (fst kv) \<and> CHR '','' \<notin> set (fst kv @ snd kv) \<and> newline \<notin> set (fst kv @ snd kv)"

definition clean_rule :: "(string \<times> string) list \<Rightarrow> bool" where
  "clean_rule kvs \<longleftrightarrow> kvs \<noteq> [] \<and> list_all clean_pair kvs \<and> (\<forall>v. hd kvs \<noteq> ([], v)) \<and> hd (fst (hd kvs)) \<noteq> CHR ''#''"

lemma process_rendered: "CHR ''='' \<notin> set (fst kv) \<Longrightarrow> process_pair (render_pair kv) m = m(fst kv \<mapsto> snd kv)"
  by (simp add: process_pair_def render_pair_def takeWhile_append dropWhile_append)

lemma fold_rendered:
  "list_all clean_pair kvs \<Longrightarrow> fold process_pair (map render_pair kvs) m = m ++ map_of (rev kvs)"
  by (induction kvs arbitrary: m) (auto simp: process_rendered clean_pair_def map_add_upd_left split: prod.splits)

lemma parse_rendered: "clean_rule kvs \<Longrightarrow> parse_line (render_rule kvs) = map_of (rev kvs)"
proof -
  assume ok: "clean_rule kvs"
  have "split_on CHR '','' (render_rule kvs) = map render_pair kvs"
    unfolding render_rule_def using ok
    by (intro split_join) (auto simp: clean_rule_def clean_pair_def list_all_iff render_pair_def)
  then show ?thesis
    using ok by (simp add: parse_line_def parse_pairs_fold clean_rule_def fold_rendered)
qed

lemma rendered_line:
  assumes "clean_rule kvs"
  shows "newline \<notin> set (render_rule kvs)" and "render_rule kvs \<noteq> []" and "hd (render_rule kvs) \<noteq> CHR ''#''"
proof -
  obtain kv rest where kvs: "kvs = kv # rest" using assms by (cases kvs) (auto simp: clean_rule_def)
  have first: "fst kv \<noteq> []" "hd (fst kv) \<noteq> CHR ''#''" using assms kvs by (cases kv, auto simp: clean_rule_def)+
  have start: "\<exists>t. render_rule kvs = fst kv @ t" 
    by (cases rest) (auto simp: kvs render_rule_def render_pair_def)
  then show "render_rule kvs \<noteq> []" "hd (render_rule kvs) \<noteq> CHR ''#''" using first by (auto simp: hd_append)
  have chars: "set (join_with c ws) \<subseteq> insert c (\<Union>w\<in>set ws. set w)" for c ws
    by (induction c ws rule: join_with.induct) auto
  have "newline \<notin> set (render_pair kv)" if "kv \<in> set kvs" for kv
    using assms that by (auto simp: clean_rule_def clean_pair_def list_all_iff render_pair_def newline_def)
  then show "newline \<notin> set (render_rule kvs)"
    using chars [of "CHR '',''" "map render_pair kvs"] by (auto simp: render_rule_def newline_def)
qed

lemma lines_rendered:
  "\<forall>l\<in>set ls. newline \<notin> set l \<and> l \<noteq> [] \<Longrightarrow> lines_of (concat (map (\<lambda>l. l @ [newline]) ls)) = ls"
proof -
  assume ok: "\<forall>l\<in>set ls. newline \<notin> set l \<and> l \<noteq> []"
  then have "split_on newline (concat (map (\<lambda>l. l @ [newline]) ls)) = ls @ [[]]"
    by (induction ls) (auto simp: split_on_append)
  then show ?thesis by (simp add: lines_of_def)
qed

section \<open>Time\<close>

text \<open>One reading of the clocks, in the units of \<open>struct timespec\<close> joined to nanoseconds, and the calendar:
  \<open>mktime_of\<close> is \<open>parse_wall_time\<close>, \<open>strptime_of\<close> is \<open>strptime\<close> followed by \<open>mktime\<close> (\<open>None\<close> for text of
  another format). The n-th reading is \<open>clocks n\<close>.\<close>

record user_env =
  mono_ns :: "nat \<Rightarrow> u64"
  real_ns :: "nat \<Rightarrow> u64"
  wall_sec :: "nat \<Rightarrow> int"
  mktime_of :: "string \<Rightarrow> int"
  strptime_of :: "string \<Rightarrow> int option"
  control_files_ok :: bool
  cmd_file_writable :: bool \<comment> \<open>whether \<open>fopen\<close> for writing succeeds once the command file has been read\<close>

definition parse_time :: "user_env \<Rightarrow> string \<Rightarrow> nat \<Rightarrow> u64 \<times> nat" where
  "parse_time e time_str n =
     (if time_str = ''0'' then (0, n)
      else (let diff_seconds = mktime_of e time_str - wall_sec e n;
                now_monotonic_ns = mono_ns e n
            in (now_monotonic_ns + of_int diff_seconds * 1000000000, Suc n)))"

definition get_boot_to_real_offset_ns :: "user_env \<Rightarrow> nat \<Rightarrow> u64" where
  "get_boot_to_real_offset_ns e n = real_ns e n - mono_ns e n"

section \<open>Writing the block lists\<close>

text \<open>The state of user space that matters here: the descriptors in the global variables of \<open>main.h\<close> and in
  the controller, the number of clock readings, and the kernel's maps.\<close>

record user_state =
  g_temp_fd :: int
  g_perm_fd :: int
  ctl_temp_fd :: int
  ctl_perm_fd :: int
  reads :: nat
  kernel :: fw_state

text \<open>The skeleton: the descriptors of the two maps.\<close>

record skeleton =
  sk_temp_fd :: int
  sk_perm_fd :: int

definition update_block_fd :: "skeleton \<Rightarrow> int \<Rightarrow> u32 \<Rightarrow> blacklist_val \<Rightarrow> fw_state \<Rightarrow> fw_state" where
  "update_block_fd sk fd ip bv s =
     (if fd = sk_temp_fd sk
      then s\<lparr>temp_blocklist_map := bpf_map_update_elem (temp_blocklist_map s) ip bv\<rparr>
      else if fd = sk_perm_fd sk
      then s\<lparr>permanent_blocklist_map := bpf_map_update_elem (permanent_blocklist_map s) ip bv\<rparr>
      else s)"

text \<open>One rule of \<open>sync_xdp_block_map\<close>; \<open>at\<close> throws when a key is missing.\<close>

definition sync_rule :: "user_env \<Rightarrow> skeleton \<Rightarrow> int \<Rightarrow> string \<Rightarrow> ac_map \<Rightarrow> user_state \<Rightarrow> (exn + unit) \<times> user_state" where
  "sync_rule e sk map_fd type rule u =
     (case (rule ''IP'', rule ''START'', rule ''END'') of
        (Some ip_str, Some start, Some end_str) \<Rightarrow>
          (case inet_pton ip_str of
             None \<Rightarrow> (Inr (), u)
           | Some ip \<Rightarrow>
               (let cur_ns = mono_ns e (reads u); n = Suc (reads u);
                    (s, t, n) =
                      (if type \<noteq> ''PERM''
                       then (let (s, n) = parse_time e start n; (t, n) = parse_time e end_str n in (s, t, n))
                       else (cur_ns, cur_ns + 300 * 1000000000, n));
                    new_bv = \<lparr>bv_action = xdp_code XDP_DROP, bv_reason = 0, bv_start_absolute_ns = s, bv_end_absolute_ns = t\<rparr>
                in (Inr (), u\<lparr>reads := n, kernel := update_block_fd sk map_fd ip new_bv (kernel u)\<rparr>)))
      | _ \<Rightarrow> (Inl out_of_range, u))"

fun sync_xdp_block_map ::
  "user_env \<Rightarrow> skeleton \<Rightarrow> int \<Rightarrow> string \<Rightarrow> ac_map list \<Rightarrow> user_state \<Rightarrow> (exn + unit) \<times> user_state" where
  "sync_xdp_block_map e sk map_fd type [] u = (Inr (), u)"
| "sync_xdp_block_map e sk map_fd type (rule # rules) u =
     (case sync_rule e sk map_fd type rule u of
        (Inl x, u) \<Rightarrow> (Inl x, u)
      | (Inr _, u) \<Rightarrow> sync_xdp_block_map e sk map_fd type rules u)"

definition load_blocklist_to_map ::
  "user_env \<Rightarrow> skeleton option \<Rightarrow> string option \<Rightarrow> string option \<Rightarrow> user_state \<Rightarrow> (exn + unit) \<times> user_state" where
  "load_blocklist_to_map e skel temp_list perm_list u =
     (case skel of
        None \<Rightarrow> (Inr (), u)
      | Some sk \<Rightarrow>
          if \<not> control_files_ok e then (Inl (runtime_error ''init /etc/xdp_fw''), u)
          else
            (let nTempMap = fst (reload_and_get (parse_file temp_list) []);
                 nPermMap = fst (reload_and_get (parse_file perm_list) [])
             in case sync_xdp_block_map e sk (g_temp_fd u) ''TEMP'' nTempMap u of
                  (Inl x, u) \<Rightarrow> (Inl x, u)
                | (Inr _, u) \<Rightarrow> sync_xdp_block_map e sk (g_perm_fd u) ''PERM'' nPermMap u))"

text \<open>The part of \<open>register_xdp_fw_plugins\<close> that records the descriptors, in the controller and in the
  global variables.\<close>

definition register_map_fds :: "skeleton \<Rightarrow> user_state \<Rightarrow> user_state" where
  "register_map_fds sk u =
     u\<lparr>ctl_temp_fd := sk_temp_fd sk, ctl_perm_fd := sk_perm_fd sk, g_temp_fd := sk_temp_fd sk, g_perm_fd := sk_perm_fd sk\<rparr>"

text \<open>The initial values of the variables, and descriptors as the kernel hands them out.\<close>

definition fresh_user :: "fw_state \<Rightarrow> user_state" where
  "fresh_user s = \<lparr>g_temp_fd = -1, g_perm_fd = -1, ctl_temp_fd = -1, ctl_perm_fd = -1, reads = 0, kernel = s\<rparr>"

definition skeleton_ok :: "skeleton \<Rightarrow> bool" where
  "skeleton_ok sk \<longleftrightarrow> 0 \<le> sk_temp_fd sk \<and> 0 \<le> sk_perm_fd sk \<and> sk_temp_fd sk \<noteq> sk_perm_fd sk"

section \<open>The control file\<close>

definition update_blacklist_map :: "user_env \<Rightarrow> skeleton \<Rightarrow> int \<Rightarrow> u32 \<Rightarrow> u32 \<Rightarrow> user_state \<Rightarrow> user_state" where
  "update_blacklist_map e sk map_fd src_ip duration_sec u =
     (if map_fd < 0 then u
      else
        (let offset = get_boot_to_real_offset_ns e (reads u);
             now_unix_ns = real_ns e (Suc (reads u));
             now_mono_ns = now_unix_ns - offset;
             end_ns =
               (if duration_sec = 0 then 0
                else if duration_sec < 100000000
                then now_unix_ns + ucast duration_sec * 1000000000 - offset
                else ucast duration_sec * 1000000000 - offset);
             bv = \<lparr>bv_action = 0, bv_reason = 0, bv_start_absolute_ns = now_mono_ns, bv_end_absolute_ns = end_ns\<rparr>
         in u\<lparr>reads := reads u + 2, kernel := update_block_fd sk map_fd src_ip bv (kernel u)\<rparr>))"

definition duration_of :: "user_env \<Rightarrow> string \<Rightarrow> u32" where
  "duration_of e time_buf =
     (if CHR ''-'' \<in> set time_buf
      then (case strptime_of e time_buf of
              None \<Rightarrow> 0
            | Some target_epoch \<Rightarrow> if target_epoch \<noteq> -1 then of_int target_epoch else 0)
      else ucast (strtoul time_buf))"

text \<open>The pairs of words of the file, for as long as two of them are left.\<close>

fun block_commands :: "user_env \<Rightarrow> skeleton \<Rightarrow> string list \<Rightarrow> user_state \<Rightarrow> user_state" where
  "block_commands e sk (ip_buf # time_buf # rest) u =
     (case inet_pton ip_buf of
        None \<Rightarrow> block_commands e sk rest u
      | Some target_ip \<Rightarrow>
          block_commands e sk rest (update_blacklist_map e sk (ctl_perm_fd u) target_ip (duration_of e time_buf) u))"
| "block_commands e sk _ u = u"

text \<open>The function returns the new content of the file: opening it for writing empties it, and if that fails the file
  keeps its commands, without a message.\<close>

definition process_block_cmd_file ::
  "user_env \<Rightarrow> skeleton \<Rightarrow> string option \<Rightarrow> user_state \<Rightarrow> string option \<times> user_state" where
  "process_block_cmd_file e sk file u =
     (case file of
        None \<Rightarrow> (None, u)
      | Some text \<Rightarrow>
          (let u = block_commands e sk (words63 63 [] text) u in (if cmd_file_writable e then Some [] else Some text, u)))"

text \<open>\<open>process_block_maps\<close>, which nothing calls, has the same body with the same commands.\<close>

definition process_block_maps ::
  "user_env \<Rightarrow> skeleton \<Rightarrow> string option \<Rightarrow> user_state \<Rightarrow> string option \<times> user_state" where
  "process_block_maps e sk file u =
     (if file = None then (None, u)
      else (let u = block_commands e sk (words63 63 [] (the file)) u
            in if cmd_file_writable e then (Some [], u) else (file, u)))"

lemma process_block_maps_same: "process_block_maps = process_block_cmd_file"
  by (intro ext) (simp add: process_block_maps_def process_block_cmd_file_def Let_def split: option.split)

text \<open>\<open>handle_sigusr_event\<close>: the file is read when a signal has been written to the pipe.\<close>

definition handle_sigusr_event ::
  "user_env \<Rightarrow> skeleton \<Rightarrow> bool \<Rightarrow> string option \<Rightarrow> user_state \<Rightarrow> string option \<times> user_state" where
  "handle_sigusr_event e sk signalled file u =
     (if signalled then process_block_cmd_file e sk file u else (file, u))"

section \<open>Properties\<close>

text \<open>C19: A rule file that is written as lines of comma-separated \<open>key=value\<close> pairs is read back as it was
  written: one map per line, in order, in which a key that occurs twice has its last value. Keys
  must be free of separators and the first one must not look like a comment; values may contain the
  equals sign.\<close>

theorem rules_roundtrip:
  assumes "list_all clean_rule rules"
  shows "parse_file (Some (concat (map (\<lambda>r. render_rule r @ [newline]) rules))) = map (\<lambda>r. map_of (rev r)) rules"
proof -
  have "lines_of (concat (map (\<lambda>l. l @ [newline]) (map render_rule rules))) = map render_rule rules"
    using assms by (intro lines_rendered) (auto simp: list_all_iff rendered_line)
  moreover have "filter (\<lambda>line. line \<noteq> [] \<and> hd line \<noteq> CHR ''#'') (map render_rule rules) = map render_rule rules"
    using assms by (intro filter_True) (auto simp: list_all_iff rendered_line)
  ultimately show ?thesis
    using assms by (simp add: parse_file_def comp_def list_all_iff parse_rendered)
qed

theorem rules_roundtrip_witness:
  "\<exists>m. parse_file (Some (''IP=10.0.0.1,START=0,END=0'' @ [newline])) = [m] \<and> m ''IP'' = Some ''10.0.0.1'' \<and> m ''END'' = Some ''0''"
  using rules_roundtrip [of "[[(''IP'', ''10.0.0.1''), (''START'', ''0''), (''END'', ''0'')]]"]
  by (simp add: clean_rule_def clean_pair_def newline_def render_rule_def render_pair_def)

lemma unknown_fd: "skeleton_ok sk \<Longrightarrow> update_block_fd sk (-1) ip bv s = s"
  by (auto simp: skeleton_ok_def update_block_fd_def)

lemma sync_unknown_fd:
  "skeleton_ok sk \<Longrightarrow> sync_xdp_block_map e sk (-1) type rules u = (r, u') \<Longrightarrow>
     kernel u' = kernel u \<and> g_temp_fd u' = g_temp_fd u \<and> g_perm_fd u' = g_perm_fd u"
proof (induction rules arbitrary: u)
  case (Cons rule rules)
  have "kernel v = kernel u \<and> g_temp_fd v = g_temp_fd u \<and> g_perm_fd v = g_perm_fd u"
    if "sync_rule e sk (-1) type rule u = (x, v)" for x v
    using that Cons.prems(1) by (auto simp: sync_rule_def unknown_fd Let_def split: option.splits prod.splits if_splits)
  with Cons show ?case by (fastforce split: prod.splits sum.splits)
qed simp

lemma load_unknown_fd:
  assumes "skeleton_ok sk" and "g_temp_fd u = -1" and "g_perm_fd u = -1"
    and "load_blocklist_to_map e (Some sk) temp_list perm_list u = (x, v)"
  shows "kernel v = kernel u \<and> g_temp_fd v = -1 \<and> g_perm_fd v = -1"
proof (cases "control_files_ok e")
  case True
  obtain y w where one: "sync_xdp_block_map e sk (-1) ''TEMP'' (parse_file temp_list) u = (y, w)"
    by (metis surj_pair)
  note w = sync_unknown_fd [OF assms(1) one]
  show ?thesis
  proof (cases y)
    case (Inl z)
    then show ?thesis using assms True one w by (simp add: load_blocklist_to_map_def reload_and_get_def Let_def)
  next
    case (Inr z)
    then have "sync_xdp_block_map e sk (-1) ''PERM'' (parse_file perm_list) w = (x, v)"
      using assms True one w by (simp add: load_blocklist_to_map_def reload_and_get_def Let_def)
    from sync_unknown_fd [OF assms(1) this] w assms show ?thesis by simp
  qed
qed (use assms in \<open>simp add: load_blocklist_to_map_def\<close>)

abbreviation perm_listed :: "user_state \<Rightarrow> u32 set" where
  "perm_listed u \<equiv> dom (permanent_blocklist_map (kernel u))"

lemma update_perm_listed:
  assumes "skeleton_ok sk"
  shows "perm_listed (update_blacklist_map e sk (sk_perm_fd sk) a d u) = insert a (perm_listed u)"
    and "ctl_perm_fd (update_blacklist_map e sk fd a d u) = ctl_perm_fd u"
  using assms by (auto simp: update_blacklist_map_def skeleton_ok_def update_block_fd_def Let_def split: if_splits)

lemma commands_keep:
  "skeleton_ok sk \<Longrightarrow> ctl_perm_fd u = sk_perm_fd sk \<Longrightarrow> x \<in> perm_listed u \<Longrightarrow> x \<in> perm_listed (block_commands e sk ws u)"
  by (induction e sk ws u rule: block_commands.induct) (auto simp: update_perm_listed simp del: dom_def split: option.splits)

lemma commands_listed:
  "skeleton_ok sk \<Longrightarrow> ctl_perm_fd u = sk_perm_fd sk \<Longrightarrow> even (length pre) \<Longrightarrow> ws = pre @ ip # d # post \<Longrightarrow>
     inet_pton ip = Some x \<Longrightarrow> x \<in> perm_listed (block_commands e sk ws u)"
proof (induction e sk ws u arbitrary: pre rule: block_commands.induct)
  case (1 e sk a b rest u)
  show ?case
  proof (cases pre)
    case Nil
    then show ?thesis using 1 commands_keep [of sk "update_blacklist_map e sk (ctl_perm_fd u) x (duration_of e d) u" x e rest]
      by (simp add: update_perm_listed)
  next
    case (Cons p ps)
    then obtain q qs where "ps = q # qs" using 1(5) by (cases ps) auto
    then show ?thesis using 1 Cons by (auto simp: update_perm_listed split: option.split)
  qed
qed auto

end
