(* ===== verification/Startup.thy ===== *)
theory Startup
  imports UserConfig BlockRules System Samples Guarantees
begin

text \<open>
  The start of the program as \<open>main\<close> of \<open>src/src/user/main.cpp\<close> runs it: the configuration is loaded and
  written to the kernel's maps (\<open>register_config_and_pipe_handler\<close> with \<open>fill_xfg_and_update_xdpmap\<close>), then
  the programs are attached and the map descriptors recorded (\<open>register_xdp_fw_plugins\<close>). The properties
  join the user-space components with the kernel programs.
\<close>

section \<open>The start\<close>

text \<open>What the start finds on the host: besides clocks and calendar the rule files by path, the value of a
  conversion out of range, the answer of \<open>sysconf\<close>, the outcome of reading the risk indicators, and
  whether the control file could be created.\<close>

record host = user_env +
  read_file :: "string \<Rightarrow> string option"
  cast_oob :: u64
  sysconf_cpus :: int
  risk_indicators :: "exn + unit"
  run_dir_ok :: bool

definition zero_config :: global_config where
  "zero_config = \<lparr>gc_log_level = 0, gc_drop_threshold = 0, gc_enable_dpi = 0, gc_global_rate = 0, gc_global_burst = 0,
     gc_custom_rate = 0, gc_custom_burst = 0, gc_flow_rate = 0, gc_flow_burst = 0, gc_global_pps_limit = 0,
     gc_src_ports = replicate MAX_PORTS 0, gc_dst_ports = replicate MAX_PORTS 0, gc_reserved = replicate 5 0\<rparr>"

definition fill_xfg_and_update_xdpmap ::
  "host \<Rightarrow> skeleton \<Rightarrow> xdp_fw_config \<Rightarrow> global_config \<Rightarrow> user_state \<Rightarrow> (exn + global_config) \<times> user_state" where
  "fill_xfg_and_update_xdpmap h sk c g u =
     (case fill_rates (cast_oob h) (sysconf_cpus h) c g of
        Inl x \<Rightarrow> (Inl x, u)
      | Inr g \<Rightarrow>
          (case load_allow_ports_to_map (src_port (cfg_allow_ports c)) (dst_port (cfg_allow_ports c)) g (kernel u) of
             (Inl x, s) \<Rightarrow> (Inl x, u\<lparr>kernel := s\<rparr>)
           | (Inr g, s) \<Rightarrow>
               (case load_blocklist_to_map (user_env.truncate h) (Some sk) (read_file h (temp_list_path (cfg_black_list c)))
                       (read_file h (perm_list_path (cfg_black_list c))) (u\<lparr>kernel := s\<rparr>) of
                  (Inl x, u) \<Rightarrow> (Inl x, u)
                | (Inr _, u) \<Rightarrow> (Inr g, u))))"

definition register_config ::
  "host \<Rightarrow> skeleton \<Rightarrow> json_doc option option \<Rightarrow> xdp_fw_config \<Rightarrow> user_state \<Rightarrow> (exn + global_config) \<times> user_state" where
  "register_config h sk file c u =
     (case load_config file c of
        (Inl x, c) \<Rightarrow> (Inl x, u)
      | (Inr _, c) \<Rightarrow>
          (case fill_xfg_and_update_xdpmap h sk c zero_config u of
             (Inl x, u) \<Rightarrow> (Inl x, u)
           | (Inr g, u) \<Rightarrow>
               (case risk_indicators h of
                  Inl x \<Rightarrow> (Inl x, u)
                | Inr _ \<Rightarrow>
                    (let u = u\<lparr>kernel := init_global_pps_limit (gc_global_pps_limit g) (kernel u)\<rparr>
                     in if \<not> run_dir_ok h then (Inl (runtime_error ''init /run/xdp_fw''), u)
                        else (Inr g, u\<lparr>kernel := sync_xdp_config_map g (kernel u)\<rparr>)))))"

text \<open>A throw ends in the orderly shutdown; otherwise the programs are attached.\<close>

definition startup ::
  "host \<Rightarrow> skeleton \<Rightarrow> json_doc option option \<Rightarrow> xdp_fw_config \<Rightarrow> user_state \<Rightarrow> (exn + global_config) \<times> user_state" where
  "startup h sk file c u =
     (case register_config h sk file c u of
        (Inl x, u) \<Rightarrow> (Inl x, u)
      | (Inr g, u) \<Rightarrow> (Inr g, register_map_fds sk u))"

section \<open>What the start writes\<close>

text \<open>The maps that the start does not write, and those it writes, all of them by steps of the system.\<close>

definition lists_as :: "fw_state \<Rightarrow> fw_state \<Rightarrow> bool" where
  "lists_as s s' \<longleftrightarrow> temp_blocklist_map s' = temp_blocklist_map s \<and> permanent_blocklist_map s' = permanent_blocklist_map s \<and>
     isInitialed s' = isInitialed s \<and> (ingress_allowed_ports s 0 = None \<longrightarrow> ingress_allowed_ports s' 0 = None) \<and>
     (\<forall>perm. reachable perm s \<longrightarrow> reachable perm s')"

lemma lists_as_refl: "lists_as s s"
  by (simp add: lists_as_def)

lemma lists_as_trans: "lists_as s t \<Longrightarrow> lists_as t u \<Longrightarrow> lists_as s u"
  by (simp add: lists_as_def)

lemma insert_ports_steps:
  "insert_ports i ps m = (x, m') \<Longrightarrow> (\<And>port v m. P m \<Longrightarrow> port \<noteq> 0 \<Longrightarrow> P (m(port \<mapsto> v))) \<Longrightarrow> P m \<Longrightarrow> P m'"
  by (induction i ps m rule: insert_ports.induct) (auto split: if_splits sum.splits)

lemma ports_lists_as:
  assumes "load_allow_ports_to_map sp dp g s = (x, s')"
  shows "lists_as s s'"
proof -
  define P where "P s' \<longleftrightarrow> lists_as s s'" for s'
  have ing: "P (t\<lparr>ingress_allowed_ports := m\<rparr>)" if "insert_ports i ps (ingress_allowed_ports t) = (y, m)" "P t" for t i ps y m
  proof -
    have "P (t\<lparr>ingress_allowed_ports := m(port \<mapsto> v)\<rparr>)" if "P (t\<lparr>ingress_allowed_ports := m\<rparr>)" "port \<noteq> 0" for m port v
      using that sys_step.user_port [of _ "t\<lparr>ingress_allowed_ports := m\<rparr>" port "Some v"]
      by (auto simp: P_def lists_as_def intro: reachable.step)
    from insert_ports_steps [OF that(1), of "\<lambda>m. P (t\<lparr>ingress_allowed_ports := m\<rparr>)"] this that(2)
    show ?thesis by simp
  qed
  have eg: "P (t\<lparr>egress_allowed_ports := m\<rparr>)" if "insert_ports i ps (egress_allowed_ports t) = (y, m)" "P t" for t i ps y m
  proof -
    have "P (t\<lparr>egress_allowed_ports := m(port \<mapsto> v)\<rparr>)" if "P (t\<lparr>egress_allowed_ports := m\<rparr>)" "port \<noteq> 0" for m port v
      using that sys_step.user_egress_port [of _ "t\<lparr>egress_allowed_ports := m\<rparr>" port "Some v"]
      by (auto simp: P_def lists_as_def intro: reachable.step)
    from insert_ports_steps [OF that(1), of "\<lambda>m. P (t\<lparr>egress_allowed_ports := m\<rparr>)"] this that(2)
    show ?thesis by simp
  qed
  have "P s" by (simp add: P_def lists_as_refl)
  have "P s'"
    using assms \<open>P s\<close> ing [of 0 sp s] eg [of 0 dp "s\<lparr>ingress_allowed_ports := _\<rparr>"]
    by (auto simp: load_allow_ports_to_map_def split: sum.splits prod.splits)
  then show ?thesis by (simp add: P_def)
qed

lemma pps_lists_as: "lists_as s (init_global_pps_limit n s)"
  by (auto simp: lists_as_def init_global_pps_limit_def intro: reachable.step sys_step.user_pps)

lemma sync_lists_as: "lists_as s (sync_xdp_config_map g s)"
  by (auto simp: lists_as_def sync_xdp_config_map_def intro: reachable.step sys_step.user_config)

lemma fill_lists_as:
  assumes "skeleton_ok sk" and "g_temp_fd u = -1" and "g_perm_fd u = -1"
    and "fill_xfg_and_update_xdpmap h sk c g u = (x, v)"
  shows "lists_as (kernel u) (kernel v)"
proof -
  have "kernel v = s" if "load_blocklist_to_map e (Some sk) t p (u\<lparr>kernel := s\<rparr>) = (y, v)" for e t p s y
    using load_unknown_fd [OF assms(1) _ _ that] assms(2,3) by simp
  with assms(4) show ?thesis
    by (auto simp: fill_xfg_and_update_xdpmap_def lists_as_refl dest: ports_lists_as split: sum.splits prod.splits)
qed

lemma startup_lists_as:
  assumes "skeleton_ok sk" and "startup h sk file c (fresh_user s) = (r, u)"
  shows "lists_as s (kernel u)"
proof -
  have "lists_as s (kernel v)" if "register_config h sk file c (fresh_user s) = (x, v)" for x v
  proof -
    have fill: "lists_as s (kernel w)" if "fill_xfg_and_update_xdpmap h sk c zero_config (fresh_user s) = (y, w)" for c y w
      using fill_lists_as [OF assms(1) _ _ that] by (simp add: fresh_user_def)
    from that show ?thesis
      by (auto simp: register_config_def lists_as_refl Let_def fresh_user_def [of s, THEN arg_cong, of kernel]
          intro: lists_as_trans [OF _ pps_lists_as] lists_as_trans [OF lists_as_trans [OF _ pps_lists_as] sync_lists_as] dest!: fill
          split: sum.splits prod.splits if_splits)
  qed
  with assms(2) show ?thesis by (auto simp: startup_def register_map_fds_def split: sum.splits prod.splits)
qed

text \<open>What a start that succeeds has read and written.\<close>

lemma startup_success:
  assumes "startup h sk (Some (Some d)) c (fresh_user s) = (Inr g, u)"
  shows "\<exists>g0. fill_rates (cast_oob h) (sysconf_cpus h) (config_of d) zero_config = Inr g0 \<and>
      g = g0\<lparr>gc_src_ports := gc_src_ports g, gc_dst_ports := gc_dst_ports g\<rparr>"
    and "global_config_map (kernel u) 0 = Some g"
    and "global_pps_map (kernel u) 0 = Some \<lparr>pb_tokens = gc_global_pps_limit g, pb_last_ts = 0\<rparr>"
    and "ctl_perm_fd u = sk_perm_fd sk"
proof -
  obtain v where v: "register_config h sk (Some (Some d)) c (fresh_user s) = (Inr g, v)" "u = register_map_fds sk v"
    using assms by (auto simp: startup_def split: sum.splits prod.splits)
  then obtain w where w: "fill_xfg_and_update_xdpmap h sk (config_of d) zero_config (fresh_user s) = (Inr g, w)"
    "kernel v = sync_xdp_config_map g (init_global_pps_limit (gc_global_pps_limit g) (kernel w))"
    using load_ok_config [of d c]
    by (auto simp: register_config_def Let_def split: sum.splits prod.splits if_splits)
  then show "\<exists>g0. fill_rates (cast_oob h) (sysconf_cpus h) (config_of d) zero_config = Inr g0 \<and>
      g = g0\<lparr>gc_src_ports := gc_src_ports g, gc_dst_ports := gc_dst_ports g\<rparr>"
    by (auto simp: fill_xfg_and_update_xdpmap_def load_allow_ports_to_map_def convert_to_struct_def
        split: sum.splits prod.splits)
  show "global_config_map (kernel u) 0 = Some g"
    "global_pps_map (kernel u) 0 = Some \<lparr>pb_tokens = gc_global_pps_limit g, pb_last_ts = 0\<rparr>" "ctl_perm_fd u = sk_perm_fd sk"
    by (simp_all add: v(2) w(2) register_map_fds_def sync_xdp_config_map_def init_global_pps_limit_def)
qed

section \<open>A machine on which everything works\<close>

text \<open>Clocks that stand still, a calendar of one entry and two rule files.\<close>

definition office :: host where
  "office = \<lparr>mono_ns = (\<lambda>_. 1000), real_ns = (\<lambda>_. 5000), wall_sec = (\<lambda>_. 0), mktime_of = (\<lambda>_. 60),
     strptime_of = (\<lambda>_. None), control_files_ok = True, cmd_file_writable = True, read_file = (\<lambda>_. Some ''IP=10.0.0.1,START=0,END=0''),
     cast_oob = 0, sysconf_cpus = 4, risk_indicators = Inr (), run_dir_ok = True\<rparr>"

definition office_skel :: skeleton where
  "office_skel = \<lparr>sk_temp_fd = 7, sk_perm_fd = 8\<rparr>"

lemma office_skel_ok: "skeleton_ok office_skel"
  by (simp add: skeleton_ok_def office_skel_def)

lemma four_gb: "parse_size oob ''4GB'' = Inr 4294967296"
  by (simp add: parse_size_def scan_decimal_def strip_sign_def is_blank_def is_digit_def digit_val_def num_of_def
      scan_exponent_def scan_unit_def cast_u64_def)

lemma office_starts: "\<exists>g u. startup office office_skel (Some (Some sample_doc)) blank_config (fresh_user boot_state) = (Inr g, u)"
proof -
  obtain c1 where c1: "load_config (Some (Some sample_doc)) blank_config = (Inr (), c1)" using sample_loads by blast
  have cfg: "c1 = config_of sample_doc" by (rule load_ok_config [OF c1])
  have rates: "\<exists>g. fill_rates 0 4 (config_of sample_doc) zero_config = Inr g"
    by (simp add: fill_rates_def config_of_def rate_of_def sample_doc_def four_gb Let_def)
  have ports: "stoi ''443'' = Inr 443" "stoi ''80'' = Inr 80"
    by (simp_all add: stoi_def strip_sign_def is_blank_def is_digit_def digit_val_def num_of_def)
  have load: "\<exists>g' s'. load_allow_ports_to_map [''443'', ''80''] [''443'', ''80''] g s = (Inr g', s')" for g s
    by (simp add: load_allow_ports_to_map_def convert_to_struct_def ports MAX_PORTS_def)
  have rule: "parse_file (Some ''IP=10.0.0.1,START=0,END=0'') = [[''IP'' \<mapsto> ''10.0.0.1'', ''START'' \<mapsto> ''0'', ''END'' \<mapsto> ''0'']]"
    by (simp add: parse_file_def lines_of_def newline_def parse_line_def parse_pairs_fold process_pair_def)
  have sync: "\<exists>v. sync_xdp_block_map e office_skel fd t [[''IP'' \<mapsto> ''10.0.0.1'', ''START'' \<mapsto> ''0'', ''END'' \<mapsto> ''0'']] u = (Inr (), v)"
    for e fd t u
    by (cases "inet_pton ''10.0.0.1''") (auto simp: sync_rule_def Let_def split: prod.split)
  have lists: "\<exists>v. load_blocklist_to_map (user_env.truncate office) (Some office_skel) (Some ''IP=10.0.0.1,START=0,END=0'')
      (Some ''IP=10.0.0.1,START=0,END=0'') u = (Inr (), v)" for u
  proof -
    obtain v where v: "sync_xdp_block_map (user_env.truncate office) office_skel (g_temp_fd u) ''TEMP''
        [[''IP'' \<mapsto> ''10.0.0.1'', ''START'' \<mapsto> ''0'', ''END'' \<mapsto> ''0'']] u = (Inr (), v)" using sync by blast
    have ok: "control_files_ok (user_env.truncate office)" by (simp add: user_env.truncate_def office_def)
    show ?thesis using sync [of "user_env.truncate office" "g_perm_fd v" "''PERM''" v] ok
      by (simp add: load_blocklist_to_map_def reload_and_get_def Let_def rule v del: sync_xdp_block_map.simps)
  qed
  have parts: "src_port (cfg_allow_ports (config_of sample_doc)) = [''443'', ''80'']"
    "dst_port (cfg_allow_ports (config_of sample_doc)) = [''443'', ''80'']"
    "read_file office x = Some ''IP=10.0.0.1,START=0,END=0''" "cast_oob office = 0" "sysconf_cpus office = 4"
    "risk_indicators office = Inr ()" "run_dir_ok office" for x
    by (simp_all add: config_of_def sample_doc_def office_def)
  obtain g0 where g0: "fill_rates 0 4 (config_of sample_doc) zero_config = Inr g0" using rates by blast
  obtain g1 s1 where g1: "load_allow_ports_to_map [''443'', ''80''] [''443'', ''80''] g0 (kernel (fresh_user boot_state)) = (Inr g1, s1)"
    using load by blast
  obtain v where v: "load_blocklist_to_map (user_env.truncate office) (Some office_skel) (Some ''IP=10.0.0.1,START=0,END=0'')
      (Some ''IP=10.0.0.1,START=0,END=0'') ((fresh_user boot_state)\<lparr>kernel := s1\<rparr>) = (Inr (), v)" using lists by blast
  show ?thesis
    by (simp add: startup_def register_config_def fill_xfg_and_update_xdpmap_def c1 cfg parts g0 g1 v)
qed

section \<open>Properties\<close>

text \<open>C16: The configured block lists never reach the kernel. The start reads the rule files while the global
  descriptors still have their initial value -1, and stores the descriptors only afterwards, so every
  map update of the loading phase fails unnoticed: whatever the two files contain, and whether the
  start succeeds or not, the kernel's lists are the ones before it.\<close>

theorem configured_lists_not_loaded:
  assumes "skeleton_ok sk" and "startup h sk file c (fresh_user s) = (r, u)"
  shows "temp_blocklist_map (kernel u) = temp_blocklist_map s \<and> permanent_blocklist_map (kernel u) = permanent_blocklist_map s"
  using startup_lists_as [OF assms] by (simp add: lists_as_def)

theorem configured_lists_not_loaded_witness:
  "\<exists>g u. startup office office_skel (Some (Some sample_doc)) blank_config (fresh_user boot_state) = (Inr g, u) \<and>
     parse_file (read_file office ''x'') \<noteq> [] \<and> temp_blocklist_map (kernel u) 0x0100000A = None"
proof -
  obtain g u where run: "startup office office_skel (Some (Some sample_doc)) blank_config (fresh_user boot_state) = (Inr g, u)"
    using office_starts by blast
  have "parse_file (read_file office ''x'') \<noteq> []"
    by (simp add: office_def parse_file_def lines_of_def newline_def)
  with configured_lists_not_loaded [OF office_skel_ok run] run show ?thesis by (simp add: boot_state_def)
qed

text \<open>Every block that an operator asks for in the control file is permanent. The duration of the
  command is written into the entry, but the entry goes into the permanent list, whose window the
  ingress check does not look at: after the command the source is listed at every time, for every
  duration. The file is emptied, if it can be, so that the command is not executed twice.\<close>

theorem control_block_never_expires:
  assumes "skeleton_ok sk" and "startup h sk (Some (Some d)) c (fresh_user s) = (Inr g, u)"
    and "words63 63 [] cmds = pre @ ip # duration # post" and "even (length pre)" and "inet_pton ip = Some src"
    and "handle_sigusr_event e sk True (Some cmds) u = (content, u')"
  shows "content = (if cmd_file_writable e then Some [] else Some cmds) \<and> (\<forall>t. listed (kernel u') t src)"
  using commands_listed [OF assms(1) startup_success(4) [OF assms(2)] assms(4,3,5)] assms(6)
  by (auto simp: handle_sigusr_event_def process_block_cmd_file_def listed_def Let_def)

theorem control_block_never_expires_witness:
  "\<exists>g u f u'. startup office office_skel (Some (Some sample_doc)) blank_config (fresh_user boot_state) = (Inr g, u) \<and>
     handle_sigusr_event (user_env.truncate office) office_skel True (Some ''10.0.0.1 60'') u = (f, u') \<and>
     listed (kernel u') (-1) 0x0100000A"
proof -
  obtain g u where start: "startup office office_skel (Some (Some sample_doc)) blank_config (fresh_user boot_state) = (Inr g, u)"
    using office_starts by blast
  obtain f u' where run: "handle_sigusr_event (user_env.truncate office) office_skel True (Some ''10.0.0.1 60'') u = (f, u')"
    by (metis surj_pair)
  have ws: "words63 63 [] ''10.0.0.1 60'' = [] @ ''10.0.0.1'' # ''60'' # []" by (simp add: is_blank_def)
  have ip: "inet_pton ''10.0.0.1'' = Some 0x0100000A"
    by (simp add: inet_pton_def octet_def is_digit_def num_of_def digit_val_def address_def)
  show ?thesis using control_block_never_expires [OF office_skel_ok start ws _ ip run] run start by auto
qed

text \<open>The running system starts in a state the kernel model reaches: what the start writes into the
  maps are steps of the system, so every invariant of the reachable states holds from the first packet
  on, after a start that succeeds and after one that throws.\<close>

theorem startup_reachable:
  assumes "skeleton_ok sk" and "startup h sk file c (fresh_user boot_state) = (r, u)"
  shows "reachable perm (kernel u)"
  using startup_lists_as [OF assms] reachable.boot by (simp add: lists_as_def)

theorem startup_reachable_witness:
  "\<exists>g u. startup office office_skel (Some (Some sample_doc)) blank_config (fresh_user boot_state) = (Inr g, u) \<and>
     reachable Map.empty (kernel u)"
proof -
  obtain g u where run: "startup office office_skel (Some (Some sample_doc)) blank_config (fresh_user boot_state) = (Inr g, u)"
    using office_starts by blast
  then show ?thesis using startup_reachable [OF office_skel_ok run] by blast
qed

text \<open>No fragment of a TCP or UDP packet is ever passed after a start: fragments are checked as if they
  had the port 0, and the loader never puts port 0 on the ingress list, whatever the configuration
  says. (The exception is a flow table that refuses a new entry.)\<close>

theorem fragments_dropped:
  assumes "skeleton_ok sk" and "startup h sk file c (fresh_user boot_state) = (r, u)"
    and "classify b = Uninspected ip" and "ip_protocol b ip \<in> {IPPROTO_TCP, IPPROTO_UDP}" and "flow_insert_ok e"
  shows "\<exists>s'. xdp_fw e b (kernel u) = Some (XDP_DROP, b, s')"
proof -
  have as: "lists_as boot_state (kernel u)" by (rule startup_lists_as [OF assms(1,2)])
  have "reachable Map.empty (kernel u)" using as reachable.boot by (simp add: lists_as_def)
  then have wf: "maps_wf (kernel u)" using reachable_inv by (simp add: fw_inv_def)
  obtain s0 where s0: "init_gconfig_and_gmap (kernel u) = Some s0" using init_some [OF wf] by blast
  have "ingress_allowed_ports (kernel u) 0 = None" using as by (simp add: lists_as_def boot_state_def)
  then have "\<not> is_port_allowed s0 0 True"
    using s0 by (auto simp: init_gconfig_and_gmap_def is_port_allowed_def split: if_splits option.splits)
  then have "verdict_spec e s0 b = XDP_DROP"
    using assms(3-5) by (auto simp: verdict_spec_def uninspected_pass_def)
  with xdp_fw_verdict [OF wf s0, of e b] show ?thesis by simp
qed

theorem fragments_dropped_witness:
  "\<exists>g u s'. startup office office_skel (Some (Some sample_doc)) blank_config (fresh_user boot_state) = (Inr g, u) \<and>
     xdp_fw (still_env 3000000000) udp_fragment (kernel u) = Some (XDP_DROP, udp_fragment, s')"
proof -
  obtain g u where run: "startup office office_skel (Some (Some sample_doc)) blank_config (fresh_user boot_state) = (Inr g, u)"
    using office_starts by blast
  have "ip_protocol udp_fragment 14 \<in> {IPPROTO_TCP, IPPROTO_UDP}" "flow_insert_ok (still_env 3000000000)"
    by (simp_all add: run_defs)
  from fragments_dropped [OF office_skel_ok run classify_samples(2) this] run show ?thesis by blast
qed

text \<open>The two programs number their log levels differently, and the user's level is written into the
  kernel's configuration. After a start with a valid level the user-space program prints its errors
  at every level and its warnings at all but ERROR; the kernel programs print their errors only at
  TRACE, while from WARN on they print what they call information.\<close>

theorem log_levels_disagree:
  assumes "startup h sk (Some (Some d)) c (fresh_user s) = (Inr g, u)"
    and "level = cfg_log_level (config_of d)" and "level \<in> {''TRACE'', ''DEBUG'', ''INFO'', ''WARN'', ''ERROR''}"
  shows "user_log_prints level USER_LVL_ERROR \<and> (user_log_prints level USER_LVL_WARN \<longleftrightarrow> level \<noteq> ''ERROR'') \<and>
    (slf_log_prints (kernel u) LOG_LVL_ERROR \<longleftrightarrow> level = ''TRACE'') \<and>
    (slf_log_prints (kernel u) LOG_LVL_INFO \<longleftrightarrow> level \<noteq> ''ERROR'')"
proof -
  obtain g0 where g0: "fill_rates (cast_oob h) (sysconf_cpus h) (config_of d) zero_config = Inr g0"
    "g = g0\<lparr>gc_src_ports := gc_src_ports g, gc_dst_ports := gc_dst_ports g\<rparr>"
    using startup_success(1) [OF assms(1)] by blast
  have "gc_log_level g0 = get_log_level level"
    using g0(1) by (auto simp: fill_rates_def assms(2) Let_def split: sum.splits)
  moreover have "gc_log_level g = gc_log_level g0" by (subst g0(2)) simp
  ultimately have "get_debug_level (kernel u) = Some (get_log_level level)"
    using startup_success(2) [OF assms(1)] by (simp add: get_debug_level_def Let_def)
  then show ?thesis
    using assms(3) by (auto simp: slf_log_prints_def user_log_prints_def get_log_level_def log_level_map_def const_defs word_le_nat_alt)
qed

theorem log_levels_disagree_witness:
  "\<exists>g u. startup office office_skel (Some (Some sample_doc)) blank_config (fresh_user boot_state) = (Inr g, u) \<and>
     user_log_prints ''DEBUG'' USER_LVL_ERROR \<and> \<not> slf_log_prints (kernel u) LOG_LVL_ERROR"
proof -
  obtain g u where run: "startup office office_skel (Some (Some sample_doc)) blank_config (fresh_user boot_state) = (Inr g, u)"
    using office_starts by blast
  have "''DEBUG'' = cfg_log_level (config_of sample_doc)" by (simp add: config_of_def sample_doc_def)
  from log_levels_disagree [OF run this] run show ?thesis by auto
qed

text \<open>Sizes are read with 64 bits and stored with 32. A global burst of a multiple of four gigabytes
  becomes a burst of zero: the ingress program takes it over at its first packet, and a bucket refilled
  to that burst refuses every packet that is not empty.\<close>

theorem four_gigabytes_is_nothing:
  assumes "startup h sk (Some (Some d)) c (fresh_user s) = (Inr g, u)"
    and "parse_size (cast_oob h) (global_burst (cfg_rate_limit (config_of d))) = Inr n" and "4294967296 dvd unat n"
    and "\<not> isInitialed (kernel u)" and "init_gconfig_and_gmap (kernel u) = Some s0" and "t \<noteq> 0" and "0 < c'"
  shows "GLOBAL_BURST s0 = 0 \<and>
    fst (global_step rate (GLOBAL_BURST s0) now c' \<lparr>gb_tokens = GLOBAL_BURST s0, gb_last_ts = t\<rparr>) = XDP_DROP"
proof -
  obtain g0 where g0: "fill_rates (cast_oob h) (sysconf_cpus h) (config_of d) zero_config = Inr g0"
    "g = g0\<lparr>gc_src_ports := gc_src_ports g, gc_dst_ports := gc_dst_ports g\<rparr>"
    using startup_success(1) [OF assms(1)] by blast
  have "gc_global_burst g0 = ucast n" using g0(1) assms(2) by (auto simp: fill_rates_def Let_def split: sum.splits)
  moreover have "gc_global_burst g = gc_global_burst g0" by (subst g0(2)) simp
  moreover have "(ucast n :: u32) = 0"
    using assms(3) by (simp add: word_unat_eq_iff unsigned_ucast_eq take_bit_eq_mod)
  ultimately have "GLOBAL_BURST s0 = 0"
    using assms(4,5) startup_success(2) [OF assms(1)]
    by (auto simp: init_gconfig_and_gmap_def xdp_config_key_def split: option.splits)
  then show ?thesis using assms(6,7) by (auto simp: global_step_def global_refill_def Let_def word_gt_0)
qed

theorem four_gigabytes_is_nothing_witness:
  "\<exists>g u s0. startup office office_skel (Some (Some sample_doc)) blank_config (fresh_user boot_state) = (Inr g, u) \<and>
     init_gconfig_and_gmap (kernel u) = Some s0 \<and> GLOBAL_BURST s0 = 0"
proof -
  obtain g u where run: "startup office office_skel (Some (Some sample_doc)) blank_config (fresh_user boot_state) = (Inr g, u)"
    using office_starts by blast
  have as: "lists_as boot_state (kernel u)" by (rule startup_lists_as [OF office_skel_ok run])
  then have "reachable Map.empty (kernel u)" using reachable.boot by (simp add: lists_as_def)
  then obtain s0 where s0: "init_gconfig_and_gmap (kernel u) = Some s0"
    using init_some reachable_inv by (fastforce simp: fw_inv_def)
  have "\<not> isInitialed (kernel u)" using as by (simp add: lists_as_def boot_state_def)
  moreover have "parse_size (cast_oob office) (global_burst (cfg_rate_limit (config_of sample_doc))) = Inr 4294967296"
    by (simp add: office_def config_of_def rate_of_def sample_doc_def four_gb Let_def)
  ultimately show ?thesis
    using four_gigabytes_is_nothing [OF run _ _ _ s0, of 4294967296 1 1] run s0 by auto
qed

end
