(* ===== verification/RiskFeed.thy ===== *)
theory RiskFeed
  imports TextScan "HOL-Library.AList"
begin

text \<open>
  The threat feed of the user-space program: the indicator tables (\<open>RiskIndicators.hpp\<close>), the categories
  (\<open>RiskFileSyncManager.hpp\<close>), the binary file between two runs, the download and the registration
  (\<open>RiskFileUpdater.cpp\<close>, \<open>SyncRiskFileConfig.hpp\<close>, \<open>registerRiskIndicators\<close> of \<open>main.cpp\<close>).

  Parameters: the reading of an IPv6 address by the system (\<open>pton6\<close>), the replies of curl, what the
  JSON library makes of a reply, and whether a vector can reserve its memory.
\<close>

section \<open>Categories\<close>

definition tolower_chr :: "char \<Rightarrow> char" where
  [eval_defs]: "tolower_chr c = (let n = of_char c :: nat in if 65 \<le> n \<and> n \<le> 90 then char_of (n + 32) else c)"

definition toLower :: "string \<Rightarrow> string" where
  [eval_defs]: "toLower s = map tolower_chr s"

definition get_category_map :: "string \<rightharpoonup> string" where
  "get_category_map = map_of
     [(''domain'', ''network''), (''hostname'', ''network''), (''uri'', ''network''), (''url'', ''network''),
      (''ipv4'', ''ips''), (''ipv6'', ''ips''), (''cidr'', ''cidr''),
      (''ja3'', ''application''), (''sslcertfingerprint'', ''application''),
      (''filehash-sha256'', ''file''), (''filehash-sha1'', ''file''), (''filehash-md5'', ''file''),
      (''filehash-pehash'', ''file''), (''filehash-imphash'', ''file''), (''filepath'', ''file''), (''yara'', ''file''),
      (''mutex'', ''host''), (''bitcoinaddress'', ''identity''), (''email'', ''identity''), (''cve'', ''vulnerability'')]"

definition getCategory :: "string \<Rightarrow> string" where
  "getCategory type = (case get_category_map (toLower type) of Some c \<Rightarrow> c | None \<Rightarrow> ''Others'')"

section \<open>The tables\<close>

text \<open>The map from masks to networks is iterated over, so it is a list of pairs with different keys.\<close>

record risk_indicators =
  ri_identity :: "string set"
  ri_application :: "string set"
  ri_network :: "string set"
  ri_vulnerability :: "string set"
  ri_file :: "string set"
  ri_host :: "string set"
  ri_ipv4s :: "u64 set"
  ri_ipv6s :: "bytes set"
  ri_cidrs :: "(u32 \<times> u32 set) list"

definition no_indicators :: risk_indicators where
  "no_indicators = \<lparr>ri_identity = {}, ri_application = {}, ri_network = {}, ri_vulnerability = {}, ri_file = {}, ri_host = {},
     ri_ipv4s = {}, ri_ipv6s = {}, ri_cidrs = []\<rparr>"

text \<open>A C++ string as the C functions see it: up to the first zero.\<close>

definition NUL :: char where [eval_defs]: "NUL = CHR 0x00"

definition c_str :: "string \<Rightarrow> string" where
  [eval_defs]: "c_str s = takeWhile (\<lambda>c. c \<noteq> NUL) s"

definition parseCidr :: "string \<Rightarrow> exn + u32 \<times> u32" where
  "parseCidr cidr_str =
     (if CHR ''/'' \<notin> set cidr_str
      then (case inet_pton (c_str cidr_str) of
              None \<Rightarrow> Inl invalid_argument
            | Some addr \<Rightarrow> Inr (bpf_ntohl addr, 0xFFFFFFFF))
      else (case stoi (tl (dropWhile (\<lambda>c. c \<noteq> CHR ''/'') cidr_str)) of
              Inl x \<Rightarrow> Inl x
            | Inr prefix \<Rightarrow>
                if prefix < 0 \<or> 32 < prefix then Inl out_of_range
                else (case inet_pton (c_str (takeWhile (\<lambda>c. c \<noteq> CHR ''/'') cidr_str)) of
                        None \<Rightarrow> Inl invalid_argument
                      | Some addr \<Rightarrow>
                          (let network = bpf_ntohl addr;
                               msk = (if prefix = 0 then 0 else push_bit (nat (32 - prefix)) (NOT 0))
                           in Inr (network AND msk, msk)))))"

definition addIPs :: "string \<Rightarrow> risk_indicators \<Rightarrow> (exn + unit) \<times> risk_indicators" where
  "addIPs ip_str ri =
     (case inet_pton (c_str ip_str) of
        None \<Rightarrow> (Inl invalid_argument, ri)
      | Some addr \<Rightarrow> (Inr (), ri\<lparr>ri_ipv4s := insert (ucast (bpf_ntohl addr)) (ri_ipv4s ri)\<rparr>))"

definition addIPv6 :: "(string \<Rightarrow> bytes option) \<Rightarrow> string \<Rightarrow> risk_indicators \<Rightarrow> (exn + unit) \<times> risk_indicators" where
  "addIPv6 pton6 ip_str ri =
     (case pton6 (c_str ip_str) of
        None \<Rightarrow> (Inl invalid_argument, ri)
      | Some arr \<Rightarrow> (Inr (), ri\<lparr>ri_ipv6s := insert arr (ri_ipv6s ri)\<rparr>))"

definition networks_of :: "(u32 \<times> u32 set) list \<Rightarrow> u32 \<Rightarrow> u32 set" where
  "networks_of cidrs msk = (case map_of cidrs msk of None \<Rightarrow> {} | Some ns \<Rightarrow> ns)"

definition addCidrRange :: "string \<Rightarrow> risk_indicators \<Rightarrow> (exn + unit) \<times> risk_indicators" where
  "addCidrRange cidr_str ri =
     (case parseCidr cidr_str of
        Inl x \<Rightarrow> (Inl x, ri)
      | Inr (ip, msk) \<Rightarrow>
          (Inr (), ri\<lparr>ri_cidrs := AList.update msk (insert ip (networks_of (ri_cidrs ri) msk)) (ri_cidrs ri)\<rparr>))"

text \<open>\<open>RiskIndicators::analysIndicator\<close>: the category decides first, then the type.\<close>

definition analysIndicator ::
  "(string \<Rightarrow> bytes option) \<Rightarrow> string \<Rightarrow> string \<Rightarrow> string \<Rightarrow> risk_indicators \<Rightarrow> (exn + unit) \<times> risk_indicators" where
  "analysIndicator pton6 type category val ri =
     (if category = ''identity'' then (Inr (), ri\<lparr>ri_identity := insert val (ri_identity ri)\<rparr>)
      else if category = ''application'' then (Inr (), ri\<lparr>ri_application := insert val (ri_application ri)\<rparr>)
      else if category = ''network'' then (Inr (), ri\<lparr>ri_network := insert val (ri_network ri)\<rparr>)
      else if category = ''vulnerability'' then (Inr (), ri\<lparr>ri_vulnerability := insert val (ri_vulnerability ri)\<rparr>)
      else if category = ''file'' then (Inr (), ri\<lparr>ri_file := insert val (ri_file ri)\<rparr>)
      else if category = ''host'' then (Inr (), ri\<lparr>ri_host := insert val (ri_host ri)\<rparr>)
      else if type = ''ipv4'' then addIPs val ri
      else if type = ''ipv6'' then addIPv6 pton6 val ri
      else if category = ''cidrs'' then addCidrRange val ri
      else (Inr (), ri))"

definition isMatchApplication :: "string \<Rightarrow> risk_indicators \<Rightarrow> bool" where
  "isMatchApplication val ri \<longleftrightarrow> val \<in> ri_application ri"

definition isMatchIdentity :: "string \<Rightarrow> risk_indicators \<Rightarrow> bool" where
  "isMatchIdentity val ri \<longleftrightarrow> val \<in> ri_identity ri"

definition isMatchNetwork :: "string \<Rightarrow> risk_indicators \<Rightarrow> bool" where
  "isMatchNetwork val ri \<longleftrightarrow> val \<in> ri_network ri"

definition isMatchVulnerability :: "string \<Rightarrow> risk_indicators \<Rightarrow> bool" where
  "isMatchVulnerability val ri \<longleftrightarrow> val \<in> ri_vulnerability ri"

definition isMatchFile :: "string \<Rightarrow> risk_indicators \<Rightarrow> bool" where
  "isMatchFile val ri \<longleftrightarrow> val \<in> ri_file ri"

definition isMatchHost :: "string \<Rightarrow> risk_indicators \<Rightarrow> bool" where
  "isMatchHost val ri \<longleftrightarrow> val \<in> ri_host ri"

definition isMatchIPs :: "u64 \<Rightarrow> risk_indicators \<Rightarrow> bool" where
  "isMatchIPs val ri \<longleftrightarrow> val \<in> ri_ipv4s ri"

definition isMatchCidr :: "u32 \<Rightarrow> risk_indicators \<Rightarrow> bool" where
  "isMatchCidr val ri \<longleftrightarrow> list_ex (\<lambda>(msk, networks). val AND msk \<in> networks) (ri_cidrs ri)"

section \<open>Address ranges\<close>

text \<open>The operations keep the keys of the map different, and add exactly one range.\<close>

definition cidrs_ok :: "risk_indicators \<Rightarrow> bool" where
  "cidrs_ok ri \<longleftrightarrow> distinct (map fst (ri_cidrs ri))"

lemma list_ex_map_of: "distinct (map fst ps) \<Longrightarrow> list_ex (\<lambda>(k, v). P k v) ps \<longleftrightarrow> (\<exists>k v. map_of ps k = Some v \<and> P k v)"
  by (auto simp: list_ex_iff)

lemma match_added:
  assumes "cidrs_ok ri" and "parseCidr s = Inr (ip, msk)"
  shows "cidrs_ok (snd (addCidrRange s ri)) \<and> fst (addCidrRange s ri) = Inr () \<and>
    (isMatchCidr v (snd (addCidrRange s ri)) \<longleftrightarrow> isMatchCidr v ri \<or> v AND msk = ip)"
proof -
  let ?cs = "ri_cidrs ri" let ?new = "AList.update msk (insert ip (networks_of ?cs msk)) ?cs"
  have d: "distinct (map fst ?cs)" using assms(1) by (simp add: cidrs_ok_def)
  then have d': "distinct (map fst ?new)" by (rule distinct_update)
  have old: "list_ex (\<lambda>(k, ns). v AND k \<in> ns) ?cs \<longleftrightarrow> (\<exists>k ns. map_of ?cs k = Some ns \<and> v AND k \<in> ns)"
    by (rule list_ex_map_of [OF d])
  have new: "list_ex (\<lambda>(k, ns). v AND k \<in> ns) ?new \<longleftrightarrow> (\<exists>k ns. map_of ?new k = Some ns \<and> v AND k \<in> ns)"
    by (rule list_ex_map_of [OF d'])
  have "list_ex (\<lambda>(k, ns). v AND k \<in> ns) ?new \<longleftrightarrow> list_ex (\<lambda>(k, ns). v AND k \<in> ns) ?cs \<or> v AND msk = ip"
    unfolding old new unfolding update_conv' networks_of_def by (cases "map_of ?cs msk") (auto split: if_splits, (metis option.distinct(1) option.inject)+)
  then show ?thesis
    using assms d' by (simp add: addCidrRange_def cidrs_ok_def isMatchCidr_def)
qed

text \<open>A range as it is written.\<close>

definition cidr_text :: "nat \<times> nat \<times> nat \<times> nat \<times> nat \<Rightarrow> string" where
  "cidr_text r = (case r of (a, b, c, d, p) \<Rightarrow> dotted a b c d @ CHR ''/'' # show_nat p)"

definition range_ok :: "nat \<times> nat \<times> nat \<times> nat \<times> nat \<Rightarrow> bool" where
  "range_ok r = (case r of (a, b, c, d, p) \<Rightarrow> a \<le> 255 \<and> b \<le> 255 \<and> c \<le> 255 \<and> d \<le> 255 \<and> p \<le> 32)"

definition host_order :: "nat \<times> nat \<times> nat \<times> nat \<times> nat \<Rightarrow> u32" where
  "host_order r = (case r of (a, b, c, d, p) \<Rightarrow> bpf_ntohl (address (of_nat a) (of_nat b) (of_nat c) (of_nat d)))"

definition prefix_len :: "nat \<times> nat \<times> nat \<times> nat \<times> nat \<Rightarrow> nat" where
  "prefix_len r = (case r of (a, b, c, d, p) \<Rightarrow> p)"

definition prefix_mask :: "nat \<Rightarrow> u32" where
  "prefix_mask p = (if p = 0 then 0 else push_bit (32 - p) (NOT 0))"

lemma bit_prefix_mask: "p \<le> 32 \<Longrightarrow> bit (prefix_mask p) n \<longleftrightarrow> 32 - p \<le> n \<and> n < 32"
  by (auto simp: prefix_mask_def bit_simps)

lemma masked_eq: "p \<le> 32 \<Longrightarrow> v AND prefix_mask p = w AND prefix_mask p \<longleftrightarrow> drop_bit (32 - p) v = drop_bit (32 - p) w" for v w :: u32
proof
  assume p: "p \<le> 32" and "v AND prefix_mask p = w AND prefix_mask p"
  then have bits: "bit (v AND prefix_mask p) n = bit (w AND prefix_mask p) n" for n by simp
  show "drop_bit (32 - p) v = drop_bit (32 - p) w"
  proof (rule bit_word_eqI)
    fix n show "bit (drop_bit (32 - p) v) n = bit (drop_bit (32 - p) w) n"
      using bits [of "32 - p + n"] p bit_imp_le_length [of v "32 - p + n"] bit_imp_le_length [of w "32 - p + n"]
      by (auto simp: bit_simps bit_prefix_mask)
  qed
next
  assume p: "p \<le> 32" and "drop_bit (32 - p) v = drop_bit (32 - p) w"
  then have bits: "bit (drop_bit (32 - p) v) n = bit (drop_bit (32 - p) w) n" for n by simp
  show "v AND prefix_mask p = w AND prefix_mask p"
  proof (rule bit_word_eqI)
    fix n show "bit (v AND prefix_mask p) n = bit (w AND prefix_mask p) n"
      using bits [of "n - (32 - p)"] p by (auto simp: bit_simps bit_prefix_mask)
  qed
qed

lemma no_char:
  assumes "\<And>x. is_digit x \<Longrightarrow> x \<noteq> ch" and "ch \<noteq> CHR ''.''"
  shows "ch \<notin> set (dotted a b c d)"
proof -
  have "ch \<notin> set (show_nat n)" for n using assms(1) show_nat_digits by blast
  then show ?thesis using assms(2) by (simp add: dotted_def)
qed

lemma parse_range:
  assumes "range_ok r"
  shows "parseCidr (cidr_text r) = Inr (host_order r AND prefix_mask (prefix_len r), prefix_mask (prefix_len r))"
proof -
  obtain a b c d p where r: "r = (a, b, c, d, p)" by (cases r)
  then have ok: "a \<le> 255" "b \<le> 255" "c \<le> 255" "d \<le> 255" "p \<le> 32" using assms by (auto simp: range_ok_def)
  have slash: "CHR ''/'' \<notin> set (dotted a b c d)" by (rule no_char) (auto simp: is_digit_def)
  have nul: "NUL \<notin> set (dotted a b c d)" by (rule no_char) (auto simp: is_digit_def NUL_def)
  have str: "c_str (dotted a b c d) = dotted a b c d" using nul by (auto simp: c_str_def takeWhile_eq_all_conv)
  have cut: "takeWhile (\<lambda>x. x \<noteq> CHR ''/'') (cidr_text r) = dotted a b c d"
      "tl (dropWhile (\<lambda>x. x \<noteq> CHR ''/'') (cidr_text r)) = show_nat p"
    using slash by (auto simp: cidr_text_def r takeWhile_append dropWhile_append)
  have mem: "CHR ''/'' \<in> set (cidr_text r)" by (simp add: cidr_text_def r)
  have num: "stoi (show_nat p) = Inr (int p)" using stoi_show [of p] ok(5) by simp
  have fields: "host_order r = bpf_ntohl (address (of_nat a) (of_nat b) (of_nat c) (of_nat d))" "prefix_len r = p"
    by (simp_all add: r host_order_def prefix_len_def)
  show ?thesis
    using ok mem by (simp add: parseCidr_def cut num str inet_pton_dotted fields prefix_mask_def Let_def nat_diff_distrib)
qed

lemma cidr_match_lemma:
  assumes "\<forall>r\<in>set rs. range_ok r"
  shows "isMatchCidr v (fold (\<lambda>r ri. snd (addCidrRange (cidr_text r) ri)) rs no_indicators) \<longleftrightarrow>
    (\<exists>r\<in>set rs. drop_bit (32 - prefix_len r) v = drop_bit (32 - prefix_len r) (host_order r))"
proof -
  have "cidrs_ok ri \<Longrightarrow> isMatchCidr v (fold (\<lambda>r ri. snd (addCidrRange (cidr_text r) ri)) rs ri) \<longleftrightarrow> isMatchCidr v ri \<or>
      (\<exists>r\<in>set rs. drop_bit (32 - prefix_len r) v = drop_bit (32 - prefix_len r) (host_order r))" for ri
    using assms
  proof (induction rs arbitrary: ri)
    case (Cons r rs)
    then have "range_ok r" by simp
    then have p: "prefix_len r \<le> 32" by (auto simp: range_ok_def prefix_len_def split: prod.splits)
    show ?case
      using Cons match_added [OF Cons.prems(1) parse_range [OF \<open>range_ok r\<close>], of v] masked_eq [OF p, of v "host_order r"] by auto
  qed simp
  from this [of no_indicators] show ?thesis by (simp add: cidrs_ok_def no_indicators_def isMatchCidr_def)
qed

text \<open>The table of address ranges is exact: after ranges written as dotted address, slash and prefix length have
  been added, an address (in host byte order) matches if and only if it agrees with one of the ranges
  in the leading bits that its prefix length names.\<close>

theorem cidr_match_exact:
  assumes "\<forall>r\<in>set rs. range_ok r"
  shows "isMatchCidr v (fold (\<lambda>r ri. snd (addCidrRange (cidr_text r) ri)) rs no_indicators) \<longleftrightarrow>
    (\<exists>r\<in>set rs. drop_bit (32 - prefix_len r) v = drop_bit (32 - prefix_len r) (host_order r))"
  by (rule cidr_match_lemma [OF assms])

theorem cidr_match_exact_witness:
  "isMatchCidr 0x0A01FFFF (snd (addCidrRange (cidr_text (10, 1, 0, 0, 16)) no_indicators)) \<and>
   \<not> isMatchCidr 0x0A02FFFF (snd (addCidrRange (cidr_text (10, 1, 0, 0, 16)) no_indicators))"
  using cidr_match_exact [of "[(10, 1, 0, 0, 16)]" "0x0A01FFFF"] cidr_match_exact [of "[(10, 1, 0, 0, 16)]" "0x0A02FFFF"]
  by (simp add: range_ok_def prefix_len_def host_order_def address_def bpf_ntohl_def bpf_htonl_def)

section \<open>Registration\<close>

record risk_property =
  rp_id :: u64
  rp_indicator :: string
  rp_type :: string
  rp_created :: string
  rp_active :: u8

text \<open>The loop of \<open>registerRiskIndicators\<close>; an address that does not parse throws out of it.\<close>

fun register_risks ::
  "(string \<Rightarrow> bytes option) \<Rightarrow> risk_property list \<Rightarrow> risk_indicators \<Rightarrow> (exn + unit) \<times> risk_indicators" where
  "register_risks pton6 [] ri = (Inr (), ri)"
| "register_risks pton6 (col # collects) ri =
     (case analysIndicator pton6 (toLower (rp_type col)) (getCategory (rp_type col)) (rp_indicator col) ri of
        (Inl x, ri) \<Rightarrow> (Inl x, ri)
      | (Inr _, ri) \<Rightarrow> register_risks pton6 collects ri)"

text \<open>The indicators of a feed whose type is one of the given ones, and the IPv4 addresses among them.\<close>

definition of_types :: "string set \<Rightarrow> risk_property list \<Rightarrow> string set" where
  "of_types ts cols = rp_indicator ` {c \<in> set cols. toLower (rp_type c) \<in> ts}"

definition ipv4_of :: "risk_property list \<Rightarrow> u32 set" where
  "ipv4_of cols = {a. \<exists>s\<in>of_types {''ipv4''} cols. inet_pton (c_str s) = Some a}"

definition file_types :: "string set" where
  "file_types = {''filehash-sha256'', ''filehash-sha1'', ''filehash-md5'', ''filehash-pehash'', ''filehash-imphash'', ''filepath'', ''yara''}"

lemma category_file: "getCategory t = ''file'' \<longleftrightarrow> toLower t \<in> file_types"
  by (simp add: getCategory_def get_category_map_def file_types_def)

lemma category_host: "getCategory t = ''host'' \<longleftrightarrow> toLower t \<in> {''mutex''}"
  by (simp add: getCategory_def get_category_map_def)

lemma category_application: "getCategory t = ''application'' \<longleftrightarrow> toLower t \<in> {''ja3'', ''sslcertfingerprint''}"
  by (simp add: getCategory_def get_category_map_def)

lemma category_ips: "getCategory t = ''ips'' \<longleftrightarrow> toLower t \<in> {''ipv4'', ''ipv6''}"
  by (simp add: getCategory_def get_category_map_def)

lemma category_no_cidrs: "getCategory t \<noteq> ''cidrs''"
  by (simp add: getCategory_def get_category_map_def split: option.split)

lemma ips_of_type: "toLower t = ''ipv4'' \<Longrightarrow> getCategory t = ''ips''" "toLower t = ''ipv6'' \<Longrightarrow> getCategory t = ''ips''"
  by (simp_all add: category_ips)

lemma of_types_simps [simp]:
  "of_types ts [] = {}"
  "of_types ts (c # cols) = (if toLower (rp_type c) \<in> ts then insert (rp_indicator c) (of_types ts cols) else of_types ts cols)"
  by (auto simp: of_types_def)

text \<open>One record changes one table.\<close>

lemma analyse_tables:
  assumes "analysIndicator pton6 (toLower t) (getCategory t) v ri = (Inr (), ri')"
  shows "ri_file ri' = (if toLower t \<in> file_types then insert v (ri_file ri) else ri_file ri)"
    and "ri_host ri' = (if toLower t \<in> {''mutex''} then insert v (ri_host ri) else ri_host ri)"
    and "ri_application ri' = (if toLower t \<in> {''ja3'', ''sslcertfingerprint''} then insert v (ri_application ri) else ri_application ri)"
    and "ri_cidrs ri' = ri_cidrs ri"
    and "ri_ipv4s ri' = (if toLower t \<in> {''ipv4''} then insert (ucast (bpf_ntohl (the (inet_pton (c_str v))))) (ri_ipv4s ri) else ri_ipv4s ri)"
    and "toLower t \<in> {''ipv4''} \<Longrightarrow> inet_pton (c_str v) \<noteq> None"
  using assms ips_of_type [of t] category_no_cidrs [of t]
  unfolding category_file [symmetric] category_host [symmetric] category_application [symmetric]
  by (auto simp: analysIndicator_def addIPs_def addIPv6_def split: if_splits option.splits)

lemma registered_tables:
  "register_risks pton6 cols ri = (Inr (), ri') \<Longrightarrow>
     ri_file ri' = ri_file ri \<union> of_types file_types cols \<and>
     ri_host ri' = ri_host ri \<union> of_types {''mutex''} cols \<and>
     ri_application ri' = ri_application ri \<union> of_types {''ja3'', ''sslcertfingerprint''} cols \<and>
     ri_cidrs ri' = ri_cidrs ri \<and> ri_ipv4s ri' = ri_ipv4s ri \<union> (\<lambda>a. ucast (bpf_ntohl a)) ` ipv4_of cols"
proof (induction cols arbitrary: ri)
  case Nil
  then show ?case by (simp add: ipv4_of_def)
next
  case (Cons c cols)
  obtain r1 where run: "analysIndicator pton6 (toLower (rp_type c)) (getCategory (rp_type c)) (rp_indicator c) ri = (Inr (), r1)"
      "register_risks pton6 cols r1 = (Inr (), ri')"
    using Cons.prems by (auto split: prod.splits sum.splits)
  have ips: "ipv4_of (c # cols) = (if toLower (rp_type c) \<in> {''ipv4''} then insert (the (inet_pton (c_str (rp_indicator c)))) (ipv4_of cols)
      else ipv4_of cols)"
    using analyse_tables(6) [OF run(1)] by (auto simp: ipv4_of_def)
  note one = analyse_tables(1-5) [OF run(1)]
  have more: "toLower (rp_type c) \<in> ts \<Longrightarrow> of_types ts (c # cols) = insert (rp_indicator c) (of_types ts cols)"
      "toLower (rp_type c) \<notin> ts \<Longrightarrow> of_types ts (c # cols) = of_types ts cols" for ts by simp_all
  show ?case
    using Cons.IH [OF run(2)] one ips more [of file_types] more [of "{''mutex''}"] more [of "{''ja3'', ''sslcertfingerprint''}"]
    by (simp del: of_types_simps)
qed

lemma register_stops:
  assumes "c \<in> set cols" and "toLower (rp_type c) = ''ipv4''" and "inet_pton (c_str (rp_indicator c)) = None"
  shows "fst (register_risks pton6 cols ri) \<noteq> Inr ()"
proof
  assume "fst (register_risks pton6 cols ri) = Inr ()"
  then obtain ri' where "register_risks pton6 cols ri = (Inr (), ri')" by (cases "register_risks pton6 cols ri") auto
  then have False using assms
  proof (induction cols arbitrary: ri)
    case (Cons d cols)
    obtain r1 where run: "analysIndicator pton6 (toLower (rp_type d)) (getCategory (rp_type d)) (rp_indicator d) ri = (Inr (), r1)"
        "register_risks pton6 cols r1 = (Inr (), ri')"
      using Cons.prems by (auto split: prod.splits sum.splits)
    show ?case using Cons.IH [OF run(2)] Cons.prems(2-4) analyse_tables(6) [OF run(1)] by auto
  qed simp
  then show False .
qed

text \<open>What a feed can match. When the records of a feed have been registered in empty tables, the file
  table holds the file hashes, paths and rules, the host table the names of mutexes (not one domain,
  host name or URL), the application table the JA3 and certificate fingerprints, the address table the
  IPv4 addresses in host byte order; the table of ranges is empty whatever ranges the feed names,
  because their category is called \<open>cidr\<close> by one function and \<open>cidrs\<close> by the other.\<close>

theorem registered_feed:
  assumes "register_risks pton6 cols no_indicators = (Inr (), ri)"
  shows "(isMatchFile v ri \<longleftrightarrow> v \<in> of_types file_types cols) \<and> (isMatchHost v ri \<longleftrightarrow> v \<in> of_types {''mutex''} cols) \<and>
    (isMatchApplication v ri \<longleftrightarrow> v \<in> of_types {''ja3'', ''sslcertfingerprint''} cols) \<and> \<not> isMatchCidr w ri \<and>
    (isMatchIPs n ri \<longleftrightarrow> n \<in> (\<lambda>a. ucast (bpf_ntohl a)) ` ipv4_of cols)"
  using registered_tables [OF assms]
  by (simp add: isMatchFile_def isMatchHost_def isMatchApplication_def isMatchCidr_def isMatchIPs_def no_indicators_def)

definition sample_feed :: "risk_property list" where
  "sample_feed = [\<lparr>rp_id = 1, rp_indicator = ''10.0.0.0/8'', rp_type = ''CIDR'', rp_created = [], rp_active = 1\<rparr>,
     \<lparr>rp_id = 2, rp_indicator = ''evil.example'', rp_type = ''domain'', rp_created = [], rp_active = 1\<rparr>,
     \<lparr>rp_id = 3, rp_indicator = ''1.2.3.4'', rp_type = ''IPv4'', rp_created = [], rp_active = 1\<rparr>]"

lemma sample_addr: "inet_pton ''1.2.3.4'' = Some 0x04030201"
  by code_simp

lemma lower_samples: "toLower ''CIDR'' = ''cidr''" "toLower ''domain'' = ''domain''" "toLower ''IPv4'' = ''ipv4''"
  by code_simp+

lemma sample_strings: "c_str ''1.2.3.4'' = ''1.2.3.4''" "c_str ''1.2.3'' = ''1.2.3''" "inet_pton ''1.2.3'' = None"
  by code_simp+

lemma sample_categories: "getCategory ''CIDR'' = ''cidr''" "getCategory ''domain'' = ''network''" "getCategory ''IPv4'' = ''ips''"
  by (simp_all add: getCategory_def get_category_map_def lower_samples)

lemma sample_registered: "\<exists>ri. register_risks pton6 sample_feed no_indicators = (Inr (), ri)"
  by (simp add: sample_feed_def analysIndicator_def sample_categories lower_samples addIPs_def sample_strings sample_addr)

theorem registered_feed_witness:
  "\<exists>ri. register_risks (\<lambda>_. None) sample_feed no_indicators = (Inr (), ri) \<and> \<not> isMatchCidr 0x0A000001 ri \<and>
     \<not> isMatchHost ''evil.example'' ri"
proof -
  obtain ri where run: "register_risks (\<lambda>_. None) sample_feed no_indicators = (Inr (), ri)" using sample_registered by blast
  from registered_feed [OF run, of "''evil.example''" "0x0A000001"] run show ?thesis
    by (simp add: sample_feed_def lower_samples)
qed

text \<open>A single IPv4 record whose text is not an address makes the whole registration throw, and the records
  behind it are not looked at.\<close>

theorem bad_address_throws:
  assumes "c \<in> set cols" and "toLower (rp_type c) = ''ipv4''" and "inet_pton (c_str (rp_indicator c)) = None"
  shows "\<exists>x ri'. register_risks pton6 cols ri = (Inl x, ri')"
  using register_stops [OF assms, of pton6 ri] by (cases "register_risks pton6 cols ri"; cases "fst (register_risks pton6 cols ri)") auto

theorem bad_address_throws_witness:
  "\<exists>x ri'. register_risks (\<lambda>_. None) [\<lparr>rp_id = 1, rp_indicator = ''1.2.3'', rp_type = ''IPv4'', rp_created = [], rp_active = 1\<rparr>] no_indicators = (Inl x, ri')"
  by (rule bad_address_throws [OF list.set_intros(1)]) (simp_all add: lower_samples sample_strings)

end
