(* ===== verification/RiskFile.thy ===== *)
theory RiskFile
  imports RiskFeed
begin

text \<open>
  The binary file in which the threat feed survives a restart (\<open>riskConfigToBinary\<close> and \<open>binaryToRiskConfig\<close>
  of \<open>src/src/user/config/RiskFileUpdater.cpp\<close>, the packed structs of \<open>SyncRiskFileConfig.hpp\<close>): the format
  byte by byte, what a file written by the program reads back as, and what is lost on the way.

  A file is the list of its bytes as characters. A read beyond its end leaves the rest of the struct
  zero. A C string in a struct is read up to the next zero, which may lie in a later field; when there
  is none up to the end of the struct, the behaviour is undefined and the model answers \<open>None\<close>.
\<close>

section \<open>The singleton\<close>

record risk_config =
  rc_syncNextUrl :: string
  rc_updateTime :: string
  rc_riskCount :: u64
  rc_collected :: "risk_property list"

section \<open>Fields\<close>

text \<open>Integers in little-endian order, and \<open>strncpy\<close> of at most \<open>n - 1\<close> characters into a zeroed array of \<open>n\<close>.\<close>

fun le_chars :: "nat \<Rightarrow> nat \<Rightarrow> string" where
  "le_chars 0 n = []"
| "le_chars (Suc k) n = char_of n # le_chars k (n div 256)"

fun le_val :: "string \<Rightarrow> nat" where
  "le_val [] = 0"
| "le_val (c # cs) = of_char c + 256 * le_val cs"

definition char_array :: "nat \<Rightarrow> string \<Rightarrow> string" where
  "char_array n s = (let t = take (n - 1) (c_str s) in t @ replicate (n - length t) NUL)"

text \<open>A C string that starts at an offset of a struct.\<close>

definition c_string_at :: "string \<Rightarrow> nat \<Rightarrow> string option" where
  "c_string_at struct off = (let r = drop off struct in if NUL \<in> set r then Some (takeWhile (\<lambda>c. c \<noteq> NUL) r) else None)"

definition read_struct :: "nat \<Rightarrow> string \<Rightarrow> string \<times> string" where
  "read_struct n s = (let b = take n s in (b @ replicate (n - length b) NUL, drop n s))"

lemma length_le_chars [simp]: "length (le_chars k n) = k"
  by (induction k arbitrary: n) auto

lemma le_val_chars: "n < 256 ^ k \<Longrightarrow> le_val (le_chars k n) = n"
proof (induction k arbitrary: n)
  case (Suc k)
  then have "n < 256 ^ k * 256" by (simp only: power_Suc2)
  then have "n div 256 < 256 ^ k" by (rule less_mult_imp_div_less)
  with Suc.IH [of "n div 256"] show ?case by simp
qed simp

lemma length_char_array [simp]: "0 < n \<Longrightarrow> length (char_array n s) = n"
  by (simp add: char_array_def Let_def)

lemma c_str_no_nul: "NUL \<notin> set (c_str s)"
  by (auto simp: c_str_def dest: set_takeWhileD)

lemma c_str_id: "NUL \<notin> set s \<Longrightarrow> c_str s = s"
  by (auto simp: c_str_def takeWhile_eq_all_conv)

lemma char_array_read: "0 < n \<Longrightarrow> \<exists>rest. char_array n s = take (n - 1) (c_str s) @ NUL # rest"
proof -
  assume "0 < n"
  then obtain k where k: "n - length (take (n - 1) (c_str s)) = Suc k" by (cases "n - length (take (n - 1) (c_str s))") auto
  show ?thesis unfolding char_array_def Let_def k by simp
qed

lemma read_char_array:
  assumes "length before = off" and "0 < n"
  shows "c_string_at (before @ char_array n s @ behind) off = Some (take (n - 1) (c_str s))"
proof -
  obtain rest where arr: "char_array n s = take (n - 1) (c_str s) @ NUL # rest" using char_array_read assms(2) by blast
  have "NUL \<notin> set (take (n - 1) (c_str s))" using c_str_no_nul by (meson in_set_takeD)
  then have "takeWhile (\<lambda>c. c \<noteq> NUL) (char_array n s @ behind) = take (n - 1) (c_str s)"
    by (auto simp: arr takeWhile_append)
  then show ?thesis using assms(1) by (simp add: c_string_at_def Let_def arr)
qed

section \<open>Records\<close>

text \<open>\<open>BinaryRiskProperty\<close> is packed: 8 bytes of id, 64 of indicator, 32 of type, 32 of time, one of state.\<close>

definition property_size :: nat where "property_size = 137"
definition header_size :: nat where "header_size = 360"

definition property_bytes :: "risk_property \<Rightarrow> string" where
  "property_bytes p =
     le_chars 8 (unat (rp_id p)) @ char_array 64 (rp_indicator p) @ char_array 32 (rp_type p) @ char_array 32 (rp_created p) @
     [char_of (unat (rp_active p))]"

definition property_of :: "string \<Rightarrow> risk_property option" where
  "property_of b =
     (case (c_string_at b 8, c_string_at b 72, c_string_at b 104) of
        (Some indicator, Some type, Some created) \<Rightarrow>
          Some \<lparr>rp_id = of_nat (le_val (take 8 b)), rp_indicator = indicator, rp_type = type, rp_created = created,
            rp_active = of_nat (of_char (b ! 136))\<rparr>
      | _ \<Rightarrow> None)"

text \<open>\<open>BinaryHeader\<close>: the address to go on from, the time, the number of records, and 32 reserved bytes.\<close>

definition header_bytes :: "risk_config \<Rightarrow> string" where
  "header_bytes c =
     char_array 256 (rc_syncNextUrl c) @ char_array 64 (rc_updateTime c) @ le_chars 8 (unat (of_nat (length (rc_collected c)) :: u64)) @
     replicate 32 NUL"

definition riskConfigToBinary :: "risk_config \<Rightarrow> string" where
  "riskConfigToBinary c = header_bytes c @ concat (map property_bytes (rc_collected c))"

fun read_properties :: "nat \<Rightarrow> string \<Rightarrow> risk_property list option" where
  "read_properties 0 s = Some []"
| "read_properties (Suc n) s =
     (let (b, s) = read_struct property_size s
      in case property_of b of
           None \<Rightarrow> None
         | Some p \<Rightarrow> (case read_properties n s of None \<Rightarrow> None | Some ps \<Rightarrow> Some (p # ps)))"

text \<open>\<open>binaryToRiskConfig\<close>: the file is missing, or the header is taken over, memory reserved for as many
  records as it names, and that many records read.\<close>

definition binaryToRiskConfig :: "(u64 \<Rightarrow> bool) \<Rightarrow> string option \<Rightarrow> risk_config \<Rightarrow> ((exn + unit) \<times> risk_config) option" where
  "binaryToRiskConfig reserve_ok file c =
     (case file of
        None \<Rightarrow> Some (Inr (), c)
      | Some s \<Rightarrow>
          (let (bh, s) = read_struct header_size s
           in case (c_string_at bh 0, c_string_at bh 256) of
                (Some url, Some time) \<Rightarrow>
                  (let count = of_nat (le_val (take 8 (drop 320 bh))) :: u64;
                       c = c\<lparr>rc_syncNextUrl := url, rc_updateTime := time, rc_riskCount := count\<rparr>
                   in if \<not> reserve_ok count then Some (Inl bad_alloc, c)
                      else (case read_properties (unat count) s of
                              None \<Rightarrow> None
                            | Some ps \<Rightarrow> Some (Inr (), c\<lparr>rc_collected := ps\<rparr>)))
              | _ \<Rightarrow> None))"

section \<open>Writing and reading back\<close>

text \<open>What is left of a record: strings end at the first zero and at the size of their array less one.\<close>

definition cut_property :: "risk_property \<Rightarrow> risk_property" where
  "cut_property p = p\<lparr>rp_indicator := take 63 (c_str (rp_indicator p)), rp_type := take 31 (c_str (rp_type p)),
     rp_created := take 31 (c_str (rp_created p))\<rparr>"

lemma property_roundtrip: "property_of (property_bytes p) = Some (cut_property p)"
proof -
  let ?i = "le_chars 8 (unat (rp_id p))" let ?a = "[char_of (unat (rp_active p))]"
  let ?n = "char_array 64 (rp_indicator p)" let ?t = "char_array 32 (rp_type p)" let ?c = "char_array 32 (rp_created p)"
  have ind: "c_string_at (property_bytes p) 8 = Some (take 63 (c_str (rp_indicator p)))"
    using read_char_array [of ?i 8 64 "rp_indicator p" "?t @ ?c @ ?a"] by (simp add: property_bytes_def)
  have kind: "c_string_at (property_bytes p) 72 = Some (take 31 (c_str (rp_type p)))"
    using read_char_array [of "?i @ ?n" 72 32 "rp_type p" "?c @ ?a"] by (simp add: property_bytes_def)
  have crt: "c_string_at (property_bytes p) 104 = Some (take 31 (c_str (rp_created p)))"
    using read_char_array [of "?i @ ?n @ ?t" 104 32 "rp_created p" ?a] by (simp add: property_bytes_def)
  have id: "of_nat (le_val (take 8 (property_bytes p))) = rp_id p"
    using le_val_chars [of "unat (rp_id p)" 8] unsigned_less [where 'a = nat, of "rp_id p"] by (simp add: property_bytes_def)
  have active: "of_nat (of_char (property_bytes p ! 136)) = rp_active p"
    using unsigned_less [where 'a = nat, of "rp_active p"] by (simp add: property_bytes_def nth_append of_char_of)
  show ?thesis by (cases p) (use ind kind crt id active in \<open>simp add: property_of_def cut_property_def\<close>)
qed

lemma length_property_bytes [simp]: "length (property_bytes p) = property_size"
  by (simp add: property_bytes_def property_size_def)

lemma read_struct_exact: "length b = n \<Longrightarrow> read_struct n (b @ s) = (b, s)"
  by (simp add: read_struct_def)

lemma properties_roundtrip:
  "read_properties (length ps) (concat (map property_bytes ps)) = Some (map cut_property ps)"
  by (induction ps) (auto simp: read_struct_exact property_roundtrip)

lemma config_roundtrip:
  assumes "length (rc_collected c) < 2 ^ 64" and "reserve_ok (of_nat (length (rc_collected c)))"
  shows "binaryToRiskConfig reserve_ok (Some (riskConfigToBinary c)) c0 =
    Some (Inr (), c0\<lparr>rc_syncNextUrl := take 255 (c_str (rc_syncNextUrl c)), rc_updateTime := take 63 (c_str (rc_updateTime c)),
      rc_riskCount := of_nat (length (rc_collected c)), rc_collected := map cut_property (rc_collected c)\<rparr>)"
proof -
  let ?u = "char_array 256 (rc_syncNextUrl c)" let ?t = "char_array 64 (rc_updateTime c)"
  let ?n = "unat (of_nat (length (rc_collected c)) :: u64)"
  let ?l = "le_chars 8 ?n" let ?r = "replicate 32 NUL"
  have n: "?n = length (rc_collected c)" using assms(1) by (simp add: unat_of_nat take_bit_eq_mod)
  have len: "length (header_bytes c) = header_size" by (simp add: header_bytes_def header_size_def)
  have url: "c_string_at (header_bytes c) 0 = Some (take 255 (c_str (rc_syncNextUrl c)))"
    using read_char_array [of "[]" 0 256 "rc_syncNextUrl c" "?t @ ?l @ ?r"] by (simp add: header_bytes_def)
  have time: "c_string_at (header_bytes c) 256 = Some (take 63 (c_str (rc_updateTime c)))"
    using read_char_array [of ?u 256 64 "rc_updateTime c" "?l @ ?r"] by (simp add: header_bytes_def)
  have count: "le_val (take 8 (drop 320 (header_bytes c))) = ?n"
    using le_val_chars [of ?n 8] unsigned_less [where 'a = nat, of "of_nat (length (rc_collected c)) :: u64"] by (simp add: header_bytes_def)
  have "read_struct header_size (riskConfigToBinary c) = (header_bytes c, concat (map property_bytes (rc_collected c)))"
    unfolding riskConfigToBinary_def by (rule read_struct_exact [OF len])
  then show ?thesis
    using assms(2) by (simp add: binaryToRiskConfig_def url time count n properties_roundtrip)
qed

text \<open>A file that ends early: the records that are not there are read as empty ones.\<close>

lemma empty_property: "property_of (replicate property_size NUL) = Some \<lparr>rp_id = 0, rp_indicator = [], rp_type = [], rp_created = [], rp_active = 0\<rparr>"
proof -
  have "c_string_at (replicate property_size NUL) n = Some []" if "n < 137" for n
    using that by (cases "137 - n") (auto simp: c_string_at_def property_size_def Let_def)
  moreover have "le_val (replicate n NUL) = 0" for n by (induction n) (auto simp: NUL_def)
  moreover have "take 8 (replicate property_size NUL) = replicate 8 NUL" "replicate property_size NUL ! 136 = NUL"
    by (simp_all add: property_size_def)
  ultimately show ?thesis by (simp add: property_of_def) (simp add: NUL_def)
qed

lemma missing_properties:
  "read_properties n [] = Some (replicate n \<lparr>rp_id = 0, rp_indicator = [], rp_type = [], rp_created = [], rp_active = 0\<rparr>)"
  by (induction n) (simp_all add: read_struct_def empty_property)

lemma read_short_file:
  "read_properties (length ps + n) (concat (map property_bytes ps)) =
     Some (map cut_property ps @ replicate n \<lparr>rp_id = 0, rp_indicator = [], rp_type = [], rp_created = [], rp_active = 0\<rparr>)"
  by (induction ps) (auto simp: read_struct_exact property_roundtrip missing_properties)

section \<open>Properties\<close>

text \<open>C20: A feed that the program writes to its binary file is read back record by record, in order and
  without an undefined access, whatever the strings hold: the numbers exactly, the strings up to their
  first zero byte and cut to 255 (address), 63 (time and indicator) and 31 (type and creation time)
  characters.\<close>

theorem binary_roundtrip:
  assumes "length (rc_collected c) < 2 ^ 64" and "reserve_ok (of_nat (length (rc_collected c)))"
  shows "binaryToRiskConfig reserve_ok (Some (riskConfigToBinary c)) c0 =
    Some (Inr (), c0\<lparr>rc_syncNextUrl := take 255 (c_str (rc_syncNextUrl c)), rc_updateTime := take 63 (c_str (rc_updateTime c)),
      rc_riskCount := of_nat (length (rc_collected c)), rc_collected := map cut_property (rc_collected c)\<rparr>)"
  using assms by (rule config_roundtrip)

definition blank_risk_config :: risk_config where
  "blank_risk_config = \<lparr>rc_syncNextUrl = [], rc_updateTime = [], rc_riskCount = 0, rc_collected = []\<rparr>"

theorem binary_roundtrip_witness:
  "\<exists>c1. binaryToRiskConfig (\<lambda>_. True) (Some (riskConfigToBinary (blank_risk_config\<lparr>rc_collected := sample_feed\<rparr>))) blank_risk_config =
      Some (Inr (), c1) \<and> rc_riskCount c1 = 3"
  using binary_roundtrip [of "blank_risk_config\<lparr>rc_collected := sample_feed\<rparr>" "\<lambda>_. True" blank_risk_config]
  by (simp add: sample_feed_def)

text \<open>No SHA-256 hash survives a restart. The start registers what the binary file holds, and its
  indicator field keeps 63 of the 64 characters of such a hash: after reading back and registering,
  no text of 64 characters matches the file table, whatever the feed.\<close>

theorem long_hash_never_matches:
  assumes "length (rc_collected c) < 2 ^ 64" and "reserve_ok (of_nat (length (rc_collected c)))"
    and "binaryToRiskConfig reserve_ok (Some (riskConfigToBinary c)) c0 = Some (r, c1)"
    and "register_risks pton6 (rc_collected c1) no_indicators = (Inr (), ri)" and "length h = 64"
  shows "\<not> isMatchFile h ri"
proof
  assume "isMatchFile h ri"
  then have "h \<in> of_types file_types (rc_collected c1)"
    using registered_tables [OF assms(4)] by (simp add: isMatchFile_def no_indicators_def)
  moreover have "rc_collected c1 = map cut_property (rc_collected c)"
    using config_roundtrip [of c reserve_ok c0] assms(1,2) assms(3) by auto
  ultimately obtain p where "h = rp_indicator (cut_property p)" by (auto simp: of_types_def)
  then show False using assms(5) by (simp add: cut_property_def)
qed

theorem long_hash_never_matches_witness:
  "\<exists>c1 ri. binaryToRiskConfig (\<lambda>_. True) (Some (riskConfigToBinary (blank_risk_config\<lparr>rc_collected :=
        [\<lparr>rp_id = 1, rp_indicator = replicate 64 CHR ''a'', rp_type = ''yara'', rp_created = [], rp_active = 1\<rparr>]\<rparr>))) blank_risk_config
      = Some (Inr (), c1) \<and>
    register_risks (\<lambda>_. None) (rc_collected c1) no_indicators = (Inr (), ri) \<and> \<not> isMatchFile (replicate 64 CHR ''a'') ri"
proof -
  let ?p = "\<lparr>rp_id = 1, rp_indicator = replicate 64 CHR ''a'', rp_type = ''yara'', rp_created = [], rp_active = 1\<rparr>"
  let ?c = "blank_risk_config\<lparr>rc_collected := [?p]\<rparr>"
  have small: "length (rc_collected ?c) < 2 ^ 64" by simp
  from config_roundtrip [OF small, of "\<lambda>_. True" blank_risk_config] obtain c1 where
    run: "binaryToRiskConfig (\<lambda>_. True) (Some (riskConfigToBinary ?c)) blank_risk_config = Some (Inr (), c1)"
      "rc_collected c1 = [cut_property ?p]" by auto
  have kind: "rp_type (cut_property ?p) = ''yara''" by (simp add: cut_property_def c_str_id NUL_def)
  have "getCategory ''yara'' = ''file''" by (simp add: category_file) code_simp
  then obtain ri where reg: "register_risks (\<lambda>_. None) (rc_collected c1) no_indicators = (Inr (), ri)"
    by (simp add: run(2) kind analysIndicator_def)
  from long_hash_never_matches [OF small _ run(1) reg] run(1) reg show ?thesis by auto
qed

end
