(* ===== verification/RiskSync.thy ===== *)
theory RiskSync
  imports RiskFile
begin

text \<open>
  The download of the threat feed (\<open>fetchOtxData\<close>, \<open>processOtxResponseAndCollect\<close>, \<open>performRiskSync\<close>,
  \<open>riskConfigToFile\<close> and \<open>fileToRiskConfig\<close> of \<open>src/src/user/config/RiskFileUpdater.cpp\<close>): the retry loop,
  the walk from page to page, when it ends and what it has collected.

  Curl and the JSON library are arguments. The n-th transfer of the run has the n-th reply. A loop that
  may run forever is a partial function: it has no value where it does not end.
\<close>

section \<open>Replies\<close>

record curl_reply =
  cr_ok :: bool
  cr_code :: int
  cr_body :: string

text \<open>What the JSON library delivers for a reply: the next address (\<open>Inl\<close> where \<open>get_string\<close> throws, the
  empty text where the field is missing or null), the elements of \<open>results\<close> if that is an array, for
  each of them the elements of \<open>indicators\<close> if that is one, and for each indicator its record, \<open>None\<close>
  where a field is missing and the reading throws.\<close>

record feed_page =
  pg_next :: "exn + string"
  pg_results :: "risk_property option list option list option"

record feed_env =
  transfer :: "nat \<Rightarrow> string \<Rightarrow> curl_reply"
  json_page :: "string \<Rightarrow> feed_page option"

definition MAX_RETRIES :: nat where [const_defs]: "MAX_RETRIES = 600"

text \<open>\<open>fetchOtxData\<close>, which starts each transfer with an empty buffer; \<open>n\<close> counts the transfers of the run.\<close>

function fetchOtxData :: "feed_env \<Rightarrow> string \<Rightarrow> nat \<Rightarrow> nat \<Rightarrow> string \<times> nat" where
  "fetchOtxData e url retryCount n =
     (if retryCount < MAX_RETRIES
      then (let r = transfer e n url
            in if cr_ok r \<and> cr_code r = 200 then (cr_body r, Suc n)
               else fetchOtxData e url (Suc retryCount) (Suc n))
      else ([], n))"
  by auto
termination by (relation "measure (\<lambda>(e, url, retryCount, n). MAX_RETRIES - retryCount)") auto

declare fetchOtxData.simps [simp del]

section \<open>Pages\<close>

text \<open>The two nested loops: records are kept as they come, also when a later one throws.\<close>

fun store_indicators :: "risk_property option list \<Rightarrow> risk_property list \<Rightarrow> (exn + unit) \<times> risk_property list" where
  "store_indicators [] col = (Inr (), col)"
| "store_indicators (None # xs) col = (Inl (runtime_error ''JSON field extraction failed''), col)"
| "store_indicators (Some p # xs) col = store_indicators xs (col @ [p])"

fun store_results :: "risk_property option list option list \<Rightarrow> risk_property list \<Rightarrow> (exn + unit) \<times> risk_property list" where
  "store_results [] col = (Inr (), col)"
| "store_results (None # items) col = store_results items col"
| "store_results (Some xs # items) col =
     (case store_indicators xs col of (Inl x, col) \<Rightarrow> (Inl x, col) | (Inr _, col) \<Rightarrow> store_results items col)"

definition processOtxResponseAndCollect ::
  "feed_env \<Rightarrow> string \<Rightarrow> risk_property list \<Rightarrow> (exn + string option) \<times> risk_property list" where
  "processOtxResponseAndCollect e jsonData col =
     (case json_page e jsonData of
        None \<Rightarrow> (Inr None, col)
      | Some pg \<Rightarrow>
          (case pg_next pg of
             Inl x \<Rightarrow> (Inl x, col)
           | Inr next_url \<Rightarrow>
               (case pg_results pg of
                  None \<Rightarrow> (Inr (Some next_url), col)
                | Some items \<Rightarrow>
                    (case store_results items col of
                       (Inl x, col) \<Rightarrow> (Inl x, col)
                     | (Inr _, col) \<Rightarrow> (Inr (Some next_url), col)))))"

section \<open>Synchronisation\<close>

record sync_state =
  sy_currentUrl :: string
  sy_syncNextUrl :: string
  sy_collected :: "risk_property list"
  sy_transfers :: nat

text \<open>The body of the loop of \<open>performRiskSync\<close>. An empty reply goes straight to the test of the loop; a reply
  that cannot be processed goes back to the last checkpoint.\<close>

definition sync_body :: "feed_env \<Rightarrow> sync_state \<Rightarrow> sync_state" where
  "sync_body e st =
     (let (rawData, n) = fetchOtxData e (sy_currentUrl st) 0 (sy_transfers st); st = st\<lparr>sy_transfers := n\<rparr>
      in if rawData = [] then st
         else (case processOtxResponseAndCollect e rawData (sy_collected st) of
                 (Inr (Some nextUrl), col) \<Rightarrow>
                   st\<lparr>sy_collected := col, sy_currentUrl := nextUrl,
                     sy_syncNextUrl := (if nextUrl \<noteq> [] then nextUrl else sy_syncNextUrl st)\<rparr>
               | (_, col) \<Rightarrow> st\<lparr>sy_collected := col, sy_currentUrl := sy_syncNextUrl st\<rparr>))"

partial_function (option) sync_loop :: "feed_env \<Rightarrow> sync_state \<Rightarrow> sync_state option" where
  "sync_loop e st = (let st = sync_body e st in if sy_currentUrl st \<noteq> [] then sync_loop e st else Some st)"

definition performRiskSync :: "feed_env \<Rightarrow> string \<Rightarrow> nat \<Rightarrow> sync_state option" where
  "performRiskSync e remote_source_url n =
     sync_loop e \<lparr>sy_currentUrl = remote_source_url, sy_syncNextUrl = remote_source_url, sy_collected = [], sy_transfers = n\<rparr>"

section \<open>The file in JSON\<close>

text \<open>The document as the JSON library writes and reads it: the elements of \<open>indicators\<close> if that is an array
  (an incomplete one is \<open>None\<close>), and the two texts if they are texts. \<open>riskConfigToFile\<close> writes it to a
  temporary file, if that can be opened, and renames that over the old one.\<close>

record risk_document =
  rd_indicators :: "risk_property option list option"
  rd_syncNextUrl :: "string option"
  rd_updateTime :: "string option"

definition riskConfigToFile :: "bool \<Rightarrow> string \<Rightarrow> sync_state \<Rightarrow> risk_document option \<Rightarrow> risk_document option" where
  "riskConfigToFile tmp_opened local_time st file =
     (if sy_collected st = [] then file
      else if tmp_opened
      then Some \<lparr>rd_indicators = Some (map Some (sy_collected st)), rd_syncNextUrl = Some (sy_syncNextUrl st), rd_updateTime = Some local_time\<rparr>
      else file)"

text \<open>\<open>fileToRiskConfig\<close> stores the indicators of the file behind the ones collected before, and takes over
  the whole collection. No file stands for one that is missing or is no JSON.\<close>

definition fileToRiskConfig ::
  "risk_document option \<Rightarrow> risk_property list \<Rightarrow> risk_config \<Rightarrow> (exn + unit) \<times> risk_property list \<times> risk_config" where
  "fileToRiskConfig file collected c =
     (case file of
        None \<Rightarrow> (Inr (), collected, c)
      | Some d \<Rightarrow>
          (let texts = (\<lambda>c. c\<lparr>rc_syncNextUrl := (case rd_syncNextUrl d of None \<Rightarrow> rc_syncNextUrl c | Some t \<Rightarrow> t),
               rc_updateTime := (case rd_updateTime d of None \<Rightarrow> rc_updateTime c | Some t \<Rightarrow> t)\<rparr>)
           in case rd_indicators d of
                None \<Rightarrow> (Inr (), collected, texts c)
              | Some xs \<Rightarrow>
                  (case store_indicators xs collected of
                     (Inl x, collected) \<Rightarrow> (Inl x, collected, c)
                   | (Inr _, collected) \<Rightarrow> (Inr (), collected, texts (c\<lparr>rc_collected := collected\<rparr>)))))"

lemma store_complete: "store_indicators (map Some ps) col = (Inr (), col @ ps)"
  by (induction ps arbitrary: col) auto

lemma reload_appends:
  "fileToRiskConfig (riskConfigToFile True t st file) col c =
     (if sy_collected st = [] then fileToRiskConfig file col c
      else (Inr (), col @ sy_collected st, c\<lparr>rc_collected := col @ sy_collected st, rc_syncNextUrl := sy_syncNextUrl st, rc_updateTime := t\<rparr>))"
  by (simp add: riskConfigToFile_def fileToRiskConfig_def store_complete Let_def)

section \<open>Fetching\<close>

definition good :: "curl_reply \<Rightarrow> bool" where
  "good r \<longleftrightarrow> cr_ok r \<and> cr_code r = 200"

lemma fetch_good:
  assumes "good (transfer e (n + k) url)" and "k < MAX_RETRIES - r" and "\<forall>i<k. \<not> good (transfer e (n + i) url)"
  shows "fetchOtxData e url r n = (cr_body (transfer e (n + k) url), Suc (n + k))"
  using assms
proof (induction k arbitrary: n r)
  case 0
  then show ?case by (subst fetchOtxData.simps) (simp add: good_def)
next
  case (Suc k)
  have "\<not> good (transfer e n url)" using Suc.prems(3) by (metis add.right_neutral zero_less_Suc)
  moreover have "\<forall>i<k. \<not> good (transfer e (Suc n + i) url)" using Suc.prems(3) by auto
  ultimately show ?case
    using Suc.IH [of "Suc n" "Suc r"] Suc.prems by (subst fetchOtxData.simps) (auto simp: good_def)
qed

lemma fetch_cases:
  "fst (fetchOtxData e url r n) = [] \<or> (\<exists>k. good (transfer e k url) \<and> fst (fetchOtxData e url r n) = cr_body (transfer e k url))"
proof (induction e url r n rule: fetchOtxData.induct)
  case (1 e url r n)
  then show ?case unfolding fetchOtxData.simps [of e url r n] by (auto simp: good_def Let_def)
qed

text \<open>The number of transfers of one fetch is bounded.\<close>

lemma fetch_bounded: "snd (fetchOtxData e url r n) \<le> n + (MAX_RETRIES - r)"
proof (induction e url r n rule: fetchOtxData.induct)
  case (1 e url r n)
  then show ?case by (subst fetchOtxData.simps) (auto simp: Let_def)
qed

section \<open>When the synchronisation ends\<close>

text \<open>A reply with which the loop makes no progress: it is empty, is no JSON, its next address is no text, or one
  of its records is incomplete.\<close>

definition complete_item :: "risk_property option list option \<Rightarrow> bool" where
  "complete_item item \<longleftrightarrow> (case item of None \<Rightarrow> True | Some xs \<Rightarrow> None \<notin> set xs)"

definition usable :: "feed_env \<Rightarrow> string \<Rightarrow> bool" where
  "usable e body \<longleftrightarrow> body \<noteq> [] \<and>
     (case json_page e body of
        None \<Rightarrow> False
      | Some pg \<Rightarrow> (case pg_next pg of Inl _ \<Rightarrow> False
           | Inr _ \<Rightarrow> (case pg_results pg of None \<Rightarrow> True | Some items \<Rightarrow> list_all complete_item items)))"

lemma store_indicators_result:
  "store_indicators xs col = (Inr (), col') \<longleftrightarrow> None \<notin> set xs \<and> col' = col @ map the xs"
  by (induction xs col rule: store_indicators.induct) auto

lemma store_results_result:
  "store_results items col = (Inr (), col') \<longleftrightarrow>
     list_all complete_item items \<and> col' = col @ concat (map (\<lambda>i. case i of None \<Rightarrow> [] | Some xs \<Rightarrow> map the xs) items)"
proof (induction items col rule: store_results.induct)
  case (3 xs items col)
  show ?case
  proof (cases "None \<in> set xs")
    case True
    then have "\<nexists>c. store_indicators xs col = (Inr (), c)" by (simp add: store_indicators_result)
    then obtain x c where "store_indicators xs col = (Inl x, c)" by (metis old.sum.exhaust old.unit.exhaust surj_pair)
    then show ?thesis using True by (simp add: complete_item_def)
  next
    case False
    then have "store_indicators xs col = (Inr (), col @ map the xs)" by (simp add: store_indicators_result)
    then show ?thesis using 3 False by (simp add: complete_item_def)
  qed
qed (auto simp: complete_item_def)

lemma process_unusable:
  assumes "\<not> usable e body" and "body \<noteq> []"
  shows "fst (processOtxResponseAndCollect e body col) \<noteq> Inr (Some u)"
proof -
  have "store_results items col \<noteq> (Inr (), c)" if "\<not> list_all complete_item items" for items c
    using that by (simp add: store_results_result)
  then show ?thesis
    using assms by (auto simp: usable_def processOtxResponseAndCollect_def split: option.splits sum.splits prod.splits)
qed

lemma stuck_body:
  assumes "\<forall>k. good (transfer e k url) \<longrightarrow> \<not> usable e (cr_body (transfer e k url))"
    and "sy_currentUrl st = url" and "sy_syncNextUrl st = url"
  shows "sy_currentUrl (sync_body e st) = url \<and> sy_syncNextUrl (sync_body e st) = url"
proof -
  obtain raw n where fetch: "fetchOtxData e url 0 (sy_transfers st) = (raw, n)" by (cases "fetchOtxData e url 0 (sy_transfers st)")
  then have "raw = [] \<or> \<not> usable e raw" using fetch_cases [of e url 0 "sy_transfers st"] assms(1) by auto
  then have "raw = [] \<or> (\<forall>u. fst (processOtxResponseAndCollect e raw (sy_collected st)) \<noteq> Inr (Some u))"
    using process_unusable by blast
  then show ?thesis
    using assms(2,3) by (auto simp: sync_body_def fetch Let_def split: prod.splits sum.splits option.splits)
qed

lemma loop_stuck:
  assumes "\<forall>k. good (transfer e k url) \<longrightarrow> \<not> usable e (cr_body (transfer e k url))" and "url \<noteq> []"
    and "sync_loop e st = Some st'" and "sy_currentUrl st = url" and "sy_syncNextUrl st = url"
  shows False
proof -
  have "e' = e \<longrightarrow> sy_currentUrl s = url \<longrightarrow> sy_syncNextUrl s = url \<longrightarrow> False" if "sync_loop e' s = Some s'" for e' s s'
  proof (rule sync_loop.raw_induct [where P = "\<lambda>e' s s'. e' = e \<longrightarrow> sy_currentUrl s = url \<longrightarrow> sy_syncNextUrl s = url \<longrightarrow> False", OF _ that])
    fix f e' s s'
    assume IH: "\<And>e' s s'. f e' s = Some s' \<Longrightarrow> e' = e \<longrightarrow> sy_currentUrl s = url \<longrightarrow> sy_syncNextUrl s = url \<longrightarrow> False"
      and run: "(let st = sync_body e' s in if sy_currentUrl st \<noteq> [] then f e' st else Some st) = Some s'"
    show "e' = e \<longrightarrow> sy_currentUrl s = url \<longrightarrow> sy_syncNextUrl s = url \<longrightarrow> False"
      using IH run stuck_body [OF assms(1)] assms(2) by (auto simp: Let_def split: if_splits)
  qed
  then show False using assms(3-5) by blast
qed

text \<open>The records of a page, if all of them are complete: those of every element of \<open>results\<close> that has an array of
  indicators, in their order.\<close>

definition page_records :: "feed_page \<Rightarrow> risk_property list option" where
  "page_records pg =
     (case pg_results pg of
        None \<Rightarrow> Some []
      | Some items \<Rightarrow>
          if None \<in> (\<Union>item\<in>set items. case item of None \<Rightarrow> {} | Some xs \<Rightarrow> set xs) then None
          else Some [the x. Some xs \<leftarrow> items, x \<leftarrow> xs])"

text \<open>The pages of a feed: each address is answered within the retries of a fetch, and every good reply leads
  to the next address (the last one to none) and holds complete records only, in any number of elements.\<close>

definition serves :: "feed_env \<Rightarrow> string \<Rightarrow> string \<Rightarrow> risk_property list \<Rightarrow> bool" where
  "serves e url next_url rs \<longleftrightarrow> url \<noteq> [] \<and> (\<forall>n. \<exists>k<MAX_RETRIES. good (transfer e (n + k) url)) \<and>
     (\<forall>n. good (transfer e n url) \<longrightarrow> cr_body (transfer e n url) \<noteq> [] \<and>
        (\<exists>pg. json_page e (cr_body (transfer e n url)) = Some pg \<and> pg_next pg = Inr next_url \<and> page_records pg = Some rs))"

lemma store_page:
  assumes "page_records pg = Some rs" and "pg_next pg = Inr next_url" and "json_page e body = Some pg"
  shows "processOtxResponseAndCollect e body col = (Inr (Some next_url), col @ rs)"
proof (cases "pg_results pg")
  case None
  then show ?thesis using assms by (simp add: page_records_def processOtxResponseAndCollect_def)
next
  case (Some items)
  have complete: "\<forall>item\<in>set items. case item of None \<Rightarrow> True | Some xs \<Rightarrow> None \<notin> set xs"
    and rs: "rs = [the x. Some xs \<leftarrow> items, x \<leftarrow> xs]"
    using assms(1) Some by (auto simp: page_records_def split: if_splits option.splits)
  have "concat (map (\<lambda>i. case i of None \<Rightarrow> [] | Some xs \<Rightarrow> map the xs) items) = [the x. Some xs \<leftarrow> items, x \<leftarrow> xs]"
    by (rule arg_cong [where f = concat], rule map_cong) (auto split: option.split)
  then have "store_results items col = (Inr (), col @ rs)"
    using complete unfolding store_results_result rs by (auto simp: list_all_iff complete_item_def)
  then show ?thesis using assms(2,3) Some by (simp add: processOtxResponseAndCollect_def)
qed

fun feed_served :: "feed_env \<Rightarrow> string list \<Rightarrow> risk_property list list \<Rightarrow> bool" where
  "feed_served e [u] [rs] \<longleftrightarrow> serves e u [] rs"
| "feed_served e (u # v # us) (rs # rss) \<longleftrightarrow> serves e u v rs \<and> feed_served e (v # us) rss"
| "feed_served e _ _ \<longleftrightarrow> False"

lemma served_body:
  assumes "serves e url next_url rs" and "sy_currentUrl st = url"
  shows "\<exists>n. n \<le> sy_transfers st + MAX_RETRIES \<and> sync_body e st = st\<lparr>sy_transfers := n, sy_collected := sy_collected st @ rs, sy_currentUrl := next_url,
    sy_syncNextUrl := (if next_url \<noteq> [] then next_url else sy_syncNextUrl st)\<rparr>"
proof -
  let ?n = "sy_transfers st" let ?P = "\<lambda>k. good (transfer e (?n + k) url)" let ?k = "LEAST k. ?P k"
  obtain k where k: "k < MAX_RETRIES" "?P k" using assms(1) unfolding serves_def by blast
  have first: "?P ?k" "?k \<le> k" "\<forall>i<?k. \<not> ?P i"
    using LeastI [of ?P, OF k(2)] Least_le [of ?P, OF k(2)] not_less_Least [of _ ?P] by auto
  have fetch: "fetchOtxData e url 0 ?n = (cr_body (transfer e (?n + ?k) url), Suc (?n + ?k))"
    using fetch_good [of e ?n ?k url 0] first k(1) by simp
  obtain pg where page: "cr_body (transfer e (?n + ?k) url) \<noteq> []"
      "json_page e (cr_body (transfer e (?n + ?k) url)) = Some pg" "pg_next pg = Inr next_url" "page_records pg = Some rs"
    using assms(1) first(1) unfolding serves_def by blast
  have body: "sync_body e st = st\<lparr>sy_transfers := Suc (?n + ?k), sy_collected := sy_collected st @ rs, sy_currentUrl := next_url,
      sy_syncNextUrl := (if next_url \<noteq> [] then next_url else sy_syncNextUrl st)\<rparr>"
    using page(1) assms(2) by (simp add: sync_body_def fetch store_page [OF page(4,3,2)])
  show ?thesis
    by (rule exI [of _ "Suc (?n + ?k)"]) (use body first(2) k(1) in simp)
qed

lemma loop_complete:
  "feed_served e us rss \<Longrightarrow> sy_currentUrl st = hd us \<Longrightarrow> sy_syncNextUrl st = hd us \<Longrightarrow>
   \<exists>st'. sync_loop e st = Some st' \<and> sy_collected st' = sy_collected st @ concat rss \<and> sy_syncNextUrl st' = last us \<and>
     sy_transfers st' \<le> sy_transfers st + MAX_RETRIES * length us"
proof (induction e us rss arbitrary: st rule: feed_served.induct)
  case (1 e u rs)
  then obtain n where n: "n \<le> sy_transfers st + MAX_RETRIES" "sync_body e st = st\<lparr>sy_transfers := n, sy_collected := sy_collected st @ rs,
      sy_currentUrl := [], sy_syncNextUrl := sy_syncNextUrl st\<rparr>"
    using served_body [of e u "[]" rs st] by auto
  then show ?case using 1 by (subst sync_loop.simps) simp
next
  case (2 e u v us rs rss)
  then have v: "v \<noteq> []" by (cases us; cases rss) (auto simp: serves_def elim: feed_served.elims)
  from 2 obtain n where n: "n \<le> sy_transfers st + MAX_RETRIES" "sync_body e st = st\<lparr>sy_transfers := n, sy_collected := sy_collected st @ rs,
      sy_currentUrl := v, sy_syncNextUrl := v\<rparr>"
    using served_body [of e u v rs st] v by auto
  obtain st' where st': "sync_loop e (sync_body e st) = Some st'" "sy_collected st' = sy_collected (sync_body e st) @ concat rss"
      "sy_syncNextUrl st' = last (v # us)" "sy_transfers st' \<le> sy_transfers (sync_body e st) + MAX_RETRIES * length (v # us)"
    using 2(1) [of "sync_body e st"] 2(2) n by auto
  have "sync_loop e st = Some st'" using st'(1) n(2) v by (subst sync_loop.simps) simp
  then show ?case using st' n by simp
qed auto

section \<open>Properties\<close>

text \<open>C21: A feed that can be fetched is collected completely. When each page of a chain of pages is delivered within
  the 600 attempts of a fetch (transfers may fail before), with complete records in any number of elements
  of \<open>results\<close>, the synchronisation returns after at most
  600 transfers for each page, with the records of all elements of all pages in their order, and with the last page
  as the checkpoint.\<close>

theorem sync_complete:
  assumes "feed_served e us rss"
  shows "\<exists>st. performRiskSync e (hd us) n = Some st \<and> sy_collected st = concat rss \<and> sy_syncNextUrl st = last us \<and>
    sy_transfers st \<le> n + MAX_RETRIES * length us"
  using loop_complete [OF assms, of "\<lparr>sy_currentUrl = hd us, sy_syncNextUrl = hd us, sy_collected = [], sy_transfers = n\<rparr>"]
  by (simp add: performRiskSync_def)

text \<open>A server of two pages on which every second transfer fails. The first page has its records in two elements, with one
  between them that has none.\<close>

definition sample_server :: feed_env where
  "sample_server = \<lparr>transfer = (\<lambda>n url. if odd n then \<lparr>cr_ok = True, cr_code = 200, cr_body = url\<rparr> else \<lparr>cr_ok = True, cr_code = 503, cr_body = url\<rparr>),
     json_page = (\<lambda>body. if body = ''p1''
       then Some \<lparr>pg_next = Inr ''p2'', pg_results = Some [Some [Some (hd sample_feed)], None, Some (map Some (tl sample_feed))]\<rparr>
       else Some \<lparr>pg_next = Inr [], pg_results = Some [Some (map Some (tl sample_feed))]\<rparr>)\<rparr>"

lemma sample_server_feed: "feed_served sample_server [''p1'', ''p2''] [sample_feed, tl sample_feed]"
proof -
  have good: "good (transfer sample_server n url) \<longleftrightarrow> odd n" and body: "cr_body (transfer sample_server n url) = url" for n url
    by (simp_all add: sample_server_def good_def)
  have "\<exists>k<MAX_RETRIES. good (transfer sample_server (n + k) url)" for n url
    by (rule exI [of _ "if odd n then 0 else 1"]) (auto simp: good MAX_RETRIES_def)
  moreover have "json_page sample_server ''p1'' =
        Some \<lparr>pg_next = Inr ''p2'', pg_results = Some [Some [Some (hd sample_feed)], None, Some (map Some (tl sample_feed))]\<rparr>"
      "json_page sample_server ''p2'' = Some \<lparr>pg_next = Inr [], pg_results = Some [Some (map Some (tl sample_feed))]\<rparr>"
    by (simp_all add: sample_server_def)
  moreover have "page_records \<lparr>pg_next = Inr ''p2'', pg_results = Some [Some [Some (hd sample_feed)], None, Some (map Some (tl sample_feed))]\<rparr> =
        Some sample_feed"
      "page_records \<lparr>pg_next = Inr [], pg_results = Some [Some (map Some (tl sample_feed))]\<rparr> = Some (tl sample_feed)"
    by (simp_all add: page_records_def sample_feed_def)
  ultimately show ?thesis by (simp add: serves_def body)
qed

theorem sync_complete_witness:
  "\<exists>st. performRiskSync sample_server ''p1'' 0 = Some st \<and> length (sy_collected st) = 5"
  using sync_complete [OF sample_server_feed, of 0] by (auto simp: sample_feed_def)

text \<open>C22: A feed that cannot be fetched holds the thread forever. When every good reply for the configured address
  is empty, is no JSON or has one incomplete record, or when there is no good reply at all, the
  synchronisation does not return: the 600 attempts bound one fetch, not the loop around it.\<close>

theorem sync_never_ends:
  assumes "\<forall>k. good (transfer e k url) \<longrightarrow> \<not> usable e (cr_body (transfer e k url))" and "url \<noteq> []"
  shows "performRiskSync e url n = None"
proof (cases "performRiskSync e url n")
  case (Some st)
  with loop_stuck [OF assms, of "\<lparr>sy_currentUrl = url, sy_syncNextUrl = url, sy_collected = [], sy_transfers = n\<rparr>" st]
  show ?thesis by (simp add: performRiskSync_def)
qed

theorem sync_never_ends_witness:
  "performRiskSync (sample_server\<lparr>transfer := \<lambda>n url. \<lparr>cr_ok = False, cr_code = 0, cr_body = []\<rparr>\<rparr>) ''p1'' 0 = None"
  by (rule sync_never_ends) (simp_all add: good_def)

end
