(* ===== verification/Metrics.thy ===== *)
theory Metrics
  imports RiskFile
begin

text \<open>
  The counters of the user-space program and their way to the exporter: the tables of
  \<open>src/src/user/model/RiskMetricInfos.hpp\<close> and \<open>KsmFEMetricInfo.hpp\<close>, the messages of \<open>Common.h\<close> and their
  sending over the socket (\<open>src/src/user/servie/ExporterService.hpp\<close>).

  The concurrent hash map is a partial function; an iteration over it delivers its entries in an
  unspecified order and is an argument. Every reading of the clock is an argument.
\<close>

section \<open>Tables\<close>

record traffic_key =
  tk_src_ip :: u32
  tk_dst_ip :: u32
  tk_src_port :: u16
  tk_dst_port :: u16
  tk_domain :: string

record file_key =
  fe_pid :: u32
  fe_comm :: string
  fe_path :: string
  fe_is_write :: u32

record metric_data =
  md_count :: u64
  md_last_updated :: int
  md_isRisk :: bool

text \<open>Only printable characters of ASCII are kept.\<close>

definition visible :: "char \<Rightarrow> bool" where
  [eval_defs]: "visible c \<longleftrightarrow> (let n = of_char c :: nat in \<not> (n < 32 \<or> n > 126))"

definition clean_text :: "string \<Rightarrow> string" where
  [eval_defs]: "clean_text s = filter visible s"

definition safe_key :: "traffic_key \<Rightarrow> traffic_key" where
  "safe_key k = k\<lparr>tk_domain := clean_text (tk_domain k)\<rparr>"

definition safe_file_key :: "u32 \<Rightarrow> string \<Rightarrow> string \<Rightarrow> u32 \<Rightarrow> file_key" where
  "safe_file_key pid comm path is_write =
     \<lparr>fe_pid = pid, fe_comm = clean_text comm, fe_path = clean_text path, fe_is_write = is_write\<rparr>"

text \<open>\<open>MetricData::touch\<close>, and the insertion that both tables share: a new entry counts one, an old one is
  counted up.\<close>

definition touch :: "int \<Rightarrow> bool \<Rightarrow> metric_data \<Rightarrow> metric_data" where
  "touch now risk d = d\<lparr>md_last_updated := now, md_isRisk := risk\<rparr>"

definition hit :: "int \<Rightarrow> 'k \<Rightarrow> bool \<Rightarrow> ('k \<rightharpoonup> metric_data) \<Rightarrow> ('k \<rightharpoonup> metric_data)" where
  "hit now k risk m =
     (let d = (case m k of
                 None \<Rightarrow> \<lparr>md_count = 1, md_last_updated = now, md_isRisk = False\<rparr>
               | Some d \<Rightarrow> d\<lparr>md_count := md_count d + 1\<rparr>)
      in m(k \<mapsto> touch now risk d))"

definition update_metrics :: "int \<Rightarrow> traffic_key \<Rightarrow> bool \<Rightarrow> (traffic_key \<rightharpoonup> metric_data) \<Rightarrow> (traffic_key \<rightharpoonup> metric_data)" where
  "update_metrics now key risk m = hit now (safe_key key) risk m"

definition update_file_metrics ::
  "int \<Rightarrow> u32 \<Rightarrow> string \<Rightarrow> string \<Rightarrow> u32 \<Rightarrow> bool \<Rightarrow> (file_key \<rightharpoonup> metric_data) \<Rightarrow> (file_key \<rightharpoonup> metric_data)" where
  "update_file_metrics now pid comm path is_write risk m = hit now (safe_file_key pid comm path is_write) risk m"

definition clean_old_metrics :: "int \<Rightarrow> ('k \<rightharpoonup> metric_data) \<Rightarrow> ('k \<rightharpoonup> metric_data)" where
  "clean_old_metrics now m =
     (\<lambda>k. case m k of
            None \<Rightarrow> None
          | Some d \<Rightarrow> if md_last_updated d < now - 7 * 24 * 3600 then None else Some d)"

section \<open>What the tables hold\<close>

text \<open>A reference for a table: the hits of a key, in the order of their arrival.\<close>

definition hits_of :: "'k \<Rightarrow> (int \<times> 'k \<times> bool) list \<Rightarrow> (int \<times> 'k \<times> bool) list" where
  "hits_of k es = filter (\<lambda>(t, k', r). k' = k) es"

definition tally :: "(int \<times> 'k \<times> bool) list \<Rightarrow> metric_data option" where
  "tally hs = (if hs = [] then None
     else Some \<lparr>md_count = of_nat (length hs), md_last_updated = fst (last hs), md_isRisk = snd (snd (last hs))\<rparr>)"

lemma hits_snoc: "hits_of k (es @ [e]) = hits_of k es @ (if fst (snd e) = k then [e] else [])"
  by (auto simp: hits_of_def)

lemma table_tally: "fold (\<lambda>(t, k, r). hit t k r) es Map.empty k = tally (hits_of k es)"
proof (induction es rule: rev_induct)
  case Nil
  then show ?case by (simp add: tally_def hits_of_def)
next
  case (snoc e es)
  obtain t k' r where e: "e = (t, k', r)" by (cases e)
  show ?case
    using snoc by (auto simp: e hits_snoc hit_def touch_def tally_def Let_def split: option.splits if_splits)
qed

text \<open>The traffic table counts exactly. After any sequence of updates from the empty table, an entry exists
  for precisely the keys that were hit (after the cleaning of the domain); its counter is the number
  of hits (modulo \<open>2^64\<close>), its time the time of the last hit, and its risk flag that of the last hit
  alone: one harmless packet clears the flag of a connection that was recognised as risky.\<close>

theorem traffic_table_exact:
  "fold (\<lambda>(t, k, r). update_metrics t k r) es Map.empty key = tally (hits_of key (map (\<lambda>(t, k, r). (t, safe_key k, r)) es))"
proof -
  have "fold (\<lambda>(t, k, r). update_metrics t k r) es m = fold (\<lambda>(t, k, r). hit t k r) (map (\<lambda>(t, k, r). (t, safe_key k, r)) es) m" for m
    by (induction es arbitrary: m) (auto simp: update_metrics_def)
  then show ?thesis by (simp add: table_tally)
qed

text \<open>Cleaning keeps the entries of the last seven days as they are.\<close>

lemma clean_keeps: "clean_old_metrics now m k = Some d \<longleftrightarrow> m k = Some d \<and> now - 604800 \<le> md_last_updated d"
  by (auto simp: clean_old_metrics_def split: option.splits)

section \<open>Messages\<close>

text \<open>\<open>ip_to_str\<close>: an address in network byte order as \<open>inet_ntop\<close> writes it.\<close>

definition ip_to_str :: "u32 \<Rightarrow> string" where
  "ip_to_str ip = dotted (unat (ip AND 0xFF)) (unat (drop_bit 8 ip AND 0xFF)) (unat (drop_bit 16 ip AND 0xFF)) (unat (drop_bit 24 ip))"

record trace_body =
  tb_label :: string
  tb_domain :: string
  tb_srcIp :: string
  tb_dstIp :: string
  tb_count :: u64

definition trace_size :: nat where "trace_size = 104"

text \<open>The bytes of \<open>CommMsgHeader\<close>, of \<open>BPFTraceBody\<close> and of \<open>KsmFEExportBody\<close>.\<close>

definition message_header :: "nat \<Rightarrow> nat \<Rightarrow> string" where
  "message_header type count = le_chars 4 type @ le_chars 4 (unat (of_nat count :: u32))"

definition trace_bytes :: "traffic_key \<times> metric_data \<Rightarrow> string" where
  "trace_bytes kd =
     char_array 32 (tk_domain (fst kd)) @ char_array 32 (tk_domain (fst kd)) @ char_array 16 (ip_to_str (tk_src_ip (fst kd))) @
     char_array 16 (ip_to_str (tk_dst_ip (fst kd))) @ le_chars 8 (unat (md_count (snd kd)))"

text \<open>\<open>memcpy\<close> of at most \<open>n - 1\<close> characters into a zeroed array of \<open>n\<close>.\<close>

definition copy_array :: "nat \<Rightarrow> string \<Rightarrow> string" where
  "copy_array n s = (let t = take (n - 1) s in t @ replicate (n - length t) NUL)"

definition ksm_bytes :: "file_key \<times> metric_data \<Rightarrow> string" where
  "ksm_bytes kd =
     le_chars 4 (unat (fe_pid (fst kd))) @ copy_array 16 (fe_comm (fst kd)) @ copy_array 256 (fe_path (fst kd)) @
     le_chars 4 (unat (fe_is_write (fst kd))) @ le_chars 8 (unat (md_count (snd kd)))"

text \<open>One call of \<open>send\<close>: the number of bytes that the socket has room for (it takes no more than it is offered), an
  interruption or an error.\<close>

datatype send_reply = Sent nat | Interrupted | Send_failed

text \<open>\<open>send_all\<close> with the readings of \<open>running\<close> and the replies it finds; the result is whether everything was
  sent, how much was sent, and the replies left. While replies are missing the loop has not ended.\<close>

function send_all :: "(bool \<times> send_reply) list \<Rightarrow> nat \<Rightarrow> nat \<Rightarrow> (bool \<times> nat \<times> (bool \<times> send_reply) list) option" where
  "send_all rs len sent =
     (if sent < len
      then (case rs of
              [] \<Rightarrow> None
            | (running, r) # rs \<Rightarrow>
                if running
                then (case r of
                        Sent n \<Rightarrow> if 0 < n then send_all rs len (sent + min n (len - sent)) else Some (False, sent, rs)
                      | Interrupted \<Rightarrow> send_all rs len sent
                      | Send_failed \<Rightarrow> Some (False, sent, rs))
                else Some (sent = len, sent, rs))
      else Some (sent = len, sent, rs))"
  by auto
termination by (relation "measure (\<lambda>(rs, len, sent). length rs)") auto

declare send_all.simps [simp del]

text \<open>The buffers of one message, one after the other, until one of them is not sent completely. The stream
  is what the peer has been given so far.\<close>

fun send_buffers :: "(bool \<times> send_reply) list \<Rightarrow> string list \<Rightarrow> string \<Rightarrow> (bool \<times> string \<times> (bool \<times> send_reply) list) option" where
  "send_buffers rs [] stream = Some (True, stream, rs)"
| "send_buffers rs (b # bs) stream =
     (case send_all rs (length b) 0 of
        None \<Rightarrow> None
      | Some (ok, sent, rs) \<Rightarrow>
          if ok then send_buffers rs bs (stream @ take sent b) else Some (False, stream @ take sent b, rs))"

definition send_bpftrace ::
  "(bool \<times> send_reply) list \<Rightarrow> (traffic_key \<times> metric_data) list \<Rightarrow> string \<Rightarrow> (bool \<times> string \<times> (bool \<times> send_reply) list) option" where
  "send_bpftrace rs entries stream =
     (let bodies = map trace_bytes entries in send_buffers rs (message_header 1 (length bodies) # bodies) stream)"

definition send_ksm_events ::
  "(bool \<times> send_reply) list \<Rightarrow> (file_key \<times> metric_data) list \<Rightarrow> string \<Rightarrow> (bool \<times> string \<times> (bool \<times> send_reply) list) option" where
  "send_ksm_events rs entries stream =
     (let bodies = map ksm_bytes entries in send_buffers rs (message_header 2 (length bodies) # bodies) stream)"

section \<open>The stream\<close>

lemma send_all_result:
  "send_all rs len sent = Some (ok, n, rs') \<Longrightarrow> sent \<le> len \<Longrightarrow> sent \<le> n \<and> n \<le> len \<and> (ok \<longleftrightarrow> n = len)"
proof (induction rs len sent rule: send_all.induct)
  case (1 rs len sent)
  show ?case
  proof (cases "sent < len \<and> rs \<noteq> []")
    case True
    then obtain running r rest where rs: "rs = (running, r) # rest" by (cases rs) auto
    from True 1(3) have run: "(if running then (case r of
          Sent n \<Rightarrow> if 0 < n then send_all rest len (sent + min n (len - sent)) else Some (False, sent, rest)
        | Interrupted \<Rightarrow> send_all rest len sent | Send_failed \<Rightarrow> Some (False, sent, rest)) else Some (sent = len, sent, rest)) = Some (ok, n, rs')"
      by (subst (asm) send_all.simps) (simp add: rs)
    note IH = 1(1)[OF conjunct1 [OF True] rs refl] 1(2)[OF conjunct1 [OF True] rs refl]
    show ?thesis
    proof (cases r)
      case (Sent k)
      then show ?thesis using run True IH(1) by (fastforce split: if_splits)
    next
      case Interrupted
      then show ?thesis using run True IH(2) by (fastforce split: if_splits)
    next
      case Send_failed
      then show ?thesis using run True by (auto split: if_splits)
    qed
  next
    case False
    then show ?thesis using 1(3,4) send_all.simps [of rs len sent] by (auto split: list.splits if_splits)
  qed
qed

lemma buffers_sent:
  "send_buffers rs bs stream = Some (ok, out, rs') \<Longrightarrow>
   \<exists>k\<le>length (concat bs). out = stream @ take k (concat bs) \<and> (ok \<longleftrightarrow> k = length (concat bs))"
proof (induction rs bs stream rule: send_buffers.induct)
  case (2 rs b bs stream)
  obtain ok1 sent rs1 where one: "send_all rs (length b) 0 = Some (ok1, sent, rs1)"
    using 2(2) by (auto split: option.splits)
  have sent: "sent \<le> length b" "ok1 \<longleftrightarrow> sent = length b" using send_all_result [OF one] by auto
  show ?case
  proof (cases ok1)
    case True
    then obtain k where "k \<le> length (concat bs)" "out = (stream @ take sent b) @ take k (concat bs)" "ok \<longleftrightarrow> k = length (concat bs)"
      using 2(1) [OF one refl refl] 2(2) one by auto
    then show ?thesis using True sent by (intro exI [of _ "length b + k"]) auto
  next
    case False
    then show ?thesis using 2(2) one sent by (intro exI [of _ sent]) auto
  qed
qed simp

section \<open>Addresses as text\<close>

lemma length_message_header [simp]: "length (message_header a b) = 8"
  by (simp add: message_header_def)

lemma length_show_byte: "n < 1000 \<Longrightarrow> length (show_nat n) \<le> 3"
proof -
  assume "n < 1000"
  then have "n div 10 div 10 < 10" by simp
  then show ?thesis
    by (subst show_nat.simps, subst show_nat.simps, subst show_nat.simps) auto
qed

lemma byte_less: "unat (w AND 0xFF) < 256" for w :: u32
proof -
  have "w AND 0xFF \<le> 0xFF" by (rule word_and_le1)
  then show ?thesis by (simp add: word_le_nat_alt)
qed

lemma top_byte_less: "unat (drop_bit 24 w) < 256" for w :: u32
  using unsigned_less [where 'a = nat, of w] by (simp add: unat_drop_bit_eq drop_bit_eq_div unat_div)

lemma ip_string: "length (ip_to_str ip) \<le> 15" "c_str (ip_to_str ip) = ip_to_str ip"
proof -
  have three: "length (show_nat n) \<le> 3" if "n < 256" for n using that length_show_byte [of n] by simp
  show "length (ip_to_str ip) \<le> 15"
    using three [OF byte_less, of ip] three [OF byte_less, of "drop_bit 8 ip"] three [OF byte_less, of "drop_bit 16 ip"]
      three [OF top_byte_less, of ip]
    by (simp add: ip_to_str_def dotted_def)
  have "NUL \<notin> set (ip_to_str ip)" unfolding ip_to_str_def by (rule no_char) (auto simp: is_digit_def NUL_def)
  then show "c_str (ip_to_str ip) = ip_to_str ip" by (rule c_str_id)
qed

end
