(* ===== verification/Exporter.thy ===== *)
theory Exporter
  imports Metrics UserConfig
begin

text \<open>
  The exporter service (\<open>src/src/user/servie/ExporterService.hpp\<close>, \<open>run_exporter_server\<close> of \<open>main.cpp\<close>): the text
  that the HTTP endpoint answers with, the state of the service and its threads, and the loop that
  serves a client of the socket.

  A thread is represented by whether its \<open>std::thread\<close> object is joinable; assigning to a joinable
  object calls \<open>std::terminate\<close>, which is the value \<open>None\<close> of the operations here.
\<close>

section \<open>The text of the endpoint\<close>

definition quote :: char where "quote = CHR 0x22"

definition label_key :: "traffic_key \<Rightarrow> string" where
  "label_key k =
     ''domain='' @ quote # tk_domain k @ quote # '',src='' @ quote # ip_to_str (tk_src_ip k) @ quote # '',dst='' @ quote #
     ip_to_str (tk_dst_ip k) @ [quote]"

definition file_label_key :: "file_key \<Rightarrow> string" where
  "file_label_key k = ''comm='' @ quote # fe_comm k @ quote # '',filepath='' @ quote # fe_path k @ [quote]"

text \<open>\<open>std::map\<close> from labels to sums: sorted by the labels, compared as \<open>std::string\<close> compares them.\<close>

fun label_less :: "string \<Rightarrow> string \<Rightarrow> bool" where
  "label_less s [] \<longleftrightarrow> False"
| "label_less [] (d # t) \<longleftrightarrow> True"
| "label_less (c # s) (d # t) \<longleftrightarrow> (of_char c :: nat) < of_char d \<or> c = d \<and> label_less s t"

fun add_total :: "string \<Rightarrow> u64 \<Rightarrow> (string \<times> u64) list \<Rightarrow> (string \<times> u64) list" where
  "add_total l n [] = [(l, n)]"
| "add_total l n ((l', m) # rest) =
     (if l = l' then (l', m + n) # rest
      else if label_less l l' then (l, n) # (l', m) # rest
      else (l', m) # add_total l n rest)"

definition aggregate :: "('k \<Rightarrow> string) \<Rightarrow> ('k \<times> metric_data) list \<Rightarrow> (string \<times> u64) list" where
  "aggregate label es = fold (\<lambda>(k, d). add_total (label k) (md_count d)) es []"

definition metric_line :: "string \<Rightarrow> string \<times> u64 \<Rightarrow> string" where
  "metric_line name ln = name @ CHR ''{'' # fst ln @ ''} '' @ show_nat (unat (snd ln)) @ [newline]"

definition aggregate_rist_metrics :: "(traffic_key \<times> metric_data) list \<Rightarrow> string" where
  "aggregate_rist_metrics es = concat (map (metric_line ''ebpf_risk_domain'') (aggregate label_key es))"

definition aggregate_ksm_fevnet_metrics :: "(file_key \<times> metric_data) list \<Rightarrow> string" where
  "aggregate_ksm_fevnet_metrics es = concat (map (metric_line ''kernel_file_event_total'') (aggregate file_label_key es))"

definition metrics_page :: "(traffic_key \<times> metric_data) list \<Rightarrow> (file_key \<times> metric_data) list \<Rightarrow> string" where
  "metrics_page es fs = aggregate_rist_metrics es @ aggregate_ksm_fevnet_metrics fs"

subsection \<open>Labels are unambiguous\<close>

lemma cut_last: "q \<notin> set a \<Longrightarrow> q \<notin> set b \<Longrightarrow> xs @ q # a = ys @ q # b \<longleftrightarrow> xs = ys \<and> a = b"
proof
  assume a: "q \<notin> set a" and b: "q \<notin> set b" and eq: "xs @ q # a = ys @ q # b"
  then show "xs = ys \<and> a = b"
  proof (induction xs arbitrary: ys)
    case Nil
    then show ?case by (cases ys) auto
  next
    case (Cons x xs)
    then show ?case by (cases ys) auto
  qed
qed simp

lemma address_of_bytes: "address (ip AND 0xFF) (drop_bit 8 ip AND 0xFF) (drop_bit 16 ip AND 0xFF) (drop_bit 24 ip) = ip"
proof -
  have m: "(0xFF :: u32) = mask 8" by (simp add: mask_eq_exp_minus_1)
  show ?thesis
    unfolding address_def m
  proof (rule bit_word_eqI)
    fix n assume "n < LENGTH(32)"
    then show "bit (ip AND mask 8 OR push_bit 8 (drop_bit 8 ip AND mask 8) OR push_bit 16 (drop_bit 16 ip AND mask 8) OR
        push_bit 24 (drop_bit 24 ip)) n = bit ip n"
      by (cases "n < 8"; cases "n < 16"; cases "n < 24") (auto simp: bit_simps)
  qed
qed

lemma inet_pton_ip: "inet_pton (ip_to_str ip) = Some ip"
  using inet_pton_dotted [of "unat (ip AND 0xFF)" "unat (drop_bit 8 ip AND 0xFF)" "unat (drop_bit 16 ip AND 0xFF)" "unat (drop_bit 24 ip)"]
    byte_less [of ip] byte_less [of "drop_bit 8 ip"] byte_less [of "drop_bit 16 ip"] top_byte_less [of ip] address_of_bytes [of ip]
  by (simp add: ip_to_str_def)

lemma ip_to_str_inject: "ip_to_str a = ip_to_str b \<longleftrightarrow> a = b"
  by (metis inet_pton_ip option.inject)

lemma no_quote: "quote \<notin> set (ip_to_str ip)"
  unfolding ip_to_str_def by (rule no_char) (auto simp: is_digit_def quote_def)

lemma label_inject:
  "label_key k = label_key k' \<longleftrightarrow> tk_domain k = tk_domain k' \<and> tk_src_ip k = tk_src_ip k' \<and> tk_dst_ip k = tk_dst_ip k'"
proof -
  have "(((''domain='' @ quote # tk_domain k) @ quote # '',src='') @ quote # ip_to_str (tk_src_ip k)) @ quote # '',dst='' =
        (((''domain='' @ quote # tk_domain k') @ quote # '',src='') @ quote # ip_to_str (tk_src_ip k')) @ quote # '',dst='' \<longleftrightarrow>
      tk_domain k = tk_domain k' \<and> tk_src_ip k = tk_src_ip k'"
    by (simp only: append_same_eq same_append_eq list.inject cut_last [OF no_quote no_quote] ip_to_str_inject) blast
  moreover have "label_key k = label_key k' \<longleftrightarrow>
      ((((''domain='' @ quote # tk_domain k) @ quote # '',src='') @ quote # ip_to_str (tk_src_ip k)) @ quote # '',dst='') @ quote # ip_to_str (tk_dst_ip k) =
      ((((''domain='' @ quote # tk_domain k') @ quote # '',src='') @ quote # ip_to_str (tk_src_ip k')) @ quote # '',dst='') @ quote # ip_to_str (tk_dst_ip k')"
    by (simp add: label_key_def)
  ultimately show ?thesis by (simp only: cut_last [OF no_quote no_quote] ip_to_str_inject) blast
qed

subsection \<open>Sums\<close>

fun ascending :: "(string \<times> u64) list \<Rightarrow> bool" where
  "ascending (p # q # rest) \<longleftrightarrow> label_less (fst p) (fst q) \<and> ascending (q # rest)"
| "ascending _ \<longleftrightarrow> True"

lemma label_less_trans: "label_less a b \<Longrightarrow> label_less b c \<Longrightarrow> label_less a c"
proof (induction a b arbitrary: c rule: label_less.induct)
  case (2 d t)
  then show ?case by (cases c) auto
next
  case (3 c' s d t)
  then show ?case by (cases c) auto
qed simp

lemma label_less_irrefl [simp]: "\<not> label_less a a"
  by (induction a) auto

lemma label_less_total: "a \<noteq> b \<Longrightarrow> \<not> label_less a b \<Longrightarrow> label_less b a"
proof (induction a b rule: label_less.induct)
  case (1 s)
  then show ?case by (cases s) auto
next
  case (3 c s d t)
  then show ?case using of_char_eq_iff [of c d, where 'a = nat] by (auto simp: not_less)
qed simp

lemma ascending_tail: "ascending (p # rest) \<Longrightarrow> ascending rest"
  by (cases rest) auto

lemma ascending_first: "ascending (p # rest) \<Longrightarrow> q \<in> set rest \<Longrightarrow> label_less (fst p) (fst q)"
proof (induction rest arbitrary: p)
  case (Cons r rest)
  have r: "label_less (fst p) (fst r)" "ascending (r # rest)" using Cons.prems(1) by auto
  show ?case
  proof (cases "q = r")
    case False
    then have "label_less (fst r) (fst q)" using Cons.IH [OF r(2)] Cons.prems(2) by simp
    with r(1) show ?thesis by (rule label_less_trans)
  qed (use r in simp)
qed simp

lemma add_total_sorted: "ascending ps \<Longrightarrow> ascending (add_total l n ps)"
proof (induction l n ps rule: add_total.induct)
  case (2 l n l' m rest)
  show ?case
  proof (cases "l = l' \<or> label_less l l'")
    case True
    then show ?thesis using 2 by (cases rest) auto
  next
    case False
    then have "ascending (add_total l n rest)" "label_less l' l"
      using 2 ascending_tail label_less_total by blast+
    then show ?thesis using 2(2) False by (cases rest) auto
  qed
qed simp

lemma add_total_map:
  "ascending ps \<Longrightarrow> map_of (add_total l n ps) = (map_of ps)(l \<mapsto> n + (case map_of ps l of None \<Rightarrow> 0 | Some m \<Rightarrow> m))"
proof (induction l n ps rule: add_total.induct)
  case (2 l n l' m rest)
  show ?case
  proof (cases "l = l'")
    case False
    show ?thesis
    proof (cases "label_less l l'")
      case True
      have "label_less l (fst q)" if "q \<in> set rest" for q
        using label_less_trans [OF True] ascending_first [OF 2(2) that] by simp
      then have "l \<notin> fst ` set rest" by (metis imageE label_less_irrefl)
      then have "map_of rest l = None" by (simp add: map_of_eq_None_iff)
      then show ?thesis using True \<open>l \<noteq> l'\<close> by (auto simp: fun_eq_iff)
    next
      case less: False
      have "ascending rest" using 2(2) by (rule ascending_tail)
      then show ?thesis using 2(1) [OF False less] less False by (auto simp: fun_eq_iff)
    qed
  qed (auto simp: fun_eq_iff add.commute)
qed simp

text \<open>The sum of the counts of a label.\<close>

definition label_total :: "('k \<Rightarrow> string) \<Rightarrow> string \<Rightarrow> ('k \<times> metric_data) list \<Rightarrow> u64" where
  "label_total label l es = sum_list (map (\<lambda>kd. md_count (snd kd)) (filter (\<lambda>kd. label (fst kd) = l) es))"

lemma aggregate_map:
  "ascending (aggregate label es) \<and>
   map_of (aggregate label es) l = (if \<exists>kd\<in>set es. label (fst kd) = l then Some (label_total label l es) else None)"
proof (induction es rule: rev_induct)
  case Nil
  then show ?case by (simp add: aggregate_def)
next
  case (snoc kd es)
  have step: "aggregate label (es @ [kd]) = add_total (label (fst kd)) (md_count (snd kd)) (aggregate label es)"
    by (cases kd) (simp add: aggregate_def)
  have asc: "ascending (aggregate label es)" using snoc by blast
  note add = add_total_map [OF asc, of "label (fst kd)" "md_count (snd kd)"]
  have old: "map_of (aggregate label es) l = (if \<exists>kd\<in>set es. label (fst kd) = l then Some (label_total label l es) else None)"
    using snoc by blast
  have none: "\<not> (\<exists>kd\<in>set es. label (fst kd) = l) \<Longrightarrow> label_total label l es = 0"
    by (auto simp: label_total_def filter_False)
  show ?case
  proof (cases "label (fst kd) = l")
    case True
    have "label_total label l (es @ [kd]) = md_count (snd kd) + label_total label l es" using True by (simp add: label_total_def)
    then show ?thesis using add_total_sorted [OF asc] old none True by (auto simp: step add)
  next
    case False
    have "label_total label l (es @ [kd]) = label_total label l es" using False by (simp add: label_total_def)
    then show ?thesis using add_total_sorted [OF asc] old False by (auto simp: step add)
  qed
qed

section \<open>The service\<close>

datatype service_status = STOPPED | STARTING | RUNNING | FAILED

text \<open>The service with its flags, its descriptor, and whether the objects of its two joinable threads hold one.\<close>

record exporter_service =
  xs_running :: bool
  xs_initialized :: bool
  xs_uds_initialized :: bool
  xs_status :: service_status
  xs_uds_server_fd :: int
  xs_service_thread :: bool
  xs_ksm_reader_thread :: bool

definition setStatus :: "service_status \<Rightarrow> exporter_service \<Rightarrow> exporter_service" where
  "setStatus st s = s\<lparr>xs_status := st\<rparr>"

definition isHealthy :: "exporter_service \<Rightarrow> bool" where
  "isHealthy s \<longleftrightarrow> xs_status s = RUNNING"

fun getStatusString :: "service_status \<Rightarrow> string" where
  "getStatusString STOPPED = ''STOPPED''"
| "getStatusString STARTING = ''STARTING''"
| "getStatusString RUNNING = ''RUNNING''"
| "getStatusString FAILED = ''FAILED''"

definition startKsmReader :: "exporter_service \<Rightarrow> exporter_service option" where
  "startKsmReader s = (if xs_ksm_reader_thread s then None else Some (s\<lparr>xs_ksm_reader_thread := True\<rparr>))"

text \<open>The constructor: the initial values of the members, then the reader is started.\<close>

definition ExporterService :: "exporter_service option" where
  "ExporterService =
     startKsmReader \<lparr>xs_running = True, xs_initialized = False, xs_uds_initialized = False, xs_status = STOPPED, xs_uds_server_fd = -1,
       xs_service_thread = False, xs_ksm_reader_thread = False\<rparr>"

text \<open>\<open>prepareSSLConfig\<close>: every failure is caught and ends in the status. The arguments say whether the two files
  exist and whether the library accepts them and the cipher list; the protocol chosen is the result.\<close>

definition is_tls13 :: "ssl_conf \<Rightarrow> bool" where
  "is_tls13 c \<longleftrightarrow> list_ex (\<lambda>v. toLower v = toLower ''tlsv1.3'') (split_on CHR '','' (tlsVersion c))"

definition prepareSSLConfig :: "ssl_conf \<Rightarrow> bool \<Rightarrow> bool \<Rightarrow> bool \<Rightarrow> exporter_service \<Rightarrow> bool option \<times> exporter_service" where
  "prepareSSLConfig c files_exist files_accepted ciphers_accepted s =
     (if \<not> isActive c then (None, s)
      else if \<not> files_exist \<or> \<not> files_accepted \<or> ciphers c \<noteq> [] \<and> \<not> ciphers_accepted then (None, setStatus FAILED s)
      else (Some (is_tls13 c), s))"

text \<open>\<open>initService\<close> starts the thread of the endpoint; what that thread does to the status when the server ends.\<close>

definition initService :: "exporter_service \<Rightarrow> exporter_service option" where
  "initService s = (if xs_service_thread s then None else Some (setStatus RUNNING (setStatus STARTING (s\<lparr>xs_service_thread := True\<rparr>))))"

definition server_ended :: "bool \<Rightarrow> exporter_service \<Rightarrow> exporter_service" where
  "server_ended threw s = setStatus (if threw then FAILED else STOPPED) s"

definition startHttpService :: "ssl_conf \<Rightarrow> bool \<Rightarrow> bool \<Rightarrow> bool \<Rightarrow> exporter_service \<Rightarrow> exporter_service option" where
  "startHttpService c ex acc ciph s =
     (if xs_initialized s then Some s
      else (case startKsmReader (snd (prepareSSLConfig c ex acc ciph s)) of
              None \<Rightarrow> None
            | Some s \<Rightarrow> (case initService s of None \<Rightarrow> None | Some s \<Rightarrow> Some (s\<lparr>xs_initialized := True\<rparr>))))"

text \<open>\<open>startUDSService\<close> detaches its thread; the loop of that thread follows below.\<close>

definition startUDSService :: "exporter_service \<Rightarrow> exporter_service option" where
  "startUDSService s = Some (if xs_uds_initialized s then s else s\<lparr>xs_uds_initialized := True\<rparr>)"

definition run_exporter_server :: "exporter_config \<Rightarrow> ssl_conf \<Rightarrow> bool \<Rightarrow> bool \<Rightarrow> bool \<Rightarrow> exporter_service \<Rightarrow> exporter_service option" where
  "run_exporter_server x c ex acc ciph s =
     (if \<not> enableExporter x then Some s
      else if enableSocket x then startUDSService s
      else startHttpService c ex acc ciph s)"

text \<open>\<open>stop\<close>: the descriptor is shut down, both threads are joined; a second call does nothing.\<close>

definition stop :: "exporter_service \<Rightarrow> exporter_service" where
  "stop s =
     (if \<not> xs_running s then s
      else setStatus STOPPED (s\<lparr>xs_running := False, xs_service_thread := False, xs_ksm_reader_thread := False\<rparr>))"

text \<open>One round of \<open>serveClient\<close>: the reading of \<open>running\<close>, the two tables in the order of their iteration, and
  what the socket answers. The loop ends with a failed send or when the service is stopped; while
  rounds are missing it has not ended.\<close>

record round =
  rd_running :: bool
  rd_entries :: "(traffic_key \<times> metric_data) list"
  rd_files :: "(file_key \<times> metric_data) list"
  rd_replies :: "(bool \<times> send_reply) list"

fun serve_rounds :: "round list \<Rightarrow> string \<Rightarrow> exporter_service \<Rightarrow> (string \<times> exporter_service) option" where
  "serve_rounds [] stream s = None"
| "serve_rounds (r # rs) stream s =
     (if \<not> rd_running r then Some (stream, s)
      else (case send_bpftrace (rd_replies r) (rd_entries r) stream of
              None \<Rightarrow> None
            | Some (ok, stream, replies) \<Rightarrow>
                if \<not> ok then Some (stream, setStatus FAILED s)
                else (case send_ksm_events replies (rd_files r) stream of
                        None \<Rightarrow> None
                      | Some (ok, stream, replies) \<Rightarrow>
                          if \<not> ok then Some (stream, setStatus FAILED s) else serve_rounds rs stream s)))"

definition serveClient :: "round list \<Rightarrow> exporter_service \<Rightarrow> (string \<times> exporter_service) option" where
  "serveClient rs s = serve_rounds rs [] (setStatus RUNNING s)"

text \<open>\<open>initUDSService\<close>: what happens in its outer loop (no socket, or one with a descriptor) and in the inner loop
  (an accept that fails because the descriptor is gone, one that fails otherwise, a client). Each
  entry comes with the reading of \<open>running\<close> in front of it. There is no limit of retries
  (\<open>MAX_RETRY\<close> is zero).\<close>

datatype uds_event = No_socket | Socket int | Accept_gone | Accept_failed | Client "round list"

fun uds_loop :: "(bool \<times> uds_event) list \<Rightarrow> bool \<Rightarrow> exporter_service \<Rightarrow> exporter_service option" where
  "uds_loop [] listening s = None"
| "uds_loop ((running, ev) # evs) listening s =
     (if \<not> running then Some (setStatus STOPPED (if listening then s\<lparr>xs_uds_server_fd := -1\<rparr> else s))
      else if \<not> listening then
        (case ev of
           Socket fd \<Rightarrow> uds_loop evs True (setStatus RUNNING (s\<lparr>xs_uds_server_fd := fd\<rparr>))
         | _ \<Rightarrow> uds_loop evs False (setStatus FAILED s))
      else
        (case ev of
           Accept_gone \<Rightarrow> uds_loop evs False (setStatus FAILED (s\<lparr>xs_uds_server_fd := -1\<rparr>))
         | Client rs \<Rightarrow> (case serveClient rs s of None \<Rightarrow> None | Some (_, s) \<Rightarrow> uds_loop evs True s)
         | _ \<Rightarrow> uds_loop evs True (setStatus FAILED s)))"

definition initUDSService :: "(bool \<times> uds_event) list \<Rightarrow> exporter_service \<Rightarrow> exporter_service option" where
  "initUDSService evs s = uds_loop evs False (setStatus STARTING s)"

section \<open>Properties\<close>

text \<open>The text of the endpoint is exact. The labels name the domain and the two addresses without
  ambiguity (also when the domain contains quotes or commas), every combination that occurs in the
  table has exactly one line, in ascending order of the labels, and the number of the line is the sum
  of the counts over all ports.\<close>

theorem page_totals:
  "ascending (aggregate label_key es) \<and>
   map_of (aggregate label_key es) (label_key k) =
     (let same = filter (\<lambda>kd. tk_domain (fst kd) = tk_domain k \<and> tk_src_ip (fst kd) = tk_src_ip k \<and> tk_dst_ip (fst kd) = tk_dst_ip k) es
      in if same = [] then None else Some (sum_list (map (\<lambda>kd. md_count (snd kd)) same)))"
  using aggregate_map [of label_key es "label_key k"] by (auto simp: label_inject label_total_def Let_def filter_empty_conv)

text \<open>The HTTP exporter cannot be started. The constructor has already started the reader thread, and the
  start of the HTTP service assigns a new thread to the same object, which ends the process: with the
  exporter enabled and the socket disabled, the configuration brings the firewall down, whatever the
  TLS settings.\<close>

theorem http_exporter_aborts:
  assumes "ExporterService = Some s" and "enableExporter x" and "\<not> enableSocket x"
  shows "run_exporter_server x c ex acc ciph s = None"
  using assms by (auto simp: ExporterService_def run_exporter_server_def startHttpService_def startKsmReader_def prepareSSLConfig_def setStatus_def)

theorem http_exporter_aborts_witness:
  "\<exists>s. ExporterService = Some s \<and>
     run_exporter_server \<lparr>enableExporter = True, enableSocket = False, socketPath = [], metricsPort = 9090, updateIntervalMs = 1000\<rparr>
       \<lparr>caPath = [], keyPath = [], certPath = [], certPasswd = [], tlsVersion = [], ciphers = [], isActive = False, enableMtls = False\<rparr>
       True True True s = None"
proof -
  obtain s where s: "ExporterService = Some s" by (auto simp: ExporterService_def startKsmReader_def)
  show ?thesis using s http_exporter_aborts [OF s] by auto
qed

text \<open>The socket service never gives up: it returns only after \<open>running\<close> has been cleared, and then it is
  stopped.\<close>

lemma uds_ends_stopped: "uds_loop evs listening s = Some s' \<Longrightarrow> xs_status s' = STOPPED \<and> (\<exists>ev. (False, ev) \<in> set evs)"
proof (induction evs listening s rule: uds_loop.induct)
  case (2 running ev evs listening s)
  then show ?case by (auto simp: setStatus_def split: if_splits uds_event.splits option.splits)
qed simp

text \<open>The socket service retries for as long as the program runs. It ends only after the running flag has
  been found cleared, its status is then stopped, and a run in which the flag is never found cleared
  does not end, however often the socket or the clients fail.\<close>

theorem socket_service_persists:
  assumes "\<forall>e\<in>set evs. fst e"
  shows "initUDSService evs s = None"
  using assms uds_ends_stopped [of evs False "setStatus STARTING s"] by (cases "initUDSService evs s") (auto simp: initUDSService_def)

theorem socket_service_persists_witness:
  "initUDSService [(True, No_socket), (True, Socket 5), (True, Client [\<lparr>rd_running = True, rd_entries = [], rd_files = [],
      rd_replies = [(True, Send_failed)]\<rparr>]), (True, Accept_gone)] s = None"
  by (rule socket_service_persists) simp

end
