(* ===== verification/Reader.thy ===== *)
theory Reader
  imports Exporter "HOL-Library.Sublist"
begin

text \<open>
  The other end of the socket: the loop of the exporter process that reads the messages
  (\<open>src/cmd/exporter/main.go\<close>, \<open>readLoop\<close>, and the structs of \<open>src/cmd/model/msg.go\<close>), and what it makes of
  the bytes that \<open>serveClient\<close> sends, for whole sessions.

  The reader belongs to the second program of the repository, which is written in Go; it is modelled so that the property
  of the protocol can be stated over both ends. A read that fails (end of the stream, a deadline) ends the
  loop, so what it has seen is a prefix of the stream.
\<close>

section \<open>Bodies\<close>

text \<open>\<open>binary.Read\<close> of a struct fails on a short input; \<open>bytes.Trim\<close> takes the zeros off both ends.\<close>

definition trim_nul :: "string \<Rightarrow> string" where
  "trim_nul s = rev (dropWhile (\<lambda>c. c = NUL) (rev (dropWhile (\<lambda>c. c = NUL) s)))"

definition trace_of :: "string \<Rightarrow> trace_body" where
  "trace_of b = \<lparr>tb_label = trim_nul (take 32 b), tb_domain = trim_nul (take 32 (drop 32 b)), tb_srcIp = trim_nul (take 16 (drop 64 b)),
     tb_dstIp = trim_nul (take 16 (drop 80 b)), tb_count = of_nat (le_val (take 8 (drop 96 b)))\<rparr>"

record file_body =
  fb_pid :: u32
  fb_comm :: string
  fb_path :: string
  fb_is_write :: u32
  fb_count :: u64

definition ksm_size :: nat where "ksm_size = 288"

definition ksm_of :: "string \<Rightarrow> file_body" where
  "ksm_of b = \<lparr>fb_pid = of_nat (le_val (take 4 b)), fb_comm = trim_nul (take 16 (drop 4 b)), fb_path = trim_nul (take 256 (drop 20 b)),
     fb_is_write = of_nat (le_val (take 4 (drop 276 b))), fb_count = of_nat (le_val (take 8 (drop 280 b)))\<rparr>"

text \<open>The bodies of a message: those that could be read, and the rest of the stream if all of them could.\<close>

fun read_bodies :: "nat \<Rightarrow> (string \<Rightarrow> 'b) \<Rightarrow> nat \<Rightarrow> string \<Rightarrow> 'b list \<times> string option" where
  "read_bodies sz decode 0 s = ([], Some s)"
| "read_bodies sz decode (Suc n) s =
     (if length s < sz then ([], None)
      else (case read_bodies sz decode n (drop sz s) of (bs, r) \<Rightarrow> (decode (take sz s) # bs, r)))"

text \<open>The interface between the two ends: a struct of a fixed size whose decoding gives the receiver's view of
  what was encoded.\<close>

locale wire_struct =
  fixes encode :: "'a \<Rightarrow> string" and sz :: nat and decode :: "string \<Rightarrow> 'b" and view :: "'a \<Rightarrow> 'b"
  assumes encode_length: "length (encode x) = sz"
    and decode_encode: "decode (encode x) = view x"
begin

lemma bodies_roundtrip: "read_bodies sz decode (length xs) (concat (map encode xs) @ s) = (map view xs, Some s)"
  by (induction xs) (simp_all add: encode_length decode_encode)

end

lemma bodies_rest: "read_bodies sz decode n s = (bs, Some r) \<Longrightarrow> \<exists>t. s = t @ r"
proof (induction n arbitrary: s bs)
  case (Suc n)
  obtain bs' where "read_bodies sz decode n (drop sz s) = (bs', Some r)"
    using Suc.prems by (auto split: if_splits prod.splits)
  from Suc.IH [OF this] obtain t where "drop sz s = t @ r" by blast
  then have "s = (take sz s @ t) @ r" by (metis append_assoc append_take_drop_id)
  then show ?case by blast
qed simp

lemma bodies_extend:
  "read_bodies sz decode n s = (bs, r) \<Longrightarrow>
   (case r of None \<Rightarrow> prefix bs (fst (read_bodies sz decode n (s @ t)))
    | Some rest \<Rightarrow> read_bodies sz decode n (s @ t) = (bs, Some (rest @ t)))"
proof (induction n arbitrary: s bs)
  case (Suc n)
  show ?case
  proof (cases "length s < sz")
    case False
    obtain bs' where b: "read_bodies sz decode n (drop sz s) = (bs', r)" "bs = decode (take sz s) # bs'"
      using Suc.prems False by (auto split: prod.splits)
    show ?thesis using Suc.IH [OF b(1)] b(2) False by (auto split: option.splits prod.splits)
  qed (use Suc.prems in auto)
qed auto

section \<open>The loop\<close>

text \<open>What the reader does with a session, in order: the reset in front of a table, the sums of a complete
  table by domain, and the file events one by one.\<close>

datatype update = Reset_metrics | Totals "string \<rightharpoonup> trace_body" | File_event file_body

text \<open>\<open>readAndProcessBPFData\<close> sums the bodies of a domain into the last one of them.\<close>

definition add_body :: "trace_body \<Rightarrow> (string \<rightharpoonup> trace_body) \<Rightarrow> (string \<rightharpoonup> trace_body)" where
  "add_body b m = m(tb_domain b \<mapsto> (case m (tb_domain b) of None \<Rightarrow> b | Some old \<Rightarrow> b\<lparr>tb_count := tb_count b + tb_count old\<rparr>))"

definition readAndProcessBPFData :: "nat \<Rightarrow> string \<Rightarrow> update list \<times> string option" where
  "readAndProcessBPFData count s =
     (case read_bodies trace_size trace_of count s of
        (bs, None) \<Rightarrow> ([Reset_metrics], None)
      | (bs, Some r) \<Rightarrow> ([Reset_metrics, Totals (fold add_body bs Map.empty)], Some r))"

definition readAndProcessKSMData :: "nat \<Rightarrow> string \<Rightarrow> update list \<times> string option" where
  "readAndProcessKSMData rowsNum s = (case read_bodies ksm_size ksm_of rowsNum s of (bs, r) \<Rightarrow> (map File_event bs, r))"

definition read_message :: "string \<Rightarrow> update list \<times> string option" where
  "read_message s =
     (let type = le_val (take 4 s); rows = le_val (take 4 (drop 4 s)); s = drop 8 s
      in if type = 1 then readAndProcessBPFData rows s
         else if type = 2 then readAndProcessKSMData rows s
         else ([], None))"

lemma message_rest: "read_message s = (us, Some r) \<Longrightarrow> 8 \<le> length s \<Longrightarrow> length r < length s"
  by (auto simp: read_message_def readAndProcessBPFData_def readAndProcessKSMData_def Let_def
      split: if_splits prod.splits option.splits dest!: bodies_rest dest: arg_cong [where f = length])

function readLoop :: "string \<Rightarrow> update list" where
  "readLoop s =
     (if length s < 8 then []
      else (case read_message s of (us, None) \<Rightarrow> us | (us, Some r) \<Rightarrow> us @ readLoop r))"
  by auto
termination by (relation "measure length") (auto dest!: sym [of "(_, Some _)"] dest: message_rest)

declare readLoop.simps [simp del]

lemma readLoop_short: "length s < 8 \<Longrightarrow> readLoop s = []"
  by (subst readLoop.simps) simp

text \<open>A stream that ends earlier gives a prefix of the updates.\<close>

lemma message_extend:
  assumes "8 \<le> length s" and "read_message s = (us, r)"
  shows "case r of None \<Rightarrow> prefix us (fst (read_message (s @ t))) | Some rest \<Rightarrow> read_message (s @ t) = (us, Some (rest @ t))"
proof -
  have head: "take 4 (s @ t) = take 4 s" "take 4 (drop 4 (s @ t)) = take 4 (drop 4 s)" "drop 8 (s @ t) = drop 8 s @ t"
    using assms(1) by auto
  show ?thesis
    using assms(2) bodies_extend [of trace_size trace_of "le_val (take 4 (drop 4 s))" "drop 8 s" _ _ t]
      bodies_extend [of ksm_size ksm_of "le_val (take 4 (drop 4 s))" "drop 8 s" _ _ t]
    unfolding read_message_def head readAndProcessBPFData_def readAndProcessKSMData_def Let_def
    by (fastforce split: prod.splits option.splits if_splits intro: map_mono_prefix)
qed

lemma readLoop_prefix: "prefix (readLoop s) (readLoop (s @ t))"
proof (induction s rule: readLoop.induct)
  case (1 s)
  show ?case
  proof (cases "length s < 8")
    case False
    obtain us r where m: "read_message s = (us, r)" by (cases "read_message s")
    note ext = message_extend [OF _ m, of t]
    show ?thesis
    proof (cases r)
      case None
      then have "prefix us (fst (read_message (s @ t)))" using ext False by simp
      moreover have "prefix (fst (read_message (s @ t))) (readLoop (s @ t))"
        using False readLoop.simps [of "s @ t"] by (auto split: prod.splits option.splits)
      moreover have "readLoop s = us" using m None False by (subst readLoop.simps) simp
      ultimately show ?thesis using prefix_order.trans by metis
    next
      case (Some rest)
      then have "read_message (s @ t) = (us, Some (rest @ t))" using ext False by simp
      then have "readLoop (s @ t) = us @ readLoop (rest @ t)" using False by (subst readLoop.simps) simp
      moreover have "readLoop s = us @ readLoop rest" using m Some False by (subst readLoop.simps) simp
      moreover have "prefix (readLoop rest) (readLoop (rest @ t))" using 1 [OF False m [symmetric] Some] by simp
      ultimately show ?thesis by simp
    qed
  qed (simp add: readLoop_short)
qed

section \<open>Both ends\<close>

lemma trim_padded: "trim_nul (t @ replicate k NUL) = trim_nul t"
proof -
  have pad: "dropWhile (\<lambda>c. c = NUL) (replicate k NUL @ s) = dropWhile (\<lambda>c. c = NUL) s" for s
    by (induction k) auto
  show ?thesis
  proof (cases "\<forall>c\<in>set t. c = NUL")
    case True
    then have "dropWhile (\<lambda>c. c = NUL) (t @ replicate k NUL) = []" "dropWhile (\<lambda>c. c = NUL) t = []"
      by (simp_all add: dropWhile_eq_Nil_conv)
    then show ?thesis by (simp only: trim_nul_def)
  next
    case False
    then have "dropWhile (\<lambda>c. c = NUL) (t @ replicate k NUL) = dropWhile (\<lambda>c. c = NUL) t @ replicate k NUL" by auto
    then show ?thesis by (simp add: trim_nul_def pad)
  qed
qed

lemma trim_text: "NUL \<notin> set t \<Longrightarrow> trim_nul t = t"
proof -
  have none: "NUL \<notin> set s \<Longrightarrow> dropWhile (\<lambda>c. c = NUL) s = s" for s by (cases s) auto
  assume "NUL \<notin> set t"
  then show ?thesis using none [of t] none [of "rev t"] by (simp add: trim_nul_def)
qed

lemma trim_char_array: "0 < n \<Longrightarrow> trim_nul (char_array n s) = take (n - 1) (c_str s)"
proof -
  have "NUL \<notin> set (take (n - 1) (c_str s))" using c_str_no_nul by (meson in_set_takeD)
  then show ?thesis by (simp add: char_array_def Let_def trim_padded trim_text)
qed

lemma trim_copy_array: "trim_nul (copy_array n s) = trim_nul (take (n - 1) s)"
  by (simp add: copy_array_def Let_def trim_padded)

lemma length_copy_array: "0 < n \<Longrightarrow> length (copy_array n s) = n"
  by (simp add: copy_array_def Let_def)

text \<open>The views of the receiver: a domain is cut to 31 characters, a command to 15, a path to 255.\<close>

definition trace_sent :: "traffic_key \<times> metric_data \<Rightarrow> trace_body" where
  "trace_sent kd = \<lparr>tb_label = take 31 (c_str (tk_domain (fst kd))), tb_domain = take 31 (c_str (tk_domain (fst kd))),
     tb_srcIp = ip_to_str (tk_src_ip (fst kd)), tb_dstIp = ip_to_str (tk_dst_ip (fst kd)), tb_count = md_count (snd kd)\<rparr>"

definition file_sent :: "file_key \<times> metric_data \<Rightarrow> file_body" where
  "file_sent kd = \<lparr>fb_pid = fe_pid (fst kd), fb_comm = trim_nul (take 15 (fe_comm (fst kd))), fb_path = trim_nul (take 255 (fe_path (fst kd))),
     fb_is_write = fe_is_write (fst kd), fb_count = md_count (snd kd)\<rparr>"

lemma le_val_word: "le_val (le_chars 8 (unat w)) = unat w" "le_val (le_chars 4 (unat v)) = unat v" for w :: u64 and v :: u32
  using le_val_chars [of "unat w" 8] le_val_chars [of "unat v" 4] unsigned_less [where 'a = nat, of w] unsigned_less [where 'a = nat, of v]
  by simp_all

interpretation trace_struct: wire_struct trace_bytes trace_size trace_of trace_sent
  using ip_string
  by unfold_locales (simp_all add: trace_bytes_def trace_size_def trace_of_def trace_sent_def trim_char_array le_val_word)

interpretation ksm_struct: wire_struct ksm_bytes ksm_size ksm_of file_sent
  by unfold_locales (simp_all add: ksm_bytes_def ksm_size_def ksm_of_def file_sent_def trim_copy_array length_copy_array le_val_word)

text \<open>What a table means to the receiver: for each domain the last of its bodies, with the sum of all counts.\<close>

definition totals_of :: "(traffic_key \<times> metric_data) list \<Rightarrow> string \<rightharpoonup> trace_body" where
  "totals_of es name =
     (let same = filter (\<lambda>kd. tb_domain (trace_sent kd) = name) es
      in if same = [] then None
         else Some ((trace_sent (last same))\<lparr>tb_count := sum_list (map (\<lambda>kd. md_count (snd kd)) same)\<rparr>))"

lemma fold_totals: "fold add_body (map trace_sent es) Map.empty = totals_of es"
proof
  fix name show "fold add_body (map trace_sent es) Map.empty name = totals_of es name"
  proof (induction es rule: rev_induct)
    case Nil
    then show ?case by (simp add: totals_of_def)
  next
    case (snoc kd es)
    have count: "tb_count (trace_sent kd) = md_count (snd kd)" by (simp add: trace_sent_def)
    show ?case
      using snoc count by (auto simp: add_body_def totals_of_def Let_def add.commute split: option.splits if_splits)
  qed
qed

lemma message_read:
  assumes "length es < 2 ^ 32"
  shows "read_message (message_header 1 (length es) @ concat (map trace_bytes es) @ s) = ([Reset_metrics, Totals (totals_of es)], Some s)"
    and "length fs < 2 ^ 32 \<Longrightarrow>
      read_message (message_header 2 (length fs) @ concat (map ksm_bytes fs) @ s) = (map (\<lambda>kd. File_event (file_sent kd)) fs, Some s)"
proof -
  have len: "unat (of_nat n :: u32) = n" if "n < 2 ^ 32" for n using that by (simp add: unat_of_nat take_bit_eq_mod)
  show "read_message (message_header 1 (length es) @ concat (map trace_bytes es) @ s) = ([Reset_metrics, Totals (totals_of es)], Some s)"
    using len [OF assms] assms le_val_chars [of 1 4] le_val_chars [of "length es" 4]
    by (simp add: read_message_def message_header_def readAndProcessBPFData_def trace_struct.bodies_roundtrip fold_totals)
  show "read_message (message_header 2 (length fs) @ concat (map ksm_bytes fs) @ s) = (map (\<lambda>kd. File_event (file_sent kd)) fs, Some s)"
    if "length fs < 2 ^ 32"
    using len [OF that] that le_val_chars [of 2 4] le_val_chars [of "length fs" 4]
    by (simp add: read_message_def message_header_def readAndProcessKSMData_def ksm_struct.bodies_roundtrip)
qed

section \<open>Sessions\<close>

definition round_bytes :: "round \<Rightarrow> string" where
  "round_bytes r = message_header 1 (length (rd_entries r)) @ concat (map trace_bytes (rd_entries r)) @
     message_header 2 (length (rd_files r)) @ concat (map ksm_bytes (rd_files r))"

definition round_updates :: "round \<Rightarrow> update list" where
  "round_updates r = [Reset_metrics, Totals (totals_of (rd_entries r))] @ map (\<lambda>kd. File_event (file_sent kd)) (rd_files r)"

definition countable_round :: "round \<Rightarrow> bool" where
  "countable_round r \<longleftrightarrow> length (rd_entries r) < 2 ^ 32 \<and> length (rd_files r) < 2 ^ 32"

lemma round_read: "countable_round r \<Longrightarrow> readLoop (round_bytes r @ t) = round_updates r @ readLoop t"
  using message_read(1) [of "rd_entries r" "message_header 2 (length (rd_files r)) @ concat (map ksm_bytes (rd_files r)) @ t"]
    message_read(2) [of "rd_entries r" "rd_files r" t]
    readLoop.simps [of "round_bytes r @ t"] readLoop.simps [of "message_header 2 (length (rd_files r)) @ concat (map ksm_bytes (rd_files r)) @ t"]
  by (simp add: countable_round_def round_bytes_def round_updates_def)

lemma rounds_all_read: "\<forall>r\<in>set rs. countable_round r \<Longrightarrow> readLoop (concat (map round_bytes rs) @ t) = concat (map round_updates rs) @ readLoop t"
  by (induction rs) (simp_all add: round_read)

text \<open>The size of a round on the wire.\<close>

definition round_size :: "round \<Rightarrow> nat" where
  "round_size r = 8 + trace_size * length (rd_entries r) + 8 + ksm_size * length (rd_files r)"

lemma length_round_bytes: "length (round_bytes r) = round_size r"
proof -
  have "length (concat (map trace_bytes es)) = trace_size * length es" "length (concat (map ksm_bytes fs)) = ksm_size * length fs" for es fs
    by (induction es; simp add: trace_struct.encode_length) (induction fs; simp add: ksm_struct.encode_length)
  then show ?thesis by (simp add: round_bytes_def round_size_def length_message_header)
qed

lemma length_rounds: "length (concat (map round_bytes rs)) = sum_list (map round_size rs)"
  by (induction rs) (simp_all add: length_round_bytes)

text \<open>What a round that is not finished has sent.\<close>

lemma sent_trace:
  assumes "send_bpftrace rs es stream = Some (ok, out, rs')"
  shows "\<exists>k. out = stream @ take k (message_header 1 (length es) @ concat (map trace_bytes es)) \<and>
    (ok \<longrightarrow> length (message_header 1 (length es) @ concat (map trace_bytes es)) \<le> k)"
  using buffers_sent [of rs "message_header 1 (length es) # map trace_bytes es" stream ok out rs'] assms
  by (auto simp: send_bpftrace_def Let_def simp del: send_buffers.simps)

lemma sent_ksm:
  assumes "send_ksm_events rs fs stream = Some (ok, out, rs')"
  shows "\<exists>k. out = stream @ take k (message_header 2 (length fs) @ concat (map ksm_bytes fs)) \<and>
    (ok \<longrightarrow> length (message_header 2 (length fs) @ concat (map ksm_bytes fs)) \<le> k)"
  using buffers_sent [of rs "message_header 2 (length fs) # map ksm_bytes fs" stream ok out rs'] assms
  by (auto simp: send_ksm_events_def Let_def simp del: send_buffers.simps)

text \<open>The rounds that are begun: those before the service is found stopped.\<close>

definition rounds_begun :: "round list \<Rightarrow> round list" where
  "rounds_begun rs = takeWhile rd_running rs"

lemma rounds_sent:
  assumes "serve_rounds rs stream s = Some (out, s')" and "xs_status s \<noteq> FAILED"
  shows "\<exists>t. out = stream @ t \<and> prefix t (concat (map round_bytes (rounds_begun rs))) \<and>
    (xs_status s' \<noteq> FAILED \<longrightarrow> t = concat (map round_bytes (rounds_begun rs)))"
  using assms
proof (induction rs arbitrary: stream)
  case (Cons r rs)
  show ?case
  proof (cases "rd_running r")
    case False
    then show ?thesis using Cons.prems by (auto simp: rounds_begun_def)
  next
    case True
    let ?m1 = "message_header 1 (length (rd_entries r)) @ concat (map trace_bytes (rd_entries r))"
    let ?m2 = "message_header 2 (length (rd_files r)) @ concat (map ksm_bytes (rd_files r))"
    have begun: "concat (map round_bytes (rounds_begun (r # rs))) = ?m1 @ ?m2 @ concat (map round_bytes (rounds_begun rs))"
      using True by (simp add: rounds_begun_def round_bytes_def)
    obtain ok1 out1 replies where one: "send_bpftrace (rd_replies r) (rd_entries r) stream = Some (ok1, out1, replies)"
      using Cons.prems(1) True by (auto split: option.splits)
    obtain k1 where k1: "out1 = stream @ take k1 ?m1" "ok1 \<longrightarrow> length ?m1 \<le> k1" using sent_trace [OF one] by blast
    show ?thesis
    proof (cases ok1)
      case False
      have "prefix (take k1 ?m1) (concat (map round_bytes (rounds_begun (r # rs))))"
        unfolding begun by (rule prefix_prefix [OF take_is_prefix])
      then show ?thesis using Cons.prems(1) True one False k1(1) by (auto simp: setStatus_def)
    next
      case ok: True
      obtain ok2 out2 replies2 where two: "send_ksm_events replies (rd_files r) out1 = Some (ok2, out2, replies2)"
        using Cons.prems(1) True one ok by (auto split: option.splits)
      obtain k2 where k2: "out2 = out1 @ take k2 ?m2" "ok2 \<longrightarrow> length ?m2 \<le> k2" using sent_ksm [OF two] by blast
      have out1: "out1 = stream @ ?m1" using k1 ok by simp
      show ?thesis
      proof (cases ok2)
        case False
        have "prefix (?m1 @ take k2 ?m2) (concat (map round_bytes (rounds_begun (r # rs))))"
          unfolding begun same_prefix_prefix by (rule prefix_prefix [OF take_is_prefix])
        then show ?thesis
          using Cons.prems(1) True one ok two False k2(1) out1
          by (intro exI [of _ "?m1 @ take k2 ?m2"]) (auto simp: setStatus_def)
      next
        case done2: True
        have out2: "out2 = stream @ ?m1 @ ?m2" using k2 done2 out1 by simp
        have run: "serve_rounds rs (stream @ ?m1 @ ?m2) s = Some (out, s')" using Cons.prems(1) True one ok two done2 out2 by simp
        obtain t where "out = (stream @ ?m1 @ ?m2) @ t" "prefix t (concat (map round_bytes (rounds_begun rs)))"
            "xs_status s' \<noteq> FAILED \<longrightarrow> t = concat (map round_bytes (rounds_begun rs))"
          using Cons.IH [OF run Cons.prems(2)] by blast
        then show ?thesis by (intro exI [of _ "?m1 @ ?m2 @ t"]) (simp add: begun)
      qed
    qed
  qed
qed simp

text \<open>A part of the stream that is long enough for some rounds has them at its beginning.\<close>

lemma rounds_in_part:
  assumes "prefix t (concat (map round_bytes rs))" and "k \<le> length rs" and "sum_list (map round_size (take k rs)) \<le> length t"
  shows "prefix (concat (map round_bytes (take k rs))) t"
proof -
  have "concat (map round_bytes rs) = concat (map round_bytes (take k rs)) @ concat (map round_bytes (drop k rs))"
    by (simp only: append_take_drop_id flip: concat_append map_append)
  then have "prefix (concat (map round_bytes (take k rs))) (concat (map round_bytes rs))" by (rule prefixI)
  from prefix_length_prefix [OF this assms(1)] assms(3) show ?thesis by (simp only: length_rounds)
qed

section \<open>Properties\<close>

text \<open>C24: The two ends of the socket stay in step for whole sessions. Whatever sizes the single \<open>send\<close> calls take
  and however often they are interrupted, the reader understands what a client was served: for every
  round a reset, the totals of the table by domain and the file events in order. A session that ends by the
  stop of the service is decoded to all rounds begun before it. After a failed send, every round whose bytes
  have all been sent is decoded, and there is nothing else in front of, between or behind them than what the
  rounds say: nothing twice, never a byte of one struct taken for another.\<close>

theorem session_decoded:
  assumes "serveClient rs s = Some (stream, s')" and "\<forall>r\<in>set rs. countable_round r"
  shows "(xs_status s' \<noteq> FAILED \<longrightarrow> readLoop stream = concat (map round_updates (rounds_begun rs))) \<and>
    prefix (readLoop stream) (concat (map round_updates (rounds_begun rs))) \<and>
    (\<forall>k \<le> length (rounds_begun rs). sum_list (map round_size (take k (rounds_begun rs))) \<le> length stream \<longrightarrow>
      prefix (concat (map round_updates (take k (rounds_begun rs)))) (readLoop stream))"
proof -
  let ?all = "rounds_begun rs"
  have sent: "prefix stream (concat (map round_bytes ?all))" "xs_status s' \<noteq> FAILED \<longrightarrow> stream = concat (map round_bytes ?all)"
    using rounds_sent [OF assms(1) [unfolded serveClient_def]] by (auto simp: setStatus_def)
  have countable: "\<forall>r\<in>set ?all. countable_round r" using assms(2) by (auto simp: rounds_begun_def dest: set_takeWhileD)
  have whole: "readLoop (concat (map round_bytes ?all)) = concat (map round_updates ?all)"
    using rounds_all_read [OF countable, of "[]"] by (simp add: readLoop_short)
  have "prefix (readLoop stream) (concat (map round_updates ?all))"
    using sent(1) readLoop_prefix unfolding whole [symmetric] by (auto elim!: prefixE)
  moreover have "prefix (concat (map round_updates (take k ?all))) (readLoop stream)"
    if "k \<le> length ?all" "sum_list (map round_size (take k ?all)) \<le> length stream" for k
  proof -
    from rounds_in_part [OF sent(1) that]
    obtain t where t: "stream = concat (map round_bytes (take k ?all)) @ t" by (rule prefixE)
    have "\<forall>r\<in>set (take k ?all). countable_round r" using countable by (auto dest: in_set_takeD)
    from rounds_all_read [OF this, of t] show ?thesis unfolding t by simp
  qed
  ultimately show ?thesis using sent(2) whole by simp
qed

text \<open>Two entries of one domain, one file event, and a service that stops after the first round.\<close>

definition sample_entry :: "traffic_key \<times> metric_data" where
  "sample_entry = (\<lparr>tk_src_ip = 1, tk_dst_ip = 2, tk_src_port = 3, tk_dst_port = 4, tk_domain = ''a.example''\<rparr>,
     \<lparr>md_count = 7, md_last_updated = 0, md_isRisk = False\<rparr>)"

definition sample_rounds :: "round list" where
  "sample_rounds = [\<lparr>rd_running = True, rd_entries = [sample_entry, sample_entry], rd_files = [],
      rd_replies = [(True, Sent 5), (True, Interrupted), (True, Sent 3), (True, Sent 4000), (True, Sent 4000), (True, Sent 8)]\<rparr>,
    \<lparr>rd_running = False, rd_entries = [], rd_files = [], rd_replies = []\<rparr>]"

lemma sample_served: "\<exists>stream s'. serveClient sample_rounds (\<lparr>xs_running = True, xs_initialized = False, xs_uds_initialized = True, xs_status = RUNNING,
    xs_uds_server_fd = 5, xs_service_thread = False, xs_ksm_reader_thread = True\<rparr>) = Some (stream, s') \<and> xs_status s' = RUNNING"
  by (simp add: serveClient_def sample_rounds_def send_bpftrace_def send_ksm_events_def send_all.simps trace_struct.encode_length
      trace_size_def length_message_header setStatus_def Let_def)

theorem session_decoded_witness:
  "\<exists>stream s'. serveClient sample_rounds (\<lparr>xs_running = True, xs_initialized = False, xs_uds_initialized = True, xs_status = RUNNING,
      xs_uds_server_fd = 5, xs_service_thread = False, xs_ksm_reader_thread = True\<rparr>) = Some (stream, s') \<and>
    readLoop stream = round_updates (hd sample_rounds)"
proof -
  obtain stream s' where run: "serveClient sample_rounds (\<lparr>xs_running = True, xs_initialized = False, xs_uds_initialized = True, xs_status = RUNNING,
      xs_uds_server_fd = 5, xs_service_thread = False, xs_ksm_reader_thread = True\<rparr>) = Some (stream, s')" "xs_status s' = RUNNING"
    using sample_served by blast
  have "\<forall>r\<in>set sample_rounds. countable_round r" by (simp add: sample_rounds_def countable_round_def)
  from session_decoded [OF run(1) this] run(2) have "readLoop stream = concat (map round_updates (rounds_begun sample_rounds))" by simp
  also have "rounds_begun sample_rounds = [hd sample_rounds]" by (simp add: rounds_begun_def sample_rounds_def)
  finally show ?thesis using run(1) by auto
qed

end
