(* ===== verification/Interfaces.thy ===== *)
theory Interfaces
  imports TraceConnect
begin

text \<open>
  The network interfaces of the host: attaching the ingress program (XDP) and the egress program (TC) to them and
  removing them again (\<open>FirewallController\<close> of \<open>src/src/user/config/Firewall.hpp\<close> and \<open>main.cpp\<close>), and the
  reaction to interfaces that come and go (\<open>on_interface_changed\<close>, \<open>netlink_monitor_thread\<close>).

  \<open>getifaddrs\<close> delivers one entry for each address of an interface, or fails; its answers, and those of
  the kernel to an attempt to attach, are arguments. The state has the interfaces that carry a
  program, by index. Detaching takes the program off the interface.
\<close>

section \<open>State\<close>

definition AF_INET6 :: u16 where [const_defs]: "AF_INET6 = 10"
definition MAX_IFINDEX :: nat where [const_defs]: "MAX_IFINDEX = 256"

text \<open>An entry of \<open>getifaddrs\<close>: the name, the index that \<open>if_nametoindex\<close> gives for it, the family of the address
  if there is one, and the flag \<open>IFF_UP\<close>.\<close>

record ifaddr =
  ifa_name :: string
  ifa_index :: int
  ifa_family :: "u16 option"
  ifa_up :: bool

text \<open>The answers of the kernel: the n-th list of addresses, and whether an attempt succeeds.\<close>

record net_env =
  getifaddrs :: "nat \<Rightarrow> ifaddr list option"
  drv_ok :: "int \<Rightarrow> bool"
  skb_ok :: "int \<Rightarrow> bool"
  tc_attach_ok :: "int \<Rightarrow> bool"
  xdp_skel :: bool
  tc_skel :: bool

record net_state =
  scans :: nat
  xdp_hooks :: "int set"
  tc_hooks :: "int set"
  tc_attached_map :: "bool list"
  iface_last_up :: "bool list"
  iface_state_known :: "bool list"

definition fresh_net :: net_state where
  "fresh_net = \<lparr>scans = 0, xdp_hooks = {}, tc_hooks = {}, tc_attached_map = replicate MAX_IFINDEX False,
     iface_last_up = replicate MAX_IFINDEX False, iface_state_known = replicate MAX_IFINDEX False\<rparr>"

definition scan :: "net_env \<Rightarrow> net_state \<Rightarrow> ifaddr list option \<times> net_state" where
  "scan e st = (getifaddrs e (scans st), st\<lparr>scans := Suc (scans st)\<rparr>)"

definition is_lo :: "ifaddr \<Rightarrow> bool" where
  "is_lo ifa \<longleftrightarrow> ifa_name ifa = ''lo''"

definition has_inet :: "ifaddr \<Rightarrow> bool" where
  "has_inet ifa \<longleftrightarrow> (case ifa_family ifa of None \<Rightarrow> False | Some f \<Rightarrow> f = AF_INET \<or> f = AF_INET6)"

section \<open>XDP\<close>

text \<open>\<open>attach_xdp_auto\<close>: the driver's mode first, then the generic one.\<close>

definition attach_xdp_auto :: "net_env \<Rightarrow> int \<Rightarrow> bool" where
  "attach_xdp_auto e ifindex \<longleftrightarrow> (if drv_ok e ifindex then True else skb_ok e ifindex)"

fun attach_xdp_loop :: "net_env \<Rightarrow> ifaddr list \<Rightarrow> int list \<Rightarrow> int \<Rightarrow> int set \<Rightarrow> int \<times> int set" where
  "attach_xdp_loop e [] visited count hooks = (count, hooks)"
| "attach_xdp_loop e (ifa # ifas) visited count hooks =
     (if ifa_up ifa \<and> has_inet ifa
      then (if ifa_index ifa \<le> 0 \<or> is_lo ifa \<or> ifa_index ifa \<in> set visited
            then attach_xdp_loop e ifas visited count hooks
            else (let visited = (if length visited < 128 then visited @ [ifa_index ifa] else visited)
                  in if attach_xdp_auto e (ifa_index ifa)
                     then attach_xdp_loop e ifas visited (count + 1) (insert (ifa_index ifa) hooks)
                     else attach_xdp_loop e ifas visited count hooks))
      else attach_xdp_loop e ifas visited count hooks)"

definition attach_xdp_to_all_interfaces :: "net_env \<Rightarrow> net_state \<Rightarrow> int \<times> net_state" where
  "attach_xdp_to_all_interfaces e st =
     (case scan e st of
        (None, st) \<Rightarrow> (-1, st)
      | (Some ifas, st) \<Rightarrow> (let (count, hooks) = attach_xdp_loop e ifas [] 0 (xdp_hooks st) in (count, st\<lparr>xdp_hooks := hooks\<rparr>)))"

definition detach_xdp_from_all_interfaces :: "net_env \<Rightarrow> net_state \<Rightarrow> net_state" where
  "detach_xdp_from_all_interfaces e st =
     (case scan e st of
        (None, st) \<Rightarrow> st
      | (Some ifas, st) \<Rightarrow>
          fold (\<lambda>ifa st. if has_inet ifa \<and> \<not> is_lo ifa \<and> 0 < ifa_index ifa
                         then st\<lparr>xdp_hooks := xdp_hooks st - {ifa_index ifa}\<rparr> else st) ifas st)"

section \<open>TC\<close>

definition detach_tc_from_all_interfaces :: "net_env \<Rightarrow> net_state \<Rightarrow> net_state" where
  "detach_tc_from_all_interfaces e st =
     (case scan e st of
        (None, st) \<Rightarrow> st
      | (Some ifas, st) \<Rightarrow>
          fold (\<lambda>ifa st. if ifa_family ifa = Some AF_INET \<and> \<not> is_lo ifa \<and> 0 < ifa_index ifa
                         then st\<lparr>tc_hooks := tc_hooks st - {ifa_index ifa}\<rparr> else st) ifas st)"

definition detach_interfaces :: "net_env \<Rightarrow> net_state \<Rightarrow> net_state" where
  "detach_interfaces e st = detach_tc_from_all_interfaces e (detach_xdp_from_all_interfaces e st)"

text \<open>\<open>attach_tc_egress\<close> of \<open>main.cpp\<close>. The detaching in front of it names no filter (handle and priority are zero),
  which libbpf refuses, so it has no effect.\<close>

definition attach_tc_egress :: "net_env \<Rightarrow> int \<Rightarrow> net_state \<Rightarrow> bool \<times> net_state" where
  "attach_tc_egress e ifindex st =
     (if \<not> tc_skel e then (False, st)
      else if tc_attach_ok e ifindex then (True, st\<lparr>tc_hooks := insert ifindex (tc_hooks st)\<rparr>)
      else (False, st))"

definition in_range :: "int \<Rightarrow> bool" where
  "in_range ifindex \<longleftrightarrow> \<not> (ifindex \<le> 0 \<or> int MAX_IFINDEX \<le> ifindex)"

definition safe_attach_tc_egress :: "net_env \<Rightarrow> int \<Rightarrow> net_state \<Rightarrow> bool \<times> net_state" where
  "safe_attach_tc_egress e ifindex st =
     (if \<not> in_range ifindex then (False, st)
      else if tc_attached_map st ! nat ifindex then (True, st)
      else (case attach_tc_egress e ifindex st of
              (ok, st) \<Rightarrow> (ok, if ok then st\<lparr>tc_attached_map := (tc_attached_map st)[nat ifindex := True]\<rparr> else st)))"

text \<open>The loop of the start over the interfaces, with its array of visited indices.\<close>

fun attach_tc_loop :: "(int \<Rightarrow> net_state \<Rightarrow> net_state) \<Rightarrow> ifaddr list \<Rightarrow> int set \<Rightarrow> net_state \<Rightarrow> net_state" where
  "attach_tc_loop attach [] visited st = st"
| "attach_tc_loop attach (ifa # ifas) visited st =
     (if ifa_family ifa = None \<or> is_lo ifa \<or> \<not> in_range (ifa_index ifa) \<or> ifa_index ifa \<in> visited
      then attach_tc_loop attach ifas visited st
      else attach_tc_loop attach ifas (insert (ifa_index ifa) visited) (attach (ifa_index ifa) st))"

text \<open>The part of \<open>register_xdp_fw_plugins\<close> that attaches the two programs.\<close>

definition deploy :: "net_env \<Rightarrow> net_state \<Rightarrow> int \<times> net_state" where
  "deploy e st =
     (case scan e st of
        (None, st) \<Rightarrow> attach_xdp_to_all_interfaces e st
      | (Some ifas, st) \<Rightarrow>
          attach_xdp_to_all_interfaces e (attach_tc_loop (\<lambda>i st. snd (safe_attach_tc_egress e i st)) ifas {} st))"

section \<open>Cleaning and reloading\<close>

text \<open>\<open>force_clean_all_net_hooks\<close>: the commands \<open>tc qdisc del\<close> and \<open>ip link set ... xdp off\<close> for every interface with
  an address of any family.\<close>

definition force_clean_all_net_hooks :: "net_env \<Rightarrow> net_state \<Rightarrow> net_state" where
  "force_clean_all_net_hooks e st =
     (case scan e st of
        (None, st) \<Rightarrow> st
      | (Some ifas, st) \<Rightarrow>
          fold (\<lambda>ifa st. if ifa_family ifa = None \<or> is_lo ifa then st
                         else st\<lparr>tc_hooks := tc_hooks st - {ifa_index ifa}, xdp_hooks := xdp_hooks st - {ifa_index ifa}\<rparr>) ifas st)"

definition clear_qdiscs :: "net_env \<Rightarrow> net_state \<Rightarrow> net_state" where
  "clear_qdiscs e st =
     (case scan e st of
        (None, st) \<Rightarrow> st
      | (Some ifas, st) \<Rightarrow>
          fold (\<lambda>ifa st. if ifa_family ifa = None \<or> is_lo ifa then st
                         else st\<lparr>tc_hooks := tc_hooks st - {ifa_index ifa}\<rparr>) ifas st)"

definition reattach :: "net_env \<Rightarrow> int \<Rightarrow> net_state \<Rightarrow> net_state" where
  "reattach e ifindex st =
     (case attach_tc_egress e ifindex st of
        (ok, st) \<Rightarrow> if ok then st\<lparr>tc_attached_map := (tc_attached_map st)[nat ifindex := True]\<rparr> else st)"

definition full_reload_all_xdp_tc :: "net_env \<Rightarrow> net_state \<Rightarrow> net_state" where
  "full_reload_all_xdp_tc e st =
     (let st = clear_qdiscs e (detach_interfaces e st); st = st\<lparr>tc_attached_map := replicate MAX_IFINDEX False\<rparr>
      in if \<not> xdp_skel e then st
         else (case scan e (snd (attach_xdp_to_all_interfaces e st)) of
                 (None, st) \<Rightarrow> st
               | (Some ifas, st) \<Rightarrow> attach_tc_loop (reattach e) ifas {} st))"

section \<open>Interfaces that come and go\<close>

text \<open>\<open>on_interface_changed\<close>, with whether it reloads.\<close>

definition on_interface_changed :: "net_env \<Rightarrow> int \<Rightarrow> bool \<Rightarrow> net_state \<Rightarrow> bool \<times> net_state" where
  "on_interface_changed e ifindex up st =
     (if \<not> in_range ifindex then (False, st)
      else (let i = nat ifindex
            in if iface_state_known st ! i \<and> iface_last_up st ! i = up then (False, st)
               else (let st = st\<lparr>iface_state_known := (iface_state_known st)[i := True], iface_last_up := (iface_last_up st)[i := up]\<rparr>
                     in if up then (True, full_reload_all_xdp_tc e st)
                        else (False, st\<lparr>tc_attached_map := (tc_attached_map st)[i := False]\<rparr>))))"

text \<open>A message of the kernel: its type, the index of the interface with the name that still belongs to it, and
  its flags. The end of a datagram is a message of the type \<open>Nl_done\<close>.\<close>

datatype nl_type = New_link | Del_link | Other_message | Nl_done

record link_message =
  nl_type :: nl_type
  nl_index :: int
  nl_name :: "string option"
  nl_up :: bool
  nl_running :: bool

definition link_event :: "net_env \<Rightarrow> link_message \<Rightarrow> bool list \<times> net_state \<Rightarrow> bool list \<times> net_state" where
  "link_event e msg st =
     (if nl_type msg \<noteq> New_link \<and> nl_type msg \<noteq> Del_link then st
      else (case nl_name msg of
              None \<Rightarrow> st
            | Some name \<Rightarrow>
                if name = ''lo'' then st
                else (let (r, net) = on_interface_changed e (nl_index msg) (nl_type msg = New_link \<and> nl_up msg \<and> nl_running msg) (snd st)
                      in (fst st @ [r], net))))"

text \<open>One \<open>recv\<close>: no data within a second, an overflow, another error, or a datagram. The loop ends when the
  program stops; no error ends it.\<close>

datatype received = No_data | Overflow | Failed | Datagram "link_message list"

fun netlink_loop :: "net_env \<Rightarrow> (bool \<times> received) list \<Rightarrow> bool list \<times> net_state \<Rightarrow> (bool list \<times> net_state) option" where
  "netlink_loop e [] st = None"
| "netlink_loop e ((running, r) # rs) st =
     (if \<not> running then Some st
      else (case r of
              Datagram msgs \<Rightarrow> netlink_loop e rs (fold (link_event e) (takeWhile (\<lambda>m. nl_type m \<noteq> Nl_done) msgs) st)
            | _ \<Rightarrow> netlink_loop e rs st))"

section \<open>The loops as sets\<close>

lemma remove_xdp_fold:
  "fold (\<lambda>ifa st. if P ifa then st\<lparr>xdp_hooks := xdp_hooks st - {f ifa}\<rparr> else st) ifas st =
     st\<lparr>xdp_hooks := xdp_hooks st - f ` {ifa \<in> set ifas. P ifa}\<rparr>"
  by (induction ifas arbitrary: st) (auto intro!: net_state.equality)

lemma remove_tc_fold:
  "fold (\<lambda>ifa st. if P ifa then st\<lparr>tc_hooks := tc_hooks st - {f ifa}\<rparr> else st) ifas st =
     st\<lparr>tc_hooks := tc_hooks st - f ` {ifa \<in> set ifas. P ifa}\<rparr>"
  by (induction ifas arbitrary: st) (auto intro!: net_state.equality)

lemma keep_tc_fold:
  "fold (\<lambda>ifa st. if P ifa then st else st\<lparr>tc_hooks := tc_hooks st - {f ifa}\<rparr>) ifas st =
     st\<lparr>tc_hooks := tc_hooks st - f ` {ifa \<in> set ifas. \<not> P ifa}\<rparr>"
  by (induction ifas arbitrary: st) (auto intro!: net_state.equality)

lemma keep_both_fold:
  "fold (\<lambda>ifa st. if P ifa then st else st\<lparr>tc_hooks := tc_hooks st - {f ifa}, xdp_hooks := xdp_hooks st - {f ifa}\<rparr>) ifas st =
     st\<lparr>tc_hooks := tc_hooks st - f ` {ifa \<in> set ifas. \<not> P ifa}, xdp_hooks := xdp_hooks st - f ` {ifa \<in> set ifas. \<not> P ifa}\<rparr>"
  by (induction ifas arbitrary: st) (auto intro!: net_state.equality)

text \<open>The interfaces that a scan names for each purpose.\<close>

definition xdp_listed :: "ifaddr list \<Rightarrow> int set" where
  "xdp_listed ifas = ifa_index ` {ifa \<in> set ifas. has_inet ifa \<and> \<not> is_lo ifa \<and> 0 < ifa_index ifa}"

definition xdp_wanted :: "ifaddr list \<Rightarrow> int set" where
  "xdp_wanted ifas = ifa_index ` {ifa \<in> set ifas. ifa_up ifa \<and> has_inet ifa \<and> \<not> is_lo ifa \<and> 0 < ifa_index ifa}"

definition tc_listed :: "ifaddr list \<Rightarrow> int set" where
  "tc_listed ifas = ifa_index ` {ifa \<in> set ifas. ifa_family ifa \<noteq> None \<and> \<not> is_lo ifa}"

definition tc_wanted :: "ifaddr list \<Rightarrow> int set" where
  "tc_wanted ifas = {i \<in> tc_listed ifas. in_range i}"

lemma tc_wanted_Cons:
  "tc_wanted (ifa # ifas) = (if ifa_family ifa = None \<or> is_lo ifa \<or> \<not> in_range (ifa_index ifa) then tc_wanted ifas
     else insert (ifa_index ifa) (tc_wanted ifas))"
  by (auto simp: tc_wanted_def tc_listed_def)

lemma attach_xdp_hooks:
  "\<forall>i\<in>set visited. attach_xdp_auto e i \<longrightarrow> i \<in> hooks \<Longrightarrow>
   snd (attach_xdp_loop e ifas visited count hooks) = hooks \<union> {i \<in> xdp_wanted ifas. attach_xdp_auto e i}"
proof (induction e ifas visited count hooks rule: attach_xdp_loop.induct)
  case (1 e visited count hooks)
  then show ?case by (simp add: xdp_wanted_def)
next
  case (2 e ifa ifas visited count hooks)
  show ?case using 2 by (auto simp: xdp_wanted_def Let_def)
qed

text \<open>The loop of TC, for the reloading; the other components of the state stay as they are.\<close>

definition same_ifaces :: "net_state \<Rightarrow> net_state \<Rightarrow> bool" where
  "same_ifaces st st' \<longleftrightarrow> iface_last_up st' = iface_last_up st \<and> iface_state_known st' = iface_state_known st"

lemma tc_reload_hooks:
  assumes "tc_skel e" and "\<forall>i\<in>visited. tc_attach_ok e i \<longrightarrow> i \<in> tc_hooks st"
  shows "tc_hooks (attach_tc_loop (reattach e) ifas visited st) = tc_hooks st \<union> {i \<in> tc_wanted ifas. tc_attach_ok e i} \<and>
    xdp_hooks (attach_tc_loop (reattach e) ifas visited st) = xdp_hooks st \<and> same_ifaces st (attach_tc_loop (reattach e) ifas visited st)"
  using assms(2)
proof (induction ifas arbitrary: visited st)
  case Nil
  then show ?case by (simp add: tc_wanted_def tc_listed_def same_ifaces_def)
next
  case (Cons ifa ifas)
  let ?i = "ifa_index ifa"
  show ?case
  proof (cases "ifa_family ifa = None \<or> is_lo ifa \<or> \<not> in_range ?i")
    case True
    then show ?thesis using Cons by (auto simp: tc_wanted_Cons)
  next
    case False
    have st: "tc_hooks (reattach e ?i st) = (if tc_attach_ok e ?i then insert ?i (tc_hooks st) else tc_hooks st)"
        "xdp_hooks (reattach e ?i st) = xdp_hooks st" "same_ifaces st (reattach e ?i st)"
      using assms(1) by (simp_all add: reattach_def attach_tc_egress_def same_ifaces_def)
    show ?thesis
    proof (cases "?i \<in> visited")
      case True
      then show ?thesis using Cons False by (auto simp: tc_wanted_Cons)
    next
      case new: False
      have "\<forall>i\<in>insert ?i visited. tc_attach_ok e i \<longrightarrow> i \<in> tc_hooks (reattach e ?i st)" using Cons.prems st(1) by auto
      from Cons.IH [OF this] show ?thesis using False new st by (auto simp: tc_wanted_Cons same_ifaces_def)
    qed
  qed
qed

text \<open>A reload on a host whose interfaces stay as they are meanwhile.\<close>

lemma reload_hooks:
  assumes "\<And>n. getifaddrs e n = Some ifas" and "xdp_skel e" and "tc_skel e"
  shows "xdp_hooks (full_reload_all_xdp_tc e st) = xdp_hooks st - xdp_listed ifas \<union> {i \<in> xdp_wanted ifas. attach_xdp_auto e i}"
    and "tc_hooks (full_reload_all_xdp_tc e st) = tc_hooks st - tc_listed ifas \<union> {i \<in> tc_wanted ifas. tc_attach_ok e i}"
proof -
  have inet: "{ifa_index ifa |ifa. ifa \<in> set ifas \<and> ifa_family ifa = Some AF_INET \<and> \<not> is_lo ifa \<and> 0 < ifa_index ifa} \<subseteq> tc_listed ifas"
    by (auto simp: tc_listed_def)
  let ?st = "(clear_qdiscs e (detach_interfaces e st))\<lparr>tc_attached_map := replicate MAX_IFINDEX False\<rparr>"
  have st: "xdp_hooks ?st = xdp_hooks st - xdp_listed ifas" "tc_hooks ?st = tc_hooks st - tc_listed ifas"
    using inet by (auto simp: clear_qdiscs_def detach_interfaces_def detach_tc_from_all_interfaces_def detach_xdp_from_all_interfaces_def
        scan_def assms(1) remove_xdp_fold remove_tc_fold keep_tc_fold xdp_listed_def tc_listed_def)
  obtain count hooks where loop: "attach_xdp_loop e ifas [] 0 (xdp_hooks ?st) = (count, hooks)" by (metis surj_pair)
  have hooks: "hooks = xdp_hooks ?st \<union> {i \<in> xdp_wanted ifas. attach_xdp_auto e i}"
    using attach_xdp_hooks [of "[]" e "xdp_hooks ?st" ifas 0] loop by simp
  have run: "full_reload_all_xdp_tc e st = attach_tc_loop (reattach e) ifas {}
      (?st\<lparr>xdp_hooks := hooks, scans := Suc (Suc (scans ?st))\<rparr>)"
    using loop assms(2) by (simp add: full_reload_all_xdp_tc_def attach_xdp_to_all_interfaces_def scan_def assms(1) Let_def)
  show "xdp_hooks (full_reload_all_xdp_tc e st) = xdp_hooks st - xdp_listed ifas \<union> {i \<in> xdp_wanted ifas. attach_xdp_auto e i}"
    "tc_hooks (full_reload_all_xdp_tc e st) = tc_hooks st - tc_listed ifas \<union> {i \<in> tc_wanted ifas. tc_attach_ok e i}"
    unfolding run using tc_reload_hooks [OF assms(3), of "{}" "?st\<lparr>xdp_hooks := hooks, scans := Suc (Suc (scans ?st))\<rparr>" ifas] st hooks
    by simp_all
qed

section \<open>Repeated notifications\<close>

lemma same_refl: "same_ifaces st st"
  by (simp add: same_ifaces_def)

lemma same_trans: "same_ifaces a b \<Longrightarrow> same_ifaces b c \<Longrightarrow> same_ifaces a c"
  by (simp add: same_ifaces_def)

lemma same_fold: "(\<And>ifa st. same_ifaces st (f ifa st)) \<Longrightarrow> same_ifaces st (fold f ifas st)"
  by (induction ifas arbitrary: st) (auto intro: same_refl same_trans)

lemma same_tc_loop: "same_ifaces st (attach_tc_loop (reattach e) ifas visited st)"
proof (induction ifas arbitrary: visited st)
  case (Cons ifa ifas)
  have "same_ifaces st (reattach e (ifa_index ifa) st)" by (simp add: reattach_def attach_tc_egress_def same_ifaces_def)
  then show ?case using Cons same_trans by auto
qed (simp add: same_refl)

lemma same_reload: "same_ifaces st (full_reload_all_xdp_tc e st)"
proof -
  have parts: "same_ifaces st (detach_xdp_from_all_interfaces e st)" "same_ifaces st (detach_tc_from_all_interfaces e st)"
      "same_ifaces st (clear_qdiscs e st)" "same_ifaces st (snd (attach_xdp_to_all_interfaces e st))" for st
    by (auto simp: detach_xdp_from_all_interfaces_def detach_tc_from_all_interfaces_def clear_qdiscs_def attach_xdp_to_all_interfaces_def
        scan_def remove_xdp_fold remove_tc_fold keep_tc_fold same_ifaces_def split: option.split prod.split)
  let ?st = "(clear_qdiscs e (detach_interfaces e st))\<lparr>tc_attached_map := replicate MAX_IFINDEX False\<rparr>"
  have "same_ifaces st (clear_qdiscs e (detach_interfaces e st))"
    unfolding detach_interfaces_def by (rule same_trans [OF same_trans [OF parts(1) parts(2)] parts(3)])
  then have st: "same_ifaces st ?st" by (simp add: same_ifaces_def)
  let ?at = "snd (attach_xdp_to_all_interfaces e ?st)"
  have at: "same_ifaces st (?at\<lparr>scans := n\<rparr>)" for n using same_trans [OF st parts(4)] by (simp add: same_ifaces_def)
  show ?thesis
    using st at same_trans [OF at same_tc_loop]
    by (auto simp: full_reload_all_xdp_tc_def scan_def Let_def split: option.split)
qed

text \<open>A change as the messages of the kernel report it, and when one is worth a reload: the interface is up, and
  the last that was heard of it, if anything, was that it is down.\<close>

definition link_change :: "link_message \<Rightarrow> (int \<times> bool) option" where
  "link_change msg =
     (if nl_type msg \<noteq> New_link \<and> nl_type msg \<noteq> Del_link \<or> nl_name msg = None \<or> nl_name msg = Some ''lo'' then None
      else Some (nl_index msg, nl_type msg = New_link \<and> nl_up msg \<and> nl_running msg))"

definition reload_due :: "(int \<times> bool) list \<Rightarrow> int \<times> bool \<Rightarrow> bool" where
  "reload_due earlier c \<longleftrightarrow> in_range (fst c) \<and> snd c \<and>
     (let heard = filter (\<lambda>d. fst d = fst c) earlier in heard = [] \<or> \<not> snd (last heard))"

fun reloads_due :: "(int \<times> bool) list \<Rightarrow> (int \<times> bool) list \<Rightarrow> bool list" where
  "reloads_due earlier [] = []"
| "reloads_due earlier (c # cs) = reload_due earlier c # reloads_due (earlier @ [c]) cs"

text \<open>The arrays remember what was last heard.\<close>

definition remembers :: "(int \<times> bool) list \<Rightarrow> net_state \<Rightarrow> bool" where
  "remembers earlier st \<longleftrightarrow> length (iface_state_known st) = MAX_IFINDEX \<and> length (iface_last_up st) = MAX_IFINDEX \<and>
     (\<forall>i. in_range i \<longrightarrow>
        (let heard = filter (\<lambda>d. fst d = i) earlier
         in (iface_state_known st ! nat i \<longleftrightarrow> heard \<noteq> []) \<and> (heard \<noteq> [] \<longrightarrow> iface_last_up st ! nat i = snd (last heard))))"

lemma remembers_same: "same_ifaces st st' \<Longrightarrow> remembers es st \<Longrightarrow> remembers es st'"
  by (simp add: remembers_def same_ifaces_def)

lemma in_range_nonneg: "in_range i \<Longrightarrow> 0 \<le> i"
  by (simp add: in_range_def)

lemma in_range_bound: "in_range i \<Longrightarrow> nat i < MAX_IFINDEX"
  by (auto simp: in_range_def MAX_IFINDEX_def)

lemma change_step:
  assumes "remembers earlier st"
  shows "fst (on_interface_changed e i up st) = reload_due earlier (i, up) \<and> remembers (earlier @ [(i, up)]) (snd (on_interface_changed e i up st))"
proof (cases "in_range i")
  case False
  then show ?thesis using assms
    by (auto simp: on_interface_changed_def reload_due_def remembers_def Let_def split: if_splits)
next
  case True
  let ?heard = "filter (\<lambda>d. fst d = i) earlier"
  have known: "iface_state_known st ! nat i \<longleftrightarrow> ?heard \<noteq> []" "?heard \<noteq> [] \<Longrightarrow> iface_last_up st ! nat i = snd (last ?heard)"
    using assms True by (auto simp: remembers_def Let_def)
  have bound: "nat i < MAX_IFINDEX" using True by (auto simp: in_range_def MAX_IFINDEX_def)
  have lens: "length (iface_state_known st) = MAX_IFINDEX" "length (iface_last_up st) = MAX_IFINDEX" using assms by (simp_all add: remembers_def)
  show ?thesis
  proof (cases "iface_state_known st ! nat i \<and> iface_last_up st ! nat i = up")
    case seen: True
    then have "fst (on_interface_changed e i up st) = False" "snd (on_interface_changed e i up st) = st"
      using True by (simp_all add: on_interface_changed_def Let_def)
    then show ?thesis using assms seen known True by (auto simp: reload_due_def remembers_def Let_def)
  next
    case new: False
    let ?st = "st\<lparr>iface_state_known := (iface_state_known st)[nat i := True], iface_last_up := (iface_last_up st)[nat i := up]\<rparr>"
    have mem: "remembers (earlier @ [(i, up)]) ?st"
      using assms True bound lens by (auto simp: remembers_def Let_def nth_list_update eq_nat_nat_iff in_range_nonneg)
    have run: "fst (on_interface_changed e i up st) = up" "same_ifaces ?st (snd (on_interface_changed e i up st))"
      using new True same_reload [of ?st e] by (auto simp: on_interface_changed_def Let_def same_ifaces_def)
    show ?thesis using run remembers_same [OF run(2) mem] new known True by (auto simp: reload_due_def Let_def)
  qed
qed

lemma messages_step:
  "remembers earlier (snd st) \<Longrightarrow>
   fst (fold (link_event e) msgs st) = fst st @ reloads_due earlier (List.map_filter link_change msgs)"
proof (induction msgs arbitrary: earlier st)
  case (Cons msg msgs)
  show ?case
  proof (cases "link_change msg")
    case None
    then have "link_event e msg st = st" by (auto simp: link_change_def link_event_def split: if_splits option.splits)
    then show ?thesis using Cons None by (simp add: List.map_filter_def)
  next
    case (Some c)
    obtain i up where c: "c = (i, up)" by (cases c)
    have run: "link_event e msg st = (fst st @ [fst (on_interface_changed e i up (snd st))], snd (on_interface_changed e i up (snd st)))"
      using Some c by (auto simp: link_change_def link_event_def split: if_splits option.splits prod.split)
    note step = change_step [OF Cons.prems, of e i up]
    show ?thesis using Cons.IH [of "earlier @ [(i, up)]" "link_event e msg st"] step run Some c by (simp add: List.map_filter_def)
  qed
qed (simp add: List.map_filter_def)

text \<open>All messages of a run of the loop.\<close>

definition messages_of :: "(bool \<times> received) list \<Rightarrow> link_message list" where
  "messages_of rs = concat (map (\<lambda>r. case snd r of Datagram msgs \<Rightarrow> takeWhile (\<lambda>m. nl_type m \<noteq> Nl_done) msgs | _ \<Rightarrow> []) (takeWhile fst rs))"

lemma loop_messages: "netlink_loop e rs st = Some st' \<Longrightarrow> st' = fold (link_event e) (messages_of rs) st"
proof (induction e rs st rule: netlink_loop.induct)
  case (2 e running r rs st)
  then show ?case by (cases r) (auto simp: messages_of_def split: if_splits)
qed simp

section \<open>The record of attached interfaces\<close>

definition tc_map_ok :: "net_state \<Rightarrow> bool" where
  "tc_map_ok st \<longleftrightarrow> length (tc_attached_map st) = MAX_IFINDEX \<and> (\<forall>i. in_range i \<longrightarrow> tc_attached_map st ! nat i \<longrightarrow> i \<in> tc_hooks st)"

lemma tc_loop_invariant:
  assumes "\<And>i st. P st \<Longrightarrow> in_range i \<Longrightarrow> P (attach i st)" and "P st"
  shows "P (attach_tc_loop attach ifas visited st)"
  using assms(2)
proof (induction ifas arbitrary: visited st)
  case (Cons ifa ifas)
  then show ?case using assms(1) [of st "ifa_index ifa"] by auto
qed simp

lemma attach_map_ok: "tc_map_ok st \<Longrightarrow> in_range i \<Longrightarrow> tc_map_ok (snd (safe_attach_tc_egress e i st)) \<and> tc_map_ok (reattach e i st)"
  using in_range_bound
  by (auto simp: tc_map_ok_def safe_attach_tc_egress_def reattach_def attach_tc_egress_def nth_list_update eq_nat_nat_iff in_range_nonneg)

lemma scans_map_ok: "tc_map_ok (st\<lparr>scans := n\<rparr>) \<longleftrightarrow> tc_map_ok st" "tc_map_ok (st\<lparr>xdp_hooks := H\<rparr>) \<longleftrightarrow> tc_map_ok st"
  by (simp_all add: tc_map_ok_def)

lemma xdp_map_ok: "tc_map_ok (snd (attach_xdp_to_all_interfaces e st)) \<longleftrightarrow> tc_map_ok st"
  by (auto simp: attach_xdp_to_all_interfaces_def scan_def tc_map_ok_def split: option.split prod.split)

lemma deploy_map_ok: "tc_map_ok st \<Longrightarrow> tc_map_ok (snd (deploy e st))"
proof -
  assume st: "tc_map_ok st"
  have "tc_map_ok (attach_tc_loop (\<lambda>i st. snd (safe_attach_tc_egress e i st)) ifas {} (st\<lparr>scans := n\<rparr>))" for ifas n
    by (rule tc_loop_invariant [of tc_map_ok]) (simp_all add: attach_map_ok scans_map_ok st)
  then show ?thesis using st by (auto simp: deploy_def scan_def xdp_map_ok scans_map_ok split: option.split)
qed

lemma reload_map_ok: "tc_map_ok (full_reload_all_xdp_tc e st)"
proof -
  have cleared: "tc_map_ok (st\<lparr>tc_attached_map := replicate MAX_IFINDEX False\<rparr>)" for st
    using in_range_bound by (simp add: tc_map_ok_def)
  let ?st = "(clear_qdiscs e (detach_interfaces e st))\<lparr>tc_attached_map := replicate MAX_IFINDEX False\<rparr>"
  let ?at = "snd (attach_xdp_to_all_interfaces e ?st)"
  have at: "tc_map_ok ?at" by (simp only: xdp_map_ok cleared)
  have "tc_map_ok (attach_tc_loop (reattach e) ifas {} (?at\<lparr>scans := n\<rparr>))" for ifas n
    by (rule tc_loop_invariant [of tc_map_ok]) (simp_all add: attach_map_ok scans_map_ok at)
  then show ?thesis
    using cleared at by (auto simp: full_reload_all_xdp_tc_def scan_def Let_def scans_map_ok split: option.split)
qed

lemma down_map_ok:
  "tc_map_ok st \<Longrightarrow> tc_map_ok (st\<lparr>iface_state_known := a, iface_last_up := b, tc_attached_map := (tc_attached_map st)[n := False]\<rparr>)"
proof -
  have "xs[n := False] ! j \<Longrightarrow> j < length xs \<Longrightarrow> xs ! j" for xs j by (cases "n = j") simp_all
  then show "tc_map_ok st \<Longrightarrow> tc_map_ok (st\<lparr>iface_state_known := a, iface_last_up := b, tc_attached_map := (tc_attached_map st)[n := False]\<rparr>)"
    using in_range_bound by (simp add: tc_map_ok_def)
qed

lemma event_map_ok: "tc_map_ok (snd st) \<Longrightarrow> tc_map_ok (snd (link_event e msg st))"
proof -
  have change: "tc_map_ok st \<Longrightarrow> tc_map_ok (snd (on_interface_changed e i up st))" for i up st
    by (simp add: on_interface_changed_def Let_def reload_map_ok down_map_ok)
  assume "tc_map_ok (snd st)"
  then show ?thesis using change [of "snd st"] by (auto simp: link_event_def split: option.split prod.split) (metis snd_conv)+
qed

lemma deploy_remembers: "remembers [] (snd (deploy e fresh_net))"
proof -
  have safe: "same_ifaces st (snd (safe_attach_tc_egress e i st))" for i st
    by (simp add: safe_attach_tc_egress_def attach_tc_egress_def same_ifaces_def)
  have loop: "same_ifaces st (attach_tc_loop (\<lambda>i st. snd (safe_attach_tc_egress e i st)) ifas visited st)" for st ifas visited
    by (rule tc_loop_invariant [of "same_ifaces st"]) (auto intro: same_trans safe same_refl)
  have xdp: "same_ifaces st (snd (attach_xdp_to_all_interfaces e st))" for st
    by (auto simp: attach_xdp_to_all_interfaces_def scan_def same_ifaces_def split: option.split prod.split)
  have start: "remembers [] (fresh_net\<lparr>scans := n\<rparr>)" for n
    using in_range_bound by (simp add: remembers_def fresh_net_def Let_def)
  show ?thesis
    using remembers_same [OF xdp start] remembers_same [OF same_trans [OF loop xdp] start]
    by (auto simp: deploy_def scan_def split: option.split)
qed

section \<open>Properties\<close>

text \<open>C25: The programs are attached again exactly when an interface comes back. Over any run of the listener, from
  the start of the program on, each message about an interface (other than the loopback) leads to a
  reload of all interfaces if and only if it says that the interface is up and the message before it
  about the same interface, if there was one, said that it is down: the repetitions in which the
  kernel sends its messages are ignored. The first message about an interface that has been up all the
  time does cause a reload, and interfaces with an index of 256 or more never do.\<close>

theorem reloads_exact:
  assumes "netlink_loop e rs ([], snd (deploy e fresh_net)) = Some (reloads, st)"
  shows "reloads = reloads_due [] (List.map_filter link_change (messages_of rs))"
  using loop_messages [OF assms] messages_step [of "[]" "([], snd (deploy e fresh_net))" e "messages_of rs"] deploy_remembers
  by (metis append_Nil fst_conv snd_conv)

text \<open>A host with one interface.\<close>

definition one_interface :: net_env where
  "one_interface = \<lparr>getifaddrs = (\<lambda>_. Some [\<lparr>ifa_name = ''eth0'', ifa_index = 2, ifa_family = Some AF_INET, ifa_up = True\<rparr>]),
     drv_ok = (\<lambda>_. False), skb_ok = (\<lambda>_. True), tc_attach_ok = (\<lambda>_. True), xdp_skel = True, tc_skel = True\<rparr>"

definition link_is :: "bool \<Rightarrow> link_message" where
  "link_is up = \<lparr>nl_type = New_link, nl_index = 2, nl_name = Some ''eth0'', nl_up = up, nl_running = up\<rparr>"

definition flapping :: "(bool \<times> received) list" where
  "flapping = [(True, No_data), (True, Datagram [link_is False, link_is False]), (True, Overflow),
     (True, Datagram [link_is True, link_is True, link_is True]), (False, No_data)]"

theorem reloads_exact_witness:
  "\<exists>st. netlink_loop one_interface flapping ([], snd (deploy one_interface fresh_net)) = Some ([False, False, True, False, False], st)"
proof -
  have "netlink_loop e flapping st = Some (fold (link_event e) (messages_of flapping) st)" for e st
    by (simp add: flapping_def messages_of_def link_is_def)
  then obtain reloads st where run: "netlink_loop one_interface flapping ([], snd (deploy one_interface fresh_net)) = Some (reloads, st)"
    by (metis surj_pair)
  have "List.map_filter link_change (messages_of flapping) = [(2, False), (2, False), (2, True), (2, True), (2, True)]"
    by (simp add: flapping_def messages_of_def link_is_def link_change_def List.map_filter_simps)
  then have "reloads = [False, False, True, False, False]"
    using reloads_exact [OF run] by (simp add: reload_due_def in_range_def MAX_IFINDEX_def Let_def)
  with run show ?thesis by blast
qed

text \<open>C26: What a reload leaves. With both programs loaded and a list of interfaces that does not change meanwhile,
  a reload leaves the ingress program on exactly those listed interfaces that are up and accept it,
  and the egress program on exactly those listed interfaces with an index from 1 to 255 that accept
  it, whatever was attached before. An interface with a larger index is protected by the ingress
  program only, which then knows none of its outgoing connections.\<close>

theorem reload_covers:
  assumes "\<forall>n. getifaddrs e n = Some ifas" and "xdp_skel e" and "tc_skel e" and "on_interface_changed e i up st = (True, st')"
  shows "xdp_hooks st' \<inter> xdp_listed ifas = {j \<in> xdp_wanted ifas. drv_ok e j \<or> skb_ok e j} \<and>
    tc_hooks st' \<inter> tc_listed ifas = {j \<in> tc_listed ifas. 0 < j \<and> j < 256 \<and> tc_attach_ok e j}"
proof -
  obtain st0 where st0: "st' = full_reload_all_xdp_tc e st0"
    using assms(4) by (auto simp: on_interface_changed_def Let_def split: if_splits)
  have "xdp_wanted ifas \<subseteq> xdp_listed ifas" by (auto simp: xdp_wanted_def xdp_listed_def)
  then show ?thesis
    using reload_hooks [of e ifas st0] assms(1-3)
    by (auto simp: st0 attach_xdp_auto_def tc_wanted_def in_range_def MAX_IFINDEX_def)
qed

theorem reload_covers_witness:
  "\<exists>st'. on_interface_changed one_interface 2 True fresh_net = (True, st') \<and> xdp_hooks st' \<inter> {2} = {2} \<and> tc_hooks st' \<inter> {2} = {2}"
proof -
  obtain st' where run: "on_interface_changed one_interface 2 True fresh_net = (True, st')"
    by (simp add: on_interface_changed_def in_range_def MAX_IFINDEX_def fresh_net_def Let_def)
  let ?ifas = "[\<lparr>ifa_name = ''eth0'', ifa_index = 2, ifa_family = Some AF_INET, ifa_up = True\<rparr>]"
  have "xdp_listed ?ifas = {2}" "xdp_wanted ?ifas = {2}" "tc_listed ?ifas = {2}"
    by (simp_all add: xdp_listed_def xdp_wanted_def tc_listed_def has_inet_def is_lo_def Collect_conv_if)
  moreover have host: "\<forall>n. getifaddrs one_interface n = Some ?ifas" "xdp_skel one_interface" "tc_skel one_interface"
      "skb_ok one_interface j" "tc_attach_ok one_interface j" for j
    by (simp_all add: one_interface_def)
  ultimately have "xdp_hooks st' \<inter> {2} = {2}" "tc_hooks st' \<inter> {2} = {2}"
    using reload_covers [OF host(1-3) run] host(4,5) by auto
  with run show ?thesis by blast
qed

text \<open>The program's own record of the interfaces that carry the egress program is never wrong in the dangerous
  direction: from the start on, whatever messages arrive and whatever attempts fail, an interface that
  is recorded as attached carries the program, so that none is skipped by mistake.\<close>

theorem attached_truthful:
  assumes "netlink_loop e rs (reloads, snd (deploy e fresh_net)) = Some (reloads', st)" and "0 < i" and "i < 256"
    and "tc_attached_map st ! nat i"
  shows "i \<in> tc_hooks st"
proof -
  have "tc_map_ok (snd (fold (link_event e) msgs st))" if "tc_map_ok (snd st)" for msgs st
    using that by (induction msgs arbitrary: st) (auto simp: event_map_ok)
  moreover have "tc_map_ok fresh_net" using in_range_bound by (simp add: tc_map_ok_def fresh_net_def)
  ultimately have "tc_map_ok (snd (reloads', st))" using loop_messages [OF assms(1)] deploy_map_ok [of fresh_net e] by simp
  then show ?thesis using assms(2-4) by (simp add: tc_map_ok_def in_range_def MAX_IFINDEX_def)
qed

theorem attached_truthful_witness:
  "\<exists>st. netlink_loop one_interface [(False, No_data)] ([], snd (deploy one_interface fresh_net)) = Some ([], st) \<and> 2 \<in> tc_hooks st"
proof -
  let ?st = "snd (deploy one_interface fresh_net)"
  have run: "netlink_loop one_interface [(False, No_data)] ([], ?st) = Some ([], ?st)" by simp
  have "tc_attached_map ?st ! nat 2"
    by (simp add: deploy_def scan_def one_interface_def is_lo_def in_range_def MAX_IFINDEX_def fresh_net_def safe_attach_tc_egress_def
        attach_tc_egress_def attach_xdp_to_all_interfaces_def has_inet_def attach_xdp_auto_def Let_def)
  from attached_truthful [OF run _ _ this] run show ?thesis by auto
qed

end
