(* ===== verification/Dashboard.thy ===== *)
theory Dashboard
  imports Metrics Status Egress BlockRules "HOL-Library.Multiset"
begin

text \<open>
  The dashboard of the user-space program (\<open>src/src/user/main.cpp\<close>): the loop that empties the report map and
  prints the newest reports (\<open>poll_clean_and_print_log_ordered\<close>), the sums of the per-CPU counters
  (\<open>get_percpu_stats_total\<close>), and the rates shown at each tick (\<open>start_global_dashboard\<close>).

  A hash map that is iterated over is the list of its entries in the order of the iteration, each key
  once. Entries that the kernel adds during one pass of the loop are not modelled. \<open>qsort\<close> and the local
  time are arguments.
\<close>

section \<open>Iterating over the report map\<close>

text \<open>\<open>bpf_map_get_next_key\<close> of a hash map: the first key for no key and for one that is not in the map.\<close>

definition first_key :: "(u32 \<times> 'v) list \<Rightarrow> u32 option" where
  "first_key m = (case m of [] \<Rightarrow> None | p # _ \<Rightarrow> Some (fst p))"

fun next_key :: "(u32 \<times> 'v) list \<Rightarrow> u32 option \<Rightarrow> u32 option" where
  "next_key m None = first_key m"
| "next_key m (Some k) = (if k \<in> fst ` set m then first_key (tl (dropWhile (\<lambda>p. fst p \<noteq> k) m)) else first_key m)"

definition delete_elem :: "u32 \<Rightarrow> (u32 \<times> 'v) list \<Rightarrow> (u32 \<times> 'v) list" where
  "delete_elem k m = filter (\<lambda>p. fst p \<noteq> k) m"

text \<open>The entry 10000 stands for all sources and is not touched; the buffer holds 10000 events.\<close>

definition GLOBAL_REPORT :: u32 where [const_defs]: "GLOBAL_REPORT = 10000"
definition SORTED_BUFFER :: nat where [const_defs]: "SORTED_BUFFER = 10000"
definition MAX_LOG_LINES :: nat where [const_defs]: "MAX_LOG_LINES = 5"

definition buffer_event :: "event option \<Rightarrow> event list \<Rightarrow> event list" where
  "buffer_event e buf = (case e of None \<Rightarrow> buf | Some ev \<Rightarrow> if 0 < ev_ts ev then buf @ [ev] else buf)"

partial_function (option) poll_reports ::
  "u32 option \<Rightarrow> event list \<Rightarrow> (u32 \<times> event) list \<Rightarrow> (event list \<times> (u32 \<times> event) list) option" where
  "poll_reports lookup_key buf m =
     (case next_key m lookup_key of
        None \<Rightarrow> Some (buf, m)
      | Some k \<Rightarrow>
          if k = GLOBAL_REPORT then poll_reports (Some k) buf m
          else if SORTED_BUFFER \<le> length buf then poll_reports (Some k) buf (delete_elem k m)
          else poll_reports (Some k) (buffer_event (map_of m k) buf) (delete_elem k m))"

definition compare_by_time :: "event \<Rightarrow> event \<Rightarrow> int" where
  "compare_by_time a b = (if ev_ts a < ev_ts b then -1 else if ev_ts b < ev_ts a then 1 else 0)"

text \<open>One printed line: \<open>std::format\<close> pads with blanks on the right, the milliseconds with zeros on the left.\<close>

definition pad_right :: "nat \<Rightarrow> string \<Rightarrow> string" where
  "pad_right n s = s @ replicate (n - length s) CHR '' ''"

definition pad_zeros :: "nat \<Rightarrow> string \<Rightarrow> string" where
  "pad_zeros n s = replicate (n - length s) CHR ''0'' @ s"

definition report_line :: "(u64 \<Rightarrow> string) \<Rightarrow> u64 \<Rightarrow> event \<Rightarrow> string" where
  "report_line time_str offset ev =
     (let real_unix_ns = ev_ts ev + offset; seconds = real_unix_ns div 1000000000; ms = real_unix_ns mod 1000000000 div 1000000
      in ''['' @ time_str seconds @ ''.'' @ pad_zeros 3 (show_nat (unat ms)) @ ''] '' @ action_icon (ev_status_code ev) @
         '' | STG='' @ pad_right 11 (stage_str (ev_status_code ev)) @ '' RSN='' @ pad_right 12 (reason_str (ev_status_code ev)) @
         '' | '' @ ip_to_str (fk_saddr (ev_key ev)) @ '' -> '' @ ip_to_str (fk_daddr (ev_key ev)) @ [newline])"

text \<open>The events shown, in the order of the lines, and the map that is left.\<close>

definition shown_events :: "(event list \<Rightarrow> event list) \<Rightarrow> event list \<Rightarrow> event list" where
  "shown_events qsort buf =
     (let sorted_buffer = (if 1 < length buf then qsort buf else buf)
      in drop (if MAX_LOG_LINES < length buf then length buf - MAX_LOG_LINES else 0) sorted_buffer)"

definition poll_clean_and_print_log_ordered ::
  "(event list \<Rightarrow> event list) \<Rightarrow> (u64 \<Rightarrow> string) \<Rightarrow> u64 \<Rightarrow> (u32 \<times> event) list \<Rightarrow> (string list \<times> (u32 \<times> event) list) option" where
  "poll_clean_and_print_log_ordered qsort time_str offset m =
     (case poll_reports None [] m of
        None \<Rightarrow> None
      | Some (buf, m) \<Rightarrow> Some (map (report_line time_str offset) (shown_events qsort buf), m))"

section \<open>The loop ends\<close>

definition reported :: "(u32 \<times> event) list \<Rightarrow> event list" where
  "reported m = map snd (filter (\<lambda>p. fst p \<noteq> GLOBAL_REPORT \<and> 0 < ev_ts (snd p)) m)"

lemma delete_absent: "k \<notin> fst ` set m \<Longrightarrow> delete_elem k m = m"
  by (auto simp: delete_elem_def filter_id_conv)

text \<open>The loop in front of a map, whenever its last key is not in it.\<close>

lemma poll_ends:
  assumes "distinct (map fst m)" and "lookup_key \<notin> Some ` fst ` set m" and "length buf + length m \<le> SORTED_BUFFER + 1"
    and "length buf \<le> SORTED_BUFFER" and "GLOBAL_REPORT \<notin> fst ` set m \<longrightarrow> length buf + length m \<le> SORTED_BUFFER"
  shows "poll_reports lookup_key buf m = Some (buf @ reported m, filter (\<lambda>p. fst p = GLOBAL_REPORT) m)"
  using assms
proof (induction "length m" arbitrary: m buf lookup_key rule: less_induct)
  case less
  have start: "next_key m lookup_key = first_key m" using less.prems(2) by (cases lookup_key) auto
  show ?case
  proof (cases m)
    case Nil
    then show ?thesis using start by (subst poll_reports.simps) (simp add: first_key_def reported_def)
  next
    case (Cons p m1)
    obtain k ev where p: "p = (k, ev)" by (cases p)
    have k: "k \<notin> fst ` set m1" "distinct (map fst m1)" using less.prems(1) Cons p by auto
    have head: "next_key m lookup_key = Some k" using start Cons p by (simp add: first_key_def)
    have del: "delete_elem k m = m1" "map_of m k = Some ev"
      using Cons p delete_absent [OF k(1)] by (simp_all add: delete_elem_def)
    show ?thesis
    proof (cases "k = GLOBAL_REPORT")
      case False
      have room: "length buf < SORTED_BUFFER"
      proof (cases m1)
        case Nil
        then show ?thesis using less.prems(5) Cons p False by simp
      next
        case (Cons q m2)
        then show ?thesis using less.prems(3) \<open>m = p # m1\<close> by simp
      qed
      have "poll_reports lookup_key buf m = poll_reports (Some k) (buffer_event (Some ev) buf) m1"
        using room False head del by (subst poll_reports.simps) simp
      also have "\<dots> = Some (buffer_event (Some ev) buf @ reported m1, filter (\<lambda>p. fst p = GLOBAL_REPORT) m1)"
        using less.prems Cons p k False room by (intro less.hyps) (auto simp: buffer_event_def)
      finally show ?thesis using Cons p False by (simp add: reported_def buffer_event_def)
    next
      case global: True
      have next1: "next_key m (Some GLOBAL_REPORT) = first_key m1" by (simp add: Cons p global)
      have step: "poll_reports lookup_key buf m = poll_reports (Some GLOBAL_REPORT) buf m"
        using head global by (subst poll_reports.simps) simp
      show ?thesis
      proof (cases m1)
        case Nil
        then show ?thesis
          using step by (subst (asm) (2) poll_reports.simps) (simp add: next1 first_key_def Cons p global reported_def)
      next
        case (Cons q m2)
        note m1 = this
        obtain k2 ev2 where q: "q = (k2, ev2)" by (cases q)
        have k2: "k2 \<noteq> GLOBAL_REPORT" "k2 \<notin> fst ` set m2" "GLOBAL_REPORT \<notin> fst ` set m2" "distinct (map fst m2)"
          using k m1 q global by auto
        have room: "length buf < SORTED_BUFFER" using less.prems(3) \<open>m = p # m1\<close> m1 by simp
        let ?m = "(GLOBAL_REPORT, ev) # m2"
        have head2: "next_key m (Some GLOBAL_REPORT) = Some k2" "map_of m k2 = Some ev2"
          using next1 \<open>m = p # m1\<close> m1 p q global k2 by (simp_all add: first_key_def)
        have del2: "delete_elem k2 m = ?m" using \<open>m = p # m1\<close> m1 p q global k2 delete_absent [OF k2(2)] by (simp add: delete_elem_def)
        have "poll_reports (Some GLOBAL_REPORT) buf m = poll_reports (Some k2) (buffer_event (Some ev2) buf) ?m"
          using room k2 del2 head2 by (subst poll_reports.simps) simp
        also have "\<dots> = Some (buffer_event (Some ev2) buf @ reported ?m, filter (\<lambda>p. fst p = GLOBAL_REPORT) ?m)"
          using less.prems(3) \<open>m = p # m1\<close> m1 k2 room by (intro less.hyps) (auto simp: buffer_event_def)
        finally show ?thesis
          using step \<open>m = p # m1\<close> m1 p q global k2 by (simp add: reported_def buffer_event_def)
      qed
    qed
  qed
qed

section \<open>What is shown\<close>

text \<open>The contract of \<open>qsort\<close> with \<open>compare_by_time\<close>.\<close>

definition sorts_by_time :: "(event list \<Rightarrow> event list) \<Rightarrow> bool" where
  "sorts_by_time qsort \<longleftrightarrow> (\<forall>xs. mset (qsort xs) = mset xs \<and> sorted_wrt (\<lambda>a b. compare_by_time a b \<le> 0) (qsort xs))"

lemma by_time: "compare_by_time a b \<le> 0 \<longleftrightarrow> ev_ts a \<le> ev_ts b"
  by (auto simp: compare_by_time_def)

lemma sorted_small: "\<not> 1 < length xs \<Longrightarrow> sorted_wrt P xs"
  by (cases xs) auto

lemma shown_newest:
  assumes "sorts_by_time qsort"
  shows "sorted (map ev_ts (shown_events qsort buf))" and "length (shown_events qsort buf) = min MAX_LOG_LINES (length buf)"
    and "\<exists>old. mset buf = mset old + mset (shown_events qsort buf) \<and> (\<forall>a\<in>set old. \<forall>b\<in>set (shown_events qsort buf). ev_ts a \<le> ev_ts b)"
proof -
  let ?b = "if 1 < length buf then qsort buf else buf" let ?n = "length buf - MAX_LOG_LINES"
  have b: "mset ?b = mset buf" "sorted_wrt (\<lambda>a b. ev_ts a \<le> ev_ts b) ?b"
    using assms sorted_small [of buf] by (auto simp: sorts_by_time_def by_time)
  have shown: "shown_events qsort buf = drop ?n ?b" by (simp add: shown_events_def Let_def)
  have split': "take ?n ?b @ drop ?n ?b = ?b" by (rule append_take_drop_id)
  have parts: "sorted_wrt (\<lambda>a b. ev_ts a \<le> ev_ts b) (drop ?n ?b)"
      "\<forall>a\<in>set (take ?n ?b). \<forall>c\<in>set (drop ?n ?b). ev_ts a \<le> ev_ts c"
    using b(2) unfolding sorted_wrt_append [of _ "take ?n ?b" "drop ?n ?b", unfolded split'] by simp_all
  show "sorted (map ev_ts (shown_events qsort buf))" using parts(1) by (simp only: shown sorted_wrt_map)
  have "length ?b = length buf" using b(1) by (metis size_mset)
  then show "length (shown_events qsort buf) = min MAX_LOG_LINES (length buf)" unfolding shown length_drop by simp
  have "mset buf = mset (take ?n ?b) + mset (drop ?n ?b)" by (simp only: b(1) [symmetric] mset_append [symmetric] append_take_drop_id)
  then show "\<exists>old. mset buf = mset old + mset (shown_events qsort buf) \<and> (\<forall>a\<in>set old. \<forall>c\<in>set (shown_events qsort buf). ev_ts a \<le> ev_ts c)"
    using parts(2) shown by metis
qed

section \<open>Counters\<close>

text \<open>The buffer for the values of the CPUs is allocated once, for the number of possible CPUs.\<close>

definition get_percpu_stats_total :: "int \<Rightarrow> bool \<Rightarrow> u64 list option \<Rightarrow> nat option \<Rightarrow> u64 \<times> nat option" where
  "get_percpu_stats_total possible_cpus calloc_ok values cpu_values =
     (case (case cpu_values of Some n \<Rightarrow> Some n | None \<Rightarrow> if possible_cpus \<le> 0 \<or> \<not> calloc_ok then None else Some (nat possible_cpus)) of
        None \<Rightarrow> (0, None)
      | Some n \<Rightarrow> ((case values of None \<Rightarrow> 0 | Some vs \<Rightarrow> sum_list (take n vs)), Some n))"

text \<open>The second copy, a member of \<open>xdp_fw_global_config\<close> with a buffer of its own, which nothing calls.\<close>

definition get_percpu_stats_total_member :: "int \<Rightarrow> bool \<Rightarrow> u64 list option \<Rightarrow> nat option \<Rightarrow> u64 \<times> nat option" where
  "get_percpu_stats_total_member possible_cpus calloc_ok values g_cpu_values =
     (let buffer = (case g_cpu_values of Some n \<Rightarrow> Some n
                    | None \<Rightarrow> if possible_cpus \<le> 0 then None else if \<not> calloc_ok then None else Some (nat possible_cpus))
      in case buffer of
           None \<Rightarrow> (0, None)
         | Some n \<Rightarrow> (case values of None \<Rightarrow> (0, Some n) | Some vs \<Rightarrow> (fold (\<lambda>v total_sum. total_sum + v) (take n vs) 0, Some n)))"

lemma fold_sum: "fold (\<lambda>v t. t + v) vs t = t + sum_list vs" for t :: u64
  by (induction vs arbitrary: t) (simp_all add: add.assoc)

lemma member_same: "get_percpu_stats_total_member = get_percpu_stats_total"
  by (intro ext) (simp add: get_percpu_stats_total_member_def get_percpu_stats_total_def Let_def fold_sum split: option.split)

text \<open>The counters of the ingress program (\<open>stats_map\<close>) with the names of \<open>main.h\<close>: a counter that cannot be read is left out.\<close>

definition stat_names :: "string list" where
  [eval_defs]: "stat_names = [''TCP_OK'', ''TCP_DROP'', ''UDP_PASS'', ''UDP_DROP'', ''ICMP_PASS'', ''ICMP_DROP'']"

definition counter_text :: "(u32 \<rightharpoonup> u64) \<Rightarrow> string" where
  [eval_defs]: "counter_text counters = concat (map (\<lambda>i. case counters (of_nat i) of None \<Rightarrow> []
     | Some val \<Rightarrow> stat_names ! i @ '': '' @ pad_right 6 (show_nat (unat val)) @ '' | '') [0..<6])"

text \<open>The names are those of the counters that the program increments.\<close>

lemma stat_names_agree:
  "map (\<lambda>k. stat_names ! unat k) [STAT_TCP_SYN_SUCCESS, STAT_TCP_SYN_DROP, STAT_UDP_PASS, STAT_UDP_DROP, STAT_ICMP_PASS, STAT_ICMP_DROP] = stat_names"
  by (simp add: stat_names_def const_defs)

text \<open>The other tables of names, which nothing reads. The names of the actions stand at the numbers of the kernel.\<close>

definition action_names :: "string list" where
  "action_names = [''XDP_ABORTED'', ''XDP_DROP'', ''XDP_PASS'', ''XDP_TX'', ''XDP_REDIRECT'']"

definition event_type_names :: "string list" where
  "event_type_names = [''UNKNOWN'', ''EVENT_NEW_FLOW'', ''EVENT_DROP'', ''EVENT_BLOCK'', ''EVENT_SAMPLE'', ''EVENT_TCP_SYN'', ''EVENT_TCP_RST'']"

definition drop_reason_names :: "string list" where
  "drop_reason_names = [''REASON_NONE'', ''REASON_GLOBAL_RATE_LIMIT'', ''REASON_FLOW_RATE_LIMIT'', ''REASON_RULE_MATCH'', ''REASON_TCP_INVALID'']"

lemma action_names_agree:
  "map (\<lambda>a. action_names ! unat (xdp_code a)) [XDP_ABORTED, XDP_DROP, XDP_PASS, XDP_TX, XDP_REDIRECT] = action_names"
  by (simp add: action_names_def)

text \<open>One tick: the readings, and what is shown. The counters are printed at every level.\<close>

record tick =
  di_running :: bool
  di_readable :: bool
  di_commands :: "string option"
  di_packets :: u64
  di_bytes :: u64
  di_counters :: "u32 \<rightharpoonup> u64"
  di_reports :: "(u32 \<times> event) list"

record tick_output =
  do_pps :: u64
  do_bps :: u64
  do_counters :: string
  do_lines :: "string list"

text \<open>The report map is read, and emptied, only at the debugging levels.\<close>

definition dashboard_tick ::
  "user_env \<Rightarrow> skeleton \<Rightarrow> bool \<Rightarrow> (event list \<Rightarrow> event list) \<Rightarrow> (u64 \<Rightarrow> string) \<Rightarrow> u64 \<Rightarrow> tick \<Rightarrow> (u64 \<times> u64) \<times> user_state \<Rightarrow>
    (tick_output \<times> (u64 \<times> u64) \<times> user_state) option" where
  "dashboard_tick e sk debug qsort time_str offset i st =
     (let ((last_packets, last_bytes), u) = st; (_, u) = handle_sigusr_event e sk (di_readable i) (di_commands i) u;
          pps = di_packets i - last_packets; bps = di_bytes i - last_bytes
      in if debug
         then (case poll_clean_and_print_log_ordered qsort time_str offset (di_reports i) of
                 None \<Rightarrow> None
               | Some (lines, m) \<Rightarrow> Some (\<lparr>do_pps = pps, do_bps = bps, do_counters = counter_text (di_counters i), do_lines = lines\<rparr>, (di_packets i, di_bytes i),
                   u\<lparr>kernel := (kernel u)\<lparr>report_to_user_map := map_of m\<rparr>\<rparr>))
         else Some (\<lparr>do_pps = pps, do_bps = bps, do_counters = counter_text (di_counters i), do_lines = []\<rparr>, (di_packets i, di_bytes i), u))"

text \<open>The loop; while ticks are missing it has not ended.\<close>

fun start_global_dashboard ::
  "user_env \<Rightarrow> skeleton \<Rightarrow> bool \<Rightarrow> (event list \<Rightarrow> event list) \<Rightarrow> (u64 \<Rightarrow> string) \<Rightarrow> u64 \<Rightarrow> tick list \<Rightarrow> (u64 \<times> u64) \<times> user_state \<Rightarrow>
    (tick_output list \<times> user_state) option" where
  "start_global_dashboard e sk debug qsort time_str offset [] st = None"
| "start_global_dashboard e sk debug qsort time_str offset (i # is) st =
     (if \<not> di_running i then Some ([], snd st)
      else (case dashboard_tick e sk debug qsort time_str offset i st of
              None \<Rightarrow> None
            | Some (out, st) \<Rightarrow>
                (case start_global_dashboard e sk debug qsort time_str offset is st of
                   None \<Rightarrow> None
                 | Some (outs, u) \<Rightarrow> Some (out # outs, u))))"

text \<open>The rates shown add up to the packets counted, although each is a difference modulo \<open>2^64\<close>.\<close>

lemma rates_add_up:
  assumes "start_global_dashboard e sk debug qsort time_str offset is ((p, b), u) = Some (outs, u')"
  shows "\<exists>n<length is. length outs = n \<and> sum_list (map do_pps outs) = (if n = 0 then 0 else di_packets (is ! (n - 1)) - p)"
  using assms
proof (induction "is" arbitrary: p b u outs)
  case (Cons i "is")
  show ?case
  proof (cases "di_running i")
    case False
    then show ?thesis using Cons.prems by auto
  next
    case True
    obtain out w outs' where tick: "dashboard_tick e sk debug qsort time_str offset i ((p, b), u) = Some (out, w)"
        and rest: "start_global_dashboard e sk debug qsort time_str offset is w = Some (outs', u')" "outs = out # outs'"
      using Cons.prems True by (auto split: option.splits prod.splits)
    obtain v where w: "w = ((di_packets i, di_bytes i), v)" "do_pps out = di_packets i - p"
      using tick by (auto simp: dashboard_tick_def Let_def split: prod.splits option.splits if_splits)
    obtain n where n: "n < length is" "length outs' = n" "sum_list (map do_pps outs') = (if n = 0 then 0 else di_packets (is ! (n - 1)) - di_packets i)"
      using Cons.IH rest(1) w(1) by blast
    show ?thesis by (rule exI [of _ "Suc n"]) (use n w(2) rest(2) in \<open>cases n; simp\<close>)
  qed
qed simp

section \<open>Properties\<close>

lemma reports_poll:
  assumes "reports_ok s" and "distinct (map fst m)" and "map_of m = report_to_user_map s"
  shows "poll_reports None [] m = Some (reported m, [])"
proof -
  have keys: "unat k < 10000" if k: "k \<in> fst ` set m" for k
  proof -
    have "map_of m k \<noteq> None" using k by (simp add: map_of_eq_None_iff)
    then obtain ev where "report_to_user_map s k = Some ev" using assms(3) by auto
    then show ?thesis using assms(1) by (simp add: reports_ok_def)
  qed
  have inj: "inj_on unat (fst ` set m)" by (rule inj_onI) (simp add: word_unat_eq_iff)
  have "card (fst ` set m) = length m" using distinct_card [OF assms(2)] by simp
  moreover have "card (unat ` fst ` set m) \<le> card {..<10000 :: nat}" using keys by (intro card_mono) auto
  ultimately have "length m \<le> SORTED_BUFFER" using card_image [OF inj] by (simp add: SORTED_BUFFER_def)
  moreover have global: "GLOBAL_REPORT \<notin> fst ` set m"
  proof
    assume "GLOBAL_REPORT \<in> fst ` set m"
    from keys [OF this] show False by (simp add: GLOBAL_REPORT_def)
  qed
  moreover have "filter (\<lambda>p. fst p = GLOBAL_REPORT) m = []" using global by (force simp: filter_empty_conv)
  ultimately show ?thesis using poll_ends [OF assms(2), of None "[]"] by simp
qed

text \<open>C29: The dashboard shows the newest reports and empties the map. For every state in which the report map is
  as the kernel programs keep it (which holds in all reachable states), and in whatever order the map
  is iterated over, the loop ends, although it restarts from the first entry after each deletion; the
  lines are the five newest of the events (all of them if there are fewer), oldest first, and afterwards
  the map is empty.\<close>

theorem newest_reported:
  assumes "reports_ok s" and "distinct (map fst m)" and "map_of m = report_to_user_map s" and "sorts_by_time qsort"
  shows "\<exists>shown old. poll_clean_and_print_log_ordered qsort time_str offset m = Some (map (report_line time_str offset) shown, []) \<and>
    sorted (map ev_ts shown) \<and> length shown = min 5 (length (reported m)) \<and> mset (reported m) = mset old + mset shown \<and>
    (\<forall>a\<in>set old. \<forall>b\<in>set shown. ev_ts a \<le> ev_ts b)"
  using shown_newest [OF assms(4), of "reported m"] reports_poll [OF assms(1-3)]
  by (auto simp: poll_clean_and_print_log_ordered_def MAX_LOG_LINES_def)

text \<open>A sort, and a map of six reports.\<close>

definition stable_sort :: "event list \<Rightarrow> event list" where
  "stable_sort = sort_key ev_ts"

lemma stable_sort_sorts: "sorts_by_time stable_sort"
  by (simp add: sorts_by_time_def by_time stable_sort_def flip: sorted_wrt_map)

definition report_at :: "nat \<Rightarrow> event" where
  "report_at t = \<lparr>ev_ts = of_nat t, ev_action = 0, ev_status_code = 0, ev_key = zero_key, ev_pkt_len = 0, ev_type = 0,
     ev_payload_len = 0, ev_payload = replicate DPI_PAYLOAD_SNAP_LEN 0\<rparr>"

definition six_reports :: "(u32 \<times> event) list" where
  "six_reports = map (\<lambda>t. (of_nat t, report_at t)) [4, 2, 6, 1, 5, 3]"

theorem newest_reported_witness:
  "\<exists>shown. poll_clean_and_print_log_ordered stable_sort (\<lambda>_. ''now'') 0 six_reports = Some (map (report_line (\<lambda>_. ''now'') 0) shown, []) \<and>
     length shown = 5"
proof -
  let ?s = "boot_state\<lparr>report_to_user_map := map_of six_reports\<rparr>"
  have "\<forall>ev\<in>snd ` set six_reports. event_ok ev" "\<forall>k\<in>fst ` set six_reports. unat k < 10000"
    by (simp_all add: six_reports_def report_at_def event_ok_def)
  then have ok: "reports_ok ?s" by (auto simp: reports_ok_def dest!: map_of_SomeD)
  have "length (reported six_reports) = 6"
    by (simp add: six_reports_def report_at_def reported_def GLOBAL_REPORT_def word_gt_0)
  moreover have "distinct (map fst six_reports)" by (simp add: six_reports_def)
  ultimately show ?thesis
    using newest_reported [OF ok, of six_reports stable_sort "\<lambda>_. ''now''" 0] stable_sort_sorts by auto
qed

end
