(* ===== verification/Lifecycle.thy ===== *)
theory Lifecycle
  imports Interfaces Startup Exporter Dashboard
begin

text \<open>
  The life of the program (\<open>main\<close> of \<open>src/src/user/main.cpp\<close>): the start with its two worker threads and the
  exporter, the dashboard, and the orderly shutdown (\<open>unload_tc\<close>, \<open>cleanup_and_exit\<close>, \<open>do_graceful_shutdown\<close>).

  The start of the configuration is \<open>startup\<close> of theory Startup, the interfaces are those of theory
  Interfaces, the dashboard is that of theory Dashboard. The shutdown repeats the unloading until it
  answers true: a partial function, which has no value when the loop does not end. It ends the process
  itself, by \<open>exit(0)\<close>. The thread that starts the exporter can end it by \<open>std::terminate\<close>.

  What the other threads do meanwhile to the interfaces is the subject of theory Teardown.
\<close>

section \<open>The process\<close>

record process =
  g_running :: bool
  poll_thread :: bool \<comment> \<open>whether \<open>g_poll_thread\<close> is joinable\<close>
  ui_thread :: bool
  netlink_thread :: bool
  ring_open :: bool
  cpu_values :: bool
  net :: net_state
  service :: exporter_service
  skeleton_loaded :: bool

text \<open>The places at which \<open>main\<close> may meet an exception at run time: the constructor of a thread throws when the system
  refuses one, and the dashboard may throw.\<close>

datatype call_site = At_poll_thread | At_ui_thread | At_exporter | At_netlink | At_dashboard

text \<open>\<open>register_xdp_fw_plugins\<close>: the programs are attached; when the ring buffer cannot be created the function
  returns before it starts the threads. The first component says whether it threw.\<close>

definition register_xdp_fw_plugins :: "net_env \<Rightarrow> bool \<Rightarrow> call_site option \<Rightarrow> process \<Rightarrow> bool \<times> process" where
  "register_xdp_fw_plugins e ring_buffer_ok throws p =
     (let p = p\<lparr>net := snd (deploy e (net p))\<rparr>
      in if \<not> ring_buffer_ok then (False, p)
         else (let p = p\<lparr>ring_open := True\<rparr>
               in if throws = Some At_poll_thread then (True, p)
                  else (let p = p\<lparr>poll_thread := True\<rparr>
                        in if throws = Some At_ui_thread then (True, p) else (False, p\<lparr>ui_thread := True\<rparr>))))"

text \<open>\<open>start_exporter_server\<close>: a detached thread starts the service that the configuration asks for. The thread may
  not get to run any more; \<open>None\<close> is \<open>std::terminate\<close>.\<close>

record exporter_plan =
  ep_config :: exporter_config
  ep_ssl :: ssl_conf
  ep_files_exist :: bool
  ep_files_accepted :: bool
  ep_ciphers_accepted :: bool
  ep_runs :: bool
  ep_reader_ends :: bool \<comment> \<open>the reader of the device leaves its \<open>read\<close> once the service is stopped\<close>

definition start_exporter_server :: "exporter_plan \<Rightarrow> process \<Rightarrow> process option" where
  "start_exporter_server x p =
     (if \<not> ep_runs x then Some p
      else map_option (\<lambda>s. p\<lparr>service := s\<rparr>)
        (run_exporter_server (ep_config x) (ep_ssl x) (ep_files_exist x) (ep_files_accepted x) (ep_ciphers_accepted x) (service p)))"

text \<open>\<open>unload_tc\<close> with its answer: the threads are detached, so they are joinable only the first time.\<close>

definition unload_tc :: "net_env \<Rightarrow> process \<Rightarrow> bool \<times> process" where
  "unload_tc e p =
     (let answer = poll_thread p \<or> ui_thread p; p = p\<lparr>poll_thread := False, ui_thread := False\<rparr>;
          p = p\<lparr>net := force_clean_all_net_hooks e (detach_interfaces e (net p))\<rparr>;
          p = p\<lparr>ring_open := False, cpu_values := False\<rparr>
      in (answer \<or> cpu_values p \<or> cpu_values p, p))"

partial_function (option) unload_loop :: "net_env \<Rightarrow> process \<Rightarrow> process option" where
  "unload_loop e p = (case unload_tc e p of (answer, p) \<Rightarrow> if answer then Some p else unload_loop e p)"

text \<open>\<open>cleanup_and_exit\<close>: nothing sets the flag again, so that the waiting for it to be cleared is over at once.\<close>

definition cleanup_and_exit :: "net_env \<Rightarrow> process \<Rightarrow> process option" where
  "cleanup_and_exit e p = unload_loop e (p\<lparr>g_running := False\<rparr>)"

text \<open>\<open>xdp_fw_config::destroy_skeleton\<close> calls \<open>exit(0)\<close>: the destructor of the static object that owns the skeletons
  runs, and nothing behind the call. The first component is the status of the process.\<close>

definition destroy_skeleton :: "process \<Rightarrow> int \<times> process" where
  "destroy_skeleton p = (0, p\<lparr>skeleton_loaded := False\<rparr>)"

text \<open>How the process ends. Stopping the service joins the thread that reads the device, and waits for ever if that
  stays in a \<open>read\<close>.\<close>

datatype process_end = Exited_with int process | Aborted

definition do_graceful_shutdown :: "net_env \<Rightarrow> bool \<Rightarrow> process \<Rightarrow> process_end option" where
  "do_graceful_shutdown e reader_ends p =
     (case cleanup_and_exit e (p\<lparr>netlink_thread := False\<rparr>) of
        None \<Rightarrow> None
      | Some p \<Rightarrow>
          if xs_running (service p) \<and> xs_ksm_reader_thread (service p) \<and> \<not> reader_ends then None
          else (case destroy_skeleton (p\<lparr>service := stop (service p)\<rparr>) of (status, p) \<Rightarrow> Some (Exited_with status p)))"

text \<open>\<open>main\<close>. The arguments are the outcome of \<open>startup\<close>, whether the ring buffer can be created, where an exception
  is met, and what decides about the exporter; without an exception the dashboard has ended, which is when a signal
  has cleared the flag. The handler of exceptions calls the shutdown, and \<open>main\<close> calls it again behind the
  handler, but no call comes back: it ends the process or it never ends. The thread of the exporter is put
  where it is started; when it aborts the process, it does so wherever the other threads are.\<close>

definition main_run ::
  "net_env \<Rightarrow> exn + global_config \<Rightarrow> bool \<Rightarrow> call_site option \<Rightarrow> exporter_plan \<Rightarrow> process \<Rightarrow> process_end option" where
  "main_run e start ring_buffer_ok throws x p =
     (case start of
        Inl _ \<Rightarrow> do_graceful_shutdown e (ep_reader_ends x) p
      | Inr g \<Rightarrow>
          (case register_xdp_fw_plugins e ring_buffer_ok throws p of (threw, p) \<Rightarrow>
             if threw \<or> throws = Some At_exporter then do_graceful_shutdown e (ep_reader_ends x) p
             else (case start_exporter_server x p of
                     None \<Rightarrow> Some Aborted
                   | Some p \<Rightarrow>
                       if throws = Some At_netlink then do_graceful_shutdown e (ep_reader_ends x) p
                       else (let p = p\<lparr>netlink_thread := True, cpu_values := True\<rparr>
                             in if throws = Some At_dashboard then do_graceful_shutdown e (ep_reader_ends x) p
                                else do_graceful_shutdown e (ep_reader_ends x) (p\<lparr>g_running := False\<rparr>)))))"

definition fresh_process :: "exporter_service \<Rightarrow> process" where
  "fresh_process s = \<lparr>g_running = True, poll_thread = False, ui_thread = False, netlink_thread = False, ring_open = False,
     cpu_values = False, net = fresh_net, service = s, skeleton_loaded = True\<rparr>"

section \<open>When the shutdown ends\<close>

lemma unload_threads:
  "unload_tc e p = (answer, p') \<Longrightarrow> (answer \<longleftrightarrow> poll_thread p \<or> ui_thread p) \<and> \<not> poll_thread p' \<and> \<not> ui_thread p'"
  by (auto simp: unload_tc_def Let_def)

lemma unload_never: "unload_loop e p = Some p' \<Longrightarrow> poll_thread p \<or> ui_thread p"
proof -
  have "\<not> poll_thread p \<longrightarrow> \<not> ui_thread p \<longrightarrow> False" if "unload_loop e p = Some p'" for e p p'
  proof (rule unload_loop.raw_induct [where P = "\<lambda>e p p'. \<not> poll_thread p \<longrightarrow> \<not> ui_thread p \<longrightarrow> False", OF _ that])
    fix f e p p'
    assume IH: "\<And>e p p'. f e p = Some p' \<Longrightarrow> \<not> poll_thread p \<longrightarrow> \<not> ui_thread p \<longrightarrow> False"
      and run: "(case unload_tc e p of (answer, p) \<Rightarrow> if answer then Some p else f e p) = Some p'"
    obtain answer q where q: "unload_tc e p = (answer, q)" by (metis surj_pair)
    show "\<not> poll_thread p \<longrightarrow> \<not> ui_thread p \<longrightarrow> False"
      using unload_threads [OF q] run q IH [of e q p'] by auto
  qed
  then show "unload_loop e p = Some p' \<Longrightarrow> poll_thread p \<or> ui_thread p" by blast
qed

lemma unload_ends: "poll_thread p \<or> ui_thread p \<Longrightarrow> unload_loop e p = Some (snd (unload_tc e p))"
  using unload_threads [of e p] by (subst unload_loop.simps) (auto split: prod.split)

lemma shutdown_result:
  "do_graceful_shutdown e reader_ends p =
     (if (poll_thread p \<or> ui_thread p) \<and> (xs_running (service p) \<and> xs_ksm_reader_thread (service p) \<longrightarrow> reader_ends)
      then Some (Exited_with 0 (let q = snd (unload_tc e (p\<lparr>netlink_thread := False, g_running := False\<rparr>))
        in q\<lparr>service := stop (service q), skeleton_loaded := False\<rparr>))
      else None)"
proof (cases "poll_thread p \<or> ui_thread p")
  case True
  then show ?thesis
    by (simp add: do_graceful_shutdown_def cleanup_and_exit_def destroy_skeleton_def unload_ends unload_tc_def Let_def)
next
  case False
  then have "unload_loop e (p\<lparr>netlink_thread := False, g_running := False\<rparr>) = None"
    using unload_never [of e "p\<lparr>netlink_thread := False, g_running := False\<rparr>"] by (cases "unload_loop e (p\<lparr>netlink_thread := False, g_running := False\<rparr>)") auto
  then show ?thesis using False by (simp add: do_graceful_shutdown_def cleanup_and_exit_def)
qed

text \<open>The service as its constructor leaves it, and what may become of it.\<close>

lemma service_constructed:
  "ExporterService = Some s \<Longrightarrow> xs_running s \<and> xs_ksm_reader_thread s \<and> \<not> xs_service_thread s \<and> \<not> xs_initialized s"
  by (auto simp: ExporterService_def startKsmReader_def)

definition http_exporter :: "exporter_plan \<Rightarrow> bool" where
  "http_exporter x \<longleftrightarrow> ep_runs x \<and> enableExporter (ep_config x) \<and> \<not> enableSocket (ep_config x)"

lemma exporter_start:
  assumes "ExporterService = Some (service p)"
  shows "start_exporter_server x p = None \<longleftrightarrow> http_exporter x"
    and "start_exporter_server x p = Some q \<Longrightarrow> net q = net p \<and> poll_thread q = poll_thread p \<and> ui_thread q = ui_thread p \<and>
      xs_running (service q) \<and> xs_ksm_reader_thread (service q)"
  using service_constructed [OF assms]
  by (auto simp: start_exporter_server_def http_exporter_def run_exporter_server_def startUDSService_def startHttpService_def
      startKsmReader_def prepareSSLConfig_def setStatus_def split: if_splits option.splits)


lemma detach_scans: "scans (detach_interfaces e st) = Suc (Suc (scans st))"
  by (auto simp: detach_interfaces_def detach_tc_from_all_interfaces_def detach_xdp_from_all_interfaces_def scan_def
      remove_xdp_fold remove_tc_fold split: option.split)

text \<open>Which worker threads the start has left: the first one at least.\<close>

definition workers_started :: "bool \<Rightarrow> call_site option \<Rightarrow> bool" where
  "workers_started ring_buffer_ok throws \<longleftrightarrow> ring_buffer_ok \<and> throws \<noteq> Some At_poll_thread"

definition exporter_reached :: "bool \<Rightarrow> call_site option \<Rightarrow> bool" where
  "exporter_reached ring_buffer_ok throws \<longleftrightarrow>
     throws \<noteq> Some At_exporter \<and> \<not> (ring_buffer_ok \<and> throws \<in> {Some At_poll_thread, Some At_ui_thread})"

definition ending :: "process_end \<Rightarrow> int option" where
  "ending r = (case r of Exited_with status _ \<Rightarrow> Some status | Aborted \<Rightarrow> None)"

lemma plugins_state:
  "fst (register_xdp_fw_plugins e ok throws p) \<longleftrightarrow> ok \<and> throws \<in> {Some At_poll_thread, Some At_ui_thread}"
  "service (snd (register_xdp_fw_plugins e ok throws p)) = service p"
  "net (snd (register_xdp_fw_plugins e ok throws p)) = snd (deploy e (net p))"
  "poll_thread (snd (register_xdp_fw_plugins e ok throws p)) \<or> ui_thread (snd (register_xdp_fw_plugins e ok throws p)) \<longleftrightarrow>
     workers_started ok throws \<or> poll_thread p \<or> ui_thread p"
  by (auto simp: register_xdp_fw_plugins_def workers_started_def Let_def)

lemma main_ends:
  assumes "ExporterService = Some s"
  shows "map_option ending (main_run e start ring_buffer_ok throws x (fresh_process s)) =
    (if isl start then None
     else if exporter_reached ring_buffer_ok throws \<and> http_exporter x then Some None
     else if workers_started ring_buffer_ok throws \<and> ep_reader_ends x then Some (Some 0)
     else None)"
proof (cases start)
  case (Inl y)
  then show ?thesis by (simp add: main_run_def shutdown_result fresh_process_def)
next
  case (Inr g)
  obtain threw p where p: "register_xdp_fw_plugins e ring_buffer_ok throws (fresh_process s) = (threw, p)" by fastforce
  have state: "threw \<longleftrightarrow> ring_buffer_ok \<and> throws \<in> {Some At_poll_thread, Some At_ui_thread}" "service p = s"
      "poll_thread p \<or> ui_thread p \<longleftrightarrow> workers_started ring_buffer_ok throws"
    using plugins_state [of e ring_buffer_ok throws "fresh_process s", unfolded p] by (simp_all add: fresh_process_def)
  have service: "ExporterService = Some (service p)" "xs_running s" "xs_ksm_reader_thread s"
    using assms service_constructed [OF assms] state(2) by simp_all
  show ?thesis
  proof (cases "start_exporter_server x p")
    case None
    then show ?thesis
      using exporter_start(1) [OF service(1), of x] state service(2,3) Inr
      by (auto simp: main_run_def p exporter_reached_def shutdown_result ending_def)
  next
    case (Some q)
    show ?thesis
      using Some exporter_start(2) [OF service(1) Some] exporter_start(1) [OF service(1), of x] state service(2,3) Inr
      by (auto simp: main_run_def p exporter_reached_def shutdown_result ending_def Let_def)
  qed
qed





section \<open>Properties\<close>





text \<open>With the outcome of \<open>startup\<close>: no exception of the start is ever followed by the end of the process.\<close>

lemma failed_start_hangs:
  "startup h sk file c u = (Inl y, u') \<Longrightarrow> ExporterService = Some s \<Longrightarrow>
   main_run e (fst (startup h sk file c u)) ring_buffer_ok throws x (fresh_process s) = None"
  using main_ends [of s e "Inl y" ring_buffer_ok throws x] by simp



end
