(* ===== verification/L7Engine.thy ===== *)
theory L7Engine
  imports Metrics Types "HOL-Library.Monad_Syntax"
begin

text \<open>
  The DPI engine of the user-space program (\<open>src/src/user/servie/L7DpiEngine.hpp\<close> and \<open>impl/L7DpiEngine.cpp\<close>): the
  checks on an event, the table of flows, the JA3 fingerprint of a ClientHello, the comparison with the
  risk indicators, and the idle flows of \<open>L7FlowManager.hpp\<close>.

  nDPI, MD5 and the allocation of memory are parameters. A read of the payload outside of its bytes is
  the value \<open>None\<close>.
\<close>

section \<open>Reading a payload\<close>

definition rd8 :: "bytes \<Rightarrow> nat \<Rightarrow> u8 option" where
  "rd8 p i = (if i < length p then Some (p ! i) else None)"

definition be16 :: "bytes \<Rightarrow> nat \<Rightarrow> u16 option" where
  "be16 p i = do { a \<leftarrow> rd8 p i; b \<leftarrow> rd8 p (i + 1); Some (push_bit 8 (ucast a) OR ucast b) }"

lemma rd8_Some: "i < length p \<Longrightarrow> rd8 p i = Some (p ! i)"
  by (simp add: rd8_def)

lemma be16_Some: "i + 1 < length p \<Longrightarrow> be16 p i = Some (push_bit 8 (ucast (p ! i)) OR ucast (p ! (i + 1)))"
  by (simp add: be16_def rd8_def)

lemma be16_None: "be16 p i = None \<longleftrightarrow> length p \<le> i + 1"
  by (auto simp: be16_def rd8_def)

section \<open>JA3\<close>

definition is_grease_value :: "u16 \<Rightarrow> bool" where
  "is_grease_value val \<longleftrightarrow> val AND 0x0F0F = 0x0A0A \<and> drop_bit 8 val = val AND 0xFF"

text \<open>The loops over the cipher suites, the curves and the point formats; each advances its index to the end.\<close>

function ja3_ciphers :: "bytes \<Rightarrow> nat \<Rightarrow> nat \<Rightarrow> nat \<Rightarrow> string list \<Rightarrow> string list option" where
  "ja3_ciphers p offset n i ciphers =
     (if i < n
      then do { cs \<leftarrow> be16 p (offset + i);
                ja3_ciphers p offset n (i + 2) (if is_grease_value cs then ciphers else ciphers @ [show_nat (unat cs)]) }
      else Some ciphers)"
  by auto
termination by (relation "measure (\<lambda>(p, offset, n, i, ciphers). n - i)") auto

function ja3_curves :: "bytes \<Rightarrow> nat \<Rightarrow> nat \<Rightarrow> nat \<Rightarrow> nat \<Rightarrow> string list \<Rightarrow> string list option" where
  "ja3_curves p curve_off curves_len limit i curves =
     (if i + 2 \<le> curves_len \<and> curve_off + i + 2 \<le> limit
      then do { c \<leftarrow> be16 p (curve_off + i);
                ja3_curves p curve_off curves_len limit (i + 2) (if is_grease_value c then curves else curves @ [show_nat (unat c)]) }
      else Some curves)"
  by auto
termination by (relation "measure (\<lambda>(p, curve_off, n, limit, i, curves). n - i)") auto

function ja3_formats :: "bytes \<Rightarrow> nat \<Rightarrow> nat \<Rightarrow> nat \<Rightarrow> nat \<Rightarrow> string list \<Rightarrow> string list option" where
  "ja3_formats p fmt_off fmt_len limit i formats =
     (if i < fmt_len \<and> fmt_off + i < limit
      then do { f \<leftarrow> rd8 p (fmt_off + i); ja3_formats p fmt_off fmt_len limit (i + 1) (formats @ [show_nat (unat f)]) }
      else Some formats)"
  by auto
termination by (relation "measure (\<lambda>(p, fmt_off, n, limit, i, formats). n - i)") auto

declare ja3_ciphers.simps [simp del] ja3_curves.simps [simp del] ja3_formats.simps [simp del]

record ja3_lists =
  j3_extensions :: "string list"
  j3_curves :: "string list"
  j3_formats :: "string list"

definition ja3_curve_list :: "bytes \<Rightarrow> u16 \<Rightarrow> nat \<Rightarrow> nat \<Rightarrow> string list \<Rightarrow> string list option" where
  "ja3_curve_list p ext_type start ext_len curves =
     (if ext_type = 0x000a \<and> 2 \<le> ext_len
      then do { curves_len \<leftarrow> be16 p start; ja3_curves p (start + 2) (unat curves_len) (start + ext_len) 0 curves }
      else Some curves)"

definition ja3_format_list :: "bytes \<Rightarrow> u16 \<Rightarrow> nat \<Rightarrow> nat \<Rightarrow> string list \<Rightarrow> string list option" where
  "ja3_format_list p ext_type start ext_len formats =
     (if ext_type = 0x000b \<and> 1 \<le> ext_len
      then do { fmt_len \<leftarrow> rd8 p start; ja3_formats p (start + 1) (unat fmt_len) (start + ext_len) 0 formats }
      else Some formats)"

function ja3_extensions :: "bytes \<Rightarrow> nat \<Rightarrow> nat \<Rightarrow> ja3_lists \<Rightarrow> ja3_lists option" where
  "ja3_extensions p offset ext_end acc =
     (if offset + 4 \<le> ext_end
      then do { ext_type \<leftarrow> be16 p offset;
                ext_len \<leftarrow> be16 p (offset + 2);
                if offset + 4 + unat ext_len > ext_end then Some acc
                else do { curves \<leftarrow> ja3_curve_list p ext_type (offset + 4) (unat ext_len) (j3_curves acc);
                          formats \<leftarrow> ja3_format_list p ext_type (offset + 4) (unat ext_len) (j3_formats acc);
                          ja3_extensions p (offset + 4 + unat ext_len) ext_end
                            \<lparr>j3_extensions = (if is_grease_value ext_type then j3_extensions acc
                                else j3_extensions acc @ [show_nat (unat ext_type)]), j3_curves = curves, j3_formats = formats\<rparr> } }
      else Some acc)"
  by auto
termination by (relation "measure (\<lambda>(p, offset, ext_end, acc). ext_end - offset)") auto

declare ja3_extensions.simps [simp del]

definition no_lists :: ja3_lists where
  "no_lists = \<lparr>j3_extensions = [], j3_curves = [], j3_formats = []\<rparr>"

text \<open>The part of \<open>compute_ja3_client\<close> behind the cipher suites, and the whole function; the empty text stands
  for no fingerprint.\<close>

definition ja3_text :: "u16 \<Rightarrow> string list \<Rightarrow> ja3_lists \<Rightarrow> string" where
  "ja3_text version ciphers l =
     join_with CHR '','' [show_nat (unat version), join_with CHR ''-'' ciphers, join_with CHR ''-'' (j3_extensions l),
       join_with CHR ''-'' (j3_curves l), join_with CHR ''-'' (j3_formats l)]"

definition ja3_tail :: "bytes \<Rightarrow> nat \<Rightarrow> ja3_lists option" where
  "ja3_tail p offset =
     (if offset + 2 \<le> length p
      then do { ext_total \<leftarrow> be16 p offset;
                ja3_extensions p (offset + 2) (min (offset + 2 + unat ext_total) (length p)) no_lists }
      else Some no_lists)"

definition ja3_rest :: "(string \<Rightarrow> string) \<Rightarrow> bytes \<Rightarrow> u16 \<Rightarrow> string list \<Rightarrow> nat \<Rightarrow> string option" where
  "ja3_rest md5 p version ciphers offset =
     (if length p < offset + 1 then Some []
      else do { comp_len \<leftarrow> rd8 p offset;
                lists \<leftarrow> ja3_tail p (offset + 1 + unat comp_len);
                Some (md5 (ja3_text version ciphers lists)) })"

definition compute_ja3_client :: "(string \<Rightarrow> string) \<Rightarrow> bytes \<Rightarrow> string option" where
  "compute_ja3_client md5 p =
     (if length p < 5 then Some [] else do { content \<leftarrow> rd8 p 0;
      if content \<noteq> 0x16 then Some [] else if length p < 5 + 4 then Some [] else do { handshake \<leftarrow> rd8 p 5;
      if handshake \<noteq> 0x01 then Some [] else if length p < 9 + 2 then Some [] else do { version \<leftarrow> be16 p 9;
      if length p < 11 + 32 then Some [] else if length p < 43 + 1 then Some [] else do { session_len \<leftarrow> rd8 p 43;
      let offset = 43 + (1 + unat session_len);
      if length p < offset + 2 then Some [] else do { cipher_suites_len \<leftarrow> be16 p offset;
      if length p < offset + 2 + unat cipher_suites_len then Some [] else do {
      ciphers \<leftarrow> ja3_ciphers p (offset + 2) (unat cipher_suites_len) 0 [];
      ja3_rest md5 p version ciphers (offset + 2 + unat cipher_suites_len) } } } } } })"

text \<open>\<open>md5_hex\<close>: the bytes of the digest, which the library computes, as two hexadecimal digits each.\<close>

definition hex_digit :: "nat \<Rightarrow> char" where
  "hex_digit n = (if n < 10 then digit_chr n else char_of (87 + n))"

definition md5_hex :: "(string \<Rightarrow> bytes) \<Rightarrow> string \<Rightarrow> string" where
  "md5_hex digest input = concat (map (\<lambda>b. [hex_digit (unat b div 16), hex_digit (unat b mod 16)]) (digest input))"

lemma hex_digit_val: "k < 16 \<Longrightarrow> (of_char (hex_digit k) :: nat) = (if k < 10 then 48 + k else 87 + k)"
  by (simp add: hex_digit_def digit_chr_def)

lemma hex_digit_inject:
  assumes "m < 16" and "n < 16"
  shows "hex_digit m = hex_digit n \<longleftrightarrow> m = n"
proof
  assume "hex_digit m = hex_digit n"
  then have "(of_char (hex_digit m) :: nat) = of_char (hex_digit n)" by (rule arg_cong)
  then show "m = n" using assms by (simp add: hex_digit_val split: if_splits)
qed simp

lemma hex_bytes_inject:
  "concat (map (\<lambda>b. [hex_digit (unat b div 16), hex_digit (unat b mod 16)]) xs) =
   concat (map (\<lambda>b. [hex_digit (unat b div 16), hex_digit (unat b mod 16)]) ys) \<longleftrightarrow> xs = ys" for xs ys :: bytes
proof (induction xs arbitrary: ys)
  case (Cons x xs)
  have "unat x div 16 = unat y div 16 \<and> unat x mod 16 = unat y mod 16 \<longleftrightarrow> x = y" for y
    by (metis div_mult_mod_eq word_unat_eq_iff)
  moreover have "unat z div 16 < 16" for z :: u8
  proof -
    have "unat z < 2 ^ LENGTH(8)" by (rule unsigned_less)
    then show ?thesis by simp
  qed
  ultimately show ?case using Cons.IH by (cases ys) (auto simp: hex_digit_inject)
next
  case Nil
  show ?case by (cases ys) simp_all
qed

text \<open>A fingerprint has two characters for each byte of the digest, and two fingerprints are equal exactly if
  the digests are.\<close>

lemma md5_hex_faithful:
  "length (md5_hex digest input) = 2 * length (digest input)"
  "md5_hex digest a = md5_hex digest b \<longleftrightarrow> digest a = digest b"
  by (simp_all add: md5_hex_def length_concat comp_def sum_list_triv hex_bytes_inject)

subsection \<open>Which reads stay inside\<close>

lemma ciphers_None:
  "offset + n \<le> length p \<Longrightarrow> even i \<Longrightarrow> i \<le> n + 1 \<Longrightarrow> ja3_ciphers p offset n i cs = None \<longleftrightarrow> odd n \<and> i < n \<and> offset + n = length p"
proof (induction p offset n i cs rule: ja3_ciphers.induct)
  case (1 p offset n i cs)
  show ?case
  proof (cases "i < n")
    case True
    show ?thesis
    proof (cases "offset + i + 1 < length p")
      case inside: True
      obtain c where c: "be16 p (offset + i) = Some c" using inside be16_Some by blast
      have "ja3_ciphers p offset n (i + 2) (if is_grease_value c then cs else cs @ [show_nat (unat c)]) = None \<longleftrightarrow>
          odd n \<and> i + 2 < n \<and> offset + n = length p"
        using 1(1) [OF True c] 1(2,3) True by simp
      moreover have "\<not> (odd n \<and> offset + n = length p \<and> \<not> i + 2 < n)" using inside True 1(3) by presburger
      ultimately show ?thesis using True c by (subst ja3_ciphers.simps) auto
    next
      case False
      then have "offset + n = length p" "n = i + 1" using 1(2) True by auto
      moreover have "be16 p (offset + i) = None" using False by (simp add: be16_None)
      ultimately show ?thesis using True 1(3) by (subst ja3_ciphers.simps) auto
    qed
  next
    case False
    then show ?thesis by (subst ja3_ciphers.simps) simp
  qed
qed

lemma curves_Some: "limit \<le> length p \<Longrightarrow> ja3_curves p curve_off n limit i cs \<noteq> None"
proof (induction p curve_off n limit i cs rule: ja3_curves.induct)
  case (1 p curve_off n limit i cs)
  then show ?case by (subst ja3_curves.simps) (auto simp: be16_Some)
qed

lemma formats_Some: "limit \<le> length p \<Longrightarrow> ja3_formats p fmt_off n limit i fs \<noteq> None"
proof (induction p fmt_off n limit i fs rule: ja3_formats.induct)
  case (1 p fmt_off n limit i fs)
  then show ?case by (subst ja3_formats.simps) (auto simp: rd8_Some)
qed

lemma lists_Some:
  assumes "start + n \<le> length p"
  shows "ja3_curve_list p t start n cs \<noteq> None" and "ja3_format_list p t start n fs \<noteq> None"
  using assms curves_Some formats_Some by (auto simp: ja3_curve_list_def ja3_format_list_def be16_Some rd8_Some simp del: not_None_eq)

lemma extensions_Some: "ext_end \<le> length p \<Longrightarrow> ja3_extensions p offset ext_end acc \<noteq> None"
proof (induction p offset ext_end acc rule: ja3_extensions.induct)
  case (1 p offset ext_end acc)
  show ?case
  proof (cases "offset + 4 \<le> ext_end")
    case True
    then obtain t n where tn: "be16 p offset = Some t" "be16 p (offset + 2) = Some n"
      using 1(2) be16_Some [of offset p] be16_Some [of "offset + 2" p] by auto
    show ?thesis
    proof (cases "offset + 4 + unat n > ext_end")
      case False
      then have fits: "offset + 4 + unat n \<le> length p" using 1(2) by simp
      obtain cs fs where "ja3_curve_list p t (offset + 4) (unat n) (j3_curves acc) = Some cs"
          "ja3_format_list p t (offset + 4) (unat n) (j3_formats acc) = Some fs"
        using lists_Some [OF fits] by (metis not_None_eq)
      then show ?thesis using 1 True tn False by (subst ja3_extensions.simps) simp
    qed (use True tn in \<open>subst ja3_extensions.simps, simp\<close>)
  qed (subst ja3_extensions.simps, simp)
qed

lemma rest_Some: "ja3_rest md5 p version ciphers offset \<noteq> None"
proof (cases "length p < offset + 1")
  case False
  have "\<exists>l. ja3_tail p off = Some l" for off
    using extensions_Some [of "min _ (length p)" p "off + 2" no_lists] by (auto simp: ja3_tail_def be16_Some)
  then obtain l where "ja3_tail p (offset + 1 + unat (p ! offset)) = Some l" by blast
  then show ?thesis using False by (simp add: ja3_rest_def rd8_Some)
qed (simp add: ja3_rest_def)

text \<open>Where the list of cipher suites of a ClientHello lies, if the header is complete.\<close>

definition cipher_list :: "bytes \<Rightarrow> (nat \<times> nat) option" where
  "cipher_list p =
     (if length p < 44 \<or> p ! 0 \<noteq> 0x16 \<or> p ! 5 \<noteq> 0x01 then None
      else (let offset = 44 + unat (p ! 43)
            in if length p < offset + 2 then None
               else (let n = unat (push_bit 8 (ucast (p ! offset)) OR ucast (p ! (offset + 1)) :: u16)
                     in if length p < offset + 2 + n then None else Some (offset + 2, n))))"

lemma ja3_reads:
  "compute_ja3_client md5 p = None \<longleftrightarrow> (\<exists>off n. cipher_list p = Some (off, n) \<and> odd n \<and> off + n = length p)"
proof (cases "cipher_list p")
  case None
  then have "compute_ja3_client md5 p \<noteq> None"
    by (auto simp: cipher_list_def compute_ja3_client_def rd8_def be16_Some Let_def split: if_splits)
  then show ?thesis using None by simp
next
  case (Some on)
  obtain off n where on: "on = (off, n)" by (cases on)
  have c: "44 \<le> length p" "p ! 0 = 0x16" "p ! 5 = 0x01" "off = 44 + unat (p ! 43) + 2"
      "n = unat (push_bit 8 (ucast (p ! (44 + unat (p ! 43)))) OR ucast (p ! (44 + unat (p ! 43) + 1)) :: u16)" "off + n \<le> length p"
    using Some on by (auto simp: cipher_list_def Let_def split: if_splits)
  have "compute_ja3_client md5 p =
      (case ja3_ciphers p off n 0 [] of None \<Rightarrow> None
       | Some cs \<Rightarrow> ja3_rest md5 p (push_bit 8 (ucast (p ! 9)) OR ucast (p ! 10)) cs (off + n))"
    using c by (auto simp: compute_ja3_client_def rd8_def be16_Some Let_def split: option.split)
  moreover have "ja3_ciphers p off n 0 [] = None \<longleftrightarrow> odd n \<and> off + n = length p"
    using ciphers_None [of off n p 0 "[]"] c(6) by (auto simp: odd_pos)
  ultimately show ?thesis using Some on by (auto simp: rest_Some split: option.split)
qed

section \<open>The engine\<close>

text \<open>The parts of a flow of nDPI that the engine looks at, and what it remembers besides; a new flow is zero.\<close>

record 'n ndpi_flow =
  nf_host_server_name :: string
  nf_ja4_client :: string
  nf_state :: 'n

record 'n ndpi =
  zero_state :: 'n
  detection_process_packet :: "'n ndpi_flow \<Rightarrow> bytes \<Rightarrow> 'n ndpi_flow \<times> u16 \<times> u16"
  get_master_proto :: "'n ndpi_flow \<Rightarrow> u16"
  get_proto_by_id :: "u16 \<Rightarrow> string option"
  md5_digest :: "string \<Rightarrow> bytes"

record 'n engine =
  flow_table :: "string \<rightharpoonup> 'n ndpi_flow"
  traffic :: "traffic_key \<rightharpoonup> metric_data"

definition get_birectional_key :: "l7_dpi_event \<Rightarrow> string" where
  "get_birectional_key e =
     join_with CHR ''_''
       [show_nat (unat (min (l7_src_ip e) (l7_dst_ip e))), show_nat (unat (max (l7_src_ip e) (l7_dst_ip e))),
        show_nat (unat (min (l7_src_port e) (l7_dst_port e))), show_nat (unat (max (l7_src_port e) (l7_dst_port e))),
        show_nat (unat (l7_ip_proto e))]"

definition get_or_create_ndpi_flow :: "'n ndpi \<Rightarrow> bool \<Rightarrow> string \<Rightarrow> 'n engine \<Rightarrow> 'n ndpi_flow option \<times> 'n engine" where
  "get_or_create_ndpi_flow nd malloc_ok key en =
     (case flow_table en key of
        Some flow \<Rightarrow> (Some flow, en)
      | None \<Rightarrow>
          if malloc_ok
          then (let flow = \<lparr>nf_host_server_name = [], nf_ja4_client = [], nf_state = zero_state nd\<rparr>
                in (Some flow, en\<lparr>flow_table := (flow_table en)(key \<mapsto> flow)\<rparr>))
          else (None, en))"

definition checkIPReputation :: "u32 \<Rightarrow> risk_indicators \<Rightarrow> bool" where
  "checkIPReputation ip ri = isMatchIPs (ucast ip) ri"

definition checkFileReputation :: "string \<Rightarrow> risk_indicators \<Rightarrow> bool" where
  "checkFileReputation name ri = isMatchFile name ri"

definition checkHostReputation :: "u32 \<Rightarrow> string \<Rightarrow> risk_indicators \<Rightarrow> bool" where
  "checkHostReputation dst_ip name ri = isMatchHost name ri"

definition checkJA3Fingerprint :: "'n ndpi \<Rightarrow> 'n ndpi_flow \<Rightarrow> bytes \<Rightarrow> risk_indicators \<Rightarrow> bool option" where
  "checkJA3Fingerprint nd flow tls_payload ri =
     do { ja3_client \<leftarrow> compute_ja3_client (md5_hex (md5_digest nd)) tls_payload;
          let ja4c = nf_ja4_client flow
          in Some (ja3_client \<noteq> [] \<and> isMatchApplication ja3_client ri \<or> ja4c \<noteq> [] \<and> isMatchApplication ja4c ri) }"

text \<open>The verdict of \<open>riskChainFilter\<close>, which goes nowhere but into the metrics.\<close>

definition risk_verdict :: "'n ndpi \<Rightarrow> l7_dpi_event \<Rightarrow> 'n ndpi_flow \<Rightarrow> bytes \<Rightarrow> risk_indicators \<Rightarrow> bool option" where
  "risk_verdict nd e flow tls_payload ri =
     (if l7_dir e = DIR_IN
      then do { ja3 \<leftarrow> checkJA3Fingerprint nd flow tls_payload ri; Some (checkIPReputation (l7_src_ip e) ri \<or> ja3) }
      else Some (checkIPReputation (l7_dst_ip e) ri \<or> checkFileReputation (nf_host_server_name flow) ri \<or>
        checkHostReputation (l7_dst_ip e) (nf_host_server_name flow) ri))"

definition riskChainFilter ::
  "'n ndpi \<Rightarrow> int \<Rightarrow> bool \<Rightarrow> l7_dpi_event \<Rightarrow> 'n ndpi_flow \<Rightarrow> bytes \<Rightarrow> risk_indicators \<Rightarrow> 'n engine \<Rightarrow> 'n engine option" where
  "riskChainFilter nd now has_sni e flow tls_payload ri en =
     (if \<not> has_sni then Some en
      else do { is_risky \<leftarrow> risk_verdict nd e flow tls_payload ri;
                Some (en\<lparr>traffic := update_metrics now
                  \<lparr>tk_src_ip = l7_src_ip e, tk_dst_ip = l7_dst_ip e, tk_src_port = l7_src_port e, tk_dst_port = l7_dst_port e,
                    tk_domain = clean_text (nf_host_server_name flow)\<rparr> is_risky (traffic en)\<rparr>) })"

text \<open>The checks of \<open>analyze_packet\<close> in front of the engine: the error, or the packet and the length of its headers.\<close>

definition packet_headers :: "l7_dpi_event \<Rightarrow> string + bytes \<times> nat" where
  "packet_headers e =
     (if unat (l7_l3_packet_len e) < 20 then Inl ''BAD_PACKET''
      else
        (let safe_len = min (unat (l7_l3_packet_len e)) DPI_PAYLOAD_SNAP_LEN;
             local_packet = take safe_len (l7_l3_packet e);
             ip_hdr_len = unat (local_packet ! 0 AND 0x0F) * 4; protocol = local_packet ! 9
         in if length local_packet < ip_hdr_len then Inl ''BAD_IP_LEN''
            else if protocol = IPPROTO_TCP then
              (if length local_packet < ip_hdr_len + 20 then Inl ''BAD_TCP_LEN''
               else (let total = ip_hdr_len + unat (drop_bit 4 (local_packet ! (ip_hdr_len + 12))) * 4
                     in if length local_packet \<le> total then Inl ''NO_PAYLOAD'' else Inr (local_packet, total)))
            else if protocol = IPPROTO_UDP then
              (if length local_packet < ip_hdr_len + 8 then Inl ''BAD_UDP_LEN''
               else (let total = ip_hdr_len + 8
                     in if length local_packet \<le> total then Inl ''NO_PAYLOAD'' else Inr (local_packet, total)))
            else Inl ''UNSUPPORTED_L4''))"

definition proto_of :: "'n ndpi \<Rightarrow> 'n ndpi_flow \<Rightarrow> u16 \<Rightarrow> u16 \<Rightarrow> u16" where
  "proto_of nd flow app master = (if app \<noteq> 0 then app else if master \<noteq> 0 then master else get_master_proto nd flow)"

text \<open>\<open>analyze_packet\<close>: the name of the protocol, whether the flow was recognised, and the engine; \<open>None\<close> when a
  read leaves the payload. The event of a null pointer is not modelled, the only caller passes none.\<close>

definition analyze_packet ::
  "'n ndpi \<Rightarrow> int \<Rightarrow> bool \<Rightarrow> risk_indicators \<Rightarrow> l7_dpi_event \<Rightarrow> 'n engine \<Rightarrow> ((string \<times> bool) \<times> 'n engine) option" where
  "analyze_packet nd now malloc_ok ri e en =
     (case packet_headers e of
        Inl err \<Rightarrow> Some ((err, False), en)
      | Inr (local_packet, total_hdr_len) \<Rightarrow>
          (let flow_key = get_birectional_key e
           in case get_or_create_ndpi_flow nd malloc_ok flow_key en of
                (None, en) \<Rightarrow> Some ((''INTERNAL_ERROR(OOM)'', False), en)
              | (Some flow, en) \<Rightarrow>
                  (let (flow, app, master) = detection_process_packet nd flow local_packet;
                       en = en\<lparr>flow_table := (flow_table en)(flow_key \<mapsto> flow)\<rparr>;
                       proto_id = proto_of nd flow app master;
                       proto_name = (case get_proto_by_id nd proto_id of None \<Rightarrow> ''UNKNOWN'' | Some name \<Rightarrow> name);
                       has_sni = (nf_host_server_name flow \<noteq> [])
                   in if proto_id \<noteq> 0 \<and> has_sni
                      then do { en \<leftarrow> riskChainFilter nd now has_sni e flow (drop total_hdr_len local_packet) ri en;
                                Some ((proto_name, True), en\<lparr>flow_table := (flow_table en)(flow_key := None)\<rparr>) }
                      else Some ((proto_name, False), en))))"

section \<open>Idle flows\<close>

text \<open>\<open>L7FlowManager\<close>: flows with the time of their last use, and its collector. The engine does not use it. A
  lookup refreshes a flow or creates one; the collector removes what has been idle for the limit.\<close>

definition getOrCreateFlow :: "'f \<Rightarrow> int \<Rightarrow> string \<Rightarrow> (string \<rightharpoonup> 'f \<times> int) \<Rightarrow> 'f \<times> (string \<rightharpoonup> 'f \<times> int)" where
  "getOrCreateFlow fresh now key tab =
     (case tab key of
        Some (flow, last_seen) \<Rightarrow> (flow, tab(key \<mapsto> (flow, now)))
      | None \<Rightarrow> (fresh, tab(key \<mapsto> (fresh, now))))"

definition isExpired :: "int \<Rightarrow> int \<Rightarrow> 'f \<times> int \<Rightarrow> bool" where
  "isExpired now timeout session \<longleftrightarrow> now - snd session \<ge> timeout"

definition perform_gc :: "int \<Rightarrow> int \<Rightarrow> (string \<rightharpoonup> 'f \<times> int) \<Rightarrow> (string \<rightharpoonup> 'f \<times> int)" where
  "perform_gc now timeout tab =
     (\<lambda>key. case tab key of None \<Rightarrow> None | Some session \<Rightarrow> if isExpired now timeout session then None else Some session)"

definition get_active_flow_count :: "(string \<rightharpoonup> 'f \<times> int) \<Rightarrow> nat" where
  "get_active_flow_count tab = card (dom tab)"

lemma gc_count: "finite (dom tab) \<Longrightarrow> get_active_flow_count (perform_gc now timeout tab) \<le> get_active_flow_count tab"
  unfolding get_active_flow_count_def by (rule card_mono) (auto simp: perform_gc_def split: option.splits)

lemma gc_keeps_used: "0 < timeout \<Longrightarrow> perform_gc now timeout (snd (getOrCreateFlow fresh now key tab)) key = Some (fst (getOrCreateFlow fresh now key tab), now)"
  by (auto simp: perform_gc_def getOrCreateFlow_def isExpired_def split: option.split)

section \<open>Properties\<close>

text \<open>C23: The JA3 computation reads inside the payload with exactly one exception: a ClientHello whose list of
  cipher suites has an odd length and ends with the payload makes it read the byte behind the payload.
  Every other input, however its length fields are set, is handled without leaving the payload.\<close>

theorem ja3_out_of_bounds:
  "compute_ja3_client md5 p = None \<longleftrightarrow> (\<exists>off n. cipher_list p = Some (off, n) \<and> odd n \<and> off + n = length p)"
  by (rule ja3_reads)

text \<open>Such a payload.\<close>

definition odd_hello :: bytes where
  "odd_hello = [0x16, 3, 1, 0, 44, 1, 0, 0, 40, 3, 3] @ replicate 32 0 @ [0, 0, 1, 0x13]"

lemma odd_hello_overread: "compute_ja3_client md5 odd_hello = None"
  unfolding ja3_reads by (simp add: cipher_list_def odd_hello_def nth_append)

lemma keys_inject:
  assumes "xs \<noteq> []" and "ys \<noteq> []"
  shows "join_with CHR ''_'' (map show_nat xs) = join_with CHR ''_'' (map show_nat ys) \<longleftrightarrow> xs = ys"
proof
  have clean: "\<forall>w\<in>set (map show_nat zs). CHR ''_'' \<notin> set w" for zs
    using show_nat_digits by (fastforce simp: is_digit_def)
  assume "join_with CHR ''_'' (map show_nat xs) = join_with CHR ''_'' (map show_nat ys)"
  then have "map show_nat xs = map show_nat ys"
    using split_join [OF _ clean, of xs] split_join [OF _ clean, of ys] assms by (metis map_is_Nil_conv)
  then have "map num_of (map show_nat xs) = map num_of (map show_nat ys)" by simp
  then show "xs = ys" by (simp add: comp_def)
qed simp

lemma unat_same: "unat a = unat b \<longleftrightarrow> a = b" for a b :: "'a::len word"
proof
  assume "unat a = unat b"
  then have "of_nat (unat a) = (of_nat (unat b) :: 'a word)" by simp
  then show "a = b" by simp
qed simp

lemma min_max_pair: "min a b = min c d \<and> max a b = max c d \<longleftrightarrow> {a, b} = {c, d}" for a b c d :: "'a::linorder"
  by (auto simp: min_def max_def doubleton_eq_iff)

text \<open>The key of a flow is the same for both directions, as intended, but it orders the addresses and the ports
  independently of each other: two events share a flow exactly when they have the same protocol, the
  same pair of addresses and the same pair of ports, so a connection from port 1000 to port 2000 and
  one from port 2000 to port 1000 of the same hosts are analysed as one.\<close>

theorem flow_key_shared:
  "get_birectional_key e = get_birectional_key f \<longleftrightarrow>
     {l7_src_ip e, l7_dst_ip e} = {l7_src_ip f, l7_dst_ip f} \<and> {l7_src_port e, l7_dst_port e} = {l7_src_port f, l7_dst_port f} \<and>
     l7_ip_proto e = l7_ip_proto f"
proof -
  have key: "get_birectional_key g = join_with CHR ''_'' (map show_nat
      [unat (min (l7_src_ip g) (l7_dst_ip g)), unat (max (l7_src_ip g) (l7_dst_ip g)),
       unat (min (l7_src_port g) (l7_dst_port g)), unat (max (l7_src_port g) (l7_dst_port g)), unat (l7_ip_proto g)])" for g
    by (simp add: get_birectional_key_def)
  show ?thesis
    unfolding key min_max_pair [symmetric] by (subst keys_inject) (auto simp: unat_same)
qed

lemma bit_swap:
  "bit (bpf_ntohl w) n \<longleftrightarrow> n < 8 \<and> bit w (n + 24) \<or> 8 \<le> n \<and> n < 16 \<and> bit w (n + 8) \<or> 16 \<le> n \<and> n < 24 \<and> bit w (n - 8) \<or>
     24 \<le> n \<and> n < 32 \<and> bit w (n - 24)"
proof -
  have "(0x00FF0000 :: u32) = push_bit 16 (mask 8)" "(0x0000FF00 :: u32) = push_bit 8 (mask 8)"
    by (simp_all add: mask_eq_exp_minus_1 push_bit_eq_mult)
  then have m: "bit (0x00FF0000 :: u32) n \<longleftrightarrow> 16 \<le> n \<and> n < 24" "bit (0x0000FF00 :: u32) n \<longleftrightarrow> 8 \<le> n \<and> n < 16" for n
    by (simp_all only: bit_push_bit_iff bit_mask_iff possible_bit_word) auto
  show ?thesis
    unfolding bpf_ntohl_def bpf_htonl_def bit_or_iff bit_and_iff m bit_push_bit_iff bit_drop_bit_eq comp_def possible_bit_word
    using bit_imp_le_length [of w n] bit_imp_le_length [of w "n + 24"]
    by (cases "n < 8"; cases "n < 16"; cases "n < 24") (auto simp: add.commute)
qed

lemma swap_twice: "bpf_ntohl (bpf_ntohl w) = w"
proof (rule bit_word_eqI)
  fix n assume "n < LENGTH(32)"
  then show "bit (bpf_ntohl (bpf_ntohl w)) n = bit w n"
    unfolding bit_swap by (cases "n < 8"; cases "n < 16"; cases "n < 24") auto
qed

lemma reputation_of_feed:
  assumes "register_risks pton6 cols no_indicators = (Inr (), ri)"
  shows "checkIPReputation ip ri \<longleftrightarrow> bpf_ntohl ip \<in> ipv4_of cols"
proof -
  have narrow: "(ucast (ucast w :: u64) :: u32) = w" for w
    by (rule bit_word_eqI) (simp add: bit_simps)
  have same: "(ucast v :: u64) = ucast w \<longleftrightarrow> v = w" for v w :: u32
    using narrow by metis
  have "(ucast ip :: u64) \<in> (\<lambda>a. ucast (bpf_ntohl a)) ` ipv4_of cols \<longleftrightarrow> ip \<in> bpf_ntohl ` ipv4_of cols"
    unfolding image_iff same ..
  also have "\<dots> \<longleftrightarrow> bpf_ntohl ip \<in> ipv4_of cols" by (metis image_iff swap_twice)
  finally show ?thesis
    using registered_tables [OF assms] by (simp add: checkIPReputation_def isMatchIPs_def no_indicators_def)
qed

text \<open>What the engine recognises of a feed. For an outgoing flow the verdict is: the destination with its bytes
  reversed is an IPv4 address of the feed (the table is in host byte order, the lookup in network
  byte order), or the server name is listed as a file hash, path or rule, or as a mutex. No domain,
  host name, URL or address range of the feed has any influence.\<close>

theorem outgoing_verdict:
  assumes "register_risks pton6 cols no_indicators = (Inr (), ri)" and "l7_dir e \<noteq> DIR_IN"
  shows "risk_verdict nd e flow p ri = Some (bpf_ntohl (l7_dst_ip e) \<in> ipv4_of cols \<or>
    nf_host_server_name flow \<in> of_types file_types cols \<or> nf_host_server_name flow \<in> of_types {''mutex''} cols)"
  using registered_tables [OF assms(1)] reputation_of_feed [OF assms(1)] assms(2)
  by (simp add: risk_verdict_def checkFileReputation_def checkHostReputation_def isMatchFile_def isMatchHost_def no_indicators_def)

definition outgoing_event :: "u32 \<Rightarrow> l7_dpi_event" where
  "outgoing_event dst = \<lparr>l7_src_ip = 0x0100000A, l7_dst_ip = dst, l7_src_port = 0x901F, l7_dst_port = 0xBB01, l7_ip_proto = IPPROTO_TCP,
     l7_timestamp_ns = 0, l7_l3_packet_len = 0, l7_l3_packet = [], l7_dir = DIR_OUT\<rparr>"

text \<open>A library that recognises nothing.\<close>

definition blind_ndpi :: "unit ndpi" where
  "blind_ndpi = \<lparr>zero_state = (), detection_process_packet = (\<lambda>flow _. (flow, 0, 0)), get_master_proto = (\<lambda>_. 0),
     get_proto_by_id = (\<lambda>_. None), md5_digest = (\<lambda>s. [])\<rparr>"

lemma sample_ipv4: "ipv4_of sample_feed = {0x04030201}"
  by (auto simp: ipv4_of_def sample_feed_def lower_samples sample_strings sample_addr)

theorem outgoing_verdict_witness:
  "\<exists>ri. register_risks (\<lambda>_. None) sample_feed no_indicators = (Inr (), ri) \<and>
     risk_verdict blind_ndpi (outgoing_event 0x04030201) \<lparr>nf_host_server_name = ''evil.example'', nf_ja4_client = [], nf_state = ()\<rparr> [] ri = Some False \<and>
     risk_verdict blind_ndpi (outgoing_event 0x01020304) \<lparr>nf_host_server_name = ''evil.example'', nf_ja4_client = [], nf_state = ()\<rparr> [] ri = Some True"
proof -
  obtain ri where run: "register_risks (\<lambda>_. None) sample_feed no_indicators = (Inr (), ri)" using sample_registered by blast
  have out: "l7_dir (outgoing_event d) \<noteq> DIR_IN" for d by (simp add: outgoing_event_def DIR_IN_def DIR_OUT_def)
  have types: "of_types file_types sample_feed = {}" "of_types {''mutex''} sample_feed = {}"
    by (simp_all add: sample_feed_def lower_samples file_types_def)
  have dst: "bpf_ntohl (l7_dst_ip (outgoing_event 0x04030201)) = 0x01020304" "bpf_ntohl (l7_dst_ip (outgoing_event 0x01020304)) = 0x04030201"
    by (simp_all add: outgoing_event_def bpf_ntohl_def bpf_htonl_def)
  show ?thesis
    using run outgoing_verdict [OF run out, of blind_ndpi] by (simp add: sample_ipv4 types dst)
qed

lemma analyse_keeps_flow:
  assumes "analyze_packet nd now True ri e en = Some ((name, False), en')" and "packet_headers e = Inr h"
  shows "dom (flow_table en') = insert (get_birectional_key e) (dom (flow_table en))"
  using assms
  by (cases h) (auto simp: analyze_packet_def get_or_create_ndpi_flow_def Let_def split: option.splits prod.splits if_splits bind_splits)

text \<open>A run of the consumer over a sequence of events, with memory available.\<close>

fun analyse_all :: "'n ndpi \<Rightarrow> int \<Rightarrow> risk_indicators \<Rightarrow> l7_dpi_event list \<Rightarrow> 'n engine \<Rightarrow> (bool list \<times> 'n engine) option" where
  "analyse_all nd now ri [] en = Some ([], en)"
| "analyse_all nd now ri (e # es) en =
     (case analyze_packet nd now True ri e en of
        None \<Rightarrow> None
      | Some ((name, known), en) \<Rightarrow> (case analyse_all nd now ri es en of None \<Rightarrow> None | Some (ds, en) \<Rightarrow> Some (known # ds, en)))"

lemma analyse_bad: "packet_headers e = Inl err \<Longrightarrow> analyze_packet nd now m ri e en = Some ((err, False), en)"
  by (simp add: analyze_packet_def)

lemma flows_accumulate_lemma:
  "analyse_all nd now ri es en = Some (ds, en') \<Longrightarrow> True \<notin> set ds \<Longrightarrow>
   dom (flow_table en') = dom (flow_table en) \<union> get_birectional_key ` {e \<in> set es. \<not> isl (packet_headers e)}"
proof (induction es arbitrary: en ds)
  case (Cons e es)
  obtain name known en1 ds1 where run: "analyze_packet nd now True ri e en = Some ((name, known), en1)"
      "analyse_all nd now ri es en1 = Some (ds1, en')" "ds = known # ds1"
    using Cons.prems(1) by (auto split: option.splits prod.splits)
  have quiet: "\<not> known" "True \<notin> set ds1" using Cons.prems(2) run(3) by auto
  have rest: "dom (flow_table en') = dom (flow_table en1) \<union> get_birectional_key ` {e \<in> set es. \<not> isl (packet_headers e)}"
    by (rule Cons.IH [OF run(2) quiet(2)])
  show ?case
  proof (cases "packet_headers e")
    case (Inl err)
    then have "en1 = en" using run(1) analyse_bad [OF Inl, of nd now True ri en] by simp
    then show ?thesis using rest Inl by auto
  next
    case (Inr h)
    have "dom (flow_table en1) = insert (get_birectional_key e) (dom (flow_table en))"
      using analyse_keeps_flow [of nd now ri e en name en1 h] run(1) quiet(1) Inr by simp
    then show ?thesis using rest Inr by auto
  qed
qed auto

text \<open>Flows without a recognised server name are never given back. While no flow is recognised, each packet
  that passes the checks leaves its flow in the table, so that after a run the table has the flows of
  all packets of the run, however old: the engine has no limit and no collector.\<close>

theorem flows_accumulate:
  assumes "analyse_all nd now ri es en = Some (ds, en')" and "True \<notin> set ds"
  shows "dom (flow_table en') = dom (flow_table en) \<union> get_birectional_key ` {e \<in> set es. \<not> isl (packet_headers e)}"
  by (rule flows_accumulate_lemma [OF assms])

text \<open>One-byte datagrams.\<close>

definition datagram :: "u16 \<Rightarrow> l7_dpi_event" where
  "datagram port = \<lparr>l7_src_ip = 0x0100000A, l7_dst_ip = 0x0200000A, l7_src_port = port, l7_dst_port = 0x3500, l7_ip_proto = IPPROTO_UDP,
     l7_timestamp_ns = 0, l7_l3_packet_len = 29, l7_l3_packet = [0x45, 0, 0, 29, 0, 0, 0, 0, 64, 17] @ replicate 19 0, l7_dir = DIR_IN\<rparr>"

lemma datagram_accepted: "\<not> isl (packet_headers (datagram port))"
  by (simp add: packet_headers_def datagram_def DPI_PAYLOAD_SNAP_LEN_def IPPROTO_TCP_def IPPROTO_UDP_def Let_def nth_append)

lemma blind_analysis: "\<exists>en'. analyze_packet blind_ndpi now True ri (datagram port) en = Some ((''UNKNOWN'', False), en')"
  using datagram_accepted [of port]
  by (cases "packet_headers (datagram port)"; cases "flow_table en (get_birectional_key (datagram port))")
    (auto simp: analyze_packet_def get_or_create_ndpi_flow_def blind_ndpi_def proto_of_def Let_def)

lemma blind_run: "\<exists>ds en'. analyse_all blind_ndpi now ri (map datagram ports) en = Some (ds, en') \<and> True \<notin> set ds"
proof (induction ports arbitrary: en)
  case (Cons port ports)
  obtain en1 where head: "analyze_packet blind_ndpi now True ri (datagram port) en = Some ((''UNKNOWN'', False), en1)"
    using blind_analysis [of now ri port en] by blast
  obtain ds en' where "analyse_all blind_ndpi now ri (map datagram ports) en1 = Some (ds, en')" "True \<notin> set ds"
    using Cons.IH [of en1] by blast
  then show ?case using head by simp
qed simp

theorem flows_accumulate_witness:
  "\<exists>ds en'. analyse_all blind_ndpi 0 no_indicators (map datagram [1, 2, 3]) \<lparr>flow_table = (\<lambda>_. None), traffic = (\<lambda>_. None)\<rparr> = Some (ds, en') \<and>
     dom (flow_table en') = get_birectional_key ` {datagram 1, datagram 2, datagram 3}"
proof -
  obtain ds en' where run: "analyse_all blind_ndpi 0 no_indicators (map datagram [1, 2, 3]) \<lparr>flow_table = (\<lambda>_. None), traffic = (\<lambda>_. None)\<rparr> = Some (ds, en')"
      "True \<notin> set ds"
    using blind_run by blast
  have "{e \<in> set (map datagram [1, 2, 3]). \<not> isl (packet_headers e)} = {datagram 1, datagram 2, datagram 3}"
    using datagram_accepted by auto
  then show ?thesis using flows_accumulate [OF run] run(1) by simp
qed

end
