(* ===== verification/Pipeline.thy ===== *)
theory Pipeline
  imports Egress EventQueue L7Engine
begin

text \<open>
  From the packet to the table of the metrics: the egress program reports the first ClientHello of a connection
  (\<open>trace_connect.c\<close>), the ring buffer thread pushes the event into the queue and the analysis thread takes
  it out (the two threads of \<open>register_xdp_fw_plugins\<close> in \<open>main.cpp\<close>), the engine analyses it and counts it.
\<close>

section \<open>The two threads\<close>

text \<open>The ring buffer thread empties the ring buffer into the queue of the given size, then the analysis thread
  gives the engine what it finds; \<open>None\<close> when the engine reads outside of a packet.\<close>

definition deliver ::
  "'n ndpi \<Rightarrow> int \<Rightarrow> risk_indicators \<Rightarrow> nat \<Rightarrow> nat \<Rightarrow> l7_dpi_event \<Rightarrow> l7_dpi_event list \<Rightarrow> 'n engine \<Rightarrow> (bool list \<times> 'n engine) option" where
  "deliver nd now ri sizeof_event n blank ring en =
     (let (q, dropped) = fold (push_l7event spsc_push sizeof_event) (map (Pair sizeof_event) ring) (new_queue n blank, 0);
          (es, q) = consume_logs spsc_pop n q
      in analyse_all nd now ri es en)"

lemma deliver_burst: "0 < n \<Longrightarrow> deliver nd now ri sz n blank ring en = analyse_all nd now ri (take (n - 1) ring) en"
  using spsc.delivered [of "new_queue n blank" n sz ring]
  by (auto simp: deliver_def new_queue_def queue_ok_def capacity_def contents_def)

section \<open>The event of a ClientHello in the engine\<close>

lemma header_byte: "unat (w AND 0x0F :: u8) * 4 \<le> 60" "unat (drop_bit 4 w :: u8) * 4 \<le> 60"
proof -
  have "w AND 0x0F \<le> 0x0F" by (rule word_and_le1)
  then show "unat (w AND 0x0F) * 4 \<le> 60" by (simp add: word_le_nat_alt)
  have "unat (drop_bit 4 w) = unat w div 16" by (simp add: unat_drop_bit_eq drop_bit_eq_div [of 4 "unat w"])
  then show "unat (drop_bit 4 w) * 4 \<le> 60" using unsigned_less [where 'a = nat, of w] by simp
qed

text \<open>The packet from the IP header on, as far as the snapshot takes it, and the headers in front of the payload.\<close>

definition snapshot :: "sk_buff \<Rightarrow> bytes" where
  "snapshot skb = take DPI_PAYLOAD_SNAP_LEN (drop 14 (skb_bytes skb))"

lemma snapshot_nth: "14 + i < skb_len skb \<Longrightarrow> i < DPI_PAYLOAD_SNAP_LEN \<Longrightarrow> snapshot skb ! i = skb_bytes skb ! (14 + i)"
  by (simp add: snapshot_def skb_len_def)

lemma length_snapshot: "length (snapshot skb) = min DPI_PAYLOAD_SNAP_LEN (skb_len skb - 14)"
  by (simp add: snapshot_def skb_len_def)

lemma packet_headers_tcp:
  assumes "20 \<le> unat (l7_l3_packet_len e)" and "lp = take (min (unat (l7_l3_packet_len e)) DPI_PAYLOAD_SNAP_LEN) (l7_l3_packet e)"
    and "ip = unat (lp ! 0 AND 0x0F) * 4" and "lp ! 9 = IPPROTO_TCP" and "ip + 20 \<le> length lp"
    and "tcp = unat (drop_bit 4 (lp ! (ip + 12))) * 4" and "ip + tcp < length lp"
  shows "packet_headers e = Inr (lp, ip + tcp)"
  unfolding packet_headers_def Let_def assms(2) [symmetric] assms(3) [symmetric] assms(6) [symmetric] using assms(1,4,5,7) by simp

lemma hello_headers:
  assumes "egress_tracked skb" and "fk_proto (egress_key skb) = IPPROTO_TCP"
    and "off = 14 + unat (ip_ihl (skb_bytes skb) L3_OFFSET) * 4" and "skb_load_bytes skb (off + 12) 1 = Some d"
    and "5 \<le> unat (drop_bit 4 (d ! 0))" and "off + unat (drop_bit 4 (d ! 0)) * 4 + 6 \<le> skb_len skb"
    and "n = min DPI_PAYLOAD_SNAP_LEN (skb_len skb - 14)"
  shows "packet_headers (egress_event e (egress_key skb) now dir n (take n (drop 14 (skb_bytes skb)))) =
    Inr (snapshot skb, off - 14 + unat (drop_bit 4 (d ! 0)) * 4)"
proof -
  let ?ip = "unat (ip_ihl (skb_bytes skb) L3_OFFSET) * 4" and ?tcp = "unat (drop_bit 4 (d ! 0)) * 4"
  have n16: "unat (of_nat n :: u16) = n" by (simp add: unat_of_nat assms(7) DPI_PAYLOAD_SNAP_LEN_def)
  have len: "34 \<le> skb_len skb" "14 + ?ip + ?tcp + 6 \<le> skb_len skb" "?ip \<le> 60" "?tcp \<le> 60" "20 \<le> ?tcp"
    using assms(1,3,5,6) header_byte by (simp_all add: egress_tracked_def ip_ihl_def ld8_def Let_def)
  have bytes: "take n (overwrite b (take n (drop 14 (skb_bytes skb)))) = snapshot skb" for b
    by (simp add: overwrite_def snapshot_def assms(7) skb_len_def min_def)
  have size: "length (snapshot skb) = n" by (simp add: length_snapshot assms(7))
  have nth: "snapshot skb ! 0 = skb_bytes skb ! 14" "snapshot skb ! 9 = skb_bytes skb ! 23" "snapshot skb ! (?ip + 12) = skb_bytes skb ! (off + 12)"
    using len by (simp_all add: snapshot_nth DPI_PAYLOAD_SNAP_LEN_def assms(3) add.assoc)
  have d: "d ! 0 = skb_bytes skb ! (off + 12)" using assms(4) by (auto simp: skb_load_bytes_def skb_len_def split: if_splits)
  have hdr: "unat (snapshot skb ! 0 AND 0x0F) * 4 = ?ip" "snapshot skb ! 9 = IPPROTO_TCP"
    using assms(2) by (simp_all add: nth ip_ihl_def ld8_def L3_OFFSET_def egress_key_def ip_protocol_def Let_def)
  have big: "20 \<le> n" "n \<le> DPI_PAYLOAD_SNAP_LEN" "?ip + 20 \<le> n" "?ip + ?tcp < n"
    using len by (simp_all add: assms(7) DPI_PAYLOAD_SNAP_LEN_def)
  let ?e = "egress_event e (egress_key skb) now dir n (take n (drop 14 (skb_bytes skb)))"
  have e: "unat (l7_l3_packet_len ?e) = n" "take n (l7_l3_packet ?e) = snapshot skb"
    by (simp_all add: egress_event_def n16 bytes)
  have "packet_headers ?e = Inr (snapshot skb, ?ip + ?tcp)"
    by (rule packet_headers_tcp) (use big in \<open>simp_all add: e(1) min_absorb1 [OF big(2)] e(2) hdr size\<close>, simp add: nth(3) d)
  then show ?thesis by (simp add: assms(3))
qed

text \<open>A flow that nDPI has not seen before and recognises at once, with its server name.\<close>

definition new_flow :: "'n ndpi \<Rightarrow> 'n ndpi_flow" where
  "new_flow nd = \<lparr>nf_host_server_name = [], nf_ja4_client = [], nf_state = zero_state nd\<rparr>"

lemma analyse_new_flow:
  assumes "packet_headers ev = Inr (lp, hdr)" and "flow_table en (get_birectional_key ev) = None"
    and "detection_process_packet nd (new_flow nd) lp = (flow, app, master)" and "app \<noteq> 0" and "nf_host_server_name flow \<noteq> []"
    and "risk_verdict nd ev flow (drop hdr lp) ri = Some risk"
  shows "\<exists>name. analyze_packet nd now True ri ev en = Some ((name, True), en\<lparr>traffic := update_metrics now
    \<lparr>tk_src_ip = l7_src_ip ev, tk_dst_ip = l7_dst_ip ev, tk_src_port = l7_src_port ev, tk_dst_port = l7_dst_port ev,
      tk_domain = clean_text (nf_host_server_name flow)\<rparr> risk (traffic en)\<rparr>)"
proof -
  have "(flow_table en)(get_birectional_key ev := None) = flow_table en" using assms(2) by auto
  then show ?thesis
    using assms(1-6)
    by (auto simp: analyze_packet_def get_or_create_ndpi_flow_def new_flow_def proto_of_def riskChainFilter_def Let_def split: option.split)
qed

text \<open>The verdict on an event of a connection: by its direction byte the source with the fingerprints, or the
  destination with the name.\<close>

definition verdict_by_direction :: "u8 \<Rightarrow> flow_key \<Rightarrow> string \<Rightarrow> bool \<Rightarrow> risk_indicators \<Rightarrow> bool" where
  "verdict_by_direction dir k name fingerprint ri =
     (if dir = DIR_IN then checkIPReputation (fk_saddr k) ri \<or> fingerprint
      else checkIPReputation (fk_daddr k) ri \<or> checkFileReputation name ri \<or> checkHostReputation (fk_daddr k) name ri)"

section \<open>Property\<close>

text \<open>C4: The first ClientHello of a connection, end to end. A host opens a connection to port 443 or 80 and sends its
  ClientHello; the ring buffer is empty, the queue has room, nDPI recognises the protocol and the server
  name. Then the packet arrives in the engine unchanged, and the table of the metrics has one more hit
  for the endpoints and the cleaned name; the engine keeps no flow. The risk flag of the entry is the
  verdict for the direction byte that was left in the ring buffer slot by an earlier event: if that was
  an incoming one, the host's own address is looked up instead of the destination and the name.\<close>

theorem first_contact_counted:
  assumes "egress_tracked skb" and "k = egress_key skb" and "established_connections_map s k = None"
    and "perm (fk_daddr k) = None" and "fk_proto k = IPPROTO_TCP" and "bpf_ntohs (fk_dport k) \<in> {443, 80}"
    and "off = 14 + unat (ip_ihl (skb_bytes skb) L3_OFFSET) * 4" and "skb_load_bytes skb (off + 12) 1 = Some d"
    and "tcp = unat (drop_bit 4 (d ! 0)) * 4" and "20 \<le> tcp" and "skb_load_bytes skb (off + tcp) 6 = Some h" and "is_client_hello h"
    and "ringbuf_ok e" and "l7_dpi_ringbuf s = []" and "1 < n"
    and "\<And>ev. event_of k ev \<Longrightarrow> flow_table en (get_birectional_key ev) = None"
    and "detection_process_packet nd (new_flow nd) (snapshot skb) = (flow, app, master)" and "app \<noteq> 0" and "nf_host_server_name flow \<noteq> []"
    and "checkJA3Fingerprint nd flow (drop (off - 14 + tcp) (snapshot skb)) ri = Some fingerprint"
  shows "deliver nd now ri sz n blank (l7_dpi_ringbuf (tc_egress_record e perm skb s)) en =
    Some ([True], en\<lparr>traffic := update_metrics now
      \<lparr>tk_src_ip = fk_saddr k, tk_dst_ip = fk_daddr k, tk_src_port = fk_sport k, tk_dst_port = fk_dport k,
        tk_domain = clean_text (nf_host_server_name flow)\<rparr>
      (verdict_by_direction (ring_stale_dir e) k (nf_host_server_name flow) fingerprint ri) (traffic en)\<rparr>)"
proof -
  let ?n = "min DPI_PAYLOAD_SNAP_LEN (skb_len skb - 14)"
  let ?ev = "egress_event e k (ktime e (ticks s)) (ring_stale_dir e) ?n (take ?n (drop 14 (skb_bytes skb)))"
  let ?risk = "verdict_by_direction (ring_stale_dir e) k (nf_host_server_name flow) fingerprint ri"
  have load: "skb_load_bytes skb (off + unat (drop_bit 4 (d ! 0)) * 4) 6 = Some h" using assms(9,11) by simp
  have ring: "l7_dpi_ringbuf (tc_egress_record e perm skb s) = [?ev]"
    using client_hello_event(2) [of skb k s perm off d h e, OF assms(1-8) load assms(12,13) refl] assms(14) by simp
  have room: "off + unat (drop_bit 4 (d ! 0)) * 4 + 6 \<le> skb_len skb" using load by (simp add: skb_load_bytes_def split: if_splits)
  have proto: "fk_proto (egress_key skb) = IPPROTO_TCP" "5 \<le> unat (drop_bit 4 (d ! 0))" using assms(2,5,9,10) by simp_all
  have headers: "packet_headers ?ev = Inr (snapshot skb, off - 14 + tcp)"
    unfolding assms(2,9) by (rule hello_headers [OF assms(1) proto(1) assms(7,8) proto(2) room refl])
  have ends: "l7_src_ip ?ev = fk_saddr k" "l7_dst_ip ?ev = fk_daddr k" "l7_src_port ?ev = fk_sport k" "l7_dst_port ?ev = fk_dport k"
      "l7_dir ?ev = ring_stale_dir e" "event_of k ?ev"
    by (simp_all add: egress_event_def event_of_def)
  have risk: "risk_verdict nd ?ev flow (drop (off - 14 + tcp) (snapshot skb)) ri = Some ?risk"
    using assms(20) by (simp add: risk_verdict_def verdict_by_direction_def egress_event_def)
  obtain name where "analyze_packet nd now True ri ?ev en = Some ((name, True), en\<lparr>traffic := update_metrics now
      \<lparr>tk_src_ip = fk_saddr k, tk_dst_ip = fk_daddr k, tk_src_port = fk_sport k, tk_dst_port = fk_dport k,
        tk_domain = clean_text (nf_host_server_name flow)\<rparr> ?risk (traffic en)\<rparr>)"
    using analyse_new_flow [OF headers assms(16) [OF ends(6)] assms(17-19) risk, of now] by (auto simp: ends)
  moreover have "take (n - 1) [?ev] = [?ev]" using assms(15) by (cases n) auto
  ultimately show ?thesis using deliver_burst [of n nd now ri sz blank "[?ev]" en] assms(15) by (simp add: ring)
qed

text \<open>A library that recognises every packet, with the name of the server.\<close>

definition knowing_ndpi :: "unit ndpi" where
  "knowing_ndpi = \<lparr>zero_state = (), detection_process_packet = (\<lambda>flow _. (flow\<lparr>nf_host_server_name := ''a.example''\<rparr>, 91, 0)),
     get_master_proto = (\<lambda>_. 0), get_proto_by_id = (\<lambda>_. Some ''TLS''), md5_digest = (\<lambda>s. [])\<rparr>"

theorem first_contact_counted_witness:
  "\<exists>en'. deliver knowing_ndpi 5 no_indicators 1 4 (datagram 1) (l7_dpi_ringbuf (tc_egress_record (still_env 1) Map.empty client_hello boot_state))
      \<lparr>flow_table = Map.empty, traffic = Map.empty\<rparr> = Some ([True], en') \<and>
    traffic en' \<lparr>tk_src_ip = local_ip, tk_dst_ip = server_ip, tk_src_port = 0x409C, tk_dst_port = 0xBB01, tk_domain = ''a.example''\<rparr> =
      Some \<lparr>md_count = 1, md_last_updated = 5, md_isRisk = False\<rparr>"
proof -
  let ?en = "\<lparr>flow_table = Map.empty, traffic = Map.empty\<rparr> :: unit engine" and ?k = "egress_key client_hello"
  let ?flow = "\<lparr>nf_host_server_name = ''a.example'', nf_ja4_client = [], nf_state = ()\<rparr>"
  let ?off = "14 + unat (ip_ihl (skb_bytes client_hello) L3_OFFSET) * 4"
  have off: "?off = 34" "skb_load_bytes client_hello 46 1 = Some [0x50]" "skb_load_bytes client_hello 54 6 = Some [0x16, 0x03, 0x01, 0x00, 0x05, 0x01]"
    by (simp_all add: run_defs)
  have k: "?k = zero_key\<lparr>fk_saddr := local_ip, fk_daddr := server_ip, fk_proto := IPPROTO_TCP, fk_sport := 0x409C, fk_dport := 0xBB01\<rparr>"
    "bpf_ntohs (0xBB01) \<in> {443, 80}"
    by (simp_all add: run_defs)
  have payload: "length (drop 40 (snapshot client_hello)) = 6" by (simp add: snapshot_def client_hello_def eth_header_def DPI_PAYLOAD_SNAP_LEN_def)
  have ja3: "checkJA3Fingerprint knowing_ndpi ?flow (drop 40 (snapshot client_hello)) no_indicators = Some False"
    using payload by (simp add: checkJA3Fingerprint_def compute_ja3_client_def rd8_Some)
  have hello: "is_client_hello [0x16, 0x03, 0x01, 0x00, 0x05, 0x01]" "(20 :: nat) = unat (drop_bit 4 ([0x50 :: u8] ! 0)) * 4"
    by (simp_all add: is_client_hello_def)
  have flow: "detection_process_packet knowing_ndpi (new_flow knowing_ndpi) (snapshot client_hello) = (?flow, 91, 0)"
    by (simp add: knowing_ndpi_def new_flow_def)
  have start: "established_connections_map boot_state ?k = None" "l7_dpi_ringbuf boot_state = []" "ringbuf_ok (still_env 1)"
    "Map.empty (fk_daddr ?k) = (None :: blacklist_val option)" "fk_proto ?k = IPPROTO_TCP" "bpf_ntohs (fk_dport ?k) \<in> {443, 80}"
    using k by (simp_all add: boot_state_def still_env_def)
  have run: "deliver knowing_ndpi 5 no_indicators 1 4 (datagram 1) (l7_dpi_ringbuf (tc_egress_record (still_env 1) Map.empty client_hello boot_state)) ?en =
      Some ([True], ?en\<lparr>traffic := update_metrics 5 \<lparr>tk_src_ip = fk_saddr ?k, tk_dst_ip = fk_daddr ?k, tk_src_port = fk_sport ?k,
        tk_dst_port = fk_dport ?k, tk_domain = clean_text (nf_host_server_name ?flow)\<rparr>
        (verdict_by_direction (ring_stale_dir (still_env 1)) ?k (nf_host_server_name ?flow) False no_indicators) (traffic ?en)\<rparr>)"
    by (rule first_contact_counted [OF key_samples(2) refl start(1,4,5,6) refl _ hello(2) _ _ hello(1) start(3,2) _ _ flow])
      (simp_all add: off off(2) [simplified] ja3)
  have name: "clean_text ''a.example'' = ''a.example''" by code_simp
  have key: "safe_key \<lparr>tk_src_ip = local_ip, tk_dst_ip = server_ip, tk_src_port = 0x409C, tk_dst_port = 0xBB01, tk_domain = ''a.example''\<rparr> =
      \<lparr>tk_src_ip = local_ip, tk_dst_ip = server_ip, tk_src_port = 0x409C, tk_dst_port = 0xBB01, tk_domain = ''a.example''\<rparr>"
    by (simp add: safe_key_def name)
  have "\<not> verdict_by_direction (ring_stale_dir (still_env 1)) ?k ''a.example'' False no_indicators"
    by (simp add: verdict_by_direction_def still_env_def DIR_IN_def checkIPReputation_def isMatchIPs_def checkFileReputation_def isMatchFile_def
        checkHostReputation_def isMatchHost_def no_indicators_def)
  then show ?thesis using run by (simp add: k(1) name update_metrics_def key hit_def touch_def)
qed

end
