(* ===== verification/Skeletons.thy ===== *)
theory Skeletons
  imports Prelude
begin

text \<open>
  The two objects of libbpf that hold the kernel programs (\<open>xdp_fw_global_config\<close> of
  \<open>src/src/user/config/xdp_fw_config.hpp\<close>, \<open>register_skeleton_handler\<close> of \<open>main.cpp\<close>): how they are opened, loaded,
  attached and destroyed, and which maps the two programs share.

  An object is a number; the set of live objects says which may still be used. The outcome of the calls
  into libbpf is given for each attempt (record \<open>attempt\<close>), the maps that a load creates or finds are a
  parameter.
\<close>

section \<open>Objects\<close>

type_synonym maps = "string \<Rightarrow> int"

text \<open>The outcomes of the calls of one \<open>load_xdp_skeleton\<close>, and the maps after the loads: those of an object
  loaded with some maps given in advance.\<close>

record attempt =
  trace_open :: bool
  fw_open :: bool
  fw_load :: bool
  trace_load :: bool
  trace_attach :: bool
  load_maps :: "nat \<Rightarrow> (string \<rightharpoonup> int) \<Rightarrow> maps"

record skeletons =
  fw_ptr :: "nat option" \<comment> \<open>the member \<open>skel\<close>\<close>
  trace_ptr :: "nat option" \<comment> \<open>the member \<open>trace_skel\<close>\<close>
  next_object :: nat
  live :: "nat set"
  loaded :: "nat \<rightharpoonup> maps"
  attached :: "nat set"
  freed_twice :: bool

definition no_skeletons :: skeletons where
  "no_skeletons = \<lparr>fw_ptr = None, trace_ptr = None, next_object = 0, live = {}, loaded = Map.empty, attached = {}, freed_twice = False\<rparr>"

definition open_object :: "bool \<Rightarrow> skeletons \<Rightarrow> nat option \<times> skeletons" where
  "open_object ok s =
     (if \<not> ok then (None, s)
      else (Some (next_object s), s\<lparr>next_object := Suc (next_object s), live := insert (next_object s) (live s)\<rparr>))"

text \<open>Destroying what is no longer there is the error that \<open>freed_twice\<close> records.\<close>

definition destroy_object :: "nat \<Rightarrow> skeletons \<Rightarrow> skeletons" where
  "destroy_object x s =
     (if x \<in> live s then s\<lparr>live := live s - {x}, loaded := (loaded s)(x := None), attached := attached s - {x}\<rparr>
      else s\<lparr>freed_twice := True\<rparr>)"

definition destroy_ptr :: "nat option \<Rightarrow> skeletons \<Rightarrow> skeletons" where
  "destroy_ptr p s = (case p of None \<Rightarrow> s | Some x \<Rightarrow> destroy_object x s)"

text \<open>The maps of the first program that the second is given.\<close>

definition reused :: "maps \<Rightarrow> string \<rightharpoonup> int" where
  "reused m = [''established_connections_map'' \<mapsto> m ''established_connections_map'', ''whitelist_rules_map'' \<mapsto> m ''whitelist_rules_map'',
     ''global_config_map'' \<mapsto> m ''global_config_map'']"

text \<open>\<open>load_xdp_skeleton\<close>: the members keep the addresses of what a failing branch has destroyed, and when the first
  program cannot be loaded it is not destroyed.\<close>

definition load_xdp_skeleton :: "attempt \<Rightarrow> skeletons \<Rightarrow> int \<times> skeletons" where
  "load_xdp_skeleton a s =
     (if fw_ptr s \<noteq> None \<and> trace_ptr s \<noteq> None then (0, s)
      else
        let (t, s) = open_object (trace_open a) s; s = s\<lparr>trace_ptr := t\<rparr>;
            (f, s) = open_object (fw_open a) s; s = s\<lparr>fw_ptr := f\<rparr>
        in case f of
             None \<Rightarrow> (1, destroy_ptr t s)
           | Some x \<Rightarrow>
               if \<not> fw_load a then (1, destroy_ptr t s)
               else
                 let m = load_maps a x Map.empty; s = s\<lparr>loaded := (loaded s)(x \<mapsto> m)\<rparr>
                 in case t of
                      None \<Rightarrow> (1, destroy_object x s)
                    | Some y \<Rightarrow>
                        if \<not> trace_load a then (1, destroy_object y (destroy_object x s))
                        else
                          let s = s\<lparr>loaded := (loaded s)(y \<mapsto> load_maps a y (reused m))\<rparr>
                          in if \<not> trace_attach a then (1, destroy_object y (destroy_object x s))
                             else (0, s\<lparr>attached := insert y (attached s)\<rparr>))"

text \<open>\<open>verify_shared_map\<close> compares the numbers of the maps behind two descriptors; it only prints.\<close>

datatype map_verdict = Info1_failed | Info2_failed | Same_map | Different_map

definition verify_shared_map :: "(int \<Rightarrow> nat option) \<Rightarrow> int \<Rightarrow> int \<Rightarrow> map_verdict" where
  "verify_shared_map info_id fd1 fd2 =
     (case info_id fd1 of None \<Rightarrow> Info1_failed
      | Some id1 \<Rightarrow> (case info_id fd2 of None \<Rightarrow> Info2_failed | Some id2 \<Rightarrow> if id1 = id2 then Same_map else Different_map))"

text \<open>The constructor ignores the answer; the destructor of the static object runs at \<open>exit\<close>.\<close>

definition init :: "attempt \<Rightarrow> skeletons" where
  "init a = snd (load_xdp_skeleton a no_skeletons)"

definition destructor :: "skeletons \<Rightarrow> skeletons" where
  "destructor s = destroy_ptr (fw_ptr s) (destroy_ptr (trace_ptr s) s)"

text \<open>\<open>register_skeleton_handler\<close> with the two pointers it leaves in \<open>main.cpp\<close> (\<open>Inl ()\<close> is the exception). After the
  second attempt only the first of the two is read again.\<close>

definition register_skeleton_handler :: "attempt \<Rightarrow> attempt \<Rightarrow> (unit + nat option \<times> nat option) \<times> skeletons" where
  "register_skeleton_handler a1 a2 =
     (let s = init a1; skel = fw_ptr s; trace_skel = trace_ptr s
      in if skel = None \<or> trace_skel = None
         then (let s = snd (load_xdp_skeleton a2 s); skel = fw_ptr s
               in if skel = None then (Inl (), s) else (Inr (skel, trace_skel), s))
         else (Inr (skel, trace_skel), s))"

section \<open>One attempt\<close>

definition all_ok :: "attempt \<Rightarrow> bool" where
  "all_ok a \<longleftrightarrow> trace_open a \<and> fw_open a \<and> fw_load a \<and> trace_load a \<and> trace_attach a"

text \<open>A pointer that may be used for a program that is loaded.\<close>

definition usable_ptr :: "nat option \<Rightarrow> skeletons \<Rightarrow> bool" where
  "usable_ptr p s \<longleftrightarrow> (case p of None \<Rightarrow> False | Some x \<Rightarrow> x \<in> live s \<and> loaded s x \<noteq> None)"

text \<open>The numbers of the two objects of an attempt.\<close>

definition trace_of_attempt :: "attempt \<Rightarrow> nat \<Rightarrow> nat option" where
  "trace_of_attempt a n = (if trace_open a then Some n else None)"

definition fw_of_attempt :: "attempt \<Rightarrow> nat \<Rightarrow> nat option" where
  "fw_of_attempt a n = (if fw_open a then Some (if trace_open a then Suc n else n) else None)"

definition left_open :: "attempt \<Rightarrow> nat \<Rightarrow> nat set" where
  "left_open a n = (if all_ok a then {n, Suc n} else if fw_load a then {} else set_option (fw_of_attempt a n))"

lemmas attempt_defs = all_ok_def trace_of_attempt_def fw_of_attempt_def left_open_def

lemma attempt_state:
  assumes "fw_ptr s = None \<or> trace_ptr s = None" and "n = next_object s" and "n \<notin> live s" and "Suc n \<notin> live s"
    and "load_xdp_skeleton a s = (r, s')"
  shows "(r = 0) = all_ok a \<and> trace_ptr s' = trace_of_attempt a n \<and> fw_ptr s' = fw_of_attempt a n \<and>
    live s' = live s \<union> left_open a n \<and> freed_twice s' = freed_twice s \<and>
    next_object s' = n + (if trace_open a then 1 else 0) + (if fw_open a then 1 else 0) \<and>
    (all_ok a \<longrightarrow> loaded s' n = Some (load_maps a n (reused (load_maps a (Suc n) Map.empty))) \<and>
      loaded s' (Suc n) = Some (load_maps a (Suc n) Map.empty))"
proof -
  have old: "\<not> (fw_ptr s \<noteq> None \<and> trace_ptr s \<noteq> None)" using assms(1) by auto
  have sets: "live s - {next_object s} = live s" "live s - {Suc (next_object s)} = live s" using assms(2-4) by auto
  show ?thesis
    using assms(5) [symmetric] assms(2) unfolding load_xdp_skeleton_def if_not_P [OF old]
    by (cases "trace_open a"; cases "fw_open a"; cases "fw_load a"; cases "trace_load a"; cases "trace_attach a")
      (simp_all add: open_object_def destroy_ptr_def destroy_object_def attempt_defs sets insert_Diff_if insert_commute Let_def assms(3,4) assms(3,4) [unfolded assms(2)])
qed

lemma init_state:
  "trace_ptr (init a) = trace_of_attempt a 0 \<and> fw_ptr (init a) = fw_of_attempt a 0 \<and> live (init a) = left_open a 0 \<and>
   \<not> freed_twice (init a) \<and> next_object (init a) = (if trace_open a then 1 else 0) + (if fw_open a then 1 else 0) \<and>
   (all_ok a \<longrightarrow> loaded (init a) 0 = Some (load_maps a 0 (reused (load_maps a (Suc 0) Map.empty))) \<and>
      loaded (init a) (Suc 0) = Some (load_maps a (Suc 0) Map.empty))"
  using attempt_state [of no_skeletons 0 a "fst (load_xdp_skeleton a no_skeletons)" "init a"]
  by (simp add: init_def) (simp add: no_skeletons_def)

text \<open>The second attempt, which happens only when one of the two objects could not be opened.\<close>

lemma retry_state:
  assumes "\<not> (trace_open a \<and> fw_open a)" and "n = next_object (init a)" and "s = snd (load_xdp_skeleton b (init a))"
  shows "trace_ptr s = trace_of_attempt b n \<and> fw_ptr s = fw_of_attempt b n \<and> live s = left_open a 0 \<union> left_open b n \<and> \<not> freed_twice s"
proof -
  have "fw_ptr (init a) = None \<or> trace_ptr (init a) = None" and "n \<notin> live (init a)" and "Suc n \<notin> live (init a)"
    using assms(1,2) init_state [of a] by (auto simp: attempt_defs)
  from attempt_state [OF this(1) assms(2) this(2,3), of b "fst (load_xdp_skeleton b (init a))" s] assms(3) init_state [of a]
  show ?thesis by simp
qed

lemma handler_cases:
  shows "trace_open a \<and> fw_open a \<Longrightarrow> register_skeleton_handler a b = (Inr (fw_ptr (init a), trace_ptr (init a)), init a)"
    and "\<not> (trace_open a \<and> fw_open a) \<Longrightarrow> register_skeleton_handler a b =
      (if fw_open b then Inr (fw_ptr (snd (load_xdp_skeleton b (init a))), trace_of_attempt a 0) else Inl (),
       snd (load_xdp_skeleton b (init a)))"
  using init_state [of a] retry_state [of a _ "snd (load_xdp_skeleton b (init a))" b]
  by (auto simp: register_skeleton_handler_def Let_def attempt_defs split: if_splits)

text \<open>The attempt whose pointers the static object keeps, and what its destructor does with them: after most failures
  it destroys an object for the second time.\<close>

definition last_attempt :: "attempt \<Rightarrow> attempt \<Rightarrow> attempt" where
  "last_attempt a b = (if trace_open a \<and> fw_open a then a else b)"

lemma freed_twice_at_exit:
  "freed_twice (destructor (snd (register_skeleton_handler a b))) \<longleftrightarrow>
     (let c = last_attempt a b in if trace_open c then \<not> all_ok c else fw_open c \<and> fw_load c)"
proof -
  have destroyed: "freed_twice (destructor s) \<longleftrightarrow> (if trace_open c then \<not> all_ok c else fw_open c \<and> fw_load c)"
    if "trace_ptr s = trace_of_attempt c n" "fw_ptr s = fw_of_attempt c n" "live s = L \<union> left_open c n" "\<not> freed_twice s"
      "n \<notin> L" "Suc n \<notin> L" for s c n L
    using that by (auto simp: destructor_def destroy_ptr_def destroy_object_def attempt_defs split: if_splits)
  show ?thesis
  proof (cases "trace_open a \<and> fw_open a")
    case True
    then show ?thesis
      using destroyed [of "init a" a 0 "{}"] init_state [of a] handler_cases(1) [OF True, of b] by (simp add: last_attempt_def Let_def)
  next
    case False
    let ?n = "next_object (init a)"
    have "?n \<notin> left_open a 0" "Suc ?n \<notin> left_open a 0" using False init_state [of a] by (auto simp: attempt_defs)
    then show ?thesis
      using destroyed [of "snd (load_xdp_skeleton b (init a))" b ?n "left_open a 0"] retry_state [OF False refl refl, of b]
        handler_cases(2) [OF False, of b] False by (auto simp: last_attempt_def Let_def)
  qed
qed

text \<open>What libbpf promises of a load: a map that was given is used, a map pinned by its name is the one found under
  that name, and any other map is a new one.\<close>

definition pinned :: "string \<Rightarrow> bool" where
  "pinned n \<longleftrightarrow> n = ''whitelist_rules_map'' \<or> n = ''l7_dpi_ringbuf''"

definition libbpf_maps :: "(string \<Rightarrow> int) \<Rightarrow> attempt \<Rightarrow> bool" where
  "libbpf_maps pin a \<longleftrightarrow>
     (\<forall>x given n i. given n = Some i \<longrightarrow> load_maps a x given n = i) \<and>
     (\<forall>x given n. given n = None \<longrightarrow> pinned n \<longrightarrow> load_maps a x given n = pin n) \<and>
     (\<forall>x y given given' n. given n = None \<longrightarrow> given' n = None \<longrightarrow> \<not> pinned n \<longrightarrow> y \<noteq> x \<longrightarrow> load_maps a y given n \<noteq> load_maps a x given' n)"

definition shared_maps :: "string set" where
  "shared_maps = {''established_connections_map'', ''whitelist_rules_map'', ''global_config_map'', ''l7_dpi_ringbuf''}"

lemma libbpf_maps_cases:
  assumes "libbpf_maps pin a"
  shows "given n = Some i \<Longrightarrow> load_maps a x given n = i"
    and "given n = None \<Longrightarrow> pinned n \<Longrightarrow> load_maps a x given n = pin n"
    and "given n = None \<Longrightarrow> given' n = None \<Longrightarrow> \<not> pinned n \<Longrightarrow> y \<noteq> x \<Longrightarrow> load_maps a y given n \<noteq> load_maps a x given' n"
  using assms unfolding libbpf_maps_def by simp_all

text \<open>The two maps that are verified are the same, as the print-out says, if their numbers can be read.\<close>

lemma verified_maps:
  assumes "libbpf_maps pin a" and "n \<in> {''established_connections_map'', ''whitelist_rules_map''}" and "info_id (m n) = Some i"
  shows "verify_shared_map info_id (m n) (load_maps a y (reused m) n) = Same_map"
proof -
  have "reused m n = Some (m n)" using assms(2) by (auto simp: reused_def)
  then show ?thesis using assms(3) libbpf_maps_cases(1) [OF assms(1)] by (simp add: verify_shared_map_def)
qed

section \<open>Properties\<close>

text \<open>C30: When the start continues with programs that are there. The start is refused only if the first object
  could not be opened and then could not be opened again. In all other cases it continues, and the two
  pointers it continues with are those of loaded programs exactly if every step of the first attempt
  succeeded: after any other outcome at least one of them is null, or points to an object that has
  been destroyed or never loaded, also when the second attempt succeeded.\<close>

theorem start_pointers:
  "(fst (register_skeleton_handler a b) = Inl () \<longleftrightarrow> \<not> (trace_open a \<and> fw_open a) \<and> \<not> fw_open b) \<and>
   ((case register_skeleton_handler a b of (Inl _, s) \<Rightarrow> False | (Inr (p, q), s) \<Rightarrow> usable_ptr p s \<and> usable_ptr q s) \<longleftrightarrow> all_ok a)"
proof (cases "trace_open a \<and> fw_open a")
  case True
  then show ?thesis using handler_cases(1) [OF True, of b] init_state [of a] by (auto simp: usable_ptr_def attempt_defs split: if_splits)
next
  case False
  then have "\<not> usable_ptr (trace_of_attempt a 0) (snd (load_xdp_skeleton b (init a)))"
    using retry_state [OF False refl refl, of b] init_state [of a] by (auto simp: usable_ptr_def attempt_defs split: if_splits)
  moreover have "\<not> all_ok a" using False by (auto simp: all_ok_def)
  ultimately show ?thesis using False handler_cases(2) [OF False, of b] by simp
qed

text \<open>Which maps the two programs share. After a successful start a map of the egress and connect programs is the
  map of the same name of the ingress program exactly for the connections, the whitelist, the
  configuration, and the ring buffer (shared because it is pinned). All others exist twice: the block
  list that the egress program consults is not the one that user space fills.\<close>

theorem maps_shared:
  assumes "all_ok a" and "libbpf_maps pin a"
  shows "\<exists>x y m m'. fst (register_skeleton_handler a b) = Inr (Some x, Some y) \<and>
    loaded (snd (register_skeleton_handler a b)) x = Some m \<and> loaded (snd (register_skeleton_handler a b)) y = Some m' \<and>
    (\<forall>n. m' n = m n \<longleftrightarrow> n \<in> shared_maps)"
proof -
  let ?m = "load_maps a (Suc 0) Map.empty" and ?m' = "load_maps a 0 (reused (load_maps a (Suc 0) Map.empty))"
  have "register_skeleton_handler a b = (Inr (Some (Suc 0), Some 0), init a)"
    and "loaded (init a) (Suc 0) = Some ?m" "loaded (init a) 0 = Some ?m'"
    using assms(1) handler_cases(1) [of a b] init_state [of a] by (auto simp: attempt_defs)
  moreover have "?m' n = ?m n \<longleftrightarrow> n \<in> shared_maps" for n
  proof (cases "n \<in> {''established_connections_map'', ''whitelist_rules_map'', ''global_config_map''}")
    case True
    then have "reused ?m n = Some (?m n)" by (auto simp: reused_def)
    then show ?thesis using True libbpf_maps_cases(1) [OF assms(2)] by (auto simp: shared_maps_def)
  next
    case False
    then have new: "reused ?m n = None" by (simp add: reused_def)
    show ?thesis
    proof (cases "n = ''l7_dpi_ringbuf''")
      case True
      then have "pinned n" by (simp add: pinned_def)
      then have "?m n = pin n" "?m' n = pin n" using libbpf_maps_cases(2) [OF assms(2)] new by simp_all
      then show ?thesis using True by (simp add: shared_maps_def)
    next
      case other: False
      then have "\<not> pinned n" using False by (auto simp: pinned_def)
      then have "?m' n \<noteq> ?m n" by (intro libbpf_maps_cases(3) [OF assms(2)] new) simp_all
      then show ?thesis using False other by (simp add: shared_maps_def)
    qed
  qed
  ultimately show ?thesis by auto
qed

text \<open>A kernel that numbers its maps by object.\<close>

definition good_attempt :: attempt where
  "good_attempt = \<lparr>trace_open = True, fw_open = True, fw_load = True, trace_load = True, trace_attach = True,
     load_maps = (\<lambda>x given n. case given n of Some i \<Rightarrow> i | None \<Rightarrow> if pinned n then -1 else int x)\<rparr>"

theorem maps_shared_witness:
  "\<exists>x y m m'. fst (register_skeleton_handler good_attempt good_attempt) = Inr (Some x, Some y) \<and>
    loaded (snd (register_skeleton_handler good_attempt good_attempt)) x = Some m \<and>
    loaded (snd (register_skeleton_handler good_attempt good_attempt)) y = Some m' \<and>
    m' ''permanent_blocklist_map'' \<noteq> m ''permanent_blocklist_map'' \<and> m' ''established_connections_map'' = m ''established_connections_map''"
proof -
  have "all_ok good_attempt" by (simp add: good_attempt_def all_ok_def)
  moreover have "libbpf_maps (\<lambda>_. -1) good_attempt"
    by (auto simp: libbpf_maps_def good_attempt_def split: option.splits)
  ultimately obtain x y m m' where shared: "fst (register_skeleton_handler good_attempt good_attempt) = Inr (Some x, Some y)"
      "loaded (snd (register_skeleton_handler good_attempt good_attempt)) x = Some m"
      "loaded (snd (register_skeleton_handler good_attempt good_attempt)) y = Some m'"
      "\<And>n. m' n = m n \<longleftrightarrow> n \<in> shared_maps"
    using maps_shared [of good_attempt "\<lambda>_. -1" good_attempt] by blast
  have "m' ''permanent_blocklist_map'' \<noteq> m ''permanent_blocklist_map''" "m' ''established_connections_map'' = m ''established_connections_map''"
    by (simp_all add: shared(4) shared_maps_def)
  with shared(1-3) show ?thesis by blast
qed

end
