(* ===== verification/KsmReader.thy ===== *)
theory KsmReader
  imports Metrics
begin

text \<open>
  The thread that reads file events from the device of the kernel module (\<open>startKsmReader\<close> of
  \<open>src/src/user/servie/ExporterService.hpp\<close>, the struct of \<open>model/ksm_fileevent.h\<close>) into the table of
  \<open>KsmFEMetricInfo\<close>.

  The device is a list of what the calls of \<open>read\<close> deliver; the texts of an event are C strings in a struct, so
  that a text without its end runs into the next field.
\<close>

section \<open>Events\<close>

record ksm_file_event =
  ke_pid :: u32
  ke_comm :: string \<comment> \<open>all 16 characters of the array\<close>
  ke_filepath :: string \<comment> \<open>all 256 characters of the array\<close>
  ke_is_write :: u32

definition ksm_file_event_size :: nat where "ksm_file_event_size = 280"

definition event_bytes :: "ksm_file_event \<Rightarrow> string" where
  "event_bytes e = le_chars 4 (unat (ke_pid e)) @ ke_comm e @ ke_filepath e @ le_chars 4 (unat (ke_is_write e))"

text \<open>The update for one event in memory: no value if a text has no end within the struct.\<close>

definition record_event :: "int \<Rightarrow> string \<Rightarrow> (file_key \<rightharpoonup> metric_data) \<Rightarrow> (file_key \<rightharpoonup> metric_data) option" where
  "record_event now ev m =
     (case (c_string_at ev 4, c_string_at ev 20) of
        (Some comm_str, Some path_str) \<Rightarrow>
          Some (update_file_metrics now (of_nat (le_val (take 4 ev))) comm_str path_str (of_nat (le_val (take 4 (drop 276 ev)))) False m)
      | _ \<Rightarrow> None)"

text \<open>What a call of \<open>read\<close> delivers: bytes, an interruption, or another error.\<close>

datatype device_read = Bytes string | Read_interrupted | Read_failed

text \<open>The loop of the thread, with the flag and the clock at each round: only reads of the full size count.\<close>

fun reader_loop :: "(bool \<times> int \<times> device_read) list \<Rightarrow> (file_key \<rightharpoonup> metric_data) \<Rightarrow> (file_key \<rightharpoonup> metric_data) option" where
  "reader_loop [] m = Some m"
| "reader_loop ((running, now, r) # rs) m =
     (if \<not> running then Some m
      else (case r of
              Bytes ev \<Rightarrow> if length ev = ksm_file_event_size
                          then (case record_event now ev m of None \<Rightarrow> None | Some m \<Rightarrow> reader_loop rs m)
                          else reader_loop rs m
            | Read_interrupted \<Rightarrow> reader_loop rs m
            | Read_failed \<Rightarrow> reader_loop rs m))"

definition ksm_thread :: "bool \<Rightarrow> (bool \<times> int \<times> device_read) list \<Rightarrow> (file_key \<rightharpoonup> metric_data) \<Rightarrow> (file_key \<rightharpoonup> metric_data) option" where
  "ksm_thread device_open rs m = (if \<not> device_open then Some m else reader_loop rs m)"

section \<open>What is counted\<close>

text \<open>An event as the kernel module writes it: arrays of their size, and a flag of one bit.\<close>

definition well_formed_event :: "ksm_file_event \<Rightarrow> bool" where
  "well_formed_event e \<longleftrightarrow> length (ke_comm e) = 16 \<and> length (ke_filepath e) = 256 \<and> (ke_is_write e = 0 \<or> ke_is_write e = 1)"

text \<open>The texts that are read: to the first zero; without one the name runs into the path.\<close>

definition text_to_end :: "string \<Rightarrow> string" where
  "text_to_end s = takeWhile (\<lambda>c. c \<noteq> NUL) s"

definition key_seen :: "ksm_file_event \<Rightarrow> file_key" where
  "key_seen e = safe_file_key (ke_pid e) (text_to_end (ke_comm e @ ke_filepath e)) (text_to_end (ke_filepath e)) (ke_is_write e)"

lemma flag_bytes:
  assumes "is_write = 0 \<or> is_write = (1 :: u32)"
  shows "\<exists>c. le_chars 4 (unat is_write) = [c, NUL, NUL, NUL] \<and> \<not> visible c"
proof -
  have "le_chars 4 0 = [NUL, NUL, NUL, NUL]" "le_chars 4 1 = [CHR 0x01, NUL, NUL, NUL]" "\<not> visible NUL" "\<not> visible CHR 0x01"
    by code_simp+
  then show ?thesis using assms by auto
qed

text \<open>The character that the flag adds to a text without end is not visible.\<close>

lemma flag_invisible:
  assumes "is_write = 0 \<or> is_write = (1 :: u32)"
  shows "clean_text (text_to_end (s @ le_chars 4 (unat is_write))) = clean_text (text_to_end s)"
proof -
  obtain c where c: "le_chars 4 (unat is_write) = [c, NUL, NUL, NUL]" "\<not> visible c" using flag_bytes [OF assms] by blast
  show ?thesis
  proof (cases "NUL \<in> set s")
    case True
    then show ?thesis by (auto simp: text_to_end_def takeWhile_append)
  next
    case False
    then have all: "takeWhile (\<lambda>c. c \<noteq> NUL) s = s" by (auto simp: takeWhile_eq_all_conv)
    then have "takeWhile (\<lambda>c. c \<noteq> NUL) (s @ [c, NUL, NUL, NUL]) = s @ (if c = NUL then [] else [c])"
      using False by (simp add: takeWhile_append)
    then show ?thesis using c by (simp add: text_to_end_def clean_text_def all)
  qed
qed

lemma record_well_formed:
  assumes "well_formed_event e"
  shows "length (event_bytes e) = ksm_file_event_size" and "record_event now (event_bytes e) m = Some (hit now (key_seen e) False m)"
proof -
  let ?f = "le_chars 4 (unat (ke_is_write e))" and ?p = "le_chars 4 (unat (ke_pid e))"
  have e: "length (ke_comm e) = 16" "length (ke_filepath e) = 256" "ke_is_write e = 0 \<or> ke_is_write e = 1"
    using assms by (simp_all add: well_formed_event_def)
  then show "length (event_bytes e) = ksm_file_event_size" by (simp add: event_bytes_def ksm_file_event_size_def)
  have ends: "NUL \<in> set ?f" using flag_bytes [OF e(3)] by auto
  have "drop 4 (event_bytes e) = ke_comm e @ ke_filepath e @ ?f" "drop 20 (event_bytes e) = ke_filepath e @ ?f"
      "drop 276 (event_bytes e) = ?f" "take 4 (event_bytes e) = ?p"
    using e by (simp_all add: event_bytes_def)
  then have "c_string_at (event_bytes e) 4 = Some (text_to_end ((ke_comm e @ ke_filepath e) @ ?f))"
      "c_string_at (event_bytes e) 20 = Some (text_to_end (ke_filepath e @ ?f))"
      "le_val (take 4 (event_bytes e)) = unat (ke_pid e)" "le_val (take 4 (drop 276 (event_bytes e))) = unat (ke_is_write e)"
    using ends le_val_chars [of "unat (ke_pid e)" 4] le_val_chars [of "unat (ke_is_write e)" 4] unsigned_less [where 'a = nat, of "ke_pid e"]
      unsigned_less [where 'a = nat, of "ke_is_write e"] by (simp_all add: c_string_at_def text_to_end_def Let_def)
  then show "record_event now (event_bytes e) m = Some (hit now (key_seen e) False m)"
    using flag_invisible [OF e(3)] by (simp add: record_event_def update_file_metrics_def safe_file_key_def key_seen_def del: append_assoc)
qed

section \<open>Properties\<close>

text \<open>A run of the device: at each round the clock and either an event or some other outcome of \<open>read\<close>.\<close>

definition delivered :: "int \<times> (ksm_file_event + device_read) \<Rightarrow> bool \<times> int \<times> device_read" where
  "delivered = (\<lambda>(now, x). (True, now, case x of Inl e \<Rightarrow> Bytes (event_bytes e) | Inr r \<Rightarrow> r))"

definition round_ok :: "int \<times> (ksm_file_event + device_read) \<Rightarrow> bool" where
  "round_ok = (\<lambda>(now, x). case x of Inl e \<Rightarrow> well_formed_event e | Inr r \<Rightarrow> (case r of Bytes b \<Rightarrow> length b \<noteq> ksm_file_event_size | _ \<Rightarrow> True))"

definition seen :: "int \<times> (ksm_file_event + device_read) \<Rightarrow> (int \<times> file_key \<times> bool) list" where
  "seen = (\<lambda>(now, x). case x of Inl e \<Rightarrow> [(now, key_seen e, False)] | Inr r \<Rightarrow> [])"

lemma loop_hits:
  "\<forall>x \<in> set xs. round_ok x \<Longrightarrow> reader_loop (map delivered xs) m = Some (fold (\<lambda>(t, k, r). hit t k r) (concat (map seen xs)) m)"
proof (induction xs arbitrary: m)
  case (Cons x xs)
  obtain now y where x: "x = (now, y)" by (cases x)
  show ?case
  proof (cases y)
    case (Inl e)
    then have "well_formed_event e" using Cons.prems by (simp add: round_ok_def x)
    then show ?thesis using Cons by (simp add: x Inl delivered_def seen_def record_well_formed)
  next
    case (Inr r)
    then show ?thesis using Cons by (cases r) (simp_all add: x delivered_def seen_def round_ok_def)
  qed
qed simp

text \<open>Every file event is counted once, whatever else the device answers in between. From the empty table, for any
  run in which whole events alternate with interruptions, errors and reads of a wrong size, the
  entry of a key is the tally of the events with that key; the texts are always found to end inside
  the struct. The name is the one written by the kernel if it has fewer than 16 characters; a name that
  fills its array is recorded with the whole path behind it.\<close>

theorem file_events_counted:
  assumes "\<forall>x \<in> set xs. round_ok x"
  shows "map_option (\<lambda>m. m k) (ksm_thread True (map delivered xs) Map.empty) = Some (tally (hits_of k (concat (map seen xs))))"
  using loop_hits [OF assms, of Map.empty] by (simp add: ksm_thread_def table_tally)

definition touch_event :: ksm_file_event where
  "touch_event = \<lparr>ke_pid = 7, ke_comm = ''sh'' @ replicate 14 NUL, ke_filepath = ''/tmp'' @ replicate 252 NUL, ke_is_write = 1\<rparr>"

theorem file_events_counted_witness:
  "map_option (\<lambda>m. m (key_seen touch_event))
     (ksm_thread True (map delivered [(1, Inl touch_event), (2, Inr Read_interrupted), (3, Inr (Bytes ''x'')), (4, Inl touch_event)]) Map.empty) =
   Some (Some \<lparr>md_count = 2, md_last_updated = 4, md_isRisk = False\<rparr>)"
proof -
  have "\<forall>x \<in> set [(1, Inl touch_event), (2, Inr Read_interrupted), (3, Inr (Bytes ''x'')), (4, Inl touch_event)]. round_ok x"
    by (simp add: round_ok_def well_formed_event_def touch_event_def ksm_file_event_size_def)
  from file_events_counted [OF this, of "key_seen touch_event"] show ?thesis by (simp add: seen_def hits_of_def tally_def)
qed

end
