(* ===== verification/ControlChannel.thy ===== *)
theory ControlChannel
  imports BlockRules
begin

text \<open>
  The control channel of the firewall (\<open>FirewallController\<close>, \<open>handle_sigusr1\<close>, \<open>handle_sigusr_event\<close> and
  \<open>process_block_cmd_file\<close> of \<open>src/src/user/config/Firewall.hpp\<close>): an operator appends commands to a file and sends
  a signal; the handler of the signal writes one byte to a pipe; the main loop polls the pipe, drains it,
  executes the file, and empties it, which the system may refuse.

  Operator and main loop are separate processes, so the main loop is split at its system calls and the
  operator may act between any two of them.
\<close>

section \<open>The pipe\<close>

record control_pipe =
  read_fd :: int
  write_fd :: int
  queued :: nat

definition no_pipe :: control_pipe where
  "no_pipe = \<lparr>read_fd = -1, write_fd = -1, queued = 0\<rparr>"

text \<open>The constructor. The arguments are what \<open>pipe\<close> delivers and whether \<open>fcntl\<close> succeeds; only the reading end
  becomes non-blocking.\<close>

definition FirewallController :: "(int \<times> int) option \<Rightarrow> bool \<Rightarrow> (exn + unit) \<times> control_pipe" where
  "FirewallController pipe_call fcntl_ok =
     (case pipe_call of
        None \<Rightarrow> (Inl (runtime_error ''pipe''), no_pipe)
      | Some (r, w) \<Rightarrow> if \<not> fcntl_ok then (Inl (runtime_error ''fcntl''), no_pipe)
                       else (Inr (), \<lparr>read_fd = r, write_fd = w, queued = 0\<rparr>))"

text \<open>The destructor closes what is open; the result names the descriptors it closes.\<close>

definition end_controller :: "control_pipe \<Rightarrow> int list \<times> control_pipe" where
  "end_controller p =
     ((if read_fd p \<noteq> -1 then [read_fd p] else []) @ (if write_fd p \<noteq> -1 then [write_fd p] else []),
      p\<lparr>read_fd := -1, write_fd := -1\<rparr>)"

lemma ends_once: "fst (end_controller (snd (end_controller p))) = []"
  by (simp add: end_controller_def)

text \<open>The handler of the signal: \<open>None\<close> when the write blocks, which it does on a full pipe.\<close>

definition handle_sigusr1 :: "nat \<Rightarrow> control_pipe \<Rightarrow> control_pipe option" where
  "handle_sigusr1 pipe_size p =
     (if write_fd p = -1 then Some p
      else if queued p < pipe_size then Some (p\<lparr>queued := Suc (queued p)\<rparr>)
      else None)"

text \<open>A burst of signals.\<close>

fun signals :: "nat \<Rightarrow> nat \<Rightarrow> control_pipe \<Rightarrow> control_pipe option" where
  "signals pipe_size 0 p = Some p"
| "signals pipe_size (Suc k) p = (case handle_sigusr1 pipe_size p of None \<Rightarrow> None | Some p \<Rightarrow> signals pipe_size k p)"

section \<open>The file\<close>

text \<open>A command as the operator writes it, and its effect.\<close>

type_synonym command = "string \<times> string"

definition is_word :: "string \<Rightarrow> bool" where
  "is_word w \<longleftrightarrow> w \<noteq> [] \<and> length w \<le> 63 \<and> list_all (\<lambda>c. \<not> is_blank c) w"

definition well_written :: "command \<Rightarrow> bool" where
  "well_written c \<longleftrightarrow> is_word (fst c) \<and> is_word (snd c)"

definition command_text :: "command \<Rightarrow> string" where
  "command_text c = fst c @ CHR '' '' # snd c @ [newline]"

definition execute :: "user_env \<Rightarrow> skeleton \<Rightarrow> command \<Rightarrow> user_state \<Rightarrow> user_state" where
  "execute e sk c u =
     (case inet_pton (fst c) of
        None \<Rightarrow> u
      | Some target_ip \<Rightarrow> update_blacklist_map e sk (ctl_perm_fd u) target_ip (duration_of e (snd c)) u)"

lemma words63_word:
  "list_all (\<lambda>c. \<not> is_blank c) w \<Longrightarrow> length w \<le> n \<Longrightarrow> is_blank c \<Longrightarrow>
     words63 n acc (w @ c # s) = (if w = [] \<and> acc = [] then [] else [rev acc @ w]) @ words63 63 [] s"
  by (induction w arbitrary: n acc) auto

lemma blanks [simp]: "is_blank CHR '' ''" "is_blank newline"
  by (simp_all add: is_blank_def newline_def)

lemma words_commands:
  "list_all well_written cs \<Longrightarrow> words63 63 [] (concat (map command_text cs)) = concat (map (\<lambda>c. [fst c, snd c]) cs)"
  by (induction cs) (auto simp: well_written_def is_word_def command_text_def words63_word)

lemma block_commands_fold: "block_commands e sk (concat (map (\<lambda>c. [fst c, snd c]) cs)) u = fold (execute e sk) cs u"
  by (induction cs arbitrary: u) (auto simp: execute_def split: option.split)

lemma execute_text:
  "list_all well_written cs \<Longrightarrow> block_commands e sk (words63 63 [] (concat (map command_text cs))) u = fold (execute e sk) cs u"
  by (simp add: words_commands block_commands_fold)

section \<open>The two processes\<close>

text \<open>Where the main loop is between its calls: it has drained the pipe and will read the file, or it has read and
  executed the file and will empty it.\<close>

datatype phase = Polling | To_read | To_empty

record channel =
  pipe_of :: control_pipe
  file_of :: string
  phase_of :: phase
  user_of :: user_state

datatype action = Append command | Signal | Poll | Read | Empty | Empty_refused

text \<open>One call of one of the two; a call that is not due leaves everything as it is, \<open>None\<close> is a signal handler
  that blocks.\<close>

definition channel_step :: "user_env \<Rightarrow> skeleton \<Rightarrow> nat \<Rightarrow> action \<Rightarrow> channel \<Rightarrow> channel option" where
  "channel_step e sk pipe_size a c =
     (case a of
        Append cmd \<Rightarrow> Some (c\<lparr>file_of := file_of c @ command_text cmd\<rparr>)
      | Signal \<Rightarrow> map_option (\<lambda>p. c\<lparr>pipe_of := p\<rparr>) (handle_sigusr1 pipe_size (pipe_of c))
      | Poll \<Rightarrow> Some (if phase_of c = Polling \<and> 0 < queued (pipe_of c)
                      then c\<lparr>pipe_of := (pipe_of c)\<lparr>queued := 0\<rparr>, phase_of := To_read\<rparr> else c)
      | Read \<Rightarrow> Some (if phase_of c = To_read
                      then c\<lparr>user_of := block_commands e sk (words63 63 [] (file_of c)) (user_of c), phase_of := To_empty\<rparr> else c)
      | Empty \<Rightarrow> Some (if phase_of c = To_empty then c\<lparr>file_of := [], phase_of := Polling\<rparr> else c)
      | Empty_refused \<Rightarrow> Some (if phase_of c = To_empty then c\<lparr>phase_of := Polling\<rparr> else c))"

fun channel_run :: "user_env \<Rightarrow> skeleton \<Rightarrow> nat \<Rightarrow> action list \<Rightarrow> channel \<Rightarrow> channel option" where
  "channel_run e sk pipe_size [] c = Some c"
| "channel_run e sk pipe_size (a # as) c =
     (case channel_step e sk pipe_size a c of None \<Rightarrow> None | Some c \<Rightarrow> channel_run e sk pipe_size as c)"

text \<open>The calls of the main loop without anything in between are the function that it calls.\<close>

lemma uninterrupted:
  assumes "phase_of c = Polling"
  shows "channel_run e sk pipe_size [Poll, Read, if cmd_file_writable e then Empty else Empty_refused] c =
    Some (case handle_sigusr_event e sk (0 < queued (pipe_of c)) (Some (file_of c)) (user_of c) of
            (f, u) \<Rightarrow> c\<lparr>pipe_of := (pipe_of c)\<lparr>queued := 0\<rparr>, file_of := the f, user_of := u\<rparr>)"
  using assms by (cases c) (auto simp: channel_step_def handle_sigusr_event_def process_block_cmd_file_def Let_def)

section \<open>What has been executed\<close>

fun written :: "action list \<Rightarrow> command list" where
  "written [] = []"
| "written (Append cmd # as) = cmd # written as"
| "written (_ # as) = written as"

text \<open>No command is appended between the reading and the emptying of the file, and the emptying is not refused.\<close>

fun timely :: "user_env \<Rightarrow> skeleton \<Rightarrow> nat \<Rightarrow> action list \<Rightarrow> channel \<Rightarrow> bool" where
  "timely e sk pipe_size [] c \<longleftrightarrow> True"
| "timely e sk pipe_size (a # as) c \<longleftrightarrow>
     \<not> (phase_of c = To_empty \<and> (a = Empty_refused \<or> (\<exists>cmd. a = Append cmd))) \<and>
     (case channel_step e sk pipe_size a c of None \<Rightarrow> True | Some c \<Rightarrow> timely e sk pipe_size as c)"

text \<open>The commands that have been executed, and those that wait in the file.\<close>

definition accounts :: "user_env \<Rightarrow> skeleton \<Rightarrow> user_state \<Rightarrow> command list \<Rightarrow> command list \<Rightarrow> channel \<Rightarrow> bool" where
  "accounts e sk u executed waiting c \<longleftrightarrow>
     user_of c = fold (execute e sk) executed u \<and> list_all well_written waiting \<and>
     (if phase_of c = To_empty then waiting = [] else file_of c = concat (map command_text waiting))"

lemma step_accounts:
  assumes "accounts e sk u executed waiting c" and "channel_step e sk n a c = Some d"
    and "\<And>cmd. a = Append cmd \<Longrightarrow> well_written cmd \<and> phase_of c \<noteq> To_empty"
    and "a = Empty_refused \<Longrightarrow> phase_of c \<noteq> To_empty"
  shows "\<exists>executed' waiting'. accounts e sk u executed' waiting' d \<and> executed' @ waiting' = executed @ waiting @ written [a]"
proof (cases a)
  case (Append cmd)
  then have "accounts e sk u executed (waiting @ [cmd]) d" using assms by (auto simp: accounts_def channel_step_def)
  then show ?thesis using Append by auto
next
  case Read
  have "block_commands e sk (words63 63 [] (concat (map command_text waiting))) (fold (execute e sk) executed u) =
      fold (execute e sk) (executed @ waiting) u"
    using execute_text [of waiting] assms(1) by (simp add: accounts_def)
  then have "accounts e sk u (executed @ waiting) [] d" if "phase_of c = To_read"
    using assms(1,2) Read that by (auto simp: accounts_def channel_step_def)
  then show ?thesis using assms(1,2) Read by (cases "phase_of c = To_read") (auto simp: channel_step_def)
next
  case Empty
  then have "accounts e sk u executed waiting d" using assms(1,2) by (auto simp: accounts_def channel_step_def split: if_splits)
  then show ?thesis using Empty by auto
next
  case Empty_refused
  then have "accounts e sk u executed waiting d" using assms(1,2,4) by (auto simp: channel_step_def)
  then show ?thesis using Empty_refused by auto
next
  case Signal
  then have "accounts e sk u executed waiting d" using assms(1,2) by (auto simp: accounts_def channel_step_def)
  then show ?thesis using Signal by auto
next
  case Poll
  then have "accounts e sk u executed waiting d" using assms(1,2) by (auto simp: accounts_def channel_step_def split: if_splits)
  then show ?thesis using Poll by auto
qed

lemma written_append: "written (as @ bs) = written as @ written bs"
  by (induction as rule: written.induct) auto

lemma run_accounts:
  assumes "accounts e sk u executed waiting c" and "channel_run e sk n as c = Some d" and "timely e sk n as c"
    and "list_all well_written (written as)"
  shows "\<exists>executed' waiting'. accounts e sk u executed' waiting' d \<and> executed' @ waiting' = executed @ waiting @ written as"
  using assms
proof (induction as arbitrary: c executed waiting)
  case (Cons a as)
  obtain b where b: "channel_step e sk n a c = Some b" "channel_run e sk n as b = Some d"
    using Cons.prems(2) by (auto split: option.splits)
  have w: "written (a # as) = written [a] @ written as" using written_append [of "[a]" as] by simp
  have "\<And>cmd. a = Append cmd \<Longrightarrow> well_written cmd \<and> phase_of c \<noteq> To_empty" "a = Empty_refused \<Longrightarrow> phase_of c \<noteq> To_empty"
    using Cons.prems(3,4) by auto
  from step_accounts [OF Cons.prems(1) b(1) this] obtain ex wt
    where one: "accounts e sk u ex wt b" "ex @ wt = executed @ waiting @ written [a]" by auto
  have "timely e sk n as b" using Cons.prems(3) b(1) by simp
  moreover have "list_all well_written (written as)" using Cons.prems(4) w by simp
  ultimately obtain ex' wt' where "accounts e sk u ex' wt' d" "ex' @ wt' = (ex @ wt) @ written as"
    using Cons.IH [OF one(1) b(2)] by auto
  then show ?case unfolding one(2) w by auto
qed auto

section \<open>Properties\<close>

text \<open>C32: Commands take effect once and in order. For every interleaving of operator and main loop in which no command
  is appended between the reading and the emptying of the file and the system lets the file be emptied, the block list is as if a prefix of the
  commands had been executed in the order in which they were written, and the rest waits in the file: none
  is executed twice, none out of order, none half. And when the main loop is back at its poll, one signal and one
  round suffice for all that has been written.\<close>

theorem commands_once:
  assumes "phase_of c = Polling" and "file_of c = []" and "write_fd (pipe_of c) \<noteq> -1"
    and "channel_run e sk n as c = Some d" and "timely e sk n as c" and "list_all well_written (written as)"
  shows "(\<exists>k. user_of d = fold (execute e sk) (take k (written as)) (user_of c) \<and>
      (phase_of d \<noteq> To_empty \<longrightarrow> file_of d = concat (map command_text (drop k (written as))))) \<and>
    (phase_of d = Polling \<longrightarrow> channel_run e sk n [Signal, Poll, Read, Empty] d = Some d' \<longrightarrow>
      user_of d' = fold (execute e sk) (written as) (user_of c))"
proof -
  have "accounts e sk (user_of c) [] [] c" using assms(1,2) by (simp add: accounts_def)
  from run_accounts [OF this assms(4-6)] obtain ex wt
    where end_: "accounts e sk (user_of c) ex wt d" "ex @ wt = written as" by auto
  have "write_fd (pipe_of d) = write_fd (pipe_of c)" if "channel_run e sk n as c = Some d" for as c d
    using that
    by (induction as arbitrary: c)
      (fastforce simp: channel_step_def handle_sigusr1_def split: option.splits action.splits if_splits)+
  then have fd: "write_fd (pipe_of d) \<noteq> -1" using assms(3,4) by metis
  have "take (length ex) (written as) = ex" "drop (length ex) (written as) = wt" using end_(2) by (metis append_eq_conv_conj)+
  then have "\<exists>k. user_of d = fold (execute e sk) (take k (written as)) (user_of c) \<and>
      (phase_of d \<noteq> To_empty \<longrightarrow> file_of d = concat (map command_text (drop k (written as))))"
    using end_(1) by (intro exI [of _ "length ex"]) (auto simp: accounts_def)
  moreover have "user_of d' = fold (execute e sk) (written as) (user_of c)"
    if "phase_of d = Polling" "channel_run e sk n [Signal, Poll, Read, Empty] d = Some d'"
  proof -
    have "user_of d' = block_commands e sk (words63 63 [] (file_of d)) (user_of d)"
      using that fd by (auto simp: channel_step_def handle_sigusr1_def split: option.splits if_splits)
    then show ?thesis using end_ that(1) execute_text [of wt] by (auto simp: accounts_def simp flip: end_(2))
  qed
  ultimately show ?thesis by blast
qed

theorem commands_once_witness:
  "\<forall>e sk u. \<exists>d d'. channel_run e sk 16 [Append (''10.0.0.1'', ''60''), Signal]
      \<lparr>pipe_of = \<lparr>read_fd = 3, write_fd = 4, queued = 0\<rparr>, file_of = [], phase_of = Polling, user_of = u\<rparr> = Some d \<and>
    phase_of d = Polling \<and> channel_run e sk 16 [Signal, Poll, Read, Empty] d = Some d' \<and>
    user_of d' = fold (execute e sk) [(''10.0.0.1'', ''60'')] u"
proof (intro allI)
  fix e sk u
  let ?c = "\<lparr>pipe_of = \<lparr>read_fd = 3, write_fd = 4, queued = 0\<rparr>, file_of = [], phase_of = Polling, user_of = u\<rparr>"
  let ?as = "[Append (''10.0.0.1'', ''60''), Signal]"
  obtain d d' where d: "channel_run e sk 16 ?as ?c = Some d" "phase_of d = Polling" "channel_run e sk 16 [Signal, Poll, Read, Empty] d = Some d'"
    by (simp add: channel_step_def handle_sigusr1_def)
  have "timely e sk 16 ?as ?c" "list_all well_written (written ?as)"
    by (simp_all add: channel_step_def handle_sigusr1_def well_written_def is_word_def is_blank_def)
  then have "user_of d' = fold (execute e sk) (written ?as) (user_of ?c)"
    using commands_once [of ?c e sk 16 ?as d d'] d by simp
  with d show "\<exists>d d'. channel_run e sk 16 ?as ?c = Some d \<and> phase_of d = Polling \<and>
      channel_run e sk 16 [Signal, Poll, Read, Empty] d = Some d' \<and> user_of d' = fold (execute e sk) [(''10.0.0.1'', ''60'')] u"
    by auto
qed

text \<open>A command can be lost. A command that is appended after the main loop has read the file and before it
  empties it is never executed, although its signal is received and answered by a whole further round:
  the file is emptied by its name, without looking whether it has grown.\<close>

theorem command_lost:
  assumes "phase_of c = To_empty" and "write_fd (pipe_of c) \<noteq> -1" and "queued (pipe_of c) < n"
  shows "\<exists>d. channel_run e sk n [Append cmd, Signal, Empty, Poll, Read, Empty] c = Some d \<and>
    user_of d = user_of c \<and> file_of d = [] \<and> queued (pipe_of d) = 0"
  using assms by (simp add: channel_step_def handle_sigusr1_def)

theorem command_lost_witness:
  "\<forall>e sk u. \<exists>d. channel_run e sk 16 [Append (''10.0.0.1'', ''60''), Signal, Empty, Poll, Read, Empty]
      \<lparr>pipe_of = \<lparr>read_fd = 3, write_fd = 4, queued = 0\<rparr>, file_of = [], phase_of = To_empty, user_of = u\<rparr> = Some d \<and> user_of d = u"
proof (intro allI)
  fix e sk u
  let ?c = "\<lparr>pipe_of = \<lparr>read_fd = 3, write_fd = 4, queued = 0\<rparr>, file_of = [], phase_of = To_empty, user_of = u\<rparr>"
  have "phase_of ?c = To_empty" "write_fd (pipe_of ?c) \<noteq> -1" "queued (pipe_of ?c) < 16" by simp_all
  from command_lost [OF this, of e sk "(''10.0.0.1'', ''60'')"]
  show "\<exists>d. channel_run e sk 16 [Append (''10.0.0.1'', ''60''), Signal, Empty, Poll, Read, Empty] ?c = Some d \<and> user_of d = u" by auto
qed

text \<open>A command can be executed twice: when the system refuses to empty the file, nothing is reported, and the next
  signal executes all of its commands again, with their durations counted from then on.\<close>

theorem command_repeated:
  assumes "phase_of c = To_read" and "write_fd (pipe_of c) \<noteq> -1" and "queued (pipe_of c) < n"
    and "file_of c = concat (map command_text cs)" and "list_all well_written cs"
  shows "\<exists>d. channel_run e sk n [Read, Empty_refused, Signal, Poll, Read] c = Some d \<and>
    user_of d = fold (execute e sk) (cs @ cs) (user_of c)"
  using assms by (simp add: channel_step_def handle_sigusr1_def execute_text)

theorem command_repeated_witness:
  "\<forall>e sk u. \<exists>d. channel_run e sk 16 [Read, Empty_refused, Signal, Poll, Read]
      \<lparr>pipe_of = \<lparr>read_fd = 3, write_fd = 4, queued = 0\<rparr>, file_of = command_text (''10.0.0.1'', ''60''), phase_of = To_read, user_of = u\<rparr> = Some d \<and>
    user_of d = fold (execute e sk) [(''10.0.0.1'', ''60''), (''10.0.0.1'', ''60'')] u"
proof (intro allI)
  fix e sk u
  let ?c = "\<lparr>pipe_of = \<lparr>read_fd = 3, write_fd = 4, queued = 0\<rparr>, file_of = command_text (''10.0.0.1'', ''60''), phase_of = To_read, user_of = u\<rparr>"
  have "list_all well_written [(''10.0.0.1'', ''60'')]" by (simp add: well_written_def is_word_def is_blank_def)
  from command_repeated [of ?c 16 "[(''10.0.0.1'', ''60'')]" e sk, OF _ _ _ _ this]
  show "\<exists>d. channel_run e sk 16 [Read, Empty_refused, Signal, Poll, Read] ?c = Some d \<and>
      user_of d = fold (execute e sk) [(''10.0.0.1'', ''60''), (''10.0.0.1'', ''60'')] u" by simp
qed

text \<open>How many signals the pipe takes. Between two rounds of the main loop the handlers of as many signals return
  as there is room in the pipe; the next one blocks, since only the reading end of the pipe is
  non-blocking. (A comment beside the handler expects the write to fail with \<open>EAGAIN\<close> instead.)\<close>

theorem signals_fit:
  assumes "write_fd p \<noteq> -1" and "queued p \<le> pipe_size"
  shows "signals pipe_size k p = (if queued p + k \<le> pipe_size then Some (p\<lparr>queued := queued p + k\<rparr>) else None)"
  using assms by (induction k arbitrary: p) (auto simp: handle_sigusr1_def)

theorem signals_fit_witness:
  "signals 65536 65536 \<lparr>read_fd = 3, write_fd = 4, queued = 0\<rparr> \<noteq> None \<and> signals 65536 65537 \<lparr>read_fd = 3, write_fd = 4, queued = 0\<rparr> = None"
  using signals_fit [of "\<lparr>read_fd = 3, write_fd = 4, queued = 0\<rparr>" 65536 65536] signals_fit [of "\<lparr>read_fd = 3, write_fd = 4, queued = 0\<rparr>" 65536 65537]
  by simp

end
