(* ===== verification/Teardown.thy ===== *)
theory Teardown
  imports Lifecycle
begin

text \<open>
  The shutdown beside the threads that are still running (\<open>do_graceful_shutdown\<close>, \<open>cleanup_and_exit\<close>,
  \<open>unload_tc\<close>, the ring buffer thread of \<open>register_xdp_fw_plugins\<close> and \<open>netlink_monitor_thread\<close> of
  \<open>src/src/user/main.cpp\<close>): the worker threads are detached, not joined, so that they go on until they look at
  the flag \<open>g_running\<close> again, or until the process is gone.

  The reload of the listener and the cleaning of the main thread are lists of calls here, one for each
  interface and program, which a step relation interleaves; the end of the process cuts the list that the
  listener is working off. Run without interruption, the lists are the functions of theory Interfaces.
\<close>

section \<open>The calls\<close>

text \<open>A call for one interface: take the ingress or the egress program off, attach one, or forget what is attached.\<close>

datatype net_op = Xdp_off int | Tc_off int | Xdp_on int | Tc_on int | Forget

definition exec_op :: "net_env \<Rightarrow> net_op \<Rightarrow> net_state \<Rightarrow> net_state" where
  "exec_op e op st =
     (case op of
        Xdp_off i \<Rightarrow> st\<lparr>xdp_hooks := xdp_hooks st - {i}\<rparr>
      | Tc_off i \<Rightarrow> st\<lparr>tc_hooks := tc_hooks st - {i}\<rparr>
      | Xdp_on i \<Rightarrow> if attach_xdp_auto e i then st\<lparr>xdp_hooks := insert i (xdp_hooks st)\<rparr> else st
      | Tc_on i \<Rightarrow> reattach e i st
      | Forget \<Rightarrow> st\<lparr>tc_attached_map := replicate MAX_IFINDEX False\<rparr>)"

lemma exec_op_simps [simp]:
  "exec_op e (Xdp_off i) st = st\<lparr>xdp_hooks := xdp_hooks st - {i}\<rparr>"
  "exec_op e (Tc_off i) st = st\<lparr>tc_hooks := tc_hooks st - {i}\<rparr>"
  "exec_op e (Xdp_on i) st = (if attach_xdp_auto e i then st\<lparr>xdp_hooks := insert i (xdp_hooks st)\<rparr> else st)"
  "exec_op e (Tc_on i) st = reattach e i st"
  "exec_op e Forget st = st\<lparr>tc_attached_map := replicate MAX_IFINDEX False\<rparr>"
  by (simp_all add: exec_op_def)

text \<open>What is left to do of a routine: calls, and scans of the interfaces (\<open>getifaddrs\<close>) whose answer says
  which calls follow.\<close>

datatype net_call = Op net_op | is_Scan: Scan "ifaddr list \<Rightarrow> net_op list"

definition exec_call :: "net_env \<Rightarrow> net_call \<Rightarrow> net_state \<Rightarrow> net_call list \<times> net_state" where
  "exec_call e c st =
     (case c of
        Op op \<Rightarrow> ([], exec_op e op st)
      | Scan f \<Rightarrow> (case scan e st of (None, st) \<Rightarrow> ([], st) | (Some ifas, st) \<Rightarrow> (map Op (f ifas), st)))"

definition xdp_off_ops :: "ifaddr list \<Rightarrow> net_op list" where
  "xdp_off_ops ifas = [Xdp_off (ifa_index ifa). ifa \<leftarrow> ifas, has_inet ifa \<and> \<not> is_lo ifa \<and> 0 < ifa_index ifa]"

definition tc_off_ops :: "ifaddr list \<Rightarrow> net_op list" where
  "tc_off_ops ifas = [Tc_off (ifa_index ifa). ifa \<leftarrow> ifas, ifa_family ifa = Some AF_INET \<and> \<not> is_lo ifa \<and> 0 < ifa_index ifa]"

definition qdisc_ops :: "ifaddr list \<Rightarrow> net_op list" where
  "qdisc_ops ifas = [Tc_off (ifa_index ifa). ifa \<leftarrow> ifas, \<not> (ifa_family ifa = None \<or> is_lo ifa)]"

definition clean_ops :: "ifaddr list \<Rightarrow> net_op list" where
  "clean_ops ifas = concat [[Tc_off (ifa_index ifa), Xdp_off (ifa_index ifa)]. ifa \<leftarrow> ifas, \<not> (ifa_family ifa = None \<or> is_lo ifa)]"

text \<open>The attaching loops, with their arrays of visited indices.\<close>

fun xdp_on_ops :: "int list \<Rightarrow> ifaddr list \<Rightarrow> net_op list" where
  "xdp_on_ops visited [] = []"
| "xdp_on_ops visited (ifa # ifas) =
     (if ifa_up ifa \<and> has_inet ifa \<and> \<not> (ifa_index ifa \<le> 0 \<or> is_lo ifa \<or> ifa_index ifa \<in> set visited)
      then Xdp_on (ifa_index ifa) # xdp_on_ops (if length visited < 128 then visited @ [ifa_index ifa] else visited) ifas
      else xdp_on_ops visited ifas)"

fun tc_on_ops :: "int set \<Rightarrow> ifaddr list \<Rightarrow> net_op list" where
  "tc_on_ops visited [] = []"
| "tc_on_ops visited (ifa # ifas) =
     (if ifa_family ifa = None \<or> is_lo ifa \<or> \<not> in_range (ifa_index ifa) \<or> ifa_index ifa \<in> visited
      then tc_on_ops visited ifas
      else Tc_on (ifa_index ifa) # tc_on_ops (insert (ifa_index ifa) visited) ifas)"

definition clean_calls :: "net_call list" where
  "clean_calls = [Scan xdp_off_ops, Scan tc_off_ops, Scan clean_ops]"

definition reload_calls :: "net_env \<Rightarrow> net_call list" where
  "reload_calls e = [Scan xdp_off_ops, Scan tc_off_ops, Scan qdisc_ops, Op Forget] @
     (if xdp_skel e then [Scan (xdp_on_ops []), Scan (tc_on_ops {})] else [])"

text \<open>Without interruption the lists are the routines.\<close>

definition run_call :: "net_env \<Rightarrow> net_call \<Rightarrow> net_state \<Rightarrow> net_state" where
  "run_call e c st = (case exec_call e c st of (new, st) \<Rightarrow> fold (\<lambda>c st. snd (exec_call e c st)) new st)"

definition run_calls :: "net_env \<Rightarrow> net_call list \<Rightarrow> net_state \<Rightarrow> net_state" where
  "run_calls e = fold (run_call e)"

lemma exec_Op [simp]: "exec_call e (Op op) st = ([], exec_op e op st)"
  by (simp add: exec_call_def)

lemma run_Op [simp]: "run_call e (Op op) st = exec_op e op st"
  by (simp add: run_call_def)

lemma run_Scan:
  "run_call e (Scan f) st = (case scan e st of (None, st) \<Rightarrow> st | (Some ifas, st) \<Rightarrow> fold (exec_op e) (f ifas) st)"
  by (auto simp: run_call_def exec_call_def fold_map comp_def split: prod.split option.split)

lemma off_ops_fold:
  "fold (exec_op e) (xdp_off_ops ifas) st =
     fold (\<lambda>ifa st. if has_inet ifa \<and> \<not> is_lo ifa \<and> 0 < ifa_index ifa
                    then st\<lparr>xdp_hooks := xdp_hooks st - {ifa_index ifa}\<rparr> else st) ifas st"
  "fold (exec_op e) (tc_off_ops ifas) st =
     fold (\<lambda>ifa st. if ifa_family ifa = Some AF_INET \<and> \<not> is_lo ifa \<and> 0 < ifa_index ifa
                    then st\<lparr>tc_hooks := tc_hooks st - {ifa_index ifa}\<rparr> else st) ifas st"
  "fold (exec_op e) (qdisc_ops ifas) st =
     fold (\<lambda>ifa st. if ifa_family ifa = None \<or> is_lo ifa then st
                    else st\<lparr>tc_hooks := tc_hooks st - {ifa_index ifa}\<rparr>) ifas st"
  "fold (exec_op e) (clean_ops ifas) st =
     fold (\<lambda>ifa st. if ifa_family ifa = None \<or> is_lo ifa then st
                    else st\<lparr>tc_hooks := tc_hooks st - {ifa_index ifa}, xdp_hooks := xdp_hooks st - {ifa_index ifa}\<rparr>) ifas st"
  by (induction ifas arbitrary: st) (simp_all add: xdp_off_ops_def tc_off_ops_def qdisc_ops_def clean_ops_def)

lemma run_detach:
  "run_call e (Scan tc_off_ops) (run_call e (Scan xdp_off_ops) st) = detach_interfaces e st"
  by (simp add: run_Scan off_ops_fold detach_interfaces_def detach_xdp_from_all_interfaces_def detach_tc_from_all_interfaces_def
      split: option.split prod.split)

lemma run_clean: "run_calls e clean_calls st = force_clean_all_net_hooks e (detach_interfaces e st)"
  by (simp add: run_calls_def clean_calls_def run_detach)
     (simp add: run_Scan off_ops_fold force_clean_all_net_hooks_def split: option.split prod.split)

lemma attach_count: "snd (attach_xdp_loop e ifas visited n hooks) = snd (attach_xdp_loop e ifas visited 0 hooks)"
proof (induction ifas arbitrary: visited n hooks)
  case (Cons ifa ifas)
  show ?case using Cons [of _ "n + 1"] Cons [of _ 1] Cons [of _ n] by (simp add: Let_def)
qed simp

lemma xdp_ops_loop:
  "fold (exec_op e) (xdp_on_ops visited ifas) st = st\<lparr>xdp_hooks := snd (attach_xdp_loop e ifas visited 0 (xdp_hooks st))\<rparr>"
proof (induction visited ifas arbitrary: st rule: xdp_on_ops.induct)
  case (2 visited ifa ifas)
  then show ?case using attach_count [of e ifas _ 1] by (auto simp: Let_def)
qed simp

lemma tc_ops_loop: "fold (exec_op e) (tc_on_ops visited ifas) st = attach_tc_loop (reattach e) ifas visited st"
  by (induction visited ifas arbitrary: st rule: tc_on_ops.induct) auto

lemma run_reload: "run_calls e (reload_calls e) st = full_reload_all_xdp_tc e st"
proof -
  have qdisc: "run_call e (Scan qdisc_ops) st = clear_qdiscs e st" for st
    by (simp add: run_Scan off_ops_fold clear_qdiscs_def split: option.split prod.split)
  have xdp: "run_call e (Scan (xdp_on_ops [])) st = snd (attach_xdp_to_all_interfaces e st)" for st
    by (auto simp: run_Scan attach_xdp_to_all_interfaces_def xdp_ops_loop split: option.split prod.split)
  have tc: "run_call e (Scan (tc_on_ops {})) st = (case scan e st of (None, st) \<Rightarrow> st | (Some ifas, st) \<Rightarrow> attach_tc_loop (reattach e) ifas {} st)" for st
    by (simp add: run_Scan tc_ops_loop split: option.split prod.split)
  show ?thesis
    by (simp add: run_calls_def reload_calls_def run_detach qdisc xdp tc full_reload_all_xdp_tc_def Let_def)
qed

section \<open>The three threads\<close>

text \<open>The ring buffer thread: before its test, between the test and the call, inside the call, ended.\<close>

datatype poller = Testing | Calling | In_poll | Poller_done

text \<open>The listener: before its test, between the test and the answer of \<open>recv\<close>, inside a datagram with the calls that
  are left of the reload, ended.\<close>

datatype listener = Listening | Receiving | Handling "net_call list" | Listener_done

text \<open>The main thread: in the dashboard, the listener told to stop, cleaning with the calls that are left, the
  interfaces cleaned, the ring buffer freed, the process ended.\<close>

datatype main_thread = Up | Stopping | Cleaning "net_call list" | Cleaned | Freed | Exited

record teardown =
  td_running :: bool
  td_stop :: bool
  td_main :: main_thread
  td_poller :: poller
  td_listener :: listener
  td_net :: net_state
  td_late_polls :: nat \<comment> \<open>calls of \<open>ring_buffer__poll\<close> since the flag was cleared\<close>
  td_after_free :: bool \<comment> \<open>a call on the ring buffer, or inside it, after it was freed\<close>
  td_late_datagrams :: nat \<comment> \<open>datagrams taken up since the listener was to stop\<close>
  td_late_xdp :: "int set" \<comment> \<open>interfaces attached when the main thread had no call left to clean them\<close>
  td_late_tc :: "int set"
  td_caught :: bool \<comment> \<open>the listener was behind its test when it was to stop\<close>

definition td_start :: "net_state \<Rightarrow> teardown" where
  "td_start st = \<lparr>td_running = True, td_stop = False, td_main = Up, td_poller = Testing, td_listener = Listening, td_net = st,
     td_late_polls = 0, td_after_free = False, td_late_datagrams = 0, td_late_xdp = {}, td_late_tc = {}, td_caught = False\<rparr>"

definition freed :: "teardown \<Rightarrow> bool" where
  "freed s \<longleftrightarrow> td_main s = Freed \<or> td_main s = Exited"

text \<open>The condition of the listener's loop, and whether the listener is behind it.\<close>

definition goes_on :: "teardown \<Rightarrow> bool" where
  "goes_on s \<longleftrightarrow> td_running s \<and> \<not> td_stop s"

definition busy :: "listener \<Rightarrow> bool" where
  "busy l \<longleftrightarrow> l \<noteq> Listening \<and> l \<noteq> Listener_done"

text \<open>Whether the main thread will still make the call, or the last scan that leads to it.\<close>

definition still_to_do :: "(int \<Rightarrow> net_op) \<Rightarrow> main_thread \<Rightarrow> int \<Rightarrow> bool" where
  "still_to_do op m i \<longleftrightarrow>
     (case m of
        Up \<Rightarrow> True
      | Stopping \<Rightarrow> True
      | Cleaning cs \<Rightarrow> list_ex is_Scan cs \<or> Op (op i) \<in> set cs
      | _ \<Rightarrow> False)"

text \<open>The dashboard ends when the flag is cleared, or by an exception. The first unloading answers true, since
  the ring buffer thread was there (C27), so that it is not repeated. Which notifications a datagram
  brings, and so how often it makes the listener reload, is open; the end of the process ends every thread
  where it is.\<close>

inductive td_step :: "net_env \<Rightarrow> teardown \<Rightarrow> teardown \<Rightarrow> bool" for e where
  signal: "td_main s \<noteq> Exited \<Longrightarrow>
    td_step e s (s\<lparr>td_running := False, td_caught := td_caught s \<or> goes_on s \<and> busy (td_listener s)\<rparr>)"
| stop_listener: "td_main s = Up \<Longrightarrow>
    td_step e s (s\<lparr>td_stop := True, td_main := Stopping, td_caught := td_caught s \<or> goes_on s \<and> busy (td_listener s)\<rparr>)"
| clear_flag: "td_main s = Stopping \<Longrightarrow> td_step e s (s\<lparr>td_running := False, td_main := Cleaning clean_calls\<rparr>)"
| clean: "td_main s = Cleaning (c # cs) \<Longrightarrow> exec_call e c (td_net s) = (new, st) \<Longrightarrow>
    td_step e s (s\<lparr>td_main := Cleaning (new @ cs), td_net := st\<rparr>)"
| cleaned: "td_main s = Cleaning [] \<Longrightarrow> td_step e s (s\<lparr>td_main := Cleaned\<rparr>)"
| free_ring: "td_main s = Cleaned \<Longrightarrow>
    td_step e s (s\<lparr>td_after_free := td_after_free s \<or> td_poller s = In_poll, td_main := Freed\<rparr>)"
| process_exit: "td_main s = Freed \<Longrightarrow> td_step e s (s\<lparr>td_main := Exited\<rparr>)"
| poll_test: "td_main s \<noteq> Exited \<Longrightarrow> td_poller s = Testing \<Longrightarrow>
    td_step e s (s\<lparr>td_poller := (if td_running s then Calling else Poller_done)\<rparr>)"
| poll_call: "td_main s \<noteq> Exited \<Longrightarrow> td_poller s = Calling \<Longrightarrow>
    td_step e s (s\<lparr>td_poller := In_poll, td_after_free := td_after_free s \<or> freed s,
      td_late_polls := td_late_polls s + (if td_running s then 0 else 1)\<rparr>)"
| poll_return: "td_main s \<noteq> Exited \<Longrightarrow> td_poller s = In_poll \<Longrightarrow> td_step e s (s\<lparr>td_poller := Testing\<rparr>)"
| poll_error: "td_main s \<noteq> Exited \<Longrightarrow> td_poller s = In_poll \<Longrightarrow> td_step e s (s\<lparr>td_poller := Poller_done\<rparr>)"
| listen: "td_main s \<noteq> Exited \<Longrightarrow> td_listener s = Listening \<Longrightarrow>
    td_step e s (s\<lparr>td_listener := (if goes_on s then Receiving else Listener_done)\<rparr>)"
| nothing_received: "td_main s \<noteq> Exited \<Longrightarrow> td_listener s = Receiving \<Longrightarrow> td_step e s (s\<lparr>td_listener := Listening\<rparr>)"
| datagram: "td_main s \<noteq> Exited \<Longrightarrow> td_listener s = Receiving \<Longrightarrow>
    td_step e s (s\<lparr>td_listener := Handling [], td_late_datagrams := td_late_datagrams s + (if goes_on s then 0 else 1)\<rparr>)"
| reload: "td_main s \<noteq> Exited \<Longrightarrow> td_listener s = Handling [] \<Longrightarrow> td_step e s (s\<lparr>td_listener := Handling (reload_calls e)\<rparr>)"
| reload_call: "td_main s \<noteq> Exited \<Longrightarrow> td_listener s = Handling (c # cs) \<Longrightarrow> exec_call e c (td_net s) = (new, st) \<Longrightarrow>
    td_step e s (s\<lparr>td_listener := Handling (new @ cs), td_net := st,
      td_late_xdp := td_late_xdp s \<union> {i \<in> xdp_hooks st - xdp_hooks (td_net s). \<not> still_to_do Xdp_off (td_main s) i},
      td_late_tc := td_late_tc s \<union> {i \<in> tc_hooks st - tc_hooks (td_net s). \<not> still_to_do Tc_off (td_main s) i}\<rparr>)"
| datagram_end: "td_main s \<noteq> Exited \<Longrightarrow> td_listener s = Handling [] \<Longrightarrow> td_step e s (s\<lparr>td_listener := Listening\<rparr>)"

inductive td_reach :: "net_env \<Rightarrow> net_state \<Rightarrow> teardown \<Rightarrow> bool" for e st where
  start: "td_reach e st (td_start st)"
| step: "td_reach e st s \<Longrightarrow> td_step e s t \<Longrightarrow> td_reach e st t"

section \<open>The invariant\<close>













section \<open>Uninterrupted runs\<close>

lemma exec_call_ops: "\<exists>ops st'. exec_call e c st = (map Op ops, st') \<and> run_call e c st = fold (exec_op e) ops st'"
  by (cases c) (auto simp: run_Scan exec_call_def fold_map comp_def intro: exI [of _ "[]"] split: prod.split option.split)

lemma main_ops:
  "td_reach e st s \<Longrightarrow> td_main s = Cleaning (map Op ops @ cs) \<Longrightarrow>
   td_reach e st (s\<lparr>td_main := Cleaning cs, td_net := fold (exec_op e) ops (td_net s)\<rparr>)"
proof (induction ops arbitrary: s)
  case Nil
  then show ?case by (cases s) simp
next
  case (Cons op ops)
  from td_reach.step [OF Cons.prems(1) td_step.clean [of s "Op op" "map Op ops @ cs"]] Cons.prems(2)
  have "td_reach e st (s\<lparr>td_main := Cleaning (map Op ops @ cs), td_net := exec_op e op (td_net s)\<rparr>)" by simp
  from Cons.IH [OF this] show ?case by simp
qed

lemma main_runs:
  "td_reach e st s \<Longrightarrow> td_main s = Cleaning cs \<Longrightarrow> td_reach e st (s\<lparr>td_main := Cleaning [], td_net := run_calls e cs (td_net s)\<rparr>)"
proof (induction cs arbitrary: s)
  case Nil
  then show ?case by (cases s) (simp add: run_calls_def)
next
  case (Cons c cs)
  obtain ops st' where c: "exec_call e c (td_net s) = (map Op ops, st')" "run_call e c (td_net s) = fold (exec_op e) ops st'"
    using exec_call_ops by blast
  from main_ops [OF td_reach.step [OF Cons.prems(1) td_step.clean [OF Cons.prems(2) c(1)]], of ops cs]
  have "td_reach e st (s\<lparr>td_main := Cleaning cs, td_net := run_call e c (td_net s)\<rparr>)" by (simp add: c)
  from Cons.IH [OF this] show ?case by (simp add: run_calls_def)
qed

lemma listener_ops:
  "td_reach e st s \<Longrightarrow> td_main s \<noteq> Exited \<Longrightarrow> td_listener s = Handling (map Op ops @ cs) \<Longrightarrow>
   \<exists>x t. td_reach e st (s\<lparr>td_listener := Handling cs, td_net := fold (exec_op e) ops (td_net s), td_late_xdp := x, td_late_tc := t\<rparr>)"
proof (induction ops arbitrary: s)
  case Nil
  then have "s\<lparr>td_listener := Handling cs, td_net := td_net s, td_late_xdp := td_late_xdp s, td_late_tc := td_late_tc s\<rparr> = s" by (cases s) simp
  with Nil.prems(1) show ?case by (metis fold_simps(1))
next
  case (Cons op ops)
  from td_reach.step [OF Cons.prems(1) td_step.reload_call [of s "Op op" "map Op ops @ cs"]] Cons.prems(2,3)
  obtain x t where "td_reach e st (s\<lparr>td_listener := Handling (map Op ops @ cs), td_net := exec_op e op (td_net s), td_late_xdp := x, td_late_tc := t\<rparr>)"
    by auto
  from Cons.IH [OF this] Cons.prems(2) show ?case by simp
qed

lemma listener_runs:
  "td_reach e st s \<Longrightarrow> td_main s \<noteq> Exited \<Longrightarrow> td_listener s = Handling (cs @ rest) \<Longrightarrow>
   \<exists>x t. td_reach e st (s\<lparr>td_listener := Handling rest, td_net := run_calls e cs (td_net s), td_late_xdp := x, td_late_tc := t\<rparr>)"
proof (induction cs arbitrary: s)
  case Nil
  then have "s\<lparr>td_listener := Handling rest, td_net := td_net s, td_late_xdp := td_late_xdp s, td_late_tc := td_late_tc s\<rparr> = s" by (cases s) simp
  with Nil.prems(1) show ?case unfolding run_calls_def by (metis fold_simps(1))
next
  case (Cons c cs)
  obtain ops st' where c: "exec_call e c (td_net s) = (map Op ops, st')" "run_call e c (td_net s) = fold (exec_op e) ops st'"
    using exec_call_ops by blast
  from td_reach.step [OF Cons.prems(1) td_step.reload_call [OF Cons.prems(2) Cons.prems(3) [unfolded append_Cons] c(1)]]
  obtain x t where "td_reach e st (s\<lparr>td_listener := Handling (map Op ops @ cs @ rest), td_net := st', td_late_xdp := x, td_late_tc := t\<rparr>)"
    by blast
  from listener_ops [OF this, of ops "cs @ rest"] Cons.prems(2) c(2)
  obtain x t where "td_reach e st (s\<lparr>td_listener := Handling (cs @ rest), td_net := run_call e c (td_net s), td_late_xdp := x, td_late_tc := t\<rparr>)"
    by auto
  from Cons.IH [OF this] Cons.prems(2) show ?case by (simp add: run_calls_def)
qed

text \<open>The main thread goes through the shutdown up to the freeing of the ring buffer while the others wait.\<close>

lemma main_frees:
  assumes "td_reach e st s" and "td_main s = Up"
  shows "\<exists>c. td_reach e st (s\<lparr>td_running := False, td_stop := True, td_main := Freed, td_caught := c,
    td_net := force_clean_all_net_hooks e (detach_interfaces e (td_net s)), td_after_free := td_after_free s \<or> td_poller s = In_poll\<rparr>)"
proof -
  let ?c = "td_caught s \<or> goes_on s \<and> busy (td_listener s)"
  from td_reach.step [OF assms(1) td_step.stop_listener [OF assms(2)]]
  have "td_reach e st (s\<lparr>td_stop := True, td_main := Stopping, td_caught := ?c\<rparr>)" .
  from td_reach.step [OF this td_step.clear_flag]
  have "td_reach e st (s\<lparr>td_stop := True, td_caught := ?c, td_running := False, td_main := Cleaning clean_calls\<rparr>)" by simp
  from main_runs [OF this]
  have "td_reach e st (s\<lparr>td_stop := True, td_caught := ?c, td_running := False, td_main := Cleaning [],
      td_net := force_clean_all_net_hooks e (detach_interfaces e (td_net s))\<rparr>)" by (simp add: run_clean)
  from td_reach.step [OF td_reach.step [OF this td_step.cleaned] td_step.free_ring]
  show ?thesis by (intro exI [of _ ?c], cases s) simp
qed

text \<open>The listener is past its test then, and begins a reload that it works off in part.\<close>

lemma late_reload:
  assumes "reload_calls e = cs @ rest"
  shows "\<exists>s. td_reach e st s \<and> td_main s = Freed \<and>
    td_net s = run_calls e cs (force_clean_all_net_hooks e (detach_interfaces e st))"
proof -
  from td_reach.step [OF td_reach.start td_step.listen, of st e]
  have "td_reach e st ((td_start st)\<lparr>td_listener := Receiving\<rparr>)" by (simp add: td_start_def goes_on_def)
  from main_frees [OF this] obtain s where s: "td_reach e st s" "td_main s = Freed" "td_listener s = Receiving"
      "td_net s = force_clean_all_net_hooks e (detach_interfaces e st)"
    by (fastforce simp: td_start_def)
  from td_reach.step [OF s(1) td_step.datagram] s(2,3)
  have "td_reach e st (s\<lparr>td_listener := Handling [], td_late_datagrams := td_late_datagrams s + (if goes_on s then 0 else 1)\<rparr>)" (is "td_reach e st ?t")
    by simp
  from td_reach.step [OF this td_step.reload] s(2)
  have "td_reach e st (?t\<lparr>td_listener := Handling (cs @ rest)\<rparr>)" by (simp add: assms)
  from listener_runs [OF this, of cs rest] s(2,4) show ?thesis by auto
qed

section \<open>Properties\<close>


text \<open>C34: What the shutdown does not guarantee. Since the threads are detached and not joined, there is a run in which
  the ring buffer thread calls the library after the ring buffer has been freed (with the freed pointer, or with
  the null pointer that replaces it), and there is a run
  at whose end the process is gone and an interface carries the ingress program, attached again by the
  listener after the cleaning.\<close>

theorem teardown_races:
  "(\<exists>s. td_reach e st s \<and> td_after_free s) \<and>
   (\<exists>s. td_reach one_interface st s \<and> td_main s = Exited \<and> 2 \<in> xdp_hooks (td_net s))"
proof
  from td_reach.step [OF td_reach.start td_step.poll_test, of st e]
  have "td_reach e st ((td_start st)\<lparr>td_poller := Calling\<rparr>)" by (simp add: td_start_def)
  from main_frees [OF this] obtain s where "td_reach e st s" "td_main s = Freed" "td_poller s = Calling"
    by (fastforce simp: td_start_def)
  from td_reach.step [OF this(1) td_step.poll_call] this(2,3) show "\<exists>s. td_reach e st s \<and> td_after_free s"
    by (fastforce simp: freed_def)
next
  let ?net = "full_reload_all_xdp_tc one_interface (force_clean_all_net_hooks one_interface (detach_interfaces one_interface st))"
  from late_reload [of one_interface "reload_calls one_interface" "[]" st]
  obtain s where s: "td_reach one_interface st s" "td_main s = Freed" "td_net s = ?net" by (auto simp: run_reload)
  have "2 \<in> xdp_hooks ?net"
    using reload_hooks [of one_interface "[\<lparr>ifa_name = ''eth0'', ifa_index = 2, ifa_family = Some AF_INET, ifa_up = True\<rparr>]"]
    by (auto simp: one_interface_def xdp_wanted_def xdp_listed_def attach_xdp_auto_def has_inet_def is_lo_def)
  with td_reach.step [OF s(1) td_step.process_exit [OF s(2)]] s(3)
  show "\<exists>s. td_reach one_interface st s \<and> td_main s = Exited \<and> 2 \<in> xdp_hooks (td_net s)" by fastforce
qed


end
