(* ===== verification/FlowMemory.thy ===== *)
theory FlowMemory
  imports L7Engine
begin

text \<open>
  The memory of the DPI engine (\<open>src/src/user/servie/L7DpiEngine.hpp\<close>): the table of flows holds pointers to
  blocks that \<open>ndpi_malloc\<close> has given out; nDPI changes a flow in place; a recognised flow is freed; the
  destructor frees the rest.

  Here the engine is modelled with its heap, and shown to do what theory L7Engine says of it, in which the
  table holds the flows themselves. An access to a block that is not allocated has no value.
\<close>

section \<open>The engine with its heap\<close>

record 'n heap_engine =
  he_table :: "string \<rightharpoonup> nat"
  he_heap :: "nat \<rightharpoonup> 'n ndpi_flow"
  he_traffic :: "traffic_key \<rightharpoonup> metric_data"

type_synonym 'n allocator = "(nat \<rightharpoonup> 'n ndpi_flow) \<Rightarrow> nat option"

definition load_flow :: "nat \<Rightarrow> 'n heap_engine \<Rightarrow> 'n ndpi_flow option" where
  "load_flow p en = he_heap en p"

definition store_flow :: "nat \<Rightarrow> 'n ndpi_flow \<Rightarrow> 'n heap_engine \<Rightarrow> 'n heap_engine option" where
  "store_flow p flow en = (if he_heap en p = None then None else Some (en\<lparr>he_heap := (he_heap en)(p \<mapsto> flow)\<rparr>))"

definition free_flow :: "nat \<Rightarrow> 'n heap_engine \<Rightarrow> 'n heap_engine option" where
  "free_flow p en = (if he_heap en p = None then None else Some (en\<lparr>he_heap := (he_heap en)(p := None)\<rparr>))"

definition get_or_create_at :: "'n allocator \<Rightarrow> 'n ndpi \<Rightarrow> string \<Rightarrow> 'n heap_engine \<Rightarrow> nat option \<times> 'n heap_engine" where
  "get_or_create_at malloc nd key en =
     (case he_table en key of
        Some p \<Rightarrow> (Some p, en)
      | None \<Rightarrow>
          (case malloc (he_heap en) of
             None \<Rightarrow> (None, en)
           | Some p \<Rightarrow>
               (Some p, en\<lparr>he_heap := (he_heap en)(p \<mapsto> \<lparr>nf_host_server_name = [], nf_ja4_client = [], nf_state = zero_state nd\<rparr>),
                  he_table := (he_table en)(key \<mapsto> p)\<rparr>)))"

definition risk_chain_at ::
  "'n ndpi \<Rightarrow> int \<Rightarrow> bool \<Rightarrow> l7_dpi_event \<Rightarrow> nat \<Rightarrow> bytes \<Rightarrow> risk_indicators \<Rightarrow> 'n heap_engine \<Rightarrow> 'n heap_engine option" where
  "risk_chain_at nd now has_sni e p tls_payload ri en =
     do { flow \<leftarrow> load_flow p en;
          if \<not> has_sni then Some en
          else do { is_risky \<leftarrow> risk_verdict nd e flow tls_payload ri;
                    Some (en\<lparr>he_traffic := update_metrics now
                      \<lparr>tk_src_ip = l7_src_ip e, tk_dst_ip = l7_dst_ip e, tk_src_port = l7_src_port e, tk_dst_port = l7_dst_port e,
                        tk_domain = clean_text (nf_host_server_name flow)\<rparr> is_risky (he_traffic en)\<rparr>) } }"

definition analyze_packet_at ::
  "'n allocator \<Rightarrow> 'n ndpi \<Rightarrow> int \<Rightarrow> risk_indicators \<Rightarrow> l7_dpi_event \<Rightarrow> 'n heap_engine \<Rightarrow> ((string \<times> bool) \<times> 'n heap_engine) option" where
  "analyze_packet_at malloc nd now ri e en =
     (case packet_headers e of
        Inl err \<Rightarrow> Some ((err, False), en)
      | Inr (local_packet, total_hdr_len) \<Rightarrow>
          (let flow_key = get_birectional_key e
           in case get_or_create_at malloc nd flow_key en of
                (None, en) \<Rightarrow> Some ((''INTERNAL_ERROR(OOM)'', False), en)
              | (Some p, en) \<Rightarrow>
                  do { flow \<leftarrow> load_flow p en;
                       let (flow, app, master) = detection_process_packet nd flow local_packet
                       in do { en \<leftarrow> store_flow p flow en;
                            let proto_id = proto_of nd flow app master;
                                proto_name = (case get_proto_by_id nd proto_id of None \<Rightarrow> ''UNKNOWN'' | Some name \<Rightarrow> name);
                                has_sni = (nf_host_server_name flow \<noteq> [])
                            in if proto_id \<noteq> 0 \<and> has_sni
                               then do { en \<leftarrow> risk_chain_at nd now has_sni e p (drop total_hdr_len local_packet) ri en;
                                         en \<leftarrow> free_flow p en;
                                         Some ((proto_name, True), en\<lparr>he_table := (he_table en)(flow_key := None)\<rparr>) }
                               else Some ((proto_name, False), en) } }))"

text \<open>The constructor: nDPI delivers its two contexts, or the process exits with the status given.\<close>

definition L7DpiEngine :: "bool \<Rightarrow> bool \<Rightarrow> nat + 'n heap_engine" where
  "L7DpiEngine global_init module_init =
     (if \<not> global_init then Inl 1
      else if \<not> module_init then Inl 1
      else Inr \<lparr>he_table = Map.empty, he_heap = Map.empty, he_traffic = Map.empty\<rparr>)"

text \<open>The destructor, over the entries of the table in some order.\<close>

fun free_all :: "string list \<Rightarrow> 'n heap_engine \<Rightarrow> 'n heap_engine option" where
  "free_all [] en = Some (en\<lparr>he_table := Map.empty\<rparr>)"
| "free_all (k # ks) en = do { p \<leftarrow> he_table en k; en \<leftarrow> free_flow p en; free_all ks en }"

section \<open>Ownership\<close>

text \<open>The flows behind the pointers, and the invariant: different entries point to different blocks, every entry to
  an allocated one, and there is no other block.\<close>

definition values_of :: "'n heap_engine \<Rightarrow> 'n engine" where
  "values_of en = \<lparr>flow_table = he_heap en \<circ>\<^sub>m he_table en, traffic = he_traffic en\<rparr>"

definition owns :: "'n heap_engine \<Rightarrow> bool" where
  "owns en \<longleftrightarrow> ran (he_table en) = dom (he_heap en) \<and> inj_on (he_table en) (dom (he_table en))"

definition fresh_malloc :: "'n allocator \<Rightarrow> bool" where
  "fresh_malloc malloc \<longleftrightarrow> (\<forall>h p. malloc h = Some p \<longrightarrow> h p = None)"

lemma owned_block: "owns en \<Longrightarrow> he_table en k = Some p \<Longrightarrow> \<exists>flow. he_heap en p = Some flow"
  by (auto simp: owns_def dest: ranI)

lemma owned_once: "owns en \<Longrightarrow> he_table en k = Some p \<Longrightarrow> he_table en k' = Some p \<Longrightarrow> k' = k"
  unfolding owns_def by (metis domI inj_onD)

text \<open>Each of the three operations keeps the ownership and is, on the values, the operation on the table.\<close>

lemma owns_alloc:
  assumes "owns en" and "he_table en k = None" and "he_heap en p = None"
  shows "owns (en\<lparr>he_heap := (he_heap en)(p \<mapsto> flow), he_table := (he_table en)(k \<mapsto> p)\<rparr>)"
    and "values_of (en\<lparr>he_heap := (he_heap en)(p \<mapsto> flow), he_table := (he_table en)(k \<mapsto> p)\<rparr>) =
      (values_of en)\<lparr>flow_table := (flow_table (values_of en))(k \<mapsto> flow)\<rparr>"
proof -
  have new: "he_table en k' \<noteq> Some p" for k' using assms(1,3) owned_block by force
  then have "inj_on ((he_table en)(k \<mapsto> p)) (dom ((he_table en)(k \<mapsto> p)))"
    using assms(1) by (auto simp: owns_def inj_on_def)
  moreover have "ran ((he_table en)(k \<mapsto> p)) = insert p (ran (he_table en))" using assms(2) by (simp add: ran_map_upd)
  ultimately show "owns (en\<lparr>he_heap := (he_heap en)(p \<mapsto> flow), he_table := (he_table en)(k \<mapsto> p)\<rparr>)"
    using assms(1) by (simp add: owns_def)
  show "values_of (en\<lparr>he_heap := (he_heap en)(p \<mapsto> flow), he_table := (he_table en)(k \<mapsto> p)\<rparr>) =
      (values_of en)\<lparr>flow_table := (flow_table (values_of en))(k \<mapsto> flow)\<rparr>"
    using new by (auto simp: values_of_def map_comp_def fun_eq_iff split: option.splits)
qed

lemma owns_store:
  assumes "owns en" and "he_table en k = Some p"
  shows "\<exists>en'. store_flow p flow en = Some en' \<and> owns en' \<and> he_table en' = he_table en \<and> he_heap en' = (he_heap en)(p \<mapsto> flow) \<and>
    he_traffic en' = he_traffic en \<and> values_of en' = (values_of en)\<lparr>flow_table := (flow_table (values_of en))(k \<mapsto> flow)\<rparr>"
proof -
  obtain old where old: "he_heap en p = Some old" using owned_block [OF assms] by blast
  have "he_table en k' \<noteq> Some p" if "k' \<noteq> k" for k' using owned_once [OF assms] that by blast
  then have "values_of (en\<lparr>he_heap := (he_heap en)(p \<mapsto> flow)\<rparr>) = (values_of en)\<lparr>flow_table := (flow_table (values_of en))(k \<mapsto> flow)\<rparr>"
    using assms(2) by (auto simp: values_of_def map_comp_def fun_eq_iff split: option.splits)
  then show ?thesis using assms(1) old by (auto simp: store_flow_def owns_def)
qed

lemma owns_free:
  assumes "owns en" and "he_table en k = Some p"
  shows "\<exists>en'. free_flow p en = Some en' \<and> he_table en' = he_table en \<and> owns (en'\<lparr>he_table := (he_table en')(k := None)\<rparr>) \<and>
    values_of (en'\<lparr>he_table := (he_table en')(k := None)\<rparr>) = (values_of en)\<lparr>flow_table := (flow_table (values_of en))(k := None)\<rparr>"
proof -
  obtain old where old: "he_heap en p = Some old" using owned_block [OF assms] by blast
  have other: "he_table en k' \<noteq> Some p" if "k' \<noteq> k" for k' using owned_once [OF assms] that by blast
  then have "ran ((he_table en)(k := None)) = ran (he_table en) - {p}"
  proof (intro subset_antisym subsetI)
    fix x assume "x \<in> ran (he_table en) - {p}"
    then obtain a where "he_table en a = Some x" "x \<noteq> p" by (auto simp: ran_def)
    then show "x \<in> ran ((he_table en)(k := None))" using assms(2) by (intro ranI [of _ a]) auto
  qed (auto simp: ran_def split: if_splits)
  moreover have "inj_on ((he_table en)(k := None)) (dom ((he_table en)(k := None)))"
    using assms(1) by (auto simp: owns_def inj_on_def dom_def)
  ultimately have "owns (en\<lparr>he_heap := (he_heap en)(p := None), he_table := (he_table en)(k := None)\<rparr>)"
    using assms(1) by (auto simp: owns_def)
  moreover have "values_of (en\<lparr>he_heap := (he_heap en)(p := None), he_table := (he_table en)(k := None)\<rparr>) =
      (values_of en)\<lparr>flow_table := (flow_table (values_of en))(k := None)\<rparr>"
    using other by (auto simp: values_of_def map_comp_def fun_eq_iff split: option.splits)
  ultimately show ?thesis using old by (simp add: free_flow_def)
qed

text \<open>The lookup, with memory or without.\<close>

lemma get_or_create_refines:
  assumes "owns en" and "fresh_malloc malloc" and "get_or_create_at malloc nd k en = (r, en')"
  shows "owns en'" and "he_traffic en' = he_traffic en"
    and "case r of None \<Rightarrow> get_or_create_ndpi_flow nd (malloc (he_heap en) \<noteq> None) k (values_of en) = (None, values_of en')
         | Some p \<Rightarrow> he_table en' k = Some p \<and>
             get_or_create_ndpi_flow nd (malloc (he_heap en) \<noteq> None) k (values_of en) = (he_heap en' p, values_of en')"
proof -
  let ?new = "\<lparr>nf_host_server_name = [], nf_ja4_client = [], nf_state = zero_state nd\<rparr>"
  have "owns en' \<and> he_traffic en' = he_traffic en \<and> (case r of
      None \<Rightarrow> get_or_create_ndpi_flow nd (malloc (he_heap en) \<noteq> None) k (values_of en) = (None, values_of en')
    | Some p \<Rightarrow> he_table en' k = Some p \<and>
        get_or_create_ndpi_flow nd (malloc (he_heap en) \<noteq> None) k (values_of en) = (he_heap en' p, values_of en'))"
  proof (cases "he_table en k")
    case (Some p)
    obtain flow where "he_heap en p = Some flow" using owned_block [OF assms(1) Some] by blast
    moreover have "r = Some p" "en' = en" using assms(3) Some by (simp_all add: get_or_create_at_def)
    ultimately show ?thesis using assms(1) Some by (simp add: get_or_create_ndpi_flow_def values_of_def map_comp_def)
  next
    case None
    then have "flow_table (values_of en) k = None" by (simp add: values_of_def map_comp_def)
    then show ?thesis
      using assms None owns_alloc [OF assms(1) None]
      by (auto simp: get_or_create_at_def get_or_create_ndpi_flow_def fresh_malloc_def Let_def split: option.splits)
  qed
  then show "owns en'" "he_traffic en' = he_traffic en" "case r of None \<Rightarrow> get_or_create_ndpi_flow nd (malloc (he_heap en) \<noteq> None) k (values_of en) = (None, values_of en')
         | Some p \<Rightarrow> he_table en' k = Some p \<and>
             get_or_create_ndpi_flow nd (malloc (he_heap en) \<noteq> None) k (values_of en) = (he_heap en' p, values_of en')"
    by blast+
qed

lemma values_traffic: "values_of (en\<lparr>he_traffic := t\<rparr>) = (values_of en)\<lparr>traffic := t\<rparr>" "traffic (values_of en) = he_traffic en"
  by (simp_all add: values_of_def)

lemma owns_traffic [simp]: "owns (en\<lparr>he_traffic := t\<rparr>) = owns en"
  by (simp add: owns_def)

lemma risk_chain_refines:
  assumes "he_heap en p = Some flow"
  shows "map_option values_of (risk_chain_at nd now has_sni e p payload ri en) = riskChainFilter nd now has_sni e flow payload ri (values_of en)"
    and "risk_chain_at nd now has_sni e p payload ri en = Some en' \<Longrightarrow> he_table en' = he_table en \<and> he_heap en' = he_heap en"
  using assms by (auto simp: risk_chain_at_def load_flow_def riskChainFilter_def values_traffic split: bind_splits if_splits)

lemma recognised_refines:
  assumes "owns en" and "he_table en k = Some p" and "he_heap en p = Some flow"
    and "result = do { en1 \<leftarrow> risk_chain_at nd now has_sni e p payload ri en; en2 \<leftarrow> free_flow p en1; Some (en2\<lparr>he_table := (he_table en2)(k := None)\<rparr>) }"
  shows "map_option values_of result =
      do { en1 \<leftarrow> riskChainFilter nd now has_sni e flow payload ri (values_of en); Some (en1\<lparr>flow_table := (flow_table en1)(k := None)\<rparr>) }"
    and "result = Some en' \<Longrightarrow> owns en'"
proof -
  note chain = risk_chain_refines [OF assms(3), of nd now has_sni e payload ri]
  have "map_option values_of result =
      do { en1 \<leftarrow> riskChainFilter nd now has_sni e flow payload ri (values_of en); Some (en1\<lparr>flow_table := (flow_table en1)(k := None)\<rparr>) } \<and>
      (\<forall>en'. result = Some en' \<longrightarrow> owns en')"
  proof (cases "risk_chain_at nd now has_sni e p payload ri en")
    case None
    then show ?thesis using chain(1) assms(4) by simp
  next
    case (Some en1)
    have same: "he_table en1 = he_table en" "he_heap en1 = he_heap en" using chain(2) [OF Some] by simp_all
    then have own1: "owns en1" and entry1: "he_table en1 k = Some p" using assms(1,2) by (simp_all add: owns_def)
    have "riskChainFilter nd now has_sni e flow payload ri (values_of en) = Some (values_of en1)" using chain(1) Some by simp
    then show ?thesis using owns_free [OF own1 entry1] assms(4) Some by auto
  qed
  then show "map_option values_of result =
      do { en1 \<leftarrow> riskChainFilter nd now has_sni e flow payload ri (values_of en); Some (en1\<lparr>flow_table := (flow_table en1)(k := None)\<rparr>) }"
    "result = Some en' \<Longrightarrow> owns en'" by blast+
qed

lemma analysis_refines_pair:
  assumes "owns en" and "fresh_malloc malloc" and ok: "(malloc (he_heap en) \<noteq> None) = ok"
  shows "map_option (\<lambda>(r, en'). (r, values_of en')) (analyze_packet_at malloc nd now ri e en) =
      analyze_packet nd now ok ri e (values_of en) \<and>
    (\<forall>r en'. analyze_packet_at malloc nd now ri e en = Some (r, en') \<longrightarrow> owns en')"
proof (cases "packet_headers e")
  case (Inl err)
  then show ?thesis using assms(1) by (auto simp: analyze_packet_at_def analyze_packet_def)
next
  case (Inr h)
  obtain lp len where h: "h = (lp, len)" by (cases h)
  let ?key = "get_birectional_key e"
  obtain r1 en1 where get: "get_or_create_at malloc nd ?key en = (r1, en1)" by (metis surj_pair)
  note got = get_or_create_refines [OF assms(1,2) get, unfolded ok]
  show ?thesis
  proof (cases r1)
    case None
    then show ?thesis using got get by (simp add: analyze_packet_at_def analyze_packet_def Inr h)
  next
    case (Some p)
    have entry: "he_table en1 ?key = Some p" using got(3) Some by simp
    obtain flow where flow: "he_heap en1 p = Some flow" using owned_block [OF got(1) entry] by blast
    have abs: "get_or_create_ndpi_flow nd ok ?key (values_of en) = (Some flow, values_of en1)" using got(3) Some flow by simp
    obtain flow' app master where det: "detection_process_packet nd flow lp = (flow', app, master)" by (metis surj_pair)
    obtain en2 where en2: "store_flow p flow' en1 = Some en2" "owns en2" "he_table en2 = he_table en1" "he_heap en2 = (he_heap en1)(p \<mapsto> flow')"
        "values_of en2 = (values_of en1)\<lparr>flow_table := (flow_table (values_of en1))(?key \<mapsto> flow')\<rparr>"
      using owns_store [OF got(1) entry, of flow'] by blast
    let ?sni = "nf_host_server_name flow' \<noteq> []" and ?id = "proto_of nd flow' app master"
    let ?name = "case get_proto_by_id nd ?id of None \<Rightarrow> ''UNKNOWN'' | Some name \<Rightarrow> name"
    define result where "result = do { en3 \<leftarrow> risk_chain_at nd now ?sni e p (drop len lp) ri en2; en4 \<leftarrow> free_flow p en3;
        Some (en4\<lparr>he_table := (he_table en4)(?key := None)\<rparr>) }"
    have stored: "he_table en2 ?key = Some p" "he_heap en2 p = Some flow'" using entry by (simp_all add: en2(3,4))
    note done_with = recognised_refines [OF en2(2) stored result_def]
    have "analyze_packet_at malloc nd now ri e en =
        (if ?id \<noteq> 0 \<and> ?sni then do { en' \<leftarrow> result; Some ((?name, True), en') } else Some ((?name, False), en2))"
      by (simp add: analyze_packet_at_def Inr h get Some load_flow_def flow det en2(1) result_def Let_def)
    moreover have "analyze_packet nd now ok ri e (values_of en) =
        (if ?id \<noteq> 0 \<and> ?sni
         then do { en' \<leftarrow> map_option values_of result; Some ((?name, True), en') }
         else Some ((?name, False), values_of en2))"
      unfolding done_with(1) by (simp add: analyze_packet_def Inr h abs det en2(5) Let_def)
    ultimately show ?thesis using en2(2) done_with(2) by (cases result) auto
  qed
qed


section \<open>Properties\<close>

text \<open>C35: The engine with pointers does what the engine with flows does: on every event the answer is the same, an
  access to a freed or unknown block never happens (there is no value only where the abstract engine has none), the
  flows behind the table are those of the abstract table, and afterwards the table again owns exactly the allocated
  blocks, each one once: nothing leaks when a recognised flow is dropped, and nothing is freed twice. What is asked of
  \<open>ndpi_malloc\<close> is that it gives a block that is not in use, or none.\<close>

theorem engine_memory_refines:
  assumes "owns en" and "fresh_malloc malloc"
  shows "map_option (\<lambda>(r, en'). (r, values_of en')) (analyze_packet_at malloc nd now ri e en) =
      analyze_packet nd now (malloc (he_heap en) \<noteq> None) ri e (values_of en) \<and>
    (\<forall>r en'. analyze_packet_at malloc nd now ri e en = Some (r, en') \<longrightarrow> owns en')"
  using analysis_refines_pair [OF assms refl] .

text \<open>An allocator of one block, and the engine before its first packet.\<close>

definition one_block :: "'n allocator" where
  "one_block h = (if h 7 = None then Some 7 else None)"

definition fresh_engine :: "'n heap_engine" where
  "fresh_engine = \<lparr>he_table = Map.empty, he_heap = Map.empty, he_traffic = Map.empty\<rparr>"

lemma fresh_engine_owns: "owns fresh_engine" "values_of fresh_engine = \<lparr>flow_table = Map.empty, traffic = Map.empty\<rparr>"
  by (simp_all add: owns_def fresh_engine_def values_of_def)

lemma constructed: "L7DpiEngine True True = Inr fresh_engine"
  by (simp add: L7DpiEngine_def fresh_engine_def)

lemma one_block_fresh: "fresh_malloc one_block"
  by (simp add: fresh_malloc_def one_block_def)

theorem engine_memory_refines_witness:
  "map_option (\<lambda>(r, en'). (r, values_of en')) (analyze_packet_at one_block blind_ndpi 0 no_indicators (datagram 1) fresh_engine) =
     analyze_packet blind_ndpi 0 True no_indicators (datagram 1) (values_of fresh_engine) \<and>
   map_option fst (analyze_packet_at one_block blind_ndpi 0 no_indicators (datagram 1) fresh_engine) = Some (''UNKNOWN'', False)"
proof -
  have room: "(one_block (he_heap fresh_engine) \<noteq> None) = True" by (simp add: one_block_def fresh_engine_def)
  have same: "map_option (\<lambda>(r, en'). (r, values_of en')) (analyze_packet_at one_block blind_ndpi 0 no_indicators (datagram 1) fresh_engine) =
      analyze_packet blind_ndpi 0 True no_indicators (datagram 1) (values_of fresh_engine)"
    by (rule engine_memory_refines [OF fresh_engine_owns(1) one_block_fresh, of blind_ndpi 0 no_indicators "datagram 1", unfolded room, THEN conjunct1])
  then show ?thesis using blind_analysis [of 0 no_indicators 1 "values_of fresh_engine"]
    by (cases "analyze_packet_at one_block blind_ndpi 0 no_indicators (datagram 1) fresh_engine") auto
qed

text \<open>The destructor, by induction on the entries: each one is freed, and what is left is owned by the rest.\<close>

lemma free_all_owned:
  assumes "distinct ks" and "set ks = dom table" and "owns (en\<lparr>he_table := table\<rparr>)" and "table \<subseteq>\<^sub>m he_table en"
  shows "free_all ks en = Some (en\<lparr>he_table := Map.empty, he_heap := Map.empty\<rparr>)"
  using assms
proof (induction ks arbitrary: table en)
  case Nil
  then have "dom table = {}" by simp
  then have "table = Map.empty" by simp
  then have "he_heap en = Map.empty" using Nil.prems(3) by (simp add: owns_def) (metis dom_eq_empty_conv)
  then show ?case by simp
next
  case (Cons k ks)
  obtain p where p: "table k = Some p" using Cons.prems(2) by auto
  then have in_en: "he_table en k = Some p" using Cons.prems(4) by (auto simp: map_le_def dom_def)
  obtain en' where freed: "free_flow p (en\<lparr>he_table := table\<rparr>) = Some en'" "owns (en'\<lparr>he_table := (he_table en')(k := None)\<rparr>)"
      "he_table en' = table"
    using owns_free [OF Cons.prems(3), of k p] p by auto
  let ?en = "en\<lparr>he_heap := (he_heap en)(p := None)\<rparr>"
  have "free_flow p en = Some ?en" and en': "en' = (en\<lparr>he_table := table\<rparr>)\<lparr>he_heap := (he_heap en)(p := None)\<rparr>"
    using freed(1) by (auto simp: free_flow_def split: if_splits)
  moreover have "free_all ks ?en = Some (?en\<lparr>he_table := Map.empty, he_heap := Map.empty\<rparr>)"
  proof (rule Cons.IH)
    show "distinct ks" "set ks = dom (table(k := None))" using Cons.prems(1,2) by auto
    show "owns (?en\<lparr>he_table := table(k := None)\<rparr>)" using freed(2,3) by (simp add: en' owns_def)
    show "table(k := None) \<subseteq>\<^sub>m he_table ?en" using Cons.prems(4) by (auto simp: map_le_def)
  qed
  ultimately show ?case by (simp add: in_en)
qed

text \<open>The analysis of a list of events.\<close>

fun engine_run :: "'n allocator \<Rightarrow> 'n ndpi \<Rightarrow> int \<Rightarrow> risk_indicators \<Rightarrow> l7_dpi_event list \<Rightarrow> 'n heap_engine \<Rightarrow> 'n heap_engine option" where
  "engine_run malloc nd now ri [] en = Some en"
| "engine_run malloc nd now ri (e # es) en =
     do { (_, en) \<leftarrow> analyze_packet_at malloc nd now ri e en; engine_run malloc nd now ri es en }"

lemma engine_run_owns:
  "owns en \<Longrightarrow> fresh_malloc malloc \<Longrightarrow> engine_run malloc nd now ri es en = Some en' \<Longrightarrow> owns en'"
proof (induction es arbitrary: en)
  case (Cons e es)
  then obtain r en1 where "analyze_packet_at malloc nd now ri e en = Some (r, en1)" "engine_run malloc nd now ri es en1 = Some en'"
    by (auto split: bind_splits)
  then show ?case using Cons analysis_refines_pair [OF _ _ refl] by blast
qed simp

text \<open>After any events the destructor, in whatever order it meets the entries, frees every flow that is left, each one
  once, and no memory of a flow stays allocated; the counts of the traffic are not touched.\<close>

theorem flows_given_back:
  assumes "fresh_malloc malloc" and "engine_run malloc nd now ri es fresh_engine = Some en"
    and "distinct ks" and "set ks = dom (he_table en)"
  shows "free_all ks en = Some (en\<lparr>he_table := Map.empty, he_heap := Map.empty\<rparr>)"
proof (rule free_all_owned [OF assms(3,4)])
  have "en\<lparr>he_table := he_table en\<rparr> = en" by (cases en) simp
  then show "owns (en\<lparr>he_table := he_table en\<rparr>)" using engine_run_owns [OF fresh_engine_owns(1) assms(1,2)] by simp
qed simp

lemma blind_step:
  "analyze_packet_at one_block blind_ndpi 0 no_indicators (datagram 1) fresh_engine =
     Some ((''UNKNOWN'', False), \<lparr>he_table = [get_birectional_key (datagram 1) \<mapsto> 7],
       he_heap = [7 \<mapsto> \<lparr>nf_host_server_name = [], nf_ja4_client = [], nf_state = ()\<rparr>], he_traffic = Map.empty\<rparr>)"
  using datagram_accepted [of 1]
  by (cases "packet_headers (datagram 1)")
    (auto simp: analyze_packet_at_def get_or_create_at_def one_block_def fresh_engine_def load_flow_def store_flow_def blind_ndpi_def
      proto_of_def Let_def)

theorem flows_given_back_witness:
  "\<exists>en en'. engine_run one_block blind_ndpi 0 no_indicators [datagram 1] fresh_engine = Some en \<and> he_heap en \<noteq> Map.empty \<and>
     free_all [get_birectional_key (datagram 1)] en = Some en' \<and> he_heap en' = Map.empty"
proof -
  let ?en = "\<lparr>he_table = [get_birectional_key (datagram 1) \<mapsto> 7],
      he_heap = [7 \<mapsto> \<lparr>nf_host_server_name = [], nf_ja4_client = [], nf_state = ()\<rparr>], he_traffic = Map.empty\<rparr>"
  have run: "engine_run one_block blind_ndpi 0 no_indicators [datagram 1] fresh_engine = Some ?en" by (simp add: blind_step)
  then have "free_all [get_birectional_key (datagram 1)] ?en = Some (?en\<lparr>he_table := Map.empty, he_heap := Map.empty\<rparr>)"
    by (intro flows_given_back [OF one_block_fresh run]) simp_all
  then show ?thesis using run
    by (intro exI [of _ ?en] exI [of _ "?en\<lparr>he_table := Map.empty, he_heap := Map.empty\<rparr>"] conjI) (simp_all del: free_all.simps engine_run.simps)
qed

end
