(* ===== verification/ReportTypes.thy ===== *)
theory ReportTypes
  imports System Samples
begin

text \<open>
  What a report to the dashboard can be. The header \<open>src/src/ebpf/fw_status_code.h\<close> has three actions, nine stages
  and seventeen reasons; the ingress program (\<open>src/src/ebpf/xdp_fw.c\<close>) reports a packet only after its last stage, so
  the reports it can leave in \<open>report_to_user_map\<close> have few of them. Here the type of a report is defined and shown
  to be kept by every step of the system, and with it that the decoders of \<open>src/src/user/main.h\<close> know every
  status they meet.
\<close>

section \<open>The type of a report\<close>

definition report_statuses :: "u32 list" where
  [eval_defs]: "report_statuses = [MAKE_STATUS ACT_DROP STG_GLOBAL_LMT RSN_LIMIT_BYTES,
     MAKE_STATUS ACT_DROP STG_FLOW_LMT RSN_LIMIT_BYTES, MAKE_STATUS ACT_PASS STG_FLOW_LMT RSN_SUCCESS]"

definition report_typed :: "event \<Rightarrow> bool" where
  "report_typed ev \<longleftrightarrow> ev_status_code ev \<in> set report_statuses \<and> ev_type ev = EVENT_TYPE_BASIC \<and>
     fk_sport (ev_key ev) = 0 \<and> fk_dport (ev_key ev) = 0"

definition reports_typed :: "fw_state \<Rightarrow> bool" where
  "reports_typed s \<longleftrightarrow> (\<forall>k ev. report_to_user_map s k = Some ev \<longrightarrow> report_typed ev)"

section \<open>What leaves the reports alone\<close>

definition same_reports :: "fw_state \<Rightarrow> fw_state \<Rightarrow> bool" where
  "same_reports s s' \<longleftrightarrow> report_to_user_map s' = report_to_user_map s"

lemma report_stat [simp]: "report_to_user_map (increment_stat k s) = report_to_user_map s"
  by (simp add: increment_stat_def split: option.splits)

lemma same_reports_simps [simp]:
  "same_reports s s" "same_reports s (increment_stat k t) = same_reports s t" "same_reports s (global_stats n t) = same_reports s t"
  "same_reports s (put_flow key st t) = same_reports s t" "same_reports s (snd (snd (leave a p t))) = same_reports s t"
  "same_reports s (touch_conn key c now t) = same_reports s t" "same_reports s (t\<lparr>ticks := tk\<rparr>) = same_reports s t"
  "same_reports s (put_conn key c t) = same_reports s t" "same_reports s (note_attack e t) = same_reports s t"
  "same_reports s (block_source e ip t) = same_reports s t"
  by (simp_all add: same_reports_def increment_stat_def global_stats_def add_global_stat_def put_flow_def leave_def touch_conn_def
      put_conn_def note_attack_def block_source_def bpf_ktime_get_ns_def Let_def split: option.splits)

lemma same_reports_trans: "same_reports s t \<Longrightarrow> same_reports t u \<Longrightarrow> same_reports s u"
  by (simp add: same_reports_def)

lemma same_reports_typed: "same_reports s t \<Longrightarrow> reports_typed s \<Longrightarrow> reports_typed t"
  by (simp add: same_reports_def reports_typed_def)

lemma same_reports_check:
  "check_conntrack_and_blacklist e s p (lookup_conn s k) = (v, p', s') \<Longrightarrow> same_reports s s'"
  by (auto simp: check_conntrack_and_blacklist_def conn_verdict_def lookup_conn_def bpf_ktime_get_ns_def Let_def
      split: option.splits if_splits)

lemma same_reports_attack: "check_attack_status e s = (a, s') \<Longrightarrow> same_reports s s'"
  by (auto simp: check_attack_status_def same_reports_def bpf_ktime_get_ns_def Let_def split: option.splits if_splits)

lemma same_reports_enforce:
  "enforce_l4_l7_policy_and_dpi e s p None = (r, p', s') \<Longrightarrow> same_reports s s'"
  by (auto simp: enforce_l4_l7_policy_and_dpi_def trigger_fuse_ratelimit_def note_attack_def same_reports_def bpf_ktime_get_ns_def
      Let_def split: option.splits if_splits prod.splits)

lemma same_reports_tcp:
  assumes "handle_tcp e s p ip pos = (r, p', s')"
  shows "same_reports s s'"
proof (cases "parse_tcp (pc_data p) pos ip")
  case (Some t)
  then show ?thesis
    using assms
    by (auto simp: handle_tcp_def Let_def dest: check_spec(1) same_reports_check split: prod.splits if_splits)
qed (use assms in \<open>simp add: handle_short\<close>)

lemma same_reports_udp:
  assumes "handle_udp e s p ip pos = (r, p', s')"
  shows "same_reports s s'"
proof (cases "parse_udp (pc_data p) pos")
  case (Some t)
  then show ?thesis
    using assms
    by (auto simp: handle_udp_def Let_def simp del: if_split split: prod.splits)
      (auto dest: check_spec(1) same_reports_check split: if_splits prod.splits)
qed (use assms in \<open>simp add: handle_short\<close>)

lemma same_reports_icmp: "handle_icmp e s p pos = (r, p', s') \<Longrightarrow> same_reports s s'"
  by (auto simp: handle_icmp_def Let_def dest: same_reports_enforce split: option.splits prod.splits if_splits)

lemma same_reports_parse:
  assumes "parse_packet_and_flood_protect e s p = (r, p', s')"
  shows "same_reports s s'"
proof -
  have ip: "handle_ipv4 e t q ip proto pos = (r, p', s') \<Longrightarrow> same_reports t s'" for t q ip proto pos
    by (auto simp: handle_ipv4_def handle_other_def Let_def
        dest: same_reports_tcp same_reports_udp same_reports_icmp split: if_splits)
  have att: "check_attack_status e (global_stats n s) = (a, t) \<Longrightarrow> same_reports s t" for n a t
    using same_reports_attack [of e "global_stats n s" a t] by (auto intro: same_reports_trans [of s "global_stats n s"])
  show ?thesis
    using assms unfolding parse_packet_and_flood_protect_def Let_def
    by (auto dest: att intro: same_reports_trans [OF att ip] split: option.splits prod.splits if_splits)
qed

lemma same_reports_rates: "rate_limits e s p st w = (p', st', s') \<Longrightarrow> same_reports s s'"
  by (auto simp: rate_limits_def flow_limit_def consume_flow_tokens_def consume_global_tokens_def same_reports_def block_source_def
      bpf_ktime_get_ns_def Let_def split: option.splits prod.splits if_splits)

lemma same_reports_record: "same_reports s (record_established e s p)"
  by (auto simp: same_reports_def record_established_def touch_conn_def bpf_ktime_get_ns_def Let_def split: option.splits)

lemma same_reports_policy: "apply_policy e s p st = (p', st', s') \<Longrightarrow> same_reports s s'"
  by (auto simp: apply_policy_def Let_def intro: same_reports_trans [OF same_reports_record] dest: same_reports_rates split: if_splits)

lemma same_reports_l7: "same_reports s (emit_l7_event e t p k) = same_reports s t"
  by (auto simp: same_reports_def emit_l7_event_def process_event_def push_ol7event_def bpf_ktime_get_ns_def Let_def split: option.splits)

section \<open>The last stage\<close>

lemma not_quiet: "fk_sport (pm_key m) = 0 \<Longrightarrow> fk_dport (pm_key m) = 0 \<Longrightarrow> \<not> ssh_quiet m"
  by (simp add: ssh_quiet_def ssh_port_def bpf_htons_def)

lemma typed_emit:
  assumes "reports_typed s" and "fk_sport (pm_key (pc_meta p)) = 0" and "fk_dport (pm_key (pc_meta p)) = 0"
    and "pm_status_code (pc_meta p) \<in> set report_statuses"
  shows "reports_typed (emit_event e s p EVENT_TYPE_BASIC)"
  using assms not_quiet [OF assms(2,3)]
  by (auto simp: emit_event_def process_event_def update_report_map_def reports_typed_def report_typed_def bpf_ktime_get_ns_def
      EVENT_TYPE_BASIC_def EVENT_TYPE_L7_DPI_def Let_def split: option.splits)

lemma policy_status:
  assumes "apply_policy e s p st = (p', st', s')"
  shows "pm_key (pc_meta p') = pm_key (pc_meta p)"
    and "pm_status_code (pc_meta p') \<in> set report_statuses \<or> resolve_action p' = XDP_DROP \<and> pm_status_code (pc_meta p') AND 0xFFFF = RSN_PORT_MISS"
  using apply_policy_status [OF assms] resolve_set_status [of ACT_DROP STG_PORT_WHT RSN_PORT_MISS p]
    status_fields(3) [of ACT_DROP STG_PORT_WHT RSN_PORT_MISS]
  by (auto simp: report_statuses_def split: if_splits)

lemma typed_policy_stage:
  assumes "reports_typed s" and "fk_sport (pm_key (pc_meta p)) = 0" and "fk_dport (pm_key (pc_meta p)) = 0"
  shows "reports_typed (snd (snd (xdp_policy_stage e s p st act)))"
proof -
  obtain p' st' t where a: "apply_policy e s p (Some st) = (p', st', t)" by (metis prod_cases3)
  note p' = policy_status [OF a]
  have t: "reports_typed t" by (rule same_reports_typed [OF same_reports_policy [OF a] assms(1)])
  have out: "reports_typed (snd (snd (leave x q u)))" if "reports_typed u" for x q u
    using same_reports_typed [OF _ that, of "snd (snd (leave x q u))"] by simp
  have put: "reports_typed (put_flow k f u)" if "reports_typed u" for k f u
    using same_reports_typed [OF _ that, of "put_flow k f u"] by simp
  have quiet: "should_emit_event q f XDP_DROP \<noteq> 2" for q f by (simp add: should_emit_event_def)
  show ?thesis
  proof (cases "pm_status_code (pc_meta p') \<in> set report_statuses")
    case True
    have tick: "reports_typed (t\<lparr>ticks := n\<rparr>)" for n using same_reports_typed [OF _ t, of "t\<lparr>ticks := n\<rparr>"] by simp
    have "reports_typed (emit_event e u p' EVENT_TYPE_BASIC)" if "reports_typed u" for u
      using typed_emit [OF that _ _ True] assms(2,3) p'(1) by simp
    then show ?thesis
      using quiet t tick by (auto simp: xdp_policy_stage_def a update_flow_stats_def bpf_ktime_get_ns_def Let_def intro!: out put)
  next
    case False
    then show ?thesis using p'(2) quiet t by (auto simp: xdp_policy_stage_def a Let_def intro!: out put)
  qed
qed

lemma typed_limits_stage:
  assumes "reports_typed s" and "handed_on b ip p"
  shows "reports_typed (snd (snd (xdp_limits_stage e s p act)))"
proof -
  have out: "reports_typed (snd (snd (leave x q u)))" if "reports_typed u" for x q u
    using same_reports_typed [OF _ that, of "snd (snd (leave x q u))"] by simp
  have pps: "reports_typed t" if "consume_global_pps e s = (v, t)" for v t
    using that assms(1) by (auto simp: consume_global_pps_def bpf_ktime_get_ns_def reports_typed_def Let_def split: option.splits prod.splits)
  have flow: "reports_typed u" if "lookup_or_create_flow e t k = (r, u)" "reports_typed t" for t k r u
    using that by (auto simp: lookup_or_create_flow_def bpf_ktime_get_ns_def reports_typed_def Let_def split: option.splits if_splits)
  have "fk_sport (pm_key (pc_meta (build_flow_key p))) = 0" "fk_dport (pm_key (pc_meta (build_flow_key p))) = 0"
    using build_key_handed_on [OF assms(2)] by (simp_all add: handed_on_def uninspected_key_def zero_key_def)
  then show ?thesis
    unfolding xdp_limits_stage_def Let_def
    by (auto intro!: out typed_policy_stage dest: pps flow split: prod.split option.split)
qed

lemma typed_xdp:
  assumes "xdp_fw e b s = Some (a, b', s')" and "maps_wf s" and "reports_typed s"
  shows "reports_typed s'"
proof -
  obtain s0 where s0: "init_gconfig_and_gmap s = Some s0" using assms(1) by (auto simp: xdp_fw_def split: option.splits)
  have "same_reports s s0"
    using s0 by (auto simp: init_gconfig_and_gmap_def same_reports_def split: if_splits option.splits)
  moreover obtain r p t where run: "parse_packet_and_flood_protect e s0 (fresh_ctx b) = (r, p, t)" by (metis prod_cases3)
  ultimately have t: "reports_typed t" using same_reports_typed [OF same_reports_trans [OF _ same_reports_parse [OF run]] assms(3)] by blast
  have spec: "parse_spec e s0 b (r, p, t)" using parse_stage_spec [of e s0 b] run by simp
  have out: "reports_typed (snd (snd (leave x q u)))" if "reports_typed u" for x q u
    using same_reports_typed [OF _ that, of "snd (snd (leave x q u))"] by simp
  have l7: "reports_typed (emit_l7_event e t p k)" for k
    using same_reports_typed [OF _ t, of "emit_l7_event e t p k"] by (simp add: same_reports_l7)
  have late: "\<exists>ip. handed_on b ip p" if "\<not> r < 0" "r \<noteq> 1" "r \<noteq> 3"
    using spec that by (auto simp: parse_spec_def stage_result_def split: frame_class.splits if_splits)
  have "s' = snd (snd
    (if r < 0 then leave (resolve_action p) p t
     else if r = 1 then leave XDP_PASS p t
     else if r = 3 then leave XDP_PASS p (emit_l7_event e t p EVENT_TYPE_L7_DPI)
     else xdp_limits_stage e t p (resolve_action p)))"
    using xdp_fw_stages [OF s0 assms(2) run] assms(1) by (metis option.inject snd_conv)
  then show ?thesis using late t out l7 typed_limits_stage [OF t] by auto
qed

section \<open>The system\<close>

lemma same_reports_connect: "trace_connect_tp e m l s = (r, s') \<Longrightarrow> same_reports s s'"
  by (auto simp: trace_connect_tp_def same_reports_def Let_def split: option.splits if_splits)

lemma same_reports_submit: "submit_l7 e skb k now d t = (ok, t') \<Longrightarrow> same_reports s t \<Longrightarrow> same_reports s t'"
  by (auto simp: submit_l7_def same_reports_def Let_def split: option.splits)

lemma same_reports_tls: "tc_tls_check e skb k off now t = (r, t') \<Longrightarrow> same_reports s t \<Longrightarrow> same_reports s t'"
  by (auto simp: tc_tls_check_def Let_def intro: same_reports_submit [OF surjective_pairing] split: option.splits if_splits)

lemma same_reports_egress: "same_reports s (tc_egress_record e perm skb s)"
proof -
  have classify: "same_reports s (tc_record e perm skb k off now t)" if "same_reports s t" for k off now t
    using that by (auto simp: tc_record_def tc_classify_def Let_def dest: same_reports_tls split: option.splits prod.splits if_splits)
  have pending: "same_reports s (tc_pending e skb k off now c t)" if "same_reports s t" for k off now c t
    using that by (auto simp: tc_pending_def Let_def dest: same_reports_submit [where s = s] split: option.split prod.split)
  show ?thesis
    by (auto simp: tc_egress_record_def tc_connection_def bpf_ktime_get_ns_def Let_def intro!: classify pending split: option.split)
qed

lemma typed_step:
  assumes "sys_step perm s s'" and "maps_wf s" and "reports_typed s"
  shows "reports_typed s'"
  using assms
proof (cases rule: sys_step.cases)
  case (ingress e b a b')
  then show ?thesis using typed_xdp assms(2,3) by blast
next
  case (connect e m l r)
  then show ?thesis using same_reports_typed [OF same_reports_connect] assms(3) by blast
next
  case (egress e skb)
  then show ?thesis using same_reports_typed [OF same_reports_egress] assms(3) by simp
qed (auto simp: reports_typed_def split: if_splits)

lemma reachable_typed: "reachable perm s \<Longrightarrow> reports_typed s"
proof (induction rule: reachable.induct)
  case (step s s')
  then show ?case using typed_step reachable_inv [OF step(1)] by (auto simp: fw_inv_def)
qed (simp add: reports_typed_def boot_state_def)

text \<open>C7: The reports are well typed. In every state the system can reach, each event in the report map has one of three
  status codes (out of the 459 that the header can pack), describes a packet without ports, and is of the basic type;
  so every status the dashboard meets has a name in each of its three tables, and a pass is always reported with
  the reason for a success, a drop always with that of a byte limit. In particular no report ever names a block list,
  the port gate, the fuse, the challenge or the connection check, although each of these drops packets.\<close>

theorem reports_well_typed:
  assumes "reachable perm s" and "report_to_user_map s key = Some ev"
  shows "ev_status_code ev \<in> set report_statuses \<and> ev_type ev = EVENT_TYPE_BASIC \<and>
    fk_sport (ev_key ev) = 0 \<and> fk_dport (ev_key ev) = 0 \<and>
    (GET_ACTION (ev_status_code ev), stage_str (ev_status_code ev), reason_str (ev_status_code ev)) \<in>
      {(1, ''FLOW_LMT'', ''SUCCESS''), (2, ''FLOW_LMT'', ''LIMIT_BYTES''), (2, ''GLOBAL_LMT'', ''LIMIT_BYTES'')}"
proof -
  have typed: "report_typed ev" using reachable_typed [OF assms(1)] assms(2) by (simp add: reports_typed_def)
  then have "ev_status_code ev \<in> {0x02070040, 0x02080040, 0x01080000}"
    by (simp add: report_typed_def report_statuses_def MAKE_STATUS_def const_defs)
  then show ?thesis using typed
    by (auto simp: report_typed_def GET_ACTION_def stage_str_def GET_STAGE_def reason_str_def GET_REASON_def)
qed

text \<open>The first packet, with the limits of the compiled configuration, is reported as a pass.\<close>

lemma gre_run: "map_option (\<lambda>(_, _, s'). map_option ev_status_code (report_to_user_map s' (server_ip mod 10000)))
    (xdp_fw (still_env 3000000000) gre_packet boot_state) = Some (Some 0x01080000)"
  by (simp add: run_defs)

theorem reports_well_typed_witness:
  "\<exists>s ev. reachable Map.empty s \<and> report_to_user_map s (server_ip mod 10000) = Some ev \<and> stage_str (ev_status_code ev) = ''FLOW_LMT''"
proof -
  obtain a b s where run: "xdp_fw (still_env 3000000000) gre_packet boot_state = Some (a, b, s)"
    and code: "map_option ev_status_code (report_to_user_map s (server_ip mod 10000)) = Some 0x01080000"
    using gre_run by (auto split: prod.splits)
  then obtain ev where ev: "report_to_user_map s (server_ip mod 10000) = Some ev" "ev_status_code ev = 0x01080000" by blast
  have s: "reachable Map.empty s" by (rule reachable.step [OF reachable.boot sys_step.ingress [OF run]])
  have "GET_ACTION (ev_status_code ev) = 1" by (simp add: ev(2) GET_ACTION_def)
  then show ?thesis using reports_well_typed [OF s ev(1)] s ev(1) by auto
qed

end
