(* ===== verification/SignalMask.thy ===== *)
theory SignalMask
  imports Prelude
begin

text \<open>
  The shutdown signals (\<open>block_shutdown_signals\<close>, \<open>register_signal_handler\<close>, \<open>signal_wait_thread_func\<close> and
  the first lines of \<open>main\<close> in \<open>src/src/user/main.cpp\<close>): the program masks the four signals in its first
  thread, so that every later thread inherits the mask, installs handlers, and lets one thread wait for a signal
  with \<open>sigwait\<close>. The threads that change the interfaces run commands with \<open>system()\<close>.

  The kernel's side is that of POSIX for signals sent to a process: a standard signal is pending at most once; it is
  delivered to some thread that does not mask it, where the disposition of the process decides, or accepted by a
  thread that waits for it. The first \<open>system()\<close> that begins sets \<open>SIGINT\<close> and \<open>SIGQUIT\<close> to be ignored, which
  discards those that are pending, masked or not, and the last one that ends sets them back. A signal that
  comes while it is both masked and ignored may stay pending (as on Linux). \<open>SIGKILL\<close>, which no program can mask, and
  \<open>SIGCHLD\<close> are left out.
\<close>

section \<open>Signals, dispositions, threads\<close>

datatype signal = SIGHUP | SIGINT | SIGQUIT | SIGTERM | SIGUSR1

datatype disposition = Terminate | Ignore_signal | Run_cleanup_and_exit | Run_handle_sigusr1

definition g_shutdown_sigset :: "signal set" where
  "g_shutdown_sigset = {SIGINT, SIGTERM, SIGHUP, SIGQUIT}"

record task =
  blocked :: "signal set"
  waits_for :: "signal set option" \<comment> \<open>in \<open>signal_wait_thread_func\<close>, with the set of \<open>sigwait\<close>\<close>
  woken :: "signal option" \<comment> \<open>what \<open>sigwait\<close> has returned\<close>

text \<open>How far \<open>main\<close> has come: the mask, the handlers, the waiting thread, the rest.\<close>

datatype main_pc = Unmasked | Masked | Armed | Serving

fun pc_rank :: "main_pc \<Rightarrow> nat" where
  "pc_rank Unmasked = 0"
| "pc_rank Masked = 1"
| "pc_rank Armed = 2"
| "pc_rank Serving = 3"

text \<open>The points in their order.\<close>

instantiation main_pc :: linorder
begin

definition less_eq_main_pc :: "main_pc \<Rightarrow> main_pc \<Rightarrow> bool" where
  "less_eq_main_pc p q \<longleftrightarrow> pc_rank p \<le> pc_rank q"

definition less_main_pc :: "main_pc \<Rightarrow> main_pc \<Rightarrow> bool" where
  "less_main_pc p q \<longleftrightarrow> pc_rank p < pc_rank q"

instance
proof
  fix p q :: main_pc
  assume "p \<le> q" "q \<le> p"
  then show "p = q" by (cases p; cases q) (simp_all add: less_eq_main_pc_def)
qed (auto simp: less_eq_main_pc_def less_main_pc_def)

end

lemma pc_order [simp]:
  "p < Armed \<longleftrightarrow> p = Unmasked \<or> p = Masked" "Serving \<le> p \<longleftrightarrow> p = Serving" "Unmasked \<le> p" "Masked \<le> Armed" "Armed \<le> Serving"
  by (cases p; simp add: less_eq_main_pc_def less_main_pc_def)+

record sig_state =
  main_at :: main_pc
  tasks :: "nat \<rightharpoonup> task"
  dispositions :: "signal \<Rightarrow> disposition"
  pending :: "signal set"
  going :: bool \<comment> \<open>\<open>g_running\<close>\<close>
  in_system :: "nat set" \<comment> \<open>the threads inside \<open>system()\<close>\<close>
  saved :: "signal \<Rightarrow> disposition" \<comment> \<open>the dispositions that \<open>system()\<close> sets back\<close>
  handled :: "(nat \<times> signal \<times> disposition) list" \<comment> \<open>the handlers that have run, and in which thread\<close>
  killed :: bool

definition before_main :: sig_state where
  "before_main = \<lparr>main_at = Unmasked, tasks = [0 \<mapsto> \<lparr>blocked = {}, waits_for = None, woken = None\<rparr>], dispositions = (\<lambda>_. Terminate),
     pending = {}, going = True, in_system = {}, saved = (\<lambda>_. Terminate), handled = [], killed = False\<rparr>"

section \<open>The program\<close>

definition pthread_sigmask_block :: "signal set \<Rightarrow> task \<Rightarrow> task" where
  "pthread_sigmask_block S t = t\<lparr>blocked := blocked t \<union> S\<rparr>"

definition register_signal_handler :: "(signal \<Rightarrow> disposition) \<Rightarrow> signal \<Rightarrow> disposition" where
  "register_signal_handler d = d(SIGINT := Run_cleanup_and_exit, SIGTERM := Run_cleanup_and_exit, SIGHUP := Run_cleanup_and_exit,
     SIGQUIT := Run_cleanup_and_exit, SIGUSR1 := Run_handle_sigusr1)"

text \<open>\<open>block_shutdown_signals\<close> in its two visible halves: the mask of the calling thread, then the handlers.\<close>

definition block_first :: "task \<Rightarrow> sig_state \<Rightarrow> sig_state" where
  "block_first t st = st\<lparr>main_at := Masked, tasks := (tasks st)(0 \<mapsto> pthread_sigmask_block g_shutdown_sigset t)\<rparr>"

definition block_then :: "sig_state \<Rightarrow> sig_state" where
  "block_then st = st\<lparr>main_at := Armed, dispositions := register_signal_handler ((dispositions st)(SIGUSR1 := Run_handle_sigusr1))\<rparr>"

text \<open>A thread starts with the mask of its creator.\<close>

definition create_thread :: "task \<Rightarrow> nat \<Rightarrow> signal set option \<Rightarrow> sig_state \<Rightarrow> sig_state" where
  "create_thread parent t w st = st\<lparr>tasks := (tasks st)(t \<mapsto> \<lparr>blocked = blocked parent, waits_for = w, woken = None\<rparr>)\<rparr>"

text \<open>\<open>signal_wait_thread_func\<close> in two steps: \<open>sigwait\<close> accepts a signal, and the function clears the flag and
  ends.\<close>

definition sigwait_returns :: "nat \<Rightarrow> task \<Rightarrow> signal \<Rightarrow> sig_state \<Rightarrow> sig_state" where
  "sigwait_returns t p sig st = st\<lparr>pending := pending st - {sig}, tasks := (tasks st)(t \<mapsto> p\<lparr>woken := Some sig\<rparr>)\<rparr>"

definition signal_wait_thread_func :: "nat \<Rightarrow> sig_state \<Rightarrow> sig_state" where
  "signal_wait_thread_func t st = st\<lparr>going := False, tasks := (tasks st)(t := None)\<rparr>"

text \<open>\<open>system()\<close>, which counts its callers, as \<open>force_clean_all_net_hooks\<close> and \<open>full_reload_all_xdp_tc\<close> call it for
  every command.\<close>

definition system_begin :: "nat \<Rightarrow> sig_state \<Rightarrow> sig_state" where
  "system_begin t st =
     (if in_system st = {}
      then st\<lparr>in_system := {t}, saved := dispositions st,
        dispositions := (dispositions st)(SIGINT := Ignore_signal, SIGQUIT := Ignore_signal), pending := pending st - {SIGINT, SIGQUIT}\<rparr>
      else st\<lparr>in_system := insert t (in_system st)\<rparr>)"

definition system_end :: "nat \<Rightarrow> sig_state \<Rightarrow> sig_state" where
  "system_end t st =
     (let st = st\<lparr>in_system := in_system st - {t}\<rparr>
      in if in_system st = {}
         then st\<lparr>dispositions := (dispositions st)(SIGINT := saved st SIGINT, SIGQUIT := saved st SIGQUIT)\<rparr>
         else st)"

definition deliver :: "nat \<Rightarrow> signal \<Rightarrow> sig_state \<Rightarrow> sig_state" where
  "deliver t sig st =
     (let st = st\<lparr>pending := pending st - {sig}\<rparr>
      in case dispositions st sig of
           Terminate \<Rightarrow> st\<lparr>killed := True\<rparr>
         | Ignore_signal \<Rightarrow> st
         | d \<Rightarrow> st\<lparr>handled := handled st @ [(t, sig, d)], going := (if d = Run_cleanup_and_exit then False else going st)\<rparr>)"

section \<open>Runs\<close>

text \<open>Threads are created and end as they like once \<open>main\<close> is past its first two lines (\<open>spawned\<close>, \<open>ended\<close>), and
  the program may stop for another reason than a signal (\<open>stopped\<close>).\<close>

inductive sig_step :: "sig_state \<Rightarrow> sig_state \<Rightarrow> bool" where
  mask: "\<not> killed st \<Longrightarrow> main_at st = Unmasked \<Longrightarrow> tasks st 0 = Some t \<Longrightarrow> sig_step st (block_first t st)"
| arm: "\<not> killed st \<Longrightarrow> main_at st = Masked \<Longrightarrow> sig_step st (block_then st)"
| waiter: "\<not> killed st \<Longrightarrow> main_at st = Armed \<Longrightarrow> tasks st 0 = Some p \<Longrightarrow> tasks st t = None \<Longrightarrow>
    sig_step st ((create_thread p t (Some g_shutdown_sigset) st)\<lparr>main_at := Serving\<rparr>)"
| spawned: "\<not> killed st \<Longrightarrow> main_at st = Serving \<Longrightarrow> tasks st p_id = Some p \<Longrightarrow> waits_for p = None \<Longrightarrow> tasks st t = None \<Longrightarrow>
    sig_step st (create_thread p t None st)"
| ended: "\<not> killed st \<Longrightarrow> main_at st = Serving \<Longrightarrow> tasks st t = Some p \<Longrightarrow> waits_for p = None \<Longrightarrow> t \<noteq> 0 \<Longrightarrow>
    t \<notin> in_system st \<Longrightarrow> sig_step st (st\<lparr>tasks := (tasks st)(t := None)\<rparr>)"
| system_begins: "\<not> killed st \<Longrightarrow> main_at st = Serving \<Longrightarrow> tasks st t = Some p \<Longrightarrow> waits_for p = None \<Longrightarrow> t \<notin> in_system st \<Longrightarrow>
    sig_step st (system_begin t st)"
| system_ends: "\<not> killed st \<Longrightarrow> main_at st = Serving \<Longrightarrow> t \<in> in_system st \<Longrightarrow> sig_step st (system_end t st)"
| stopped: "\<not> killed st \<Longrightarrow> main_at st = Serving \<Longrightarrow> sig_step st (st\<lparr>going := False\<rparr>)"
| sent: "\<not> killed st \<Longrightarrow> sig_step st (st\<lparr>pending := insert sig (pending st)\<rparr>)"
| delivered: "\<not> killed st \<Longrightarrow> sig \<in> pending st \<Longrightarrow> tasks st t = Some p \<Longrightarrow> sig \<notin> blocked p \<Longrightarrow> sig_step st (deliver t sig st)"
| accepted: "\<not> killed st \<Longrightarrow> sig \<in> pending st \<Longrightarrow> tasks st t = Some p \<Longrightarrow> waits_for p = Some W \<Longrightarrow> woken p = None \<Longrightarrow> sig \<in> W \<Longrightarrow>
    sig_step st (sigwait_returns t p sig st)"
| cleared: "\<not> killed st \<Longrightarrow> tasks st t = Some p \<Longrightarrow> woken p = Some sig \<Longrightarrow> sig_step st (signal_wait_thread_func t st)"

inductive sig_reach :: "sig_state \<Rightarrow> sig_state \<Rightarrow> bool" for st0 where
  start: "sig_reach st0 st0"
| step: "sig_reach st0 st \<Longrightarrow> sig_step st st' \<Longrightarrow> sig_reach st0 st'"

inductive_cases sig_stepE: "sig_step st st'"

section \<open>The invariant\<close>

text \<open>Before the mask nothing has been installed; afterwards every thread masks the shutdown signals, no handler of
  a shutdown signal has run, and at most one thread is in \<open>signal_wait_thread_func\<close>.\<close>

definition waiters :: "sig_state \<Rightarrow> nat set" where
  "waiters st = {t. \<exists>p. tasks st t = Some p \<and> waits_for p \<noteq> None}"

definition masked_ok :: "sig_state \<Rightarrow> bool" where
  "masked_ok st \<longleftrightarrow>
     (\<forall>t p. tasks st t = Some p \<longrightarrow> g_shutdown_sigset \<subseteq> blocked p \<and>
        (waits_for p = None \<and> woken p = None \<or> waits_for p = Some g_shutdown_sigset)) \<and>
     (\<forall>(t, sig, d) \<in> set (handled st). sig \<notin> g_shutdown_sigset)"

text \<open>The dispositions while the program serves.\<close>

definition serving_dispositions :: "sig_state \<Rightarrow> bool" where
  "serving_dispositions st \<longleftrightarrow>
     (let d = register_signal_handler (\<lambda>_. Terminate)
      in if in_system st = {} then dispositions st = d
         else dispositions st = d(SIGINT := Ignore_signal, SIGQUIT := Ignore_signal) \<and> saved st = d)"

definition sig_inv :: "sig_state \<Rightarrow> bool" where
  "sig_inv st \<longleftrightarrow>
     (main_at st = Unmasked \<longrightarrow> tasks st = [0 \<mapsto> \<lparr>blocked = {}, waits_for = None, woken = None\<rparr>] \<and> dispositions st = (\<lambda>_. Terminate) \<and> handled st = [] \<and> going st) \<and>
     (main_at st \<noteq> Unmasked \<longrightarrow> masked_ok st \<and> (\<exists>p. tasks st 0 = Some p \<and> waits_for p = None)) \<and>
     (main_at st \<in> {Masked, Armed} \<longrightarrow> waiters st = {} \<and> going st) \<and>
     (main_at st = Serving \<longrightarrow> (\<exists>t. waiters st \<subseteq> {t})  \<and> (waiters st = {} \<longrightarrow> \<not> going st)) \<and>
     (main_at st \<noteq> Serving \<longrightarrow> in_system st = {}) \<and>
     (main_at st \<in> {Armed, Serving} \<longrightarrow> serving_dispositions st) \<and>
     (main_at st = Masked \<longrightarrow> dispositions st = (\<lambda>_. Terminate)) \<and>
     (killed st \<longrightarrow> main_at st < Armed)"

lemma masked_task:
  assumes "masked_ok st" and "tasks st t = Some p"
  shows "waits_for p = None \<and> woken p = None \<or> waits_for p = Some g_shutdown_sigset"
proof -
  have "\<forall>t p. tasks st t = Some p \<longrightarrow>
      g_shutdown_sigset \<subseteq> blocked p \<and> (waits_for p = None \<and> woken p = None \<or> waits_for p = Some g_shutdown_sigset)"
    using assms(1) unfolding masked_ok_def by (rule conjunct1)
  from this [rule_format, OF assms(2)] show ?thesis by (rule conjunct2)
qed

lemma waiters_create: "tasks st t = None \<Longrightarrow> waiters (create_thread p t w st) = (if w = None then waiters st else insert t (waiters st))"
  by (auto simp: waiters_def create_thread_def)

lemma waiters_gone: "waiters (st\<lparr>tasks := (tasks st)(t := None)\<rparr>) = waiters st - {t}"
  by (auto simp: waiters_def split: if_splits)

lemma waiters_simps [simp]:
  "waiters (st\<lparr>main_at := a\<rparr>) = waiters st" "waiters (st\<lparr>going := g\<rparr>) = waiters st" "waiters (st\<lparr>pending := P\<rparr>) = waiters st"
  "waiters (st\<lparr>in_system := S\<rparr>) = waiters st" "waiters (st\<lparr>saved := d\<rparr>) = waiters st"
  "waiters (st\<lparr>handled := h\<rparr>) = waiters st" "waiters (st\<lparr>killed := k\<rparr>) = waiters st" "waiters (st\<lparr>dispositions := d\<rparr>) = waiters st"
  by (simp_all add: waiters_def)

lemma deliver_frame [simp]:
  "main_at (deliver t sig st) = main_at st" "tasks (deliver t sig st) = tasks st" "dispositions (deliver t sig st) = dispositions st"
  "waiters (deliver t sig st) = waiters st" "pending (deliver t sig st) = pending st - {sig}"
  "in_system (deliver t sig st) = in_system st" "saved (deliver t sig st) = saved st"
  by (simp_all add: deliver_def Let_def waiters_def split: disposition.split)

lemma system_frame [simp]:
  "main_at (system_begin t st) = main_at st" "tasks (system_begin t st) = tasks st" "going (system_begin t st) = going st"
  "handled (system_begin t st) = handled st" "killed (system_begin t st) = killed st" "waiters (system_begin t st) = waiters st"
  "main_at (system_end t st) = main_at st" "tasks (system_end t st) = tasks st" "going (system_end t st) = going st"
  "handled (system_end t st) = handled st" "killed (system_end t st) = killed st" "waiters (system_end t st) = waiters st"
  "pending (system_end t st) = pending st"
  by (simp_all add: system_begin_def system_end_def Let_def)

lemma registered: "register_signal_handler d sig = (if sig \<in> g_shutdown_sigset then Run_cleanup_and_exit else Run_handle_sigusr1)"
  by (cases sig) (simp_all add: register_signal_handler_def g_shutdown_sigset_def)

text \<open>A delivery once the mask is set is one of \<open>SIGUSR1\<close>.\<close>

lemma delivered_usr1: "masked_ok st \<Longrightarrow> tasks st t = Some p \<Longrightarrow> sig \<notin> blocked p \<Longrightarrow> sig \<notin> g_shutdown_sigset"
  by (auto simp: masked_ok_def)

lemma masked_ok_parts:
  "masked_ok st \<Longrightarrow> masked_ok (st\<lparr>main_at := a\<rparr>)" "masked_ok st \<Longrightarrow> masked_ok (st\<lparr>going := g\<rparr>)" "masked_ok st \<Longrightarrow> masked_ok (st\<lparr>pending := P\<rparr>)"
  "masked_ok st \<Longrightarrow> masked_ok (st\<lparr>dispositions := d\<rparr>)" "masked_ok st \<Longrightarrow> masked_ok (st\<lparr>tasks := (tasks st)(t := None)\<rparr>)"
  "masked_ok (system_begin t st) \<longleftrightarrow> masked_ok st" "masked_ok (system_end t st) \<longleftrightarrow> masked_ok st"
  "masked_ok st \<Longrightarrow> tasks st q = Some p \<Longrightarrow> w = None \<or> w = Some g_shutdown_sigset \<Longrightarrow> masked_ok (create_thread p t w st)"
  by (auto simp: masked_ok_def create_thread_def split: if_splits)

lemma masked_ok_deliver: "masked_ok st \<Longrightarrow> tasks st t = Some p \<Longrightarrow> sig \<notin> blocked p \<Longrightarrow> masked_ok (deliver t sig st)"
  using delivered_usr1 [of st t p sig] by (auto simp: masked_ok_def deliver_def Let_def split: disposition.split)

lemma dispositions_served:
  "serving_dispositions st \<Longrightarrow> serving_dispositions (system_begin t st)" "serving_dispositions st \<Longrightarrow> t \<in> in_system st \<Longrightarrow> serving_dispositions (system_end t st)"
  "serving_dispositions st \<Longrightarrow> sig \<notin> g_shutdown_sigset \<Longrightarrow> dispositions st sig = Run_handle_sigusr1"
  by (auto simp: serving_dispositions_def system_begin_def system_end_def Let_def registered g_shutdown_sigset_def split: if_splits)

lemma served_parts [simp]:
  "serving_dispositions (st\<lparr>main_at := a\<rparr>) = serving_dispositions st" "serving_dispositions (st\<lparr>tasks := T\<rparr>) = serving_dispositions st"
  "serving_dispositions (st\<lparr>going := g\<rparr>) = serving_dispositions st" "serving_dispositions (st\<lparr>pending := P\<rparr>) = serving_dispositions st"
  "serving_dispositions (deliver t sig st) = serving_dispositions st"
  by (simp_all add: serving_dispositions_def)

lemma waiting_serves: "sig_inv st \<Longrightarrow> tasks st t = Some p \<Longrightarrow> waits_for p = Some W \<Longrightarrow> main_at st = Serving"
  by (cases "main_at st") (auto simp: sig_inv_def waiters_def split: if_splits)

lemma sig_step_inv:
  assumes "sig_step st st'" and "sig_inv st"
  shows "sig_inv st'"
  using assms
proof (cases rule: sig_step.cases)
  case (mask t)
  then have "tasks st = [0 \<mapsto> \<lparr>blocked = {}, waits_for = None, woken = None\<rparr>]" "handled st = []" "going st" "dispositions st = (\<lambda>_. Terminate)" "in_system st = {}"
    using assms(2) by (simp_all add: sig_inv_def)
  then show ?thesis using mask
    by (auto simp: sig_inv_def block_first_def masked_ok_def waiters_def pthread_sigmask_block_def)
next
  case arm
  have "register_signal_handler ((dispositions st)(SIGUSR1 := Run_handle_sigusr1)) = register_signal_handler (\<lambda>_. Terminate)"
    by (simp add: fun_eq_iff registered)
  then show ?thesis using arm assms(2) by (auto simp: sig_inv_def block_then_def serving_dispositions_def intro: masked_ok_parts)
next
  case (waiter p t)
  then show ?thesis using assms(2) waiters_create [of st t p "Some g_shutdown_sigset"]
    by (auto simp: sig_inv_def intro!: masked_ok_parts) (auto simp: create_thread_def)
next
  case (spawned p_id p t)
  then show ?thesis using assms(2) waiters_create [of st t p None] masked_ok_parts(8) [of st p_id p None t]
    by (auto simp: sig_inv_def) (auto simp: create_thread_def)
next
  case (ended t p)
  then have "t \<notin> waiters st" by (simp add: waiters_def)
  then show ?thesis using ended assms(2) waiters_gone [of st t] by (auto simp: sig_inv_def intro: masked_ok_parts)
next
  case stopped
  then show ?thesis using assms(2) by (auto simp: sig_inv_def intro: masked_ok_parts)
next
  case (sent sig)
  then show ?thesis using assms(2) by (auto simp: sig_inv_def intro: masked_ok_parts)
next
  case (delivered sig t p)
  show ?thesis
  proof (cases "main_at st = Unmasked")
    case True
    then show ?thesis using delivered assms(2) by (simp add: sig_inv_def deliver_def Let_def)
  next
    case False
    then have ok: "masked_ok st" using assms(2) by (simp add: sig_inv_def)
    have usr: "sig \<notin> g_shutdown_sigset" using delivered_usr1 [OF ok] delivered by blast
    have "main_at st = Masked \<and> dispositions st sig = Terminate \<or> dispositions st sig = Run_handle_sigusr1"
      using assms(2) False dispositions_served(3) [OF _ usr] by (cases "main_at st") (simp_all add: sig_inv_def)
    then have "killed (deliver t sig st) \<longrightarrow> main_at st = Masked" "going (deliver t sig st) = going st"
      using delivered(2) by (auto simp: deliver_def Let_def)
    moreover have "masked_ok (deliver t sig st)" by (rule masked_ok_deliver [OF ok delivered(4,5)])
    moreover have "sig_inv (deliver t sig st) \<longleftrightarrow> sig_inv st" if "masked_ok (deliver t sig st)" "going (deliver t sig st) = going st"
        "killed (deliver t sig st) \<longrightarrow> main_at st = Masked"
      using that False ok delivered(2) unfolding sig_inv_def deliver_frame by simp
    ultimately show ?thesis using assms(2) delivered(1) by simp
  qed
next
  case (system_begins t p)
  then show ?thesis using assms(2) dispositions_served(1) by (auto simp: sig_inv_def masked_ok_parts)
next
  case (system_ends t)
  then show ?thesis using assms(2) dispositions_served(2) by (auto simp: sig_inv_def masked_ok_parts)
next
  case (accepted sig t p W)
  have m: "main_at st = Serving" using waiting_serves [OF assms(2) accepted(4,5)] by simp
  moreover have "waiters st' = waiters st" using accepted(1,4) by (auto simp: sigwait_returns_def waiters_def)
  moreover have "masked_ok st" "t \<noteq> 0" using assms(2) m accepted(4,5) by (cases "t = 0"; auto simp: sig_inv_def)+
  then have "masked_ok st'" using masked_task [of st t p] accepted(4,5)
    by (simp add: accepted(1) sigwait_returns_def masked_ok_def)
  ultimately show ?thesis using assms(2) \<open>t \<noteq> 0\<close> by (auto simp: sig_inv_def accepted(1) sigwait_returns_def)
next
  case (cleared t p sig)
  have w: "waits_for p \<noteq> None"
  proof (cases "main_at st = Unmasked")
    case True
    then show ?thesis using assms(2) cleared(3,4) by (auto simp: sig_inv_def split: if_splits)
  next
    case False
    then have "masked_ok st" using assms(2) by (simp add: sig_inv_def)
    from masked_task [OF this cleared(3)] cleared(4) show ?thesis by auto
  qed
  have m: "main_at st = Serving" using waiting_serves [OF assms(2) cleared(3)] w by auto
  moreover have "masked_ok st" "t \<noteq> 0" using assms(2) m cleared(3) w by (cases "t = 0"; auto simp: sig_inv_def)+
  then have "masked_ok st'" by (auto simp: cleared(1) signal_wait_thread_func_def masked_ok_def split: if_splits)
  moreover have "waiters st' = waiters st - {t}"
    using waiters_gone [of "st\<lparr>going := False\<rparr>" t] by (simp add: cleared(1) signal_wait_thread_func_def)
  ultimately show ?thesis using assms(2) \<open>t \<noteq> 0\<close> by (auto simp: sig_inv_def cleared(1) signal_wait_thread_func_def)
qed

lemma sig_reach_inv: "sig_reach st0 st \<Longrightarrow> sig_inv st0 \<Longrightarrow> sig_inv st"
  by (induction rule: sig_reach.induct) (auto dest: sig_step_inv)

lemma before_main_inv: "sig_inv before_main"
  by (simp add: before_main_def sig_inv_def)

section \<open>Properties\<close>

text \<open>What has been handled, along any run.\<close>

lemma handled_usr1:
  assumes "sig_reach before_main st" and "(t, sig, d) \<in> set (handled st)"
  shows "sig = SIGUSR1 \<and> d = Run_handle_sigusr1"
  using assms
proof (induction rule: sig_reach.induct)
  case start
  then show ?case by (simp add: before_main_def)
next
  case (step st st')
  note inv = sig_reach_inv [OF step(1) before_main_inv]
  from step(2) show ?case
  proof (cases rule: sig_step.cases)
    case (delivered sg t' p)
    show ?thesis
    proof (cases "dispositions st sg = Terminate")
      case True
      then show ?thesis using step delivered by (simp add: deliver_def)
    next
      case False
      then have m: "main_at st \<in> {Armed, Serving}" and ok: "masked_ok st" and d: "serving_dispositions st"
        using inv by (cases "main_at st"; simp add: sig_inv_def)+
      have "sg \<notin> g_shutdown_sigset" using delivered_usr1 [OF ok] delivered by blast
      then have "sg = SIGUSR1" "dispositions st sg = Run_handle_sigusr1"
        using dispositions_served(3) [OF d] by (cases sg; simp add: g_shutdown_sigset_def)+
      then show ?thesis using step delivered by (auto simp: deliver_def Let_def)
    qed
  qed (use step in \<open>auto simp: block_first_def block_then_def create_thread_def signal_wait_thread_func_def sigwait_returns_def\<close>)
qed

text \<open>C36: The shutdown signals reach only the thread that waits for them. In every state the program can reach, in
  whichever order signals are sent, delivered and accepted and threads come and go: the one handler that has ever run is
  that of \<open>SIGUSR1\<close>, so that \<open>cleanup_and_exit\<close>, which is installed as a handler and is not safe in one, never runs
  as one; a signal kills the process only before its handlers are installed; and while the program serves and has
  not been stopped, exactly one thread is in \<open>signal_wait_thread_func\<close>.\<close>

theorem handlers_never_clean:
  assumes "sig_reach before_main st"
  shows "set (handled st) \<subseteq> UNIV \<times> {(SIGUSR1, Run_handle_sigusr1)} \<and> (killed st \<longrightarrow> main_at st < Armed) \<and>
    (main_at st = Serving \<and> going st \<longrightarrow> (\<exists>t. waiters st = {t}))"
proof -
  have inv: "sig_inv st" by (rule sig_reach_inv [OF assms before_main_inv])
  have "set (handled st) \<subseteq> UNIV \<times> {(SIGUSR1, Run_handle_sigusr1)}" using handled_usr1 [OF assms] by auto
  moreover have "\<exists>t. waiters st = {t}" if "main_at st = Serving" "going st"
    using inv that by (auto simp: sig_inv_def subset_singleton_iff)
  ultimately show ?thesis using inv by (simp add: sig_inv_def)
qed

text \<open>A program that serves, and one that has accepted its first signal and ended the waiting thread.\<close>

definition serving :: sig_state where
  "serving = \<lparr>main_at = Serving, tasks = [0 \<mapsto> \<lparr>blocked = g_shutdown_sigset, waits_for = None, woken = None\<rparr>,
       1 \<mapsto> \<lparr>blocked = g_shutdown_sigset, waits_for = Some g_shutdown_sigset, woken = None\<rparr>],
     dispositions = register_signal_handler ((\<lambda>_. Terminate)(SIGUSR1 := Run_handle_sigusr1)), pending = {}, going = True,
     in_system = {}, saved = (\<lambda>_. Terminate), handled = [], killed = False\<rparr>"

definition stopped_one :: sig_state where
  "stopped_one = serving\<lparr>tasks := [0 \<mapsto> \<lparr>blocked = g_shutdown_sigset, waits_for = None, woken = None\<rparr>], going := False\<rparr>"

lemma serving_reached: "sig_reach before_main serving"
proof -
  let ?t = "\<lparr>blocked = {}, waits_for = None, woken = None\<rparr> :: task"
  have a: "sig_reach before_main (block_first ?t before_main)"
    by (rule sig_reach.step [OF sig_reach.start sig_step.mask]) (simp_all add: before_main_def)
  have b: "sig_reach before_main (block_then (block_first ?t before_main))"
    by (rule sig_reach.step [OF a sig_step.arm]) (simp_all add: before_main_def block_first_def)
  let ?st = "block_then (block_first ?t before_main)" and ?p = "pthread_sigmask_block g_shutdown_sigset ?t"
  have "sig_step ?st ((create_thread ?p 1 (Some g_shutdown_sigset) ?st)\<lparr>main_at := Serving\<rparr>)"
    by (rule sig_step.waiter) (simp_all add: before_main_def block_first_def block_then_def)
  moreover have "(create_thread ?p 1 (Some g_shutdown_sigset) ?st)\<lparr>main_at := Serving\<rparr> = serving"
    by (simp add: before_main_def block_first_def block_then_def create_thread_def serving_def pthread_sigmask_block_def)
  ultimately show ?thesis using sig_reach.step [OF b] by simp
qed

lemma interrupt_sent: "sig_reach before_main (serving\<lparr>pending := {SIGINT}\<rparr>)"
proof -
  have "sig_step serving (serving\<lparr>pending := insert SIGINT (pending serving)\<rparr>)" by (rule sig_step.sent) (simp add: serving_def)
  then show ?thesis using sig_reach.step [OF serving_reached] by (simp add: serving_def)
qed

lemma stopped_reached: "sig_reach before_main stopped_one"
proof -
  let ?p = "\<lparr>blocked = g_shutdown_sigset, waits_for = Some g_shutdown_sigset, woken = None\<rparr> :: task"
  let ?st = "sigwait_returns 1 ?p SIGINT (serving\<lparr>pending := {SIGINT}\<rparr>)"
  have "sig_step (serving\<lparr>pending := {SIGINT}\<rparr>) ?st"
    by (rule sig_step.accepted [of _ _ _ _ g_shutdown_sigset]) (simp_all add: serving_def g_shutdown_sigset_def)
  from sig_reach.step [OF interrupt_sent this] have "sig_reach before_main ?st" .
  moreover have "sig_step ?st (signal_wait_thread_func 1 ?st)"
    by (rule sig_step.cleared [of _ _ "?p\<lparr>woken := Some SIGINT\<rparr>" SIGINT]) (simp_all add: sigwait_returns_def serving_def)
  moreover have "signal_wait_thread_func 1 ?st = stopped_one"
    by (simp add: signal_wait_thread_func_def sigwait_returns_def stopped_one_def serving_def fun_eq_iff)
  ultimately show ?thesis using sig_reach.step by simp
qed

theorem handlers_never_clean_witness: "\<exists>t. waiters serving = {t}"
  using handlers_never_clean [OF serving_reached] by (simp add: serving_def)

text \<open>C37: One shutdown signal stops the program, if no command is begun before it is accepted. While the program serves
  there is exactly one waiting thread. If it still waits, it can at once accept a shutdown signal that is pending;
  if it has accepted one, it can at once clear \<open>g_running\<close>, and no step of any thread
  keeps it from that. Until then a pending signal is not lost: a step that takes it away is the accepting, or the signal is
  \<open>SIGINT\<close> or \<open>SIGQUIT\<close> and the step is the start of a \<open>system()\<close> while no other one runs.\<close>

theorem signal_stops:
  assumes "sig_reach before_main st" and "main_at st = Serving" and "going st" and "sig \<in> pending st" and "sig \<in> g_shutdown_sigset"
  shows "\<exists>t p. waiters st = {t} \<and> tasks st t = Some p \<and>
    (case woken p of
       None \<Rightarrow> sig_step st (sigwait_returns t p sig st)
     | Some _ \<Rightarrow> sig_step st (signal_wait_thread_func t st) \<and> \<not> going (signal_wait_thread_func t st) \<and>
         (\<forall>st'. sig_step st st' \<longrightarrow> \<not> going st' \<or> tasks st' t = Some p)) \<and>
    (\<forall>st'. sig_step st st' \<longrightarrow>
       sig \<in> pending st' \<or> st' = sigwait_returns t p sig st \<or>
       sig \<in> {SIGINT, SIGQUIT} \<and> in_system st = {} \<and> (\<exists>t'. st' = system_begin t' st))"
proof -
  have inv: "sig_inv st" by (rule sig_reach_inv [OF assms(1) before_main_inv])
  then have ok: "masked_ok st" "waiters st \<noteq> {}" "\<not> killed st" "\<exists>t. waiters st \<subseteq> {t}" using assms(2,3) by (auto simp: sig_inv_def)
  then obtain t where w: "waiters st = {t}" by blast
  then have "t \<in> waiters st" by simp
  then obtain p where t: "tasks st t = Some p" "waits_for p \<noteq> None" unfolding waiters_def by blast
  then have W: "waits_for p = Some g_shutdown_sigset" using masked_task [OF ok(1) t(1)] t(2) by simp
  have only: "t' = t \<and> q = p" if "tasks st t' = Some q" "waits_for q \<noteq> None" for t' q
  proof -
    have "t' \<in> waiters st" using that by (auto simp: waiters_def)
    then show ?thesis using w t(1) that(1) by simp
  qed
  have lost: "sig \<in> pending st' \<or> st' = sigwait_returns t p sig st \<or>
      sig \<in> {SIGINT, SIGQUIT} \<and> in_system st = {} \<and> (\<exists>t'. st' = system_begin t' st)" if "sig_step st st'" for st'
    using that
  proof (cases rule: sig_step.cases)
    case (delivered sg t' p')
    then have "sg \<noteq> sig" using delivered_usr1 [OF ok(1)] assms(5) by blast
    then show ?thesis using delivered assms(4) by simp
  next
    case (accepted sg t' p' W')
    then show ?thesis using only [OF accepted(4)] assms(4) by (auto simp: sigwait_returns_def)
  next
    case (system_begins t' q)
    then show ?thesis using assms(4) by (auto simp: system_begin_def)
  qed (use assms(4) in \<open>auto simp: block_first_def block_then_def create_thread_def signal_wait_thread_func_def\<close>)
  have kept: "\<not> going st' \<or> tasks st' t = Some p" if "sig_step st st'" "woken p \<noteq> None" for st'
    using that(1)
  proof (cases rule: sig_step.cases)
    case (accepted sg t' p' W')
    then show ?thesis using only [OF accepted(4)] that(2) by simp
  next
    case (ended t' q)
    then show ?thesis using t by auto
  qed (use t assms(2) in \<open>auto simp: create_thread_def signal_wait_thread_func_def\<close>)
  show ?thesis
  proof (intro exI [of _ t] exI [of _ p] conjI)
    show "case woken p of None \<Rightarrow> sig_step st (sigwait_returns t p sig st)
      | Some _ \<Rightarrow> sig_step st (signal_wait_thread_func t st) \<and> \<not> going (signal_wait_thread_func t st) \<and>
          (\<forall>st'. sig_step st st' \<longrightarrow> \<not> going st' \<or> tasks st' t = Some p)"
      using sig_step.accepted [OF ok(3) assms(4) t(1) W _ assms(5)] sig_step.cleared [OF ok(3) t(1)] kept
      by (auto simp: signal_wait_thread_func_def split: option.split)
  qed (use w t lost in auto)
qed

theorem signal_stops_witness:
  "\<exists>t p. waiters (serving\<lparr>pending := {SIGINT}\<rparr>) = {t} \<and> tasks serving t = Some p \<and>
     (woken p = None \<longrightarrow> sig_step (serving\<lparr>pending := {SIGINT}\<rparr>) (sigwait_returns t p SIGINT (serving\<lparr>pending := {SIGINT}\<rparr>)))"
proof -
  have "main_at (serving\<lparr>pending := {SIGINT}\<rparr>) = Serving" "going (serving\<lparr>pending := {SIGINT}\<rparr>)"
      "SIGINT \<in> pending (serving\<lparr>pending := {SIGINT}\<rparr>)" "SIGINT \<in> g_shutdown_sigset"
    by (simp_all add: serving_def g_shutdown_sigset_def)
  from signal_stops [OF interrupt_sent this] show ?thesis by (auto split: option.splits)
qed

text \<open>And a signal can be lost that way: Ctrl-C while the program serves, and the listener begins the first
  command of a reload before the waiting thread has run. Nothing is pending then, the flag is set, no handler has run
  and the waiting thread goes on waiting.\<close>

theorem interrupt_lost:
  "\<exists>st st'. sig_reach before_main st \<and> main_at st = Serving \<and> SIGINT \<in> pending st \<and> sig_step st st' \<and>
     pending st' = {} \<and> going st' \<and> handled st' = [] \<and> (\<exists>t p. tasks st' t = Some p \<and> waits_for p \<noteq> None \<and> woken p = None)"
proof -
  let ?st = "serving\<lparr>pending := {SIGINT}\<rparr>"
  have "sig_step ?st (system_begin 0 ?st)"
    by (rule sig_step.system_begins [where p = "\<lparr>blocked = g_shutdown_sigset, waits_for = None, woken = None\<rparr>"]) (simp_all add: serving_def)
  moreover have "pending (system_begin 0 ?st) = {}" by (simp add: system_begin_def serving_def)
  moreover have "tasks (system_begin 0 ?st) 1 = Some \<lparr>blocked = g_shutdown_sigset, waits_for = Some g_shutdown_sigset, woken = None\<rparr>"
    by (simp add: serving_def)
  ultimately show ?thesis
    by (intro exI [of _ ?st] exI [of _ "system_begin 0 ?st"] conjI interrupt_sent)
      (auto simp: serving_def intro!: exI [of _ "1 :: nat"])
qed

text \<open>\<open>main\<close> only advances.\<close>

lemma main_advances: "sig_step st st' \<Longrightarrow> main_at st \<le> main_at st'"
  by (erule sig_stepE) (simp_all add: block_first_def block_then_def create_thread_def signal_wait_thread_func_def sigwait_returns_def)

lemma serving_stays: "sig_step st st' \<Longrightarrow> main_at st = Serving \<Longrightarrow> main_at st' = Serving"
  using main_advances [of st st'] by simp

text \<open>There is no second chance. Once the waiting thread has ended, \<open>SIGTERM\<close> and \<open>SIGHUP\<close> stay
  pending for ever, \<open>SIGINT\<close> and \<open>SIGQUIT\<close> at best, and nothing can kill the process: a program that has begun its shutdown, or repeats its unloading
  without end, can be stopped neither from the terminal nor by \<open>SIGTERM\<close>.\<close>

theorem second_signal_ignored:
  assumes "sig_reach before_main st" and "main_at st = Serving" and "waiters st = {}" and "sig_reach st st'"
  shows "\<not> killed st' \<and> pending st \<inter> {SIGTERM, SIGHUP} \<subseteq> pending st' \<and> waiters st' = {}"
  using assms(4)
proof (induction rule: sig_reach.induct)
  case start
  then show ?case using sig_reach_inv [OF assms(1) before_main_inv] assms(2,3) by (auto simp: sig_inv_def)
next
  case (step u u')
  have reach: "sig_reach before_main u"
    using step(1) by (induction rule: sig_reach.induct) (auto intro: assms(1) sig_reach.step)
  have at: "main_at u = Serving"
    using step(1) by (induction rule: sig_reach.induct) (auto simp: assms(2) serving_stays)
  have ok: "masked_ok u" "sig_inv u" using sig_reach_inv [OF reach before_main_inv] at by (simp_all add: sig_inv_def)
  have alive: "\<not> killed u'" "main_at u' = Serving"
    using sig_step_inv [OF step(2) ok(2)] serving_stays [OF step(2) at] by (auto simp: sig_inv_def)
  have "pending u \<inter> {SIGTERM, SIGHUP} \<subseteq> pending u' \<and> waiters u' = {}"
    using step(2)
  proof (cases rule: sig_step.cases)
    case (delivered sig t p)
    then have "sig \<notin> g_shutdown_sigset" using delivered_usr1 [OF ok(1)] by blast
    then show ?thesis using delivered(1) step.IH by (auto simp: g_shutdown_sigset_def)
  next
    case (accepted sig t p W)
    then have "t \<in> waiters u" by (simp add: waiters_def)
    then show ?thesis using step.IH by simp
  next
    case (cleared t p sig)
    then have "waits_for p = Some g_shutdown_sigset" using masked_task [OF ok(1) cleared(3)] by simp
    then have "t \<in> waiters u" using cleared(3) by (simp add: waiters_def)
    then show ?thesis using step.IH by simp
  next
    case (system_begins t p)
    then show ?thesis using step.IH by (auto simp: system_begin_def)
  next
    case (spawned p_id p t)
    then show ?thesis using step.IH waiters_create [of u t p None] by (simp add: create_thread_def)
  next
    case (ended t p)
    then show ?thesis using step.IH waiters_gone [of u t] by simp
  qed (use step.IH at in auto)
  then show ?case using step.IH alive(1) by auto
qed

theorem second_signal_ignored_witness:
  "SIGTERM \<in> pending (stopped_one\<lparr>pending := insert SIGTERM (pending stopped_one)\<rparr>) \<and> \<not> killed stopped_one"
proof -
  have "waiters stopped_one = {}" "main_at stopped_one = Serving"
    by (auto simp: stopped_one_def serving_def waiters_def split: if_splits)
  moreover have "sig_reach stopped_one (stopped_one\<lparr>pending := insert SIGTERM (pending stopped_one)\<rparr>)"
    by (rule sig_reach.step [OF sig_reach.start sig_step.sent]) (simp add: stopped_one_def serving_def)
  ultimately show ?thesis using second_signal_ignored [OF stopped_reached, of "stopped_one\<lparr>pending := insert SIGTERM (pending stopped_one)\<rparr>"] by simp
qed

end
