(* ===== verification/PpsRace.thy ===== *)
theory PpsRace
  imports Buckets
begin

text \<open>
  \<open>consume_global_pps\<close> of \<open>src/src/ebpf/policy.h\<close> on several CPUs. Unlike the byte bucket and the fuse, which are
  per-CPU maps, the packet-rate bucket is one slot that all CPUs share, and unlike the flow entry it is read and
  written by plain accesses. Here each of them is one step, and a schedule decides which invocation makes the next one.

  The decrement at the end reads the balance again or uses the value that the test has read; C allows the compiler both,
  and the model has both (\<open>reload\<close>). The helper that writes the slot onto itself after each change is left out.
\<close>

section \<open>Invocations and schedules\<close>

datatype pps_pc =
    Read_stamp | Load_add | Store_add | Load_clamp | Store_clamp | Store_stamp | Test_tokens | Load_take | Store_take
  | Pps_returned xdp_action

record pps_invocation =
  pp_pc :: pps_pc
  pp_now :: u64
  pp_refill :: u64
  pp_cur :: u64

definition pps_enter :: "u64 \<Rightarrow> pps_invocation" where
  "pps_enter now = \<lparr>pp_pc = Read_stamp, pp_now = now, pp_refill = 0, pp_cur = 0\<rparr>"

definition pps_access :: "bool \<Rightarrow> u64 \<Rightarrow> pps_invocation \<Rightarrow> pps_bucket \<Rightarrow> pps_invocation \<times> pps_bucket" where
  "pps_access reload limit iv p =
     (case pp_pc iv of
        Read_stamp \<Rightarrow>
          (let delta = pp_now iv - pb_last_ts p; refill = (delta * limit) div 1000000000
           in (iv\<lparr>pp_refill := refill, pp_pc := (if refill > 0 then Load_add else Test_tokens)\<rparr>, p))
      | Load_add \<Rightarrow> (iv\<lparr>pp_cur := pb_tokens p, pp_pc := Store_add\<rparr>, p)
      | Store_add \<Rightarrow> (iv\<lparr>pp_pc := Load_clamp\<rparr>, p\<lparr>pb_tokens := pp_cur iv + pp_refill iv\<rparr>)
      | Load_clamp \<Rightarrow> (iv\<lparr>pp_pc := (if pb_tokens p > limit then Store_clamp else Store_stamp)\<rparr>, p)
      | Store_clamp \<Rightarrow> (iv\<lparr>pp_pc := Store_stamp\<rparr>, p\<lparr>pb_tokens := limit\<rparr>)
      | Store_stamp \<Rightarrow> (iv\<lparr>pp_pc := Test_tokens\<rparr>, p\<lparr>pb_last_ts := pp_now iv\<rparr>)
      | Test_tokens \<Rightarrow>
          (iv\<lparr>pp_cur := pb_tokens p,
              pp_pc := (if pb_tokens p < 1 then Pps_returned XDP_DROP else if reload then Load_take else Store_take)\<rparr>, p)
      | Load_take \<Rightarrow> (iv\<lparr>pp_cur := pb_tokens p, pp_pc := Store_take\<rparr>, p)
      | Store_take \<Rightarrow> (iv\<lparr>pp_pc := Pps_returned XDP_PASS\<rparr>, p\<lparr>pb_tokens := pp_cur iv - 1\<rparr>)
      | Pps_returned v \<Rightarrow> (iv, p))"

fun interleave :: "('i \<Rightarrow> 's \<Rightarrow> 'i \<times> 's) \<Rightarrow> nat list \<Rightarrow> 'i list \<Rightarrow> 's \<Rightarrow> 'i list \<times> 's" where
  "interleave acc [] ivs s = (ivs, s)"
| "interleave acc (i # is) ivs s =
     (if i < length ivs
      then (case acc (ivs ! i) s of (iv, s') \<Rightarrow> interleave acc is (ivs[i := iv]) s')
      else interleave acc is ivs s)"

lemma interleave_append:
  "interleave acc (is @ js) ivs s = (case interleave acc is ivs s of (ivs', s') \<Rightarrow> interleave acc js ivs' s')"
  by (induction "is" arbitrary: ivs s) (auto split: prod.split)

section \<open>One invocation alone\<close>

text \<open>One access after the other by the same invocation.\<close>

lemma alone:
  "i < length ivs \<Longrightarrow> interleave acc (replicate n i) ivs s = (case ((\<lambda>(iv, s). acc iv s) ^^ n) (ivs ! i, s) of (iv', s') \<Rightarrow> (ivs[i := iv'], s'))"
proof (induction n arbitrary: ivs s)
  case (Suc n)
  obtain iv1 s1 where "acc (ivs ! i) s = (iv1, s1)" by fastforce
  then show ?case using Suc.IH [of "ivs[i := iv1]" s1] Suc.prems by (simp add: funpow_swap1 split: prod.split)
qed simp

lemma nine: "9 = Suc (Suc (Suc (Suc (Suc (Suc (Suc (Suc (Suc 0))))))))"
  by simp

lemma nine_accesses:
  "\<exists>iv. ((\<lambda>(iv, p). pps_access reload limit iv p) ^^ 9) (pps_enter now, p) = (iv, snd (pps_step limit now p)) \<and>
     pp_pc iv = Pps_returned (fst (pps_step limit now p))"
proof -
  define refill where "refill = ((now - pb_last_ts p) * limit) div 1000000000"
  show ?thesis
    unfolding nine
    by (cases "refill > 0"; cases "pb_tokens p + refill > limit"; cases reload)
      (auto simp: pps_access_def pps_enter_def pps_step_def pps_refill_def Let_def refill_def [symmetric])
qed

text \<open>An invocation that is not interleaved with another one makes at most nine accesses, returns, and has exactly the
  effect and the verdict of the sequential function of theory \<open>Buckets\<close>.\<close>

lemma pps_alone:
  assumes "i < length ivs" and "ivs ! i = pps_enter now"
  shows "\<exists>iv. interleave (pps_access reload limit) (replicate 9 i) ivs p = (ivs[i := iv], snd (pps_step limit now p)) \<and>
     pp_pc iv = Pps_returned (fst (pps_step limit now p))"
  using nine_accesses [of reload limit now p] assms by (auto simp: alone)

section \<open>Many invocations in step\<close>

text \<open>One round: each of \<open>n\<close> invocations that stand at the same point makes its access, where the access of the first
  leaves a state in which the others do the same.\<close>

lemma lockstep_from:
  assumes "acc iv s' = (iv', s')" and "k \<le> n"
  shows "interleave acc [k..<n] (replicate k iv' @ replicate (n - k) iv) s' = (replicate n iv', s')"
  using assms(2)
proof (induction "n - k" arbitrary: k)
  case (Suc d)
  then have k: "k < n" "n - k = Suc (n - Suc k)" by simp_all
  have "(replicate k iv' @ replicate (n - k) iv) ! k = iv" using k(1) by (simp add: nth_append)
  moreover have "(replicate k iv' @ replicate (n - k) iv)[k := iv'] = replicate (Suc k) iv' @ replicate (n - Suc k) iv"
    using list_update_length [of "replicate k iv'" iv "replicate (n - Suc k) iv" iv'] by (simp add: k(2) replicate_app_Cons_same)
  ultimately have "interleave acc [k..<n] (replicate k iv' @ replicate (n - k) iv) s' =
      interleave acc [Suc k..<n] (replicate (Suc k) iv' @ replicate (n - Suc k) iv) s'"
    using k(1) assms(1) by (simp add: upt_conv_Cons [OF k(1)] del: replicate.simps)
  then show ?case using Suc.hyps(1) [of "Suc k"] Suc.hyps(2) k(1) by simp
qed simp

lemma lockstep:
  assumes "acc iv s = (iv', s')" and "acc iv s' = (iv', s')" and "0 < n"
  shows "interleave acc [0..<n] (replicate n iv) s = (replicate n iv', s')"
proof -
  obtain m where n: "n = Suc m" using assms(3) by (cases n) auto
  have "[0..<n] = 0 # [1..<n]" by (simp add: n upt_conv_Cons)
  then show ?thesis using lockstep_from [of acc iv s' iv' 1 n] assms(1,2) by (simp add: n)
qed

text \<open>A round without an effect on the state.\<close>

lemma lockstep_read: "acc iv s = (iv', s) \<Longrightarrow> 0 < n \<Longrightarrow> interleave acc [0..<n] (replicate n iv) s = (replicate n iv', s)"
  by (rule lockstep)

section \<open>Properties\<close>

text \<open>C31: The packet-rate limit is no limit across CPUs. When packets arrive on \<open>n\<close> CPUs at once and the invocations run in
  step, all \<open>n\<close> pass and one token is taken, whatever \<open>n\<close> is and also when it was the last token: with \<open>n\<close> CPUs the
  rate that passes can be \<open>n\<close> times the configured one. The alternative that the compiler takes for the decrement makes no
  difference.\<close>

theorem one_token_for_all:
  assumes "0 < n" and "pb_last_ts p = now" and "0 < pb_tokens p"
  shows "\<exists>iv. interleave (pps_access reload limit) (concat (replicate 4 [0..<n])) (replicate n (pps_enter now)) p =
      (replicate n iv, p\<lparr>pb_tokens := pb_tokens p - 1\<rparr>) \<and> pp_pc iv = Pps_returned XDP_PASS"
proof -
  let ?acc = "pps_access reload limit" and ?q = "p\<lparr>pb_tokens := pb_tokens p - 1\<rparr>"
  define test where "test = (pps_enter now)\<lparr>pp_pc := Test_tokens\<rparr>"
  define load where "load = test\<lparr>pp_cur := pb_tokens p, pp_pc := Load_take\<rparr>"
  define store where "store = load\<lparr>pp_pc := Store_take\<rparr>"
  define out where "out = load\<lparr>pp_pc := Pps_returned XDP_PASS\<rparr>"
  have some: "\<not> pb_tokens p < 1" using assms(3) by (simp add: word_less_nat_alt)
  have one: "interleave ?acc [0..<n] (replicate n (pps_enter now)) p = (replicate n test, p)"
    using assms(2) by (intro lockstep_read assms(1)) (simp add: pps_access_def pps_enter_def test_def)
  have two: "interleave ?acc [0..<n] (replicate n test) p = (replicate n (if reload then load else store), p)"
    using some by (intro lockstep_read assms(1)) (simp add: pps_access_def test_def load_def store_def pps_enter_def)
  have loads: "interleave ?acc [0..<n] (replicate n load) p = (replicate n store, p)"
    by (intro lockstep_read assms(1)) (simp add: pps_access_def load_def store_def)
  have stores: "interleave ?acc [0..<n] (replicate n store) p = (replicate n out, ?q)"
    by (intro lockstep assms(1)) (simp_all add: pps_access_def load_def store_def out_def)
  have still: "interleave ?acc [0..<n] (replicate n out) ?q = (replicate n out, ?q)"
    by (intro lockstep_read assms(1)) (simp add: pps_access_def out_def)
  have "concat (replicate 4 [0..<n]) = [0..<n] @ [0..<n] @ [0..<n] @ [0..<n]" by (simp add: eval_nat_numeral)
  then have "interleave ?acc (concat (replicate 4 [0..<n])) (replicate n (pps_enter now)) p = (replicate n out, ?q)"
    using one two loads stores still by (cases reload) (simp_all add: interleave_append)
  then show ?thesis by (auto simp: out_def)
qed

theorem one_token_for_all_witness:
  "\<exists>iv. interleave (pps_access True 1000) (concat (replicate 4 [0..<64])) (replicate 64 (pps_enter 9)) \<lparr>pb_tokens = 1, pb_last_ts = 9\<rparr> =
      (replicate 64 iv, \<lparr>pb_tokens = 0, pb_last_ts = 9\<rparr>) \<and> pp_pc iv = Pps_returned XDP_PASS"
  using one_token_for_all [of 64 "\<lparr>pb_tokens = 1, pb_last_ts = 9\<rparr>" 9 True 1000] by simp

text \<open>A time that wraps around refills more than any balance.\<close>

lemma wrapped_refill:
  fixes early late limit tokens :: u64
  assumes "unat early < unat late" and "0 < limit" and "limit \<le> 2 ^ 30" and "(unat late - unat early) * unat limit \<le> 2 ^ 62"
    and "tokens \<le> limit"
  shows "0 < ((early - late) * limit) div 1000000000" and "limit < tokens + ((early - late) * limit) div 1000000000"
proof -
  let ?r = "((early - late) * limit) div 1000000000"
  define m where "m = (unat late - unat early) * unat limit"
  have m: "0 < m" "m \<le> 2 ^ 62" using assms(1,2,4) by (simp_all add: m_def word_less_nat_alt)
  have "(early - late) * limit = - of_nat m"
    using assms(1) by (simp add: m_def of_nat_diff less_imp_le algebra_simps)
  also have "\<dots> = of_nat (2 ^ 64 - m)" using m(2) by (simp add: of_nat_diff)
  finally have e: "(early - late) * limit = of_nat (2 ^ 64 - m)" .
  have nat: "unat (of_nat k :: u64) = k" if "k < 2 ^ 64" for k using that by (simp add: unat_of_nat)
  have "unat ((early - late) * limit) = 2 ^ 64 - m" unfolding e by (rule nat) (use m in simp)
  then have r: "unat ?r = (2 ^ 64 - m) div 1000000000" by (simp add: unat_div)
  have "13000000000 * 1000000000 \<le> 2 ^ 64 - m" using m(2) by simp
  from div_le_mono [OF this, of 1000000000] have low: "13000000000 \<le> unat ?r" by (simp add: r)
  have high: "unat ?r \<le> 2 ^ 63" unfolding r by simp
  show "0 < ?r" using low by (simp add: word_less_nat_alt)
  have "unat limit \<le> 2 ^ 30" "unat tokens \<le> unat limit" using assms(3,5) by (simp_all add: word_le_nat_alt)
  then show "limit < tokens + ?r" using low high by (simp add: word_less_nat_alt unat_word_ariths)
qed

lemma step_le: "pb_tokens p \<le> limit \<Longrightarrow> pb_tokens (snd (pps_step limit now p)) \<le> limit"
  by (auto simp: pps_step_def pps_refill_def Let_def not_less word_le_nat_alt word_less_nat_alt unat_sub)

text \<open>A packet whose clock was read too early fills the bucket. Let one CPU read the clock, let another one take its
  packet through the whole function with a later reading, by which the bucket is stamped; when the first goes on, its
  time since the last refill wraps around, and whatever the balance is, the bucket is full, the packet passes and the
  stamp goes back. One such pair of packets is worth a second of the configured rate.\<close>

theorem early_clock_fills:
  assumes "unat early < unat late" and "0 < limit" and "limit \<le> 2 ^ 30"
    and "(unat late - unat early) * unat limit \<le> 2 ^ 62" and "pb_tokens p \<le> limit" and "pb_last_ts (snd (pps_step limit late p)) = late"
  shows "\<exists>iv1 iv2. interleave (pps_access reload limit) (replicate 9 1 @ replicate 9 0) [pps_enter early, pps_enter late] p =
      ([iv1, iv2], \<lparr>pb_tokens = limit - 1, pb_last_ts = early\<rparr>) \<and> pp_pc iv1 = Pps_returned XDP_PASS"
proof -
  define q where "q = snd (pps_step limit late p)"
  have q: "pb_tokens q \<le> limit" "pb_last_ts q = late" using step_le [OF assms(5)] assms(6) by (simp_all add: q_def)
  have limit: "\<not> limit < 1" using assms(2) by (simp add: word_less_nat_alt)
  have full: "pps_step limit early q = (XDP_PASS, \<lparr>pb_tokens = limit - 1, pb_last_ts = early\<rparr>)"
    using wrapped_refill [OF assms(1-4) q(1)] q(2) limit by (cases q) (simp add: pps_step_def pps_refill_def Let_def)
  obtain iv2 where "interleave (pps_access reload limit) (replicate 9 1) [pps_enter early, pps_enter late] p = ([pps_enter early, iv2], q)"
    using pps_alone [of 1 "[pps_enter early, pps_enter late]" late reload limit p] by (auto simp: q_def)
  moreover obtain iv1 where "interleave (pps_access reload limit) (replicate 9 0) [pps_enter early, iv2] q =
      ([iv1, iv2], \<lparr>pb_tokens = limit - 1, pb_last_ts = early\<rparr>)" "pp_pc iv1 = Pps_returned XDP_PASS"
    using pps_alone [of 0 "[pps_enter early, iv2]" early reload limit q] full by auto
  ultimately show ?thesis by (simp add: interleave_append)
qed

theorem early_clock_fills_witness:
  "\<exists>iv1 iv2. interleave (pps_access True 1000) (replicate 9 1 @ replicate 9 0) [pps_enter 2000000000, pps_enter 2000000500] \<lparr>pb_tokens = 0, pb_last_ts = 1000000000\<rparr> =
      ([iv1, iv2], \<lparr>pb_tokens = 999, pb_last_ts = 2000000000\<rparr>) \<and> pp_pc iv1 = Pps_returned XDP_PASS"
  using early_clock_fills [of 2000000000 2000000500 1000 "\<lparr>pb_tokens = 0, pb_last_ts = 1000000000\<rparr>" True]
  by (simp add: pps_step_def pps_refill_def Let_def)

end
