(* ===== verification/MetricKeys.thy ===== *)
theory MetricKeys
  imports Metrics
begin

text \<open>
  The keys of the two tables of metrics (\<open>TrafficKey\<close> with \<open>TrafficKeyHashCompare\<close> in
  \<open>src/src/user/model/RiskMetricInfos.hpp\<close>, \<open>KsmFEKey\<close> with \<open>KsmFEKeyHashCompare\<close> in \<open>KsmFEMetricInfo.hpp\<close>). The
  concurrent hash table asks its user for an equality and a hash code; it documents that the first is
  an equivalence and that equal keys have the same code. Here the contract is stated as a locale and
  discharged for both keys, and it is shown that the equality is the identity, which is why theory
  Metrics can take the tables for partial functions.

  \<open>std::hash\<close> is a parameter throughout.
\<close>

section \<open>The contract of the table\<close>

locale hash_compare =
  fixes equal :: "'k \<Rightarrow> 'k \<Rightarrow> bool"
    and hash :: "'k \<Rightarrow> u64"
  assumes equal_refl: "equal x x"
    and equal_sym: "equal x y \<Longrightarrow> equal y x"
    and equal_trans: "equal x y \<Longrightarrow> equal y z \<Longrightarrow> equal x z"
    and equal_hash: "equal x y \<Longrightarrow> hash x = hash y"
begin

text \<open>A search may restrict itself to the entries with the hash code of the key.\<close>

lemma find_in_bucket: "find (\<lambda>e. hash (fst e) = hash k \<and> equal (fst e) k) es = find (\<lambda>e. equal (fst e) k) es"
  by (induction es) (auto dest: equal_hash)

lemma other_bucket: "hash x \<noteq> hash y \<Longrightarrow> \<not> equal x y"
  using equal_hash by blast

lemma equal_class: "equal x y \<Longrightarrow> equal x = equal y"
  using equal_sym equal_trans by blast

end

text \<open>A table whose equality is the identity holds one entry for each key.\<close>

locale exact_compare = hash_compare +
  assumes equal_eq: "equal x y \<Longrightarrow> x = y"
begin

lemma equal_iff: "equal x y \<longleftrightarrow> x = y"
  using equal_eq equal_refl by blast

lemma find_map_of: "find (\<lambda>e. hash (fst e) = hash k \<and> equal (fst e) k) es = map_option (Pair k) (map_of es k)"
  by (induction es) (auto simp: equal_iff)

end

section \<open>Equality and hash of the keys\<close>

definition traffic_key_eq :: "traffic_key \<Rightarrow> traffic_key \<Rightarrow> bool" where
  "traffic_key_eq x y =
     (if tk_src_ip x \<noteq> tk_src_ip y \<or> tk_dst_ip x \<noteq> tk_dst_ip y \<or>
         tk_src_port x \<noteq> tk_src_port y \<or> tk_dst_port x \<noteq> tk_dst_port y then False
      else if tk_domain x \<noteq> tk_domain y then False
      else True)"

definition file_key_eq :: "file_key \<Rightarrow> file_key \<Rightarrow> bool" where
  "file_key_eq x y \<longleftrightarrow>
     fe_pid x = fe_pid y \<and> fe_comm x = fe_comm y \<and> fe_path x = fe_path y \<and> fe_is_write x = fe_is_write y"

text \<open>The closure \<open>hash_combine\<close>: all arithmetic is on \<open>size_t\<close> and wraps. The traffic table hashes each value
  once more before it is mixed in, the table of file events mixes it in as it is.\<close>

definition hash_combine :: "u64 \<Rightarrow> u64 \<Rightarrow> u64" where
  "hash_combine seed h = seed XOR (h + 0x9e3779b9 + push_bit 6 seed + drop_bit 2 seed)"

definition traffic_key_hash :: "(u64 \<Rightarrow> u64) \<Rightarrow> (string \<Rightarrow> u64) \<Rightarrow> traffic_key \<Rightarrow> u64" where
  "traffic_key_hash hash_size hash_string k =
     (let combine = (\<lambda>v seed. hash_combine seed (hash_size v)) in
      combine (hash_string (tk_domain k))
        (combine (ucast (tk_dst_port k)) (combine (ucast (tk_src_port k)) (combine (ucast (tk_dst_ip k)) (combine (ucast (tk_src_ip k)) 0)))))"

definition file_key_hash :: "(u32 \<Rightarrow> u64) \<Rightarrow> (string \<Rightarrow> u64) \<Rightarrow> (u32 \<Rightarrow> u64) \<Rightarrow> file_key \<Rightarrow> u64" where
  "file_key_hash hash_u32 hash_string hash_i32 k =
     hash_combine (hash_combine (hash_combine (hash_combine 0 (hash_u32 (fe_pid k))) (hash_string (fe_comm k)))
       (hash_string (fe_path k))) (hash_i32 (fe_is_write k))"

lemma traffic_key_eq: "traffic_key_eq x y \<longleftrightarrow> x = y"
  by (cases x; cases y) (auto simp: traffic_key_eq_def)

lemma file_key_eq: "file_key_eq x y \<longleftrightarrow> x = y"
  by (cases x; cases y) (simp add: file_key_eq_def)

interpretation traffic: exact_compare traffic_key_eq "traffic_key_hash hash_size hash_string" for hash_size hash_string
  by unfold_locales (auto simp: traffic_key_eq)

interpretation files: exact_compare file_key_eq "file_key_hash hash_u32 hash_string hash_i32" for hash_u32 hash_string hash_i32
  by unfold_locales (auto simp: file_key_eq)

section \<open>What the keys give the tables\<close>

text \<open>A value is never lost in the mixing: for a fixed seed the step is injective.\<close>

lemma xor_cancel: "seed XOR a = seed XOR b \<longleftrightarrow> a = b" for a b :: u64
proof
  assume "seed XOR a = seed XOR b"
  then have "seed XOR (seed XOR a) = seed XOR (seed XOR b)" by simp
  then show "a = b" by (simp only: xor.assoc [symmetric] xor_self_eq xor.left_neutral)
qed simp

lemma hash_combine_inject [simp]: "hash_combine seed h = hash_combine seed h' \<longleftrightarrow> h = h'"
  by (simp only: hash_combine_def xor_cancel add_right_cancel)

text \<open>A search in the traffic table by hash code and equality is the search of the partial function, with
  whatever functions \<open>std::hash\<close> stands for; and two connections between the same endpoints share a
  hash code only if the hash of their domains collides.\<close>

theorem traffic_search:
  "find (\<lambda>e. traffic_key_hash hs hstr (fst e) = traffic_key_hash hs hstr k \<and> traffic_key_eq (fst e) k) es = map_option (Pair k) (map_of es k) \<and>
   (traffic_key_hash hs hstr (k\<lparr>tk_domain := d\<rparr>) = traffic_key_hash hs hstr k \<longleftrightarrow> hs (hstr d) = hs (hstr (tk_domain k)))"
  using traffic.find_map_of by (simp add: traffic_key_hash_def Let_def)

theorem file_search:
  "find (\<lambda>e. file_key_hash hu hstr hi (fst e) = file_key_hash hu hstr hi k \<and> file_key_eq (fst e) k) es = map_option (Pair k) (map_of es k) \<and>
   (file_key_hash hu hstr hi (k\<lparr>fe_is_write := w\<rparr>) = file_key_hash hu hstr hi k \<longleftrightarrow> hi w = hi (fe_is_write k))"
  using files.find_map_of by (simp add: file_key_hash_def)

end
