(* ===== verification/ServiceSocket.thy ===== *)
theory ServiceSocket
  imports Exporter
begin

text \<open>
  The socket of the exporter (\<open>createAndBindUdsSocket\<close> and \<open>initUDSService\<close> of
  \<open>src/src/user/servie/ExporterService.hpp\<close>) with the system calls it makes: the descriptors of the process,
  the names in the file system, and what every path of the code leaves of both.

  The answers of the calls are arguments, within their documented behaviour: a new descriptor is the
  lowest one that is free, an address in use cannot be bound, a name that a socket was bound to stays
  in the file system until it is unlinked, and an address whose path is empty is an abstract one,
  which disappears with its descriptor.
\<close>

section \<open>Descriptors and names\<close>

datatype address = Abstract | Path string

record sock_world =
  sw_fds :: "(int \<times> address option) list"
  sw_files :: "string list"

definition lowest_free :: "sock_world \<Rightarrow> int" where
  "lowest_free w = hd (filter (\<lambda>fd. fd \<notin> fst ` set (sw_fds w)) (map int [0..<Suc (length (sw_fds w))]))"

definition open_fd :: "sock_world \<Rightarrow> int \<times> sock_world" where
  "open_fd w = (let fd = lowest_free w in (fd, w\<lparr>sw_fds := (fd, None) # sw_fds w\<rparr>))"

definition close_fd :: "int \<Rightarrow> sock_world \<Rightarrow> sock_world" where
  "close_fd fd w = w\<lparr>sw_fds := filter (\<lambda>e. fst e \<noteq> fd) (sw_fds w)\<rparr>"

definition unlink_name :: "string \<Rightarrow> sock_world \<Rightarrow> sock_world" where
  "unlink_name p w = w\<lparr>sw_files := filter (\<lambda>q. q \<noteq> p) (sw_files w)\<rparr>"

definition in_use :: "address \<Rightarrow> sock_world \<Rightarrow> bool" where
  "in_use a w \<longleftrightarrow> (case a of Abstract \<Rightarrow> Some Abstract \<in> snd ` set (sw_fds w) | Path p \<Rightarrow> p \<in> set (sw_files w))"

definition bind_fd :: "int \<Rightarrow> address \<Rightarrow> sock_world \<Rightarrow> sock_world" where
  "bind_fd fd a w =
     w\<lparr>sw_fds := map (\<lambda>e. if fst e = fd then (fd, Some a) else e) (sw_fds w),
       sw_files := (case a of Abstract \<Rightarrow> sw_files w | Path p \<Rightarrow> p # sw_files w)\<rparr>"

section \<open>The socket\<close>

text \<open>The address: at most 107 bytes of the configured path are copied to \<open>sun_path\<close>, and its last byte stays
  zero. The name that is unlinked is the whole path.\<close>

definition sun_path :: "string \<Rightarrow> string" where
  "sun_path socket_path = take 107 (c_str socket_path)"

definition sock_address :: "string \<Rightarrow> address" where
  "sock_address socket_path = (if sun_path socket_path = [] then Abstract else Path (sun_path socket_path))"

text \<open>Whether the calls succeed; \<open>ua_bind\<close> is about other reasons than an address in use.\<close>

record uds_answers =
  ua_socket :: bool
  ua_setsockopt :: bool
  ua_unlink :: bool
  ua_bind :: bool
  ua_listen :: bool

definition createAndBindUdsSocket :: "string \<Rightarrow> uds_answers \<Rightarrow> sock_world \<Rightarrow> int \<times> sock_world" where
  "createAndBindUdsSocket socket_path a w =
     (if \<not> ua_socket a then (-1, w)
      else (let (server_fd, w) = open_fd w in
        if \<not> ua_setsockopt a then (-1, close_fd server_fd w)
        else (let addr = sock_address socket_path;
                  w = (if ua_unlink a then unlink_name (c_str socket_path) w else w) in
          if \<not> ua_bind a \<or> in_use addr w then (-1, close_fd server_fd w)
          else (let w = bind_fd server_fd addr w in
            if \<not> ua_listen a then (-1, close_fd server_fd w)
            else (server_fd, w)))))"

text \<open>\<open>initUDSService\<close> with its descriptors. One turn of its two loops: the reading of \<open>running\<close> in front, the
  answers for the creation of the socket, and what \<open>accept\<close> delivers: no client, with the next reading
  of \<open>running\<close> and whether the error says that the descriptor is gone, or a client and the rounds it is
  served.\<close>

datatype accept_answer = No_client bool bool | Accepted "round list"

record uds_turn =
  ut_running :: bool
  ut_create :: uds_answers
  ut_accept :: accept_answer

definition end_listening :: "int \<Rightarrow> sock_world \<times> exporter_service \<Rightarrow> sock_world \<times> exporter_service" where
  "end_listening fd ws = (close_fd fd (fst ws), (snd ws)\<lparr>xs_uds_server_fd := -1\<rparr>)"

fun uds_service :: "string \<Rightarrow> uds_turn list \<Rightarrow> int option \<Rightarrow> sock_world \<times> exporter_service \<Rightarrow> (sock_world \<times> exporter_service) option" where
  "uds_service path [] listening ws = None"
| "uds_service path (t # ts) None (w, s) =
     (if \<not> ut_running t then Some (w, setStatus STOPPED s)
      else (case createAndBindUdsSocket path (ut_create t) w of (server_fd, w) \<Rightarrow>
              if server_fd = -1 then uds_service path ts None (w, setStatus FAILED s)
              else uds_service path ts (Some server_fd) (w, setStatus RUNNING (s\<lparr>xs_uds_server_fd := server_fd\<rparr>))))"
| "uds_service path (t # ts) (Some server_fd) (w, s) =
     (if \<not> ut_running t then (case end_listening server_fd (w, s) of (w, s) \<Rightarrow> Some (w, setStatus STOPPED s))
      else (case ut_accept t of
              No_client still gone \<Rightarrow>
                if \<not> still then uds_service path ts None (end_listening server_fd (w, s))
                else if gone then uds_service path ts None (end_listening server_fd (w, setStatus FAILED s))
                else uds_service path ts (Some server_fd) (w, setStatus FAILED s)
            | Accepted rs \<Rightarrow>
                (case open_fd w of (client_fd, w) \<Rightarrow>
                  case serveClient rs s of None \<Rightarrow> None
                  | Some (_, s) \<Rightarrow> uds_service path ts (Some server_fd) (close_fd client_fd w, s))))"

definition start_uds_service :: "string \<Rightarrow> uds_turn list \<Rightarrow> sock_world \<times> exporter_service \<Rightarrow> (sock_world \<times> exporter_service) option" where
  "start_uds_service path ts ws = uds_service path ts None (fst ws, setStatus STARTING (snd ws))"

section \<open>Descriptors are given back\<close>

lemma lowest_free_fresh: "lowest_free w \<notin> fst ` set (sw_fds w)" "0 \<le> lowest_free w"
proof -
  let ?used = "fst ` set (sw_fds w)" and ?all = "map int [0..<Suc (length (sw_fds w))]"
  have "card ?used \<le> length (sw_fds w)" using card_image_le card_length le_trans by (metis List.finite_set)
  moreover have "card (set ?all) = Suc (length (sw_fds w))" by (simp add: card_image del: upt_Suc)
  ultimately have "\<not> set ?all \<subseteq> ?used" using card_mono [of ?used "set ?all"] by auto
  then have "filter (\<lambda>fd. fd \<notin> ?used) ?all \<noteq> []" by (auto simp: filter_empty_conv simp del: upt_Suc)
  then have "lowest_free w \<in> set (filter (\<lambda>fd. fd \<notin> ?used) ?all)" unfolding lowest_free_def by (rule hd_in_set)
  then have "lowest_free w \<in> set ?all \<and> lowest_free w \<notin> ?used" by (simp only: set_filter mem_Collect_eq simp_thms)
  then show "lowest_free w \<notin> ?used" and "0 \<le> lowest_free w" by (auto simp del: upt_Suc)
qed

definition fresh :: "int \<Rightarrow> (int \<times> address option) list \<Rightarrow> bool" where
  "fresh fd fds \<longleftrightarrow> fd \<notin> fst ` set fds \<and> 0 \<le> fd"

lemma fresh_rest: "fresh fd fds \<Longrightarrow> filter (\<lambda>e. fst e \<noteq> fd) fds = fds"
  by (rule filter_True) (auto simp: fresh_def)

lemma fresh_map: "fresh fd fds \<Longrightarrow> map (\<lambda>e. if fst e = fd then x else e) fds = fds"
  by (rule map_idI) (auto simp: fresh_def)

text \<open>What one call of \<open>createAndBindUdsSocket\<close> leaves. A failure leaves the descriptors as they were.\<close>

lemma create_fails: "createAndBindUdsSocket path a w = (-1, w') \<Longrightarrow> sw_fds w' = sw_fds w"
  using lowest_free_fresh [of w]
  by (auto simp: createAndBindUdsSocket_def open_fd_def close_fd_def bind_fd_def unlink_name_def Let_def fresh_def
      fresh_rest fresh_map filter_id_conv split: if_splits)

lemma create_succeeds:
  assumes "createAndBindUdsSocket path a w = (fd, w')" and "fd \<noteq> -1"
  shows "sw_fds w' = (fd, Some (sock_address path)) # sw_fds w \<and> fresh fd (sw_fds w) \<and>
    (\<forall>p. sock_address path = Path p \<longrightarrow> p \<in> set (sw_files w'))"
proof -
  have "fresh (lowest_free w) (sw_fds w)" using lowest_free_fresh by (simp add: fresh_def)
  then show ?thesis
    using assms by (auto simp: createAndBindUdsSocket_def open_fd_def bind_fd_def unlink_name_def Let_def fresh_map split: if_splits)
qed


text \<open>The turns that begin without a listening socket leave the descriptors as they found them, the others
  give back the one they listen on.\<close>

definition listens :: "int option \<Rightarrow> (int \<times> address option) list \<Rightarrow> (int \<times> address option) list \<Rightarrow> bool" where
  "listens listening fds rest \<longleftrightarrow>
     (case listening of None \<Rightarrow> fds = rest | Some fd \<Rightarrow> fresh fd rest \<and> (\<exists>b. fds = (fd, b) # rest))"

lemma listens_simps [simp]:
  "listens None fds rest \<longleftrightarrow> fds = rest"
  "listens (Some fd) fds rest \<longleftrightarrow> fresh fd rest \<and> (\<exists>b. fds = (fd, b) # rest)"
  by (simp_all add: listens_def)

lemma close_listening: "listens (Some fd) (sw_fds w) rest \<Longrightarrow> sw_fds (close_fd fd w) = rest"
  by (auto simp: close_fd_def fresh_rest)

lemma close_opened: "sw_fds (close_fd (fst (open_fd w)) (snd (open_fd w))) = sw_fds w"
  using lowest_free_fresh [of w] by (simp add: close_fd_def open_fd_def Let_def fresh_def fresh_rest)

lemma descriptors_back:
  "uds_service path ts listening (w, s) = Some (w', s') \<Longrightarrow> listens listening (sw_fds w) rest \<Longrightarrow> sw_fds w' = rest"
proof (induction ts arbitrary: listening w s)
  case (Cons t ts)
  show ?case
  proof (cases listening)
    case None
    obtain fd v where create: "createAndBindUdsSocket path (ut_create t) w = (fd, v)" by fastforce
    show ?thesis
      using Cons.prems Cons.IH [of None v "setStatus FAILED s"] Cons.IH [of "Some fd" v]
        create_fails [of path "ut_create t" w v] create_succeeds [OF create]
      by (auto simp: None create split: if_splits)
  next
    case (Some fd)
    note closed = close_listening [OF Cons.prems(2) [unfolded Some]]
    note client = close_opened [of w]
    show ?thesis
      using Cons.prems Cons.IH [of None "close_fd fd w"] Cons.IH [of "Some fd" w] closed
        Cons.IH [of "Some fd" "close_fd (fst (open_fd w)) (snd (open_fd w))"] client
      by (auto simp: Some end_listening_def split: if_splits accept_answer.splits prod.splits option.splits)
  qed
qed simp

section \<open>The service is the one of theory Exporter\<close>

text \<open>Without a listening socket every turn overwrites the status, so it does not matter before.\<close>

lemma status_overwritten [simp]: "uds_loop evs False (setStatus st s) = uds_loop evs False s"
  by (cases "(evs, False, s)" rule: uds_loop.cases) (auto simp: setStatus_def split: uds_event.splits)

lemma fd_after_status: "(setStatus st s)\<lparr>xs_uds_server_fd := fd\<rparr> = setStatus st (s\<lparr>xs_uds_server_fd := fd\<rparr>)"
  by (simp add: setStatus_def)

text \<open>What the outer loop sees of a turn.\<close>

definition no_socket_event :: "uds_turn \<Rightarrow> bool \<times> uds_event" where
  "no_socket_event t = (ut_running t, No_socket)"

lemma service_refines:
  "uds_service path ts listening (w, s) = Some (w', s') \<Longrightarrow>
   \<exists>evs. map fst evs = map ut_running ts \<and> uds_loop evs (listening \<noteq> None) s = Some s'"
proof (induction ts arbitrary: listening w s)
  case (Cons t ts)
  have step: ?case if "uds_loop ((ut_running t, ev) # evs) (listening \<noteq> None) s = Some s'" and "map fst evs = map ut_running ts" for ev evs
    using that by (intro exI [of _ "(ut_running t, ev) # evs"]) simp
  show ?case
  proof (cases "ut_running t")
    case False
    then show ?thesis
      using Cons.prems step [of No_socket "map no_socket_event ts"]
      by (cases listening) (auto simp: end_listening_def no_socket_event_def)
  next
    case run: True
    show ?thesis
    proof (cases listening)
      case None
      obtain fd v where create: "createAndBindUdsSocket path (ut_create t) w = (fd, v)" by fastforce
      show ?thesis
      proof (cases "fd = -1")
        case True
        then obtain evs where "map fst evs = map ut_running ts" "uds_loop evs False (setStatus FAILED s) = Some s'"
          using Cons.prems Cons.IH [of None v "setStatus FAILED s"] by (auto simp: None create run)
        then show ?thesis using step [of No_socket evs] by (simp add: None run)
      next
        case False
        then obtain evs where "map fst evs = map ut_running ts"
            "uds_loop evs True (setStatus RUNNING (s\<lparr>xs_uds_server_fd := fd\<rparr>)) = Some s'"
          using Cons.prems Cons.IH [of "Some fd" v "setStatus RUNNING (s\<lparr>xs_uds_server_fd := fd\<rparr>)"] by (auto simp: None create run)
        then show ?thesis using step [of "Socket fd" evs] by (simp add: None run)
      qed
    next
      case (Some fd)
      have ended: "\<exists>evs. map fst evs = map ut_running ts \<and> uds_loop evs False (s\<lparr>xs_uds_server_fd := -1\<rparr>) = Some s'"
        if "uds_service path ts None (end_listening fd (w, setStatus st s)) = Some (w', s') \<or>
            uds_service path ts None (end_listening fd (w, s)) = Some (w', s')" for st
        using that Cons.IH [of None "close_fd fd w" "(setStatus st s)\<lparr>xs_uds_server_fd := -1\<rparr>"]
          Cons.IH [of None "close_fd fd w" "s\<lparr>xs_uds_server_fd := -1\<rparr>"]
        by (auto simp: end_listening_def fd_after_status)
      show ?thesis
      proof (cases "ut_accept t")
        case (No_client still is_gone)
        then show ?thesis
          using Cons.prems ended [of FAILED] step [of Accept_gone] step [of Accept_failed]
            Cons.IH [of "Some fd" w "setStatus FAILED s"]
          by (auto simp: Some run split: if_splits)
      next
        case (Accepted rs)
        then obtain n s1 where served: "serveClient rs s = Some (n, s1)"
          and rest: "uds_service path ts (Some fd) (close_fd (fst (open_fd w)) (snd (open_fd w)), s1) = Some (w', s')"
          using Cons.prems by (auto simp: Some run split: option.splits prod.splits)
        show ?thesis
          using Cons.IH [OF rest] step [of "Client rs"] by (auto simp: Some run served)
      qed
    qed
  qed
qed simp

text \<open>C40: The service of the socket gives back every descriptor. However its turns go (creations that fail at
  any of their five calls, clients, errors of \<open>accept\<close>), when it has ended the process has the
  descriptors it had before; and its effect on the state of the exporter is the one of the loop of
  theory Exporter on a sequence of events with the same readings of \<open>running\<close>.\<close>

theorem socket_service_balanced:
  assumes "start_uds_service path ts (w, s) = Some (w', s')"
  shows "sw_fds w' = sw_fds w \<and> (\<exists>evs. map fst evs = map ut_running ts \<and> initUDSService evs s = Some s')"
  using assms descriptors_back [of path ts None w "setStatus STARTING s" w' s' "sw_fds w"]
    service_refines [of path ts None w "setStatus STARTING s" w' s']
  by (simp add: start_uds_service_def initUDSService_def)

definition all_succeed :: uds_answers where
  "all_succeed = \<lparr>ua_socket = True, ua_setsockopt = True, ua_unlink = True, ua_bind = True, ua_listen = True\<rparr>"

definition sample_turns :: "uds_turn list" where
  "sample_turns =
     [\<lparr>ut_running = True, ut_create = all_succeed\<lparr>ua_listen := False\<rparr>, ut_accept = No_client True True\<rparr>,
      \<lparr>ut_running = True, ut_create = all_succeed, ut_accept = No_client True True\<rparr>,
      \<lparr>ut_running = True, ut_create = all_succeed, ut_accept = Accepted [\<lparr>rd_running = False, rd_entries = [], rd_files = [], rd_replies = []\<rparr>]\<rparr>,
      \<lparr>ut_running = False, ut_create = all_succeed, ut_accept = No_client True True\<rparr>]"

definition sample_service :: exporter_service where
  "sample_service = \<lparr>xs_running = True, xs_initialized = False, xs_uds_initialized = True, xs_status = STOPPED, xs_uds_server_fd = -1,
     xs_service_thread = False, xs_ksm_reader_thread = True\<rparr>"

lemma no_nul_char: "CHR ''s'' \<noteq> NUL" "CHR ''/'' \<noteq> NUL"
  by code_simp+

lemma sample_run:
  "\<exists>s'. start_uds_service ''/s'' sample_turns (\<lparr>sw_fds = [(0, None), (2, None)], sw_files = []\<rparr>, sample_service) =
     Some (\<lparr>sw_fds = [(0, None), (2, None)], sw_files = [''/s'']\<rparr>, s')"
  by (simp add: start_uds_service_def sample_turns_def all_succeed_def createAndBindUdsSocket_def open_fd_def lowest_free_def
      close_fd_def bind_fd_def unlink_name_def in_use_def sock_address_def sun_path_def c_str_def serveClient_def end_listening_def Let_def no_nul_char)

theorem socket_service_balanced_witness:
  "\<exists>s' evs. map fst evs = [True, True, True, False] \<and> initUDSService evs sample_service = Some s'"
proof -
  obtain s' where run: "start_uds_service ''/s'' sample_turns (\<lparr>sw_fds = [(0, None), (2, None)], sw_files = []\<rparr>, sample_service) =
     Some (\<lparr>sw_fds = [(0, None), (2, None)], sw_files = [''/s'']\<rparr>, s')" using sample_run by blast
  have "map ut_running sample_turns = [True, True, True, False]" by (simp add: sample_turns_def)
  then show ?thesis using socket_service_balanced [OF run] by metis
qed

section \<open>A restart of the service\<close>

text \<open>The file of a socket outlives its descriptor, so every creation unlinks it first. That finds the file
  exactly if the configured path fits into the address: of a longer path the first 107 bytes are bound,
  and the whole path is unlinked. Once such a socket has been bound, by this or an earlier process, no
  creation succeeds any more, although every call is permitted.\<close>

definition binds_again :: "string \<Rightarrow> uds_answers \<Rightarrow> sock_world \<Rightarrow> bool" where
  "binds_again path b v \<longleftrightarrow> fst (createAndBindUdsSocket path b v) \<noteq> -1"

lemma bind_possible: "binds_again path all_succeed v \<longleftrightarrow> \<not> in_use (sock_address path) (unlink_name (c_str path) (snd (open_fd v)))"
  using lowest_free_fresh(2) [of v]
  by (auto simp: binds_again_def createAndBindUdsSocket_def all_succeed_def open_fd_def Let_def)

text \<open>A socket that was bound once can be bound again exactly if the path has at most 107 bytes.\<close>

theorem socket_rebinds:
  assumes first: "createAndBindUdsSocket path a w = (fd, v)" and ok: "fd \<noteq> -1"
  shows "fst (createAndBindUdsSocket path all_succeed (close_fd fd v)) \<noteq> -1 \<longleftrightarrow> length (c_str path) \<le> 107"
proof -
  note made = create_succeeds [OF first ok]
  have closed: "sw_fds (close_fd fd v) = sw_fds w" "sw_files (close_fd fd v) = sw_files v"
    using made by (auto simp: close_fd_def fresh_rest)
  have "Some Abstract \<notin> snd ` set (sw_fds w)" if "sock_address path = Abstract"
    using first ok that by (auto simp: createAndBindUdsSocket_def in_use_def open_fd_def unlink_name_def Let_def split: if_splits)
  then show ?thesis
    using bind_possible [of path "close_fd fd v"] closed made
    by (auto simp: binds_again_def in_use_def sock_address_def sun_path_def open_fd_def unlink_name_def Let_def split: if_splits)
qed

theorem socket_rebinds_witness:
  "let long = replicate 108 CHR ''s''; (fd, v) = createAndBindUdsSocket long all_succeed \<lparr>sw_fds = [], sw_files = []\<rparr> in
     fst (createAndBindUdsSocket long all_succeed (close_fd fd v)) = -1"
proof -
  let ?long = "replicate 108 CHR ''s''"
  obtain fd v where made: "createAndBindUdsSocket ?long all_succeed \<lparr>sw_fds = [], sw_files = []\<rparr> = (fd, v)" by fastforce
  have clean: "c_str ?long = ?long" by (rule c_str_id) (use no_nul_char in auto)
  have "binds_again ?long all_succeed \<lparr>sw_fds = [], sw_files = []\<rparr>"
    by (simp add: bind_possible in_use_def sock_address_def sun_path_def clean unlink_name_def open_fd_def Let_def)
  then have "fd \<noteq> -1" by (simp add: binds_again_def made)
  from socket_rebinds [OF made this] show ?thesis by (simp add: made clean)
qed

end
