(* ===== verification/HostFiles.thy ===== *)
theory HostFiles
  imports Startup
begin

text \<open>
  The files the firewall needs on its host: \<open>assure_control_file_exists\<close> of \<open>src/src/user/config/Firewall.hpp\<close>, which
  prepares the two block lists and the control file, over a file system with modes, and the reading of
  the block lists (\<open>load_blocklist_to_map\<close> of \<open>main.cpp\<close>) on the files it leaves.

  The file system has directories and files by their paths. Whether a call is refused for a reason the
  state does not show (permissions, space) is an argument; that a name exists, is a directory or has no
  directory to stand in follows from the state, as \<open>mkdir\<close> and \<open>open\<close> document it.
\<close>

section \<open>The file system\<close>

record host_file =
  hf_mode :: u32
  hf_text :: string

record host_fs =
  fs_dirs :: "string \<rightharpoonup> u32"
  fs_files :: "string \<rightharpoonup> host_file"

record fs_env =
  fe_umask :: u32
  fe_mkdir :: "string \<Rightarrow> bool"
  fe_open :: "string \<Rightarrow> bool"

definition parent_dir :: "string \<Rightarrow> string" where
  "parent_dir p = rev (tl (dropWhile (\<lambda>c. c \<noteq> CHR ''/'') (rev p)))"

definition fs_exists :: "string \<Rightarrow> host_fs \<Rightarrow> bool" where
  "fs_exists p fs \<longleftrightarrow> fs_dirs fs p \<noteq> None \<or> fs_files fs p \<noteq> None"

text \<open>\<open>mkdir\<close>, and \<open>open\<close> with \<open>O_WRONLY | O_CREAT\<close>: a file that exists keeps its mode and its content.\<close>

datatype mkdir_result = Made | Exists | Refused

definition sys_mkdir :: "fs_env \<Rightarrow> string \<Rightarrow> u32 \<Rightarrow> host_fs \<Rightarrow> mkdir_result \<times> host_fs" where
  "sys_mkdir e p mode fs =
     (if fs_exists p fs then (Exists, fs)
      else if fs_dirs fs (parent_dir p) = None \<or> \<not> fe_mkdir e p then (Refused, fs)
      else (Made, fs\<lparr>fs_dirs := (fs_dirs fs)(p \<mapsto> mode AND NOT (fe_umask e))\<rparr>))"

definition open_create :: "fs_env \<Rightarrow> string \<Rightarrow> u32 \<Rightarrow> host_fs \<Rightarrow> bool \<times> host_fs" where
  "open_create e p mode fs =
     (if fs_dirs fs p \<noteq> None \<or> \<not> fe_open e p then (False, fs)
      else if fs_files fs p \<noteq> None then (True, fs)
      else if fs_dirs fs (parent_dir p) = None then (False, fs)
      else (True, fs\<lparr>fs_files := (fs_files fs)(p \<mapsto> \<lparr>hf_mode = mode AND NOT (fe_umask e), hf_text = []\<rparr>)\<rparr>))"

section \<open>The control files\<close>

text \<open>The modes are \<open>0700\<close> and \<open>S_IRUSR | S_IWUSR\<close>.\<close>

definition assure_control_file_exists :: "fs_env \<Rightarrow> string \<Rightarrow> string \<Rightarrow> host_fs \<Rightarrow> bool \<times> host_fs" where
  "assure_control_file_exists e dirpath filepath fs =
     (case sys_mkdir e dirpath 0x1C0 fs of
        (Refused, fs) \<Rightarrow> (False, fs)
      | (_, fs) \<Rightarrow>
          (case open_create e filepath 0x180 fs of
             (init_fd_ok, fs) \<Rightarrow> if \<not> init_fd_ok then (False, fs) else (True, fs)))"

definition text_of :: "string \<Rightarrow> host_fs \<Rightarrow> string option" where
  "text_of p fs = map_option hf_text (fs_files fs p)"

text \<open>\<open>load_blocklist_to_map\<close> on the files: the second list is not prepared when the first one fails.\<close>

definition load_blocklist_files ::
  "fs_env \<Rightarrow> user_env \<Rightarrow> skeleton option \<Rightarrow> string \<Rightarrow> string \<Rightarrow> host_fs \<Rightarrow> user_state \<Rightarrow> (exn + unit) \<times> host_fs \<times> user_state" where
  "load_blocklist_files fe e skel temp_list perm_list fs u =
     (if skel = None then (Inr (), fs, u)
      else
        (let (ok, fs) = assure_control_file_exists fe ''/etc/xdp_fw'' temp_list fs;
             (ok, fs) = (if ok then assure_control_file_exists fe ''/etc/xdp_fw'' perm_list fs else (False, fs));
             (r, u) = load_blocklist_to_map (e\<lparr>control_files_ok := ok\<rparr>) skel (text_of temp_list fs) (text_of perm_list fs) u
         in (r, fs, u)))"

section \<open>What is prepared\<close>

text \<open>No file or directory that exists is changed, and what is new belongs to its owner alone.\<close>

definition kept :: "('a \<Rightarrow> bool) \<Rightarrow> 'a option \<Rightarrow> 'a option \<Rightarrow> bool" where
  "kept P old new \<longleftrightarrow> (case old of Some x \<Rightarrow> new = Some x | None \<Rightarrow> pred_option P new)"

definition extends :: "host_fs \<Rightarrow> host_fs \<Rightarrow> bool" where
  "extends fs fs' \<longleftrightarrow>
     (\<forall>p. kept (\<lambda>m. m AND 0x3F = 0) (fs_dirs fs p) (fs_dirs fs' p) \<and>
          kept (\<lambda>f. hf_mode f AND 0x3F = 0 \<and> hf_text f = []) (fs_files fs p) (fs_files fs' p))"

lemma kept_trans: "kept P x y \<Longrightarrow> kept P y z \<Longrightarrow> kept P x z"
  by (cases x; cases y) (auto simp: kept_def)

lemma kept_same: "kept P x x"
  by (simp add: kept_def split: option.split)

lemma extends_refl [simp]: "extends fs fs"
  by (simp add: extends_def kept_same)

lemma extends_trans: "extends a b \<Longrightarrow> extends b c \<Longrightarrow> extends a c"
proof -
  assume ab: "extends a b" and bc: "extends b c"
  show "extends a c" unfolding extends_def
  proof (intro allI conjI)
    fix p
    show "kept (\<lambda>m. m AND 0x3F = 0) (fs_dirs a p) (fs_dirs c p)"
      by (rule kept_trans [of _ _ "fs_dirs b p"]) (use ab bc in \<open>simp_all only: extends_def\<close>)
    show "kept (\<lambda>f. hf_mode f AND 0x3F = 0 \<and> hf_text f = []) (fs_files a p) (fs_files c p)"
      by (rule kept_trans [of _ _ "fs_files b p"]) (use ab bc in \<open>simp_all only: extends_def\<close>)
  qed
qed

lemma masked_off: "a AND b = 0 \<Longrightarrow> (a AND NOT m) AND b = 0" for a b m :: u32
proof -
  assume z: "a AND b = 0"
  have "(a AND NOT m) AND b = NOT m AND (a AND b)" by (simp only: and.assoc and.commute and.left_commute)
  then show ?thesis unfolding z by (simp only: and_zero_eq)
qed

lemma private_modes:
  "(0x1C0 AND NOT m) AND 0x3F = (0::u32)" "(0x180 AND NOT m) AND 0x3F = (0::u32)"
  by (rule masked_off, code_simp)+

lemma mkdir_extends: "sys_mkdir e p 0x1C0 fs = (r, fs') \<Longrightarrow> extends fs fs'"
  by (auto simp: sys_mkdir_def extends_def fs_exists_def private_modes kept_def split: if_splits option.splits)

lemma create_extends: "open_create e p 0x180 fs = (ok, fs') \<Longrightarrow> extends fs fs'"
  by (auto simp: open_create_def extends_def private_modes kept_def split: if_splits option.splits)

lemma create_there: "open_create e p m fs = (True, fs') \<Longrightarrow> fs_files fs' p \<noteq> None"
  by (auto simp: open_create_def split: if_splits)

lemma assure_extends: "assure_control_file_exists e d p fs = (ok, fs') \<Longrightarrow> extends fs fs'"
  by (auto simp: assure_control_file_exists_def split: prod.splits mkdir_result.splits if_splits
      intro: extends_trans dest!: mkdir_extends create_extends)

lemma assure_there: "assure_control_file_exists e d p fs = (True, fs') \<Longrightarrow> fs_files fs' p \<noteq> None"
  by (auto simp: assure_control_file_exists_def split: prod.splits mkdir_result.splits if_splits dest: create_there)

text \<open>The text of a file that need not be there.\<close>

definition list_text :: "string \<Rightarrow> host_fs \<Rightarrow> string" where
  "list_text p fs = (case text_of p fs of None \<Rightarrow> [] | Some t \<Rightarrow> t)"

lemma extends_text:
  assumes "extends fs fs'" and "fs_files fs' p \<noteq> None"
  shows "text_of p fs' = Some (list_text p fs)"
proof -
  have "kept (\<lambda>f. hf_mode f AND 0x3F = 0 \<and> hf_text f = []) (fs_files fs p) (fs_files fs' p)"
    using assms(1) by (simp add: extends_def)
  then show ?thesis using assms(2) by (auto simp: kept_def text_of_def list_text_def split: option.splits)
qed

lemma extends_there: "extends fs fs' \<Longrightarrow> fs_files fs p \<noteq> None \<Longrightarrow> fs_files fs' p \<noteq> None"
  by (auto simp: extends_def kept_def split: option.splits dest: spec [of _ p])

section \<open>Properties\<close>

text \<open>The directories after the one of the file has been made, and what the host has to grant.\<close>

definition dir_there :: "string \<Rightarrow> host_fs \<Rightarrow> string \<Rightarrow> bool" where
  "dir_there d fs q \<longleftrightarrow> fs_dirs fs q \<noteq> None \<or> q = d \<and> \<not> fs_exists d fs"

definition host_grants :: "fs_env \<Rightarrow> string \<Rightarrow> string \<Rightarrow> host_fs \<Rightarrow> bool" where
  "host_grants e d p fs \<longleftrightarrow>
     (fs_exists d fs \<or> fs_dirs fs (parent_dir d) \<noteq> None \<and> fe_mkdir e d) \<and>
     fe_open e p \<and> \<not> dir_there d fs p \<and> (fs_files fs p \<noteq> None \<or> dir_there d fs (parent_dir p))"

lemma assure_grants: "fst (assure_control_file_exists e d p fs) \<longleftrightarrow> host_grants e d p fs"
  by (auto simp: assure_control_file_exists_def sys_mkdir_def open_create_def host_grants_def dir_there_def fs_exists_def split: if_splits)

text \<open>C38: The control files are prepared without touching anything that exists. Whatever the calls answer, files
  and directories that were there keep their mode and their content, and those that are created give no
  right to anyone but the owner and are empty. Success is reported exactly if the host grants both calls: the
  directory is there (whatever kind of file has its name) or may be made in its parent, and the file may be opened, is no directory, and
  exists or has a directory to stand in. After a success the file is there
  with the text it had, and the commands in it are those that the next command signal executes.\<close>

theorem control_file_prepared:
  assumes "assure_control_file_exists e d p fs = (ok, fs')"
  shows "extends fs fs' \<and> (ok \<longleftrightarrow> host_grants e d p fs) \<and>
    (ok \<longrightarrow> text_of p fs' = Some (list_text p fs) \<and>
      snd (process_block_cmd_file ue sk (text_of p fs') u) = block_commands ue sk (words63 63 [] (list_text p fs)) u)"
proof -
  have "extends fs fs'" by (rule assure_extends [OF assms])
  moreover have "text_of p fs' = Some (list_text p fs)" if ok
    using extends_text calculation assure_there assms that by (metis (full_types))
  moreover have "ok \<longleftrightarrow> host_grants e d p fs" using assure_grants [of e d p fs] assms by simp
  ultimately show ?thesis by (simp add: process_block_cmd_file_def Let_def)
qed

definition small_host :: host_fs where
  "small_host = \<lparr>fs_dirs = [''/run'' \<mapsto> 0x1ED], fs_files = Map.empty\<rparr>"

definition willing :: fs_env where
  "willing = \<lparr>fe_umask = 0x12, fe_mkdir = (\<lambda>_. True), fe_open = (\<lambda>_. True)\<rparr>"

theorem control_file_prepared_witness:
  "\<exists>fs'. assure_control_file_exists willing ''/run/x'' ''/run/x/c'' small_host = (True, fs') \<and> text_of ''/run/x/c'' fs' = Some []"
proof -
  obtain ok fs' where a: "assure_control_file_exists willing ''/run/x'' ''/run/x/c'' small_host = (ok, fs')" by fastforce
  have ok by (use a in \<open>auto simp: assure_control_file_exists_def sys_mkdir_def open_create_def fs_exists_def small_host_def willing_def
    parent_dir_def split: if_splits\<close>)
  then show ?thesis using control_file_prepared [OF a] a by (simp add: list_text_def text_of_def small_host_def)
qed

text \<open>The block lists are read as the host has them. Either the preparation of one of the two fails, then the
  start is aborted and no map is written; or both lists are there, a missing one has been created, and
  what is written to the maps is what the texts on the host say, a missing list being an empty one.\<close>

theorem lists_prepared:
  assumes "load_blocklist_files fe e (Some sk) t p fs u = (r, fs', u')"
  shows "extends fs fs' \<and>
    (r = Inl (runtime_error ''init /etc/xdp_fw'') \<and> u' = u \<or>
     load_blocklist_to_map (e\<lparr>control_files_ok := True\<rparr>) (Some sk) (Some (list_text t fs)) (Some (list_text p fs)) u = (r, u'))"
proof -
  obtain ok1 fs1 where first: "assure_control_file_exists fe ''/etc/xdp_fw'' t fs = (ok1, fs1)" by fastforce
  obtain ok2 fs2 where second: "(if ok1 then assure_control_file_exists fe ''/etc/xdp_fw'' p fs1 else (False, fs1)) = (ok2, fs2)" by fastforce
  have result: "load_blocklist_to_map (e\<lparr>control_files_ok := ok2\<rparr>) (Some sk) (text_of t fs2) (text_of p fs2) u = (r, u')" "fs' = fs2"
    using assms by (auto simp: load_blocklist_files_def first second Let_def split: prod.splits)
  have one: "extends fs fs1" by (rule assure_extends [OF first])
  have two: "extends fs1 fs2" using second by (cases ok1) (auto dest: assure_extends)
  have both: "extends fs fs2" by (rule extends_trans [OF one two])
  show ?thesis
  proof (cases ok2)
    case True
    then have there: "ok1" "fs_files fs2 p \<noteq> None" using second by (auto dest: assure_there split: if_splits)
    then have "fs_files fs2 t \<noteq> None" using first two by (auto dest: assure_there extends_there)
    then show ?thesis
      using result both there(2) extends_text [OF both] True by simp
  next
    case False
    then show ?thesis using result both by (simp add: load_blocklist_to_map_def)
  qed
qed

theorem lists_prepared_witness:
  "\<exists>fs'. load_blocklist_files willing (user_env.truncate office) (Some office_skel) ''/etc/xdp_fw/t'' ''/etc/xdp_fw/p''
       (small_host\<lparr>fs_dirs := [''/etc'' \<mapsto> 0x1ED]\<rparr>) (fresh_user boot_state) = (Inr (), fs', fresh_user boot_state)"
proof -
  let ?fs = "small_host\<lparr>fs_dirs := [''/etc'' \<mapsto> 0x1ED]\<rparr>"
  obtain r fs' u' where run: "load_blocklist_files willing (user_env.truncate office) (Some office_skel) ''/etc/xdp_fw/t'' ''/etc/xdp_fw/p''
       ?fs (fresh_user boot_state) = (r, fs', u')" by (metis prod_cases3)
  have "r \<noteq> Inl (runtime_error ''init /etc/xdp_fw'')"
    using run by (auto simp: load_blocklist_files_def assure_control_file_exists_def sys_mkdir_def open_create_def fs_exists_def
        small_host_def willing_def parent_dir_def text_of_def load_blocklist_to_map_def parse_file_def lines_of_def reload_and_get_def
        split: if_splits)
  then show ?thesis
    using lists_prepared [OF run] run
    by (auto simp: list_text_def text_of_def small_host_def load_blocklist_to_map_def parse_file_def lines_of_def reload_and_get_def)
qed

end
