(* ===== verification/TableRace.thy ===== *)
theory TableRace
  imports Metrics
begin

text \<open>
  The tables of metrics between their threads: one thread updates a table (\<open>update_metrics\<close> of
  \<open>src/src/user/model/RiskMetricInfos.hpp\<close> and \<open>KsmFEMetricInfo.hpp\<close>), while the exporter walks over it
  (\<open>_send_bpftrace\<close> and \<open>_send_ksm_events\<close> of \<open>src/src/user/servie/ExporterService.hpp\<close>). An update is three
  steps, the finding or inserting of the entry, the counting and the touching; the walk is one step for
  each entry. The update holds the lock of its entry, but the iterators of the walk take no lock.

  The concurrent hash map documents that a traversal must not run beside an insertion. So the model
  records an insertion during a walk, and what such a walk delivers is left open.
\<close>

section \<open>Steps\<close>

datatype 'k writer = Idle | Found 'k bool bool | Counted 'k bool

text \<open>\<open>sh_todo\<close> has the keys that the walk has still to visit, \<open>sh_page\<close> what it has collected, \<open>sh_clash\<close> whether an
  entry was inserted during the walk. \<open>sh_hits\<close> is no variable of the code: it counts the hits.\<close>

record 'k shared =
  sh_table :: "'k \<rightharpoonup> metric_data"
  sh_writer :: "'k writer"
  sh_todo :: "'k list option"
  sh_page :: "('k \<times> metric_data) list"
  sh_clash :: bool
  sh_hits :: "'k \<Rightarrow> nat"

definition no_shared :: "'k shared" where
  "no_shared = \<lparr>sh_table = Map.empty, sh_writer = Idle, sh_todo = None, sh_page = [], sh_clash = False, sh_hits = \<lambda>_. 0\<rparr>"

text \<open>The time that the constructor of a new entry reads, the key and the risk; the time that \<open>touch\<close> reads; the
  order of a walk; an entry that it delivers.\<close>

datatype 'k move = Look int 'k bool | Bump | Touch int | Begin "'k list" | Visit "'k \<times> metric_data" | Finish

definition look :: "int \<Rightarrow> 'k \<Rightarrow> bool \<Rightarrow> 'k shared \<Rightarrow> 'k shared option" where
  "look now k risk s =
     (if sh_writer s \<noteq> Idle then None
      else (case sh_table s k of
              Some _ \<Rightarrow> Some (s\<lparr>sh_writer := Found k False risk\<rparr>)
            | None \<Rightarrow> Some (s\<lparr>sh_table := (sh_table s)(k \<mapsto> \<lparr>md_count = 0, md_last_updated = now, md_isRisk = False\<rparr>),
                sh_writer := Found k True risk, sh_clash := sh_clash s \<or> sh_todo s \<noteq> None\<rparr>)))"

definition bump :: "'k shared \<Rightarrow> 'k shared option" where
  "bump s =
     (case sh_writer s of
        Found k new risk \<Rightarrow>
          Some (s\<lparr>sh_table := (sh_table s)(k := map_option (\<lambda>d. d\<lparr>md_count := (if new then 1 else md_count d + 1)\<rparr>) (sh_table s k)),
            sh_writer := Counted k risk, sh_hits := (sh_hits s)(k := Suc (sh_hits s k))\<rparr>)
      | _ \<Rightarrow> None)"

definition touch_entry :: "int \<Rightarrow> 'k shared \<Rightarrow> 'k shared option" where
  "touch_entry now s =
     (case sh_writer s of
        Counted k risk \<Rightarrow>
          Some (s\<lparr>sh_table := (sh_table s)(k := map_option (touch now risk) (sh_table s k)), sh_writer := Idle\<rparr>)
      | _ \<Rightarrow> None)"

text \<open>A walk visits the entries in any order of the table's own. It ends when nothing is left, or, beside an
  insertion, at any time.\<close>

definition begin_walk :: "'k list \<Rightarrow> 'k shared \<Rightarrow> 'k shared option" where
  "begin_walk ks s =
     (if sh_todo s = None \<and> distinct ks \<and> set ks = dom (sh_table s)
      then Some (s\<lparr>sh_todo := Some ks, sh_page := []\<rparr>) else None)"

definition visit :: "'k \<times> metric_data \<Rightarrow> 'k shared \<Rightarrow> 'k shared option" where
  "visit e s =
     (case sh_todo s of
        None \<Rightarrow> None
      | Some ks \<Rightarrow>
          if sh_clash s then Some (s\<lparr>sh_page := sh_page s @ [e]\<rparr>)
          else if ks \<noteq> [] \<and> fst e = hd ks \<and> sh_table s (hd ks) = Some (snd e)
          then Some (s\<lparr>sh_todo := Some (tl ks), sh_page := sh_page s @ [e]\<rparr>)
          else None)"

definition finish :: "'k shared \<Rightarrow> 'k shared option" where
  "finish s = (if sh_todo s = Some [] \<or> sh_clash s \<and> sh_todo s \<noteq> None then Some (s\<lparr>sh_todo := None\<rparr>) else None)"

fun table_move :: "'k move \<Rightarrow> 'k shared \<Rightarrow> 'k shared option" where
  "table_move (Look now k risk) s = look now k risk s"
| "table_move Bump s = bump s"
| "table_move (Touch now) s = touch_entry now s"
| "table_move (Begin ks) s = begin_walk ks s"
| "table_move (Visit e) s = visit e s"
| "table_move Finish s = finish s"

fun table_run :: "'k move list \<Rightarrow> 'k shared \<Rightarrow> 'k shared option" where
  "table_run [] s = Some s"
| "table_run (m # ms) s = Option.bind (table_move m s) (table_run ms)"

section \<open>An update without interruption\<close>

text \<open>The three steps together are the update of theory Metrics.\<close>

lemma steps_are_update:
  assumes "sh_writer s = Idle"
  shows "table_run [Look t k risk, Bump, Touch t] s =
    Some (s\<lparr>sh_table := hit t k risk (sh_table s), sh_writer := Idle, sh_hits := (sh_hits s)(k := Suc (sh_hits s k)),
      sh_clash := sh_clash s \<or> sh_table s k = None \<and> sh_todo s \<noteq> None\<rparr>)"
  using assms by (cases "sh_table s k") (auto simp: look_def bump_def touch_entry_def hit_def touch_def Let_def)

section \<open>The invariant\<close>

text \<open>The counters are the numbers of hits, modulo \<open>2^64\<close>; an entry that is about to be counted is in the table.\<close>

definition entry_counts :: "metric_data option \<Rightarrow> nat \<Rightarrow> bool" where
  "entry_counts d n \<longleftrightarrow> (case d of None \<Rightarrow> n = 0 | Some d \<Rightarrow> md_count d = of_nat n)"

definition writer_ok :: "'k writer \<Rightarrow> ('k \<rightharpoonup> metric_data) \<Rightarrow> ('k \<Rightarrow> nat) \<Rightarrow> bool" where
  "writer_ok w m h \<longleftrightarrow> (case w of Idle \<Rightarrow> True | Found k new _ \<Rightarrow> m k \<noteq> None \<and> (new \<longrightarrow> h k = 0) | Counted k _ \<Rightarrow> m k \<noteq> None)"

definition counts_hits :: "'k shared \<Rightarrow> bool" where
  "counts_hits s \<longleftrightarrow> (\<forall>k. entry_counts (sh_table s k) (sh_hits s k)) \<and> writer_ok (sh_writer s) (sh_table s) (sh_hits s)"

lemma entry_counts_simps [simp]:
  "entry_counts None n \<longleftrightarrow> n = 0"
  "entry_counts (Some d) n \<longleftrightarrow> md_count d = of_nat n"
  by (simp_all add: entry_counts_def)

lemma writer_ok_simps [simp]:
  "writer_ok Idle m h"
  "writer_ok (Found k new risk) m h \<longleftrightarrow> m k \<noteq> None \<and> (new \<longrightarrow> h k = 0)"
  "writer_ok (Counted k risk) m h \<longleftrightarrow> m k \<noteq> None"
  by (simp_all add: writer_ok_def)

lemma counts_entry: "counts_hits s \<Longrightarrow> sh_table s k = Some d \<Longrightarrow> md_count d = of_nat (sh_hits s k)"
  by (auto simp: counts_hits_def dest: spec [of _ k])

lemma counts_none: "counts_hits s \<Longrightarrow> sh_table s k = None \<Longrightarrow> sh_hits s k = 0"
  by (metis counts_hits_def entry_counts_simps(1))

lemma look_counts: "look now k risk s = Some s' \<Longrightarrow> counts_hits s \<Longrightarrow> counts_hits s'"
  using counts_none [of s k] by (cases "sh_table s k") (auto simp: look_def counts_hits_def split: if_splits)

lemma bump_counts:
  assumes "bump s = Some s'" and inv: "counts_hits s"
  shows "counts_hits s'"
proof (cases "sh_writer s")
  case (Found k new risk)
  then obtain d where d: "sh_table s k = Some d" and new: "new \<longrightarrow> sh_hits s k = 0"
    using inv by (auto simp: counts_hits_def)
  then show ?thesis using assms counts_entry [OF inv d] by (auto simp: bump_def Found counts_hits_def)
qed (use assms in \<open>auto simp: bump_def\<close>)

lemma touch_counts:
  assumes "touch_entry now s = Some s'" and inv: "counts_hits s"
  shows "counts_hits s'"
proof (cases "sh_writer s")
  case (Counted k risk)
  then obtain d where d: "sh_table s k = Some d" using inv by (auto simp: counts_hits_def)
  then show ?thesis using assms counts_entry [OF inv d] by (auto simp: touch_entry_def Counted counts_hits_def touch_def)
qed (use assms in \<open>auto simp: touch_entry_def\<close>)

lemma walk_counts:
  "begin_walk ks s = Some s' \<Longrightarrow> counts_hits s \<Longrightarrow> counts_hits s'"
  "visit e s = Some s' \<Longrightarrow> counts_hits s \<Longrightarrow> counts_hits s'"
  "finish s = Some s' \<Longrightarrow> counts_hits s \<Longrightarrow> counts_hits s'"
  by (auto simp: begin_walk_def visit_def finish_def counts_hits_def split: if_splits option.splits)

lemma move_counts: "table_move m s = Some s' \<Longrightarrow> counts_hits s \<Longrightarrow> counts_hits s'"
  by (cases m) (auto intro: look_counts bump_counts touch_counts walk_counts)

lemma run_counts: "table_run ms s = Some s' \<Longrightarrow> counts_hits s \<Longrightarrow> counts_hits s'"
  by (induction ms arbitrary: s) (auto simp: bind_eq_Some_conv dest: move_counts)

lemma no_shared_counts: "counts_hits no_shared"
  by (simp add: counts_hits_def no_shared_def)

section \<open>A walk\<close>

lemma move_hits: "table_move m s = Some s' \<Longrightarrow> sh_hits s k \<le> sh_hits s' k"
  by (cases m) (auto simp: look_def bump_def touch_entry_def begin_walk_def visit_def finish_def split: if_splits option.splits writer.splits)

lemma move_clash: "table_move m s = Some s' \<Longrightarrow> sh_clash s \<Longrightarrow> sh_clash s'"
  by (cases m) (auto simp: look_def bump_def touch_entry_def begin_walk_def visit_def finish_def split: if_splits option.splits writer.splits)

text \<open>What has been collected after some of the keys, when no entry was inserted: each of them once, with a number
  that its counter had during the walk.\<close>

definition collected :: "('k \<Rightarrow> nat) \<Rightarrow> 'k shared \<Rightarrow> 'k \<times> metric_data \<Rightarrow> bool" where
  "collected h0 s e \<longleftrightarrow> (\<exists>n. md_count (snd e) = of_nat n \<and> h0 (fst e) \<le> n \<and> n \<le> sh_hits s (fst e))"

definition walking :: "'k list \<Rightarrow> ('k \<Rightarrow> nat) \<Rightarrow> 'k shared \<Rightarrow> bool" where
  "walking ks h0 s \<longleftrightarrow>
     (\<exists>todo. sh_todo s = Some todo \<and> map fst (sh_page s) @ todo = ks) \<and> (\<forall>k. h0 k \<le> sh_hits s k) \<and> (\<forall>e\<in>set (sh_page s). collected h0 s e)"

lemma collected_later: "collected h0 s e \<Longrightarrow> table_move m s = Some s' \<Longrightarrow> collected h0 s' e"
  unfolding collected_def using move_hits le_trans by metis

lemma walking_step:
  assumes step: "table_move m s = Some s'" and "walking ks h0 s" and inv: "counts_hits s" and "m \<noteq> Finish" and "\<not> sh_clash s'"
  shows "walking ks h0 s'"
proof -
  have old: "\<not> sh_clash s" using assms move_clash by blast
  have hits: "h0 k \<le> sh_hits s' k" for k
    by (rule le_trans [OF _ move_hits [OF step]]) (use assms(2) in \<open>simp add: walking_def\<close>)
  show ?thesis
  proof (cases "\<exists>e. m = Visit e")
    case True
    then obtain e todo where m: "m = Visit e" and todo: "sh_todo s = Some todo" "map fst (sh_page s) @ todo = ks"
      using assms(2) by (auto simp: walking_def)
    have s': "todo \<noteq> []" "fst e = hd todo" "sh_table s (hd todo) = Some (snd e)" "s' = s\<lparr>sh_todo := Some (tl todo), sh_page := sh_page s @ [e]\<rparr>"
      using step old by (auto simp: m visit_def todo split: if_splits)
    have "collected h0 s' e"
      using counts_entry [OF inv s'(3)] hits s'(2,4) by (auto simp: collected_def)
    moreover have "collected h0 s' f" if "f \<in> set (sh_page s)" for f
      using that assms(2) collected_later [OF _ step] by (auto simp: walking_def)
    ultimately show ?thesis using hits todo s'(1,2,4) by (cases todo) (auto simp: walking_def)
  next
    case False
    have "sh_todo s' = sh_todo s" "sh_page s' = sh_page s"
      using step assms(2,4) False
      by (cases m; auto simp: look_def bump_def touch_entry_def begin_walk_def walking_def split: if_splits option.splits writer.splits)+
    then show ?thesis using assms(2) hits collected_later [OF _ step] by (auto simp: walking_def)
  qed
qed

lemma moves_append: "table_run (ms @ ms') s = Option.bind (table_run ms s) (table_run ms')"
  by (induction ms arbitrary: s) (auto split: bind_split)

lemma walking_run:
  "table_run ms s = Some s' \<Longrightarrow> walking ks h0 s \<Longrightarrow> counts_hits s \<Longrightarrow> Finish \<notin> set ms \<Longrightarrow> \<not> sh_clash s' \<Longrightarrow> walking ks h0 s'"
proof (induction ms arbitrary: s)
  case (Cons m ms)
  obtain t where t: "table_move m s = Some t" and rest: "table_run ms t = Some s'"
    using Cons.prems(1) by (auto simp: bind_eq_Some_conv)
  have "\<not> sh_clash t"
    using rest Cons.prems(5) by (induction ms arbitrary: t) (auto simp: bind_eq_Some_conv dest: move_clash)
  then show ?case
    using Cons.IH [OF rest] walking_step [OF t] Cons.prems move_counts [OF t] by auto
qed simp

section \<open>Properties\<close>

text \<open>C39: A walk over a table of metrics that no insertion meets delivers every entry once, and each number is one
  that its counter really had during the walk. However the updates of existing entries are interleaved
  with the walk, the keys are those of the table at the beginning, and the number delivered for a key
  lies between its hits before the walk and its hits after it (modulo \<open>2^64\<close>).\<close>

theorem walk_between:
  assumes before: "table_run ms0 no_shared = Some s" and walk: "table_run (Begin ks # ms @ [Finish]) s = Some s'"
    and whole: "Finish \<notin> set ms" and undisturbed: "\<not> sh_clash s'"
  shows "map fst (sh_page s') = ks \<and> distinct ks \<and> set ks = dom (sh_table s) \<and>
    (\<forall>(k, d)\<in>set (sh_page s'). \<exists>n. md_count d = of_nat n \<and> sh_hits s k \<le> n \<and> n \<le> sh_hits s' k)"
proof -
  obtain t u where first: "begin_walk ks s = Some t" and run: "table_run ms t = Some u" and last: "finish u = Some s'"
    using walk by (auto simp: moves_append bind_eq_Some_conv)
  have same: "sh_page s' = sh_page u" "sh_hits s' = sh_hits u" "sh_clash s' = sh_clash u"
    using last by (auto simp: finish_def split: if_splits)
  have "counts_hits s" by (rule run_counts [OF before no_shared_counts])
  then have inv: "counts_hits t" by (rule walk_counts(1) [OF first])
  have start: "walking ks (sh_hits s) t" "distinct ks" "set ks = dom (sh_table s)"
    using first by (auto simp: begin_walk_def walking_def split: if_splits)
  have "walking ks (sh_hits s) u" using walking_run [OF run start(1) inv whole] undisturbed same by simp
  moreover have "sh_todo u = Some []" using last undisturbed same by (auto simp: finish_def split: if_splits)
  ultimately have page: "map fst (sh_page s') = ks" and each: "\<forall>e\<in>set (sh_page s'). collected (sh_hits s) u e"
    using same by (auto simp: walking_def)
  have "\<exists>n. md_count d = of_nat n \<and> sh_hits s k \<le> n \<and> n \<le> sh_hits s' k" if "(k, d) \<in> set (sh_page s')" for k d
    using bspec [OF each that] same by (simp add: collected_def)
  then show ?thesis using page start by auto
qed

text \<open>Two entries, and a hit of the second one while the walk is between them: its number is the one before the
  hit or the one after it, as the order of the steps has it.\<close>

definition two_entries :: "char move list" where
  "two_entries = [Look 1 CHR ''a'' False, Bump, Touch 1, Look 2 CHR ''b'' False, Bump, Touch 2]"

definition counted :: "nat \<Rightarrow> int \<Rightarrow> metric_data" where
  "counted n t = \<lparr>md_count = of_nat n, md_last_updated = t, md_isRisk = False\<rparr>"

definition met_walk :: "char move list" where
  "met_walk = [Visit (CHR ''a'', counted 1 1), Look 3 CHR ''b'' False, Bump, Visit (CHR ''b'', counted 2 2), Touch 3]"

lemma two_entries_run:
  "\<exists>s. table_run two_entries no_shared = Some s \<and> sh_table s = [CHR ''a'' \<mapsto> counted 1 1, CHR ''b'' \<mapsto> counted 1 2] \<and>
     sh_writer s = Idle \<and> sh_todo s = None \<and> \<not> sh_clash s \<and> sh_page s = []"
  by (simp add: two_entries_def no_shared_def look_def bump_def touch_entry_def touch_def counted_def fun_upd_twist)

lemma met_run:
  assumes "sh_table s = [CHR ''a'' \<mapsto> counted 1 1, CHR ''b'' \<mapsto> counted 1 2]" and "sh_writer s = Idle" and "sh_todo s = None" and "\<not> sh_clash s"
  shows "\<exists>s'. table_run (Begin [CHR ''a'', CHR ''b''] # met_walk @ [Finish]) s = Some s' \<and> \<not> sh_clash s' \<and>
    sh_page s' = [(CHR ''a'', counted 1 1), (CHR ''b'', counted 2 2)]"
  using assms by (simp add: met_walk_def begin_walk_def visit_def look_def bump_def touch_entry_def touch_def counted_def finish_def insert_commute)

theorem walk_between_witness:
  "\<exists>s s'. table_run two_entries no_shared = Some s \<and> table_run (Begin [CHR ''a'', CHR ''b''] # met_walk @ [Finish]) s = Some s' \<and>
     (\<exists>n. n \<le> sh_hits s' CHR ''b'' \<and> (2::u64) = of_nat n)"
proof -
  obtain s where s: "table_run two_entries no_shared = Some s"
      "sh_table s = [CHR ''a'' \<mapsto> counted 1 1, CHR ''b'' \<mapsto> counted 1 2]" "sh_writer s = Idle" "sh_todo s = None" "\<not> sh_clash s"
    using two_entries_run by blast
  obtain s' where s': "table_run (Begin [CHR ''a'', CHR ''b''] # met_walk @ [Finish]) s = Some s'" "\<not> sh_clash s'"
      "sh_page s' = [(CHR ''a'', counted 1 1), (CHR ''b'', counted 2 2)]"
    using met_run [OF s(2-5)] by blast
  have "Finish \<notin> set met_walk" by (simp add: met_walk_def)
  from walk_between [OF s(1) s'(1) this s'(2)]
  have "\<exists>n. md_count (counted 2 2) = of_nat n \<and> sh_hits s CHR ''b'' \<le> n \<and> n \<le> sh_hits s' CHR ''b''" by (simp add: s'(3))
  moreover have "md_count (counted 2 2) = 2" by (simp add: counted_def)
  ultimately show ?thesis using s(1) s'(1) by metis
qed

text \<open>Nothing keeps an insertion out of a walk, because the walk takes no lock: the first packet of a new
  connection between two visits is enough, and it is outside of what the table supports. The comment
  at the snapshots takes only the number of entries to be at risk.\<close>

theorem walk_disturbed:
  "\<exists>s. table_run (two_entries @ [Begin [CHR ''a'', CHR ''b''], Visit (CHR ''a'', counted 1 1), Look 3 CHR ''c'' False]) no_shared = Some s \<and>
     sh_clash s \<and> sh_todo s = Some [CHR ''b'']"
proof -
  obtain s where s: "table_run two_entries no_shared = Some s"
      "sh_table s = [CHR ''a'' \<mapsto> counted 1 1, CHR ''b'' \<mapsto> counted 1 2]" "sh_writer s = Idle" "sh_todo s = None" "\<not> sh_clash s"
    using two_entries_run by blast
  then show ?thesis by (simp add: moves_append begin_walk_def visit_def look_def insert_commute)
qed

end
