(* ===== verification/FeedService.thy ===== *)
theory FeedService
  imports RiskSync
begin

text \<open>
  The thread that renews the threat feed (\<open>RiskFileSyncManager\<close>: \<open>startSyncService\<close>, \<open>stopSyncService\<close> and
  \<open>syncTask\<close> of \<open>src/src/user/config/RiskFileSyncManager.cpp\<close>), and the second \<open>fetchOtxData\<close>, the free function of
  \<open>src/src/user/util/WriteCallBack.cpp\<close>.

  The program has no call of \<open>startSyncService\<close> yet; the destructor of the manager calls \<open>stopSyncService\<close>.
\<close>

section \<open>The service\<close>

text \<open>The task: a synchronisation and a day of sleep for as long as \<open>running\<close> is found set. The list has what the
  readings find; without a further reading the task has not ended. The result has the number of
  transfers and the number of synchronisations so far.\<close>

fun syncTask :: "feed_env \<Rightarrow> string \<Rightarrow> bool list \<Rightarrow> nat \<Rightarrow> nat \<Rightarrow> (nat \<times> nat) option" where
  "syncTask e url [] n rounds = None"
| "syncTask e url (running # readings) n rounds =
     (if \<not> running then Some (n, rounds)
      else (case performRiskSync e url n of
              None \<Rightarrow> None
            | Some st \<Rightarrow> syncTask e url readings (sy_transfers st) (Suc rounds)))"

text \<open>The manager: its flag, whether its thread object holds a thread, and the readings of that thread, the latest
  one first. Starting a thread in an object that holds one, or destroying such an object, ends the
  process, as does joining nothing; a join waits for the end of the task.\<close>

record sync_service =
  ss_running :: bool
  ss_worker :: bool
  ss_readings :: "bool list"

definition new_service :: sync_service where
  "new_service = \<lparr>ss_running = False, ss_worker = False, ss_readings = []\<rparr>"

datatype 's outcome = Terminated | Waiting | Done 's

definition startSyncService :: "sync_service \<Rightarrow> sync_service outcome" where
  "startSyncService s =
     (if \<not> ss_running s
      then (if ss_worker s then Terminated else Done (s\<lparr>ss_running := True, ss_worker := True, ss_readings := []\<rparr>))
      else Done s)"

text \<open>One reading of the flag by the task, between two of the calls.\<close>

definition read_running :: "sync_service \<Rightarrow> sync_service" where
  "read_running s = (if ss_worker s \<and> False \<notin> set (ss_readings s) then s\<lparr>ss_readings := ss_running s # ss_readings s\<rparr> else s)"

definition stopSyncService :: "feed_env \<Rightarrow> string \<Rightarrow> sync_service \<Rightarrow> sync_service outcome" where
  "stopSyncService e url s =
     (let s = s\<lparr>ss_running := False\<rparr>
      in if \<not> ss_worker s then Done s
         else (let s = read_running s
               in case syncTask e url (rev (ss_readings s)) 0 0 of
                    None \<Rightarrow> Waiting
                  | Some _ \<Rightarrow> Done (s\<lparr>ss_worker := False\<rparr>)))"

datatype service_call = Start | Reading | Stop

fun service_step :: "feed_env \<Rightarrow> string \<Rightarrow> service_call \<Rightarrow> sync_service \<Rightarrow> sync_service outcome" where
  "service_step e url Start s = startSyncService s"
| "service_step e url Reading s = Done (read_running s)"
| "service_step e url Stop s = stopSyncService e url s"

fun service_run :: "feed_env \<Rightarrow> string \<Rightarrow> service_call list \<Rightarrow> sync_service \<Rightarrow> sync_service outcome" where
  "service_run e url [] s = Done s"
| "service_run e url (c # cs) s =
     (case service_step e url c s of Done s \<Rightarrow> service_run e url cs s | Terminated \<Rightarrow> Terminated | Waiting \<Rightarrow> Waiting)"

text \<open>The thread object holds a thread exactly while the flag is set, and that thread has only found it set.\<close>

definition service_ok :: "sync_service \<Rightarrow> bool" where
  "service_ok s \<longleftrightarrow> ss_worker s = ss_running s \<and> (ss_worker s \<longrightarrow> False \<notin> set (ss_readings s))"

lemma step_ok: "service_ok s \<Longrightarrow> service_step e url c s = Done s' \<Longrightarrow> service_ok s'"
  by (cases c) (auto simp: service_ok_def startSyncService_def read_running_def stopSyncService_def Let_def split: if_splits option.splits)

lemma step_not_terminated: "service_ok s \<Longrightarrow> service_step e url c s \<noteq> Terminated"
  by (cases c) (auto simp: service_ok_def startSyncService_def stopSyncService_def Let_def split: option.splits)

lemma run_ok: "service_ok s \<Longrightarrow> service_run e url cs s \<noteq> Terminated \<and> (\<forall>s'. service_run e url cs s = Done s' \<longrightarrow> service_ok s')"
proof (induction cs arbitrary: s)
  case (Cons c cs)
  show ?case
  proof (cases "service_step e url c s")
    case (Done s')
    then show ?thesis using Cons.IH [OF step_ok [OF Cons.prems Done]] by simp
  qed (use step_not_terminated [OF Cons.prems] in simp_all)
qed simp

lemma task_runs:
  assumes "\<And>n. \<exists>st. performRiskSync e url n = Some st \<and> sy_transfers st \<le> n + b"
  shows "\<exists>t. syncTask e url (replicate k True @ [False]) n r = Some (t, r + k) \<and> t \<le> n + k * b"
proof (induction k arbitrary: n r)
  case (Suc k)
  obtain st where st: "performRiskSync e url n = Some st" "sy_transfers st \<le> n + b" using assms by blast
  then show ?case using Suc.IH [of "sy_transfers st" "Suc r"] by fastforce
qed simp

lemma all_true: "False \<notin> set bs \<Longrightarrow> bs = replicate (length bs) True"
  by (induction bs) auto

lemma new_ok: "service_ok new_service"
  by (simp add: service_ok_def new_service_def)

lemma stop_returns:
  assumes "service_ok s" and "\<And>n. \<exists>st. performRiskSync e url n = Some st \<and> sy_transfers st \<le> n + b"
  shows "stopSyncService e url s \<noteq> Waiting"
proof (cases "ss_worker s")
  case True
  then have "rev (ss_readings (read_running (s\<lparr>ss_running := False\<rparr>))) = replicate (length (ss_readings s)) True @ [False]"
    using assms(1) all_true [of "ss_readings s"] by (simp add: service_ok_def read_running_def) (metis rev_replicate)
  then show ?thesis
    using True task_runs [OF assms(2), of "length (ss_readings s)" 0 0] by (auto simp: stopSyncService_def Let_def read_running_def split: if_splits)
qed (simp add: stopSyncService_def Let_def)

section \<open>The second fetch\<close>

text \<open>\<open>fetchOtxData\<close> of \<open>WriteCallBack.cpp\<close>: a new handle for each attempt (the argument says whether the library gives
  one), at most 100 of them, and twice the number of the failures in seconds between them. Unlike the member
  function it does not look at the status of the reply. The result has the data, the number of
  transfers and the seconds slept.\<close>

function fetch_free :: "feed_env \<Rightarrow> (nat \<Rightarrow> bool) \<Rightarrow> string \<Rightarrow> nat \<Rightarrow> nat \<Rightarrow> nat \<Rightarrow> string \<times> nat \<times> nat" where
  "fetch_free e curl_init remoteUrl retryCount n slept =
     (if retryCount < 100
      then (if \<not> curl_init n then ([], n, slept)
            else (let res = transfer e n remoteUrl
                  in if cr_ok res then (cr_body res, Suc n, slept)
                     else fetch_free e curl_init remoteUrl (Suc retryCount) (Suc n) (slept + 2 * Suc retryCount)))
      else ([], n, slept))"
  by auto
termination by (relation "measure (\<lambda>(e, i, url, retryCount, n, slept). 100 - retryCount)") auto

declare fetch_free.simps [simp del]

lemma free_transfers:
  "retry \<le> 100 \<Longrightarrow> slept = retry * Suc retry \<Longrightarrow>
   (case fetch_free e i url retry n slept of (data, n', slept') \<Rightarrow>
      n' \<le> n + (100 - retry) \<and> (\<exists>k\<le>100. slept' = k * Suc k) \<and> (data \<noteq> [] \<longrightarrow> n < n' \<and> cr_ok (transfer e (n' - 1) url) \<and> data = cr_body (transfer e (n' - 1) url)))"
proof (induction e i url retry n slept rule: fetch_free.induct)
  case (1 e i url retry n slept)
  show ?case
  proof (cases "retry < 100 \<and> i n \<and> \<not> cr_ok (transfer e n url)")
    case True
    then have "fetch_free e i url retry n slept = fetch_free e i url (Suc retry) (Suc n) (slept + 2 * Suc retry)"
      by (subst fetch_free.simps) simp
    moreover have "slept + 2 * Suc retry = Suc retry * Suc (Suc retry)" using 1(3) by simp
    ultimately show ?thesis using 1(1) [OF _ _ refl] True by (fastforce split: prod.splits)
  next
    case False
    then show ?thesis using 1(2,3) by (subst fetch_free.simps) (auto simp: Let_def intro: exI [of _ retry])
  qed
qed

section \<open>The options of a transfer\<close>

text \<open>A handle of curl with the options that the code sets, in seconds; a new handle and one after a reset have the
  documented defaults, of which a time-out of zero means none.\<close>

record curl_options =
  co_keepalive :: bool
  co_connecttimeout :: nat
  co_timeout :: nat
  co_url :: string
  co_headers :: "string list"

definition curl_defaults :: curl_options where
  "curl_defaults = \<lparr>co_keepalive = False, co_connecttimeout = 300, co_timeout = 0, co_url = [], co_headers = []\<rparr>"

definition auth_header :: "string \<Rightarrow> string" where
  "auth_header apiKey = ''X-OTX-API-KEY: '' @ apiKey"

text \<open>\<open>initCurl\<close> of the updater, which its constructor calls: a handle or none; and what a transfer of the member
  function \<open>fetchOtxData\<close> finds set, and one of the free function.\<close>

definition initCurl :: "bool \<Rightarrow> curl_options option" where
  "initCurl easy_init = (if easy_init then Some (curl_defaults\<lparr>co_keepalive := True, co_connecttimeout := 10, co_timeout := 30\<rparr>) else None)"

definition member_options :: "string \<Rightarrow> string \<Rightarrow> curl_options \<Rightarrow> curl_options" where
  "member_options apiKey remoteUrl curl_handle =
     (let curl_handle = curl_defaults in curl_handle\<lparr>co_url := remoteUrl, co_headers := [auth_header apiKey]\<rparr>)"

definition free_options :: "string \<Rightarrow> string \<Rightarrow> curl_options" where
  "free_options apiKey remoteUrl =
     curl_defaults\<lparr>co_url := remoteUrl, co_headers := [auth_header apiKey], co_connecttimeout := 10, co_timeout := 30\<rparr>"

section \<open>The other operations of the manager\<close>

text \<open>\<open>riskPropsToConfig\<close> takes records over with the time of day; the count of the configuration is left as it is.
  \<open>riskPropsToFile\<close> writes the collection of the updater, whatever records it is given.\<close>

definition riskPropsToConfig :: "string \<Rightarrow> risk_property list \<Rightarrow> risk_config \<Rightarrow> risk_config" where
  "riskPropsToConfig local_time riskData c = c\<lparr>rc_collected := riskData, rc_updateTime := local_time\<rparr>"

definition riskPropsToFile :: "bool \<Rightarrow> string \<Rightarrow> risk_property list \<Rightarrow> sync_state \<Rightarrow> risk_document option \<Rightarrow> risk_document option" where
  "riskPropsToFile tmp_opened local_time riskData st file = riskConfigToFile tmp_opened local_time st file"

text \<open>The setters of the updater and of a range of addresses; nothing uses the class \<open>CidrRange\<close>.\<close>

definition set_collected_risks :: "risk_property list \<Rightarrow> sync_state \<Rightarrow> sync_state" where
  "set_collected_risks risks st = st\<lparr>sy_collected := risks\<rparr>"

record CidrRange =
  ipAddress :: u32
  cidr_mask :: u32

definition set_ip_address :: "u32 \<Rightarrow> CidrRange \<Rightarrow> CidrRange" where
  "set_ip_address ip_address r = r\<lparr>ipAddress := ip_address\<rparr>"

definition set_mask :: "u32 \<Rightarrow> CidrRange \<Rightarrow> CidrRange" where
  "set_mask m r = r\<lparr>cidr_mask := m\<rparr>"

lemma given_risks_written:
  "risks \<noteq> [] \<Longrightarrow> riskConfigToFile True t (set_collected_risks risks st) file =
     Some \<lparr>rd_indicators = Some (map Some risks), rd_syncNextUrl = Some (sy_syncNextUrl st), rd_updateTime = Some t\<rparr>"
  by (simp add: riskConfigToFile_def set_collected_risks_def)

lemma props_not_written: "sy_collected st = [] \<Longrightarrow> riskPropsToFile tmp t riskData st file = file"
  by (simp add: riskPropsToFile_def riskConfigToFile_def)

section \<open>Properties\<close>

text \<open>No sequence of calls of one thread terminates the process, and with a feed that can be fetched every call
  returns: a stop waits for the synchronisation that is under way and its sleep, and leaves the manager ready
  for another start.\<close>

theorem service_returns:
  assumes "feed_served e us rss"
  shows "\<exists>s. service_run e (hd us) cs new_service = Done s \<and> ss_worker s = ss_running s"
proof -
  have bounded: "\<exists>st. performRiskSync e (hd us) n = Some st \<and> sy_transfers st \<le> n + MAX_RETRIES * length us" for n
    using loop_complete [OF assms, of "\<lparr>sy_currentUrl = hd us, sy_syncNextUrl = hd us, sy_collected = [], sy_transfers = n\<rparr>"]
    by (auto simp: performRiskSync_def)
  have "service_run e (hd us) cs s \<noteq> Waiting" if "service_ok s" for s
    using that
  proof (induction cs arbitrary: s)
    case (Cons c cs)
    have "service_step e (hd us) c s \<noteq> Waiting"
      using stop_returns [OF Cons.prems bounded] by (cases c) (auto simp: startSyncService_def)
    then show ?case
    proof (cases "service_step e (hd us) c s")
      case (Done s')
      then show ?thesis using Cons.IH [OF step_ok [OF Cons.prems Done]] by simp
    qed (simp_all)
  qed simp
  then show ?thesis
    using run_ok [OF new_ok, of e "hd us" cs] new_ok
    by (cases "service_run e (hd us) cs new_service") (auto simp: service_ok_def)
qed

theorem service_returns_witness:
  "\<exists>s. service_run sample_server ''p1'' [Start, Reading, Start, Reading, Stop, Start, Stop, Stop] new_service = Done s \<and> ss_worker s = ss_running s"
  using service_returns [OF sample_server_feed, of "[Start, Reading, Start, Reading, Stop, Start, Stop, Stop]"] by simp

text \<open>With a feed that never delivers a usable page, a stop that comes after the first synchronisation has begun
  never returns, and neither does the exit of the program, whose destructor is such a stop.\<close>

theorem stop_hangs:
  assumes "\<forall>k. good (transfer e k url) \<longrightarrow> \<not> usable e (cr_body (transfer e k url))" and "url \<noteq> []"
  shows "service_run e url (Start # Reading # Stop # cs) new_service = Waiting"
proof -
  have "performRiskSync e url 0 = None"
    using loop_stuck [OF assms, of "\<lparr>sy_currentUrl = url, sy_syncNextUrl = url, sy_collected = [], sy_transfers = 0\<rparr>"]
    by (cases "performRiskSync e url 0") (auto simp: performRiskSync_def)
  then show ?thesis by (simp add: new_service_def startSyncService_def read_running_def stopSyncService_def Let_def)
qed

theorem stop_hangs_witness:
  "service_run (sample_server\<lparr>transfer := \<lambda>n url. \<lparr>cr_ok = False, cr_code = 0, cr_body = []\<rparr>\<rparr>) ''p1'' [Start, Reading, Stop] new_service = Waiting"
  by (rule stop_hangs) (simp_all add: good_def)

text \<open>The second fetch makes at most 100 transfers and sleeps at most 10100 seconds; what it returns is empty or the
  body of its last transfer, which was complete, with whatever status.\<close>

theorem fetch_free_bounds:
  "case fetch_free e i url 0 n 0 of (data, n', slept) \<Rightarrow>
     n' \<le> n + 100 \<and> slept \<le> 10100 \<and> (data = [] \<or> cr_ok (transfer e (n' - 1) url) \<and> data = cr_body (transfer e (n' - 1) url))"
proof -
  obtain data n' slept where run: "fetch_free e i url 0 n 0 = (data, n', slept)" by (metis prod_cases3)
  then have facts: "n' \<le> n + 100" "\<exists>k\<le>100. slept = k * Suc k"
      "data \<noteq> [] \<longrightarrow> cr_ok (transfer e (n' - 1) url) \<and> data = cr_body (transfer e (n' - 1) url)"
    using free_transfers [where retry = 0 and slept = 0 and e = e and i = i and url = url and n = n] by auto
  then obtain k where k: "k \<le> 100" "slept = k * Suc k" by blast
  then have "slept \<le> 100 * Suc 100" using mult_le_mono [of k 100 "Suc k" "Suc 100"] by simp
  then show ?thesis using run facts by auto
qed

text \<open>The time-outs that the updater sets are never in force. The reset in front of each transfer puts all options back,
  so a server that accepts the connection and stays silent holds the thread for ever, although
  \<open>initCurl\<close> asks for 30 seconds; the free function sets them for each transfer.\<close>

theorem timeouts_lost:
  "initCurl easy_init = Some h \<longrightarrow> co_timeout h = 30 \<and> co_connecttimeout h = 10 \<and>
     co_timeout (member_options apiKey remoteUrl h) = 0 \<and> co_connecttimeout (member_options apiKey remoteUrl h) = 300 \<and>
     \<not> co_keepalive (member_options apiKey remoteUrl h) \<and> co_timeout (free_options apiKey remoteUrl) = 30"
  by (auto simp: initCurl_def member_options_def free_options_def curl_defaults_def split: if_splits)

theorem timeouts_lost_witness:
  "\<exists>h. initCurl True = Some h \<and> co_timeout (member_options ''k'' ''u'' h) = 0"
proof -
  obtain h where h: "initCurl True = Some h" by (simp add: initCurl_def)
  then show ?thesis using timeouts_lost [of True h "''k''" "''u''"] by blast
qed

end
