(* ===== verification/HotPlug.thy ===== *)
theory HotPlug
  imports ServiceSocket Interfaces
begin

text \<open>
  The thread that listens to the kernel's messages about interfaces, with its socket (\<open>netlink_monitor_thread\<close> of
  \<open>src/src/user/main.cpp\<close>; the loop inside is in theory Interfaces), and three functions around it that
  nothing calls: \<open>detach_tc_egress\<close> and \<open>ring_poll_thread\<close> of \<open>main.cpp\<close>, and the second \<open>attach_tc_egress\<close> in
  \<open>src/src/user/config/Firewall.hpp\<close>.
\<close>

section \<open>The listener and its socket\<close>

text \<open>Whether the socket is created and bound; the two options are set without a look at the result.\<close>

record netlink_answers =
  na_socket :: bool
  na_bind :: bool

definition netlink_monitor_thread ::
  "netlink_answers \<Rightarrow> net_env \<Rightarrow> (bool \<times> received) list \<Rightarrow> sock_world \<times> bool list \<times> net_state \<Rightarrow>
   (sock_world \<times> bool list \<times> net_state) option" where
  "netlink_monitor_thread a e rs wst =
     (case wst of (w, st) \<Rightarrow>
        if \<not> na_socket a then Some (w, st)
        else (case open_fd w of (fd, w) \<Rightarrow>
                if \<not> na_bind a then Some (close_fd fd w, st)
                else map_option (\<lambda>st. (close_fd fd w, st)) (netlink_loop e rs st)))"

text \<open>On every path the thread gives its descriptor back. Without the socket it has no effect at all: the program
  goes on, and interfaces that come up later are never noticed.\<close>

theorem listener_balanced:
  assumes "netlink_monitor_thread a e rs (w, st) = Some (w', st')"
  shows "sw_fds w' = sw_fds w \<and> (if na_socket a \<and> na_bind a then netlink_loop e rs st = Some st' else st' = st)"
  using assms close_opened [of w] by (auto simp: netlink_monitor_thread_def split: if_splits prod.splits)

theorem listener_balanced_witness:
  "\<exists>w st. netlink_monitor_thread \<lparr>na_socket = True, na_bind = False\<rparr> one_interface [(False, No_data)]
       (\<lparr>sw_fds = [], sw_files = []\<rparr>, [], fresh_net) = Some (w, st) \<and> sw_fds w = [] \<and> st = ([], fresh_net)"
proof -
  obtain w st where run: "netlink_monitor_thread \<lparr>na_socket = True, na_bind = False\<rparr> one_interface [(False, No_data)]
      (\<lparr>sw_fds = [], sw_files = []\<rparr>, [], fresh_net) = Some (w, st)"
    by (simp add: netlink_monitor_thread_def open_fd_def Let_def)
  then show ?thesis using listener_balanced [OF run] by simp
qed

section \<open>Functions that nothing calls\<close>

text \<open>\<open>detach_tc_egress\<close> names no filter, which libbpf refuses; what is left of it is the flag.\<close>

definition detach_tc_egress :: "int \<Rightarrow> net_state \<Rightarrow> net_state" where
  "detach_tc_egress ifindex st =
     (if \<not> in_range ifindex then st else st\<lparr>tc_attached_map := (tc_attached_map st)[nat ifindex := False]\<rparr>)"

lemma detach_keeps_program: "tc_hooks (detach_tc_egress i st) = tc_hooks st"
  by (simp add: detach_tc_egress_def)

text \<open>The \<open>attach_tc_egress\<close> of the controller looks its program up by name.\<close>

definition attach_tc_egress_named :: "bool \<Rightarrow> net_env \<Rightarrow> int \<Rightarrow> net_state \<Rightarrow> bool \<times> net_state" where
  "attach_tc_egress_named prog_found e ifindex st =
     (if \<not> prog_found then (False, st)
      else if tc_attach_ok e ifindex then (True, st\<lparr>tc_hooks := insert ifindex (tc_hooks st)\<rparr>)
      else (False, st))"

lemma attach_named: "attach_tc_egress_named found e i st = attach_tc_egress (e\<lparr>tc_skel := found\<rparr>) i st"
  by (simp add: attach_tc_egress_named_def attach_tc_egress_def)

text \<open>\<open>ring_poll_thread\<close>: what one poll answers, with the reading of \<open>g_running\<close> in front of it; the result is the
  number of polls.\<close>

datatype poll_answer = Polled | Poll_interrupted | Poll_failed

fun ring_poll_thread :: "(bool \<times> poll_answer) list \<Rightarrow> nat \<Rightarrow> nat option" where
  "ring_poll_thread [] n = None"
| "ring_poll_thread ((running, r) # rs) n =
     (if \<not> running then Some n else if r = Poll_failed then Some (Suc n) else ring_poll_thread rs (Suc n))"

text \<open>It ends with the first reading that finds the flag cleared, or the first error that is no interruption.\<close>

lemma ring_poll_ends: "(\<exists>n. ring_poll_thread rs k = Some n) \<longleftrightarrow> (\<exists>(running, r)\<in>set rs. \<not> running \<or> r = Poll_failed)"
  by (induction rs k rule: ring_poll_thread.induct) auto

end
