(* ===== verification/RouteTable.thy ===== *)
theory RouteTable
  imports TextScan
begin

text \<open>
  The search for the interface of the default route (\<open>get_default_iface\<close> of
  \<open>src/src/user/config/Firewall.hpp\<close>, which nothing calls): the lines of \<open>/proc/net/route\<close>, read by \<open>fgets\<close> and
  taken apart by \<open>sscanf\<close>.
\<close>

section \<open>Lines and fields\<close>

text \<open>\<open>fgets\<close>: at most so many characters, up to the end of the line.\<close>

fun fgets :: "nat \<Rightarrow> string \<Rightarrow> string \<times> string" where
  "fgets 0 s = ([], s)"
| "fgets (Suc n) [] = ([], [])"
| "fgets (Suc n) (c # s) = (if c = newline then ([c], s) else (case fgets n s of (l, r) \<Rightarrow> (c # l, r)))"

lemma fgets_parts: "fgets n s = (l, r) \<Longrightarrow> s = l @ r"
  by (induction n s arbitrary: l r rule: fgets.induct) (auto split: if_splits prod.splits)

lemma fgets_shorter: "fgets n s = (l, r) \<Longrightarrow> l \<noteq> [] \<Longrightarrow> length r < length s"
  by (drule fgets_parts) simp

text \<open>\<open>%s\<close> and \<open>%lx\<close> of \<open>sscanf\<close>: the field and the text behind it. A number may have a sign and a prefix; one that
  does not fit is the largest.\<close>

definition scan_word :: "string \<Rightarrow> (string \<times> string) option" where
  "scan_word s = (let s = dropWhile is_blank s; w = takeWhile (\<lambda>c. \<not> is_blank c) s
     in if w = [] then None else Some (w, drop (length w) s))"

definition xdigit :: "char \<Rightarrow> nat option" where
  "xdigit c =
     (let n = of_char c :: nat
      in if 48 \<le> n \<and> n \<le> 57 then Some (n - 48)
         else if 65 \<le> n \<and> n \<le> 70 then Some (n - 55)
         else if 97 \<le> n \<and> n \<le> 102 then Some (n - 87) else None)"

definition hex_value :: "string \<Rightarrow> nat" where
  "hex_value ds = fold (\<lambda>c v. v * 16 + (case xdigit c of None \<Rightarrow> 0 | Some d \<Rightarrow> d)) ds 0"

definition skip_prefix :: "string \<Rightarrow> string" where
  "skip_prefix s = (case s of a # x # r \<Rightarrow> if a = CHR ''0'' \<and> (x = CHR ''x'' \<or> x = CHR ''X'') then r else s | _ \<Rightarrow> s)"

definition scan_hex :: "string \<Rightarrow> (u64 \<times> string) option" where
  "scan_hex s =
     (let s = dropWhile is_blank s;
          neg = (s \<noteq> [] \<and> hd s = CHR ''-'');
          s = skip_prefix (if s \<noteq> [] \<and> hd s \<in> {CHR ''-'', CHR ''+''} then tl s else s);
          ds = takeWhile (\<lambda>c. xdigit c \<noteq> None) s
      in if ds = [] then None
         else Some (if 2 ^ 64 \<le> hex_value ds then -1 else if neg then - of_nat (hex_value ds) else of_nat (hex_value ds),
                drop (length ds) s))"

section \<open>The search\<close>

text \<open>The array for the name has 16 characters, and the field is read without a limit: a longer one leaves it. The
  result is else the index that \<open>if_nametoindex\<close> has for the name, with what the caller's array of the
  given length receives, or nothing.\<close>

datatype default_route = Overrun | No_default | Default int string

function route_lines :: "(string \<Rightarrow> int) \<Rightarrow> nat \<Rightarrow> string \<Rightarrow> default_route" where
  "route_lines if_nametoindex len text =
     (case fgets 255 text of (line, rest) \<Rightarrow>
        if line = [] then No_default
        else (case scan_word line of
                None \<Rightarrow> route_lines if_nametoindex len rest
              | Some (iface, r) \<Rightarrow>
                  if 16 \<le> length iface then Overrun
                  else (case scan_hex r of
                          None \<Rightarrow> route_lines if_nametoindex len rest
                        | Some (dest, r) \<Rightarrow>
                            if scan_hex r = None then route_lines if_nametoindex len rest
                            else if dest = 0 then (let ifname = take (len - 1) iface in Default (if_nametoindex ifname) ifname)
                            else route_lines if_nametoindex len rest)))"
  by auto
termination by (relation "measure (\<lambda>(f, n, text). length text)") (auto dest: fgets_shorter [OF sym])

declare route_lines.simps [simp del]

definition get_default_iface :: "(string \<Rightarrow> int) \<Rightarrow> nat \<Rightarrow> string option \<Rightarrow> default_route" where
  "get_default_iface if_nametoindex len file =
     (case file of
        None \<Rightarrow> No_default
      | Some text \<Rightarrow> (case fgets 255 text of (line, rest) \<Rightarrow>
          if line = [] then No_default else route_lines if_nametoindex len rest))"

section \<open>The table of the kernel\<close>

text \<open>One line of the table: the name, the destination and the gateway with eight digits each, and more fields.\<close>

record route =
  rt_iface :: string
  rt_dest :: u32
  rt_gateway :: u32
  rt_rest :: string

abbreviation (input) tab :: char where "tab \<equiv> CHR 0x09"

definition hex_upper :: "nat \<Rightarrow> char" where
  "hex_upper d = (if d < 10 then digit_chr d else char_of (55 + d))"

primrec hex_fixed :: "nat \<Rightarrow> nat \<Rightarrow> string" where
  "hex_fixed 0 n = []"
| "hex_fixed (Suc k) n = hex_fixed k (n div 16) @ [hex_upper (n mod 16)]"

definition route_line :: "route \<Rightarrow> string" where
  "route_line r = rt_iface r @ tab # hex_fixed 8 (unat (rt_dest r)) @ tab # hex_fixed 8 (unat (rt_gateway r)) @ tab # rt_rest r"

definition kernel_route :: "route \<Rightarrow> bool" where
  "kernel_route r \<longleftrightarrow> rt_iface r \<noteq> [] \<and> length (rt_iface r) < 16 \<and> (\<forall>c\<in>set (rt_iface r). \<not> is_blank c) \<and>
     newline \<notin> set (rt_rest r) \<and> length (route_line r) < 255"

lemma hex_upper_digit: "d < 16 \<Longrightarrow> xdigit (hex_upper d) = Some d \<and> \<not> is_blank (hex_upper d)"
proof -
  assume d: "d < 16"
  then have val: "(of_char (hex_upper d) :: nat) = (if d < 10 then 48 + d else 55 + d)"
    by (simp add: hex_upper_def digit_chr_def)
  have "\<not> is_blank c" if "32 < (of_char c :: nat)" for c using that by (auto simp: is_blank_def)
  then show ?thesis using d val by (auto simp: xdigit_def Let_def)
qed

lemma hex_fixed_digits: "c \<in> set (hex_fixed k n) \<Longrightarrow> xdigit c \<noteq> None \<and> \<not> is_blank c"
  by (induction k arbitrary: n) (auto simp: hex_upper_digit)

lemma hex_fixed_value: "hex_value (hex_fixed k n) = n mod 16 ^ k"
proof (induction k arbitrary: n)
  case (Suc k)
  have "n mod 16 ^ Suc k = (n div 16) mod 16 ^ k * 16 + n mod 16" by (simp add: mod_mult2_eq mult.commute)
  then show ?case using Suc [of "n div 16"] by (simp add: hex_value_def hex_upper_digit)
qed (simp add: hex_value_def)

lemma hex_fixed_length [simp]: "length (hex_fixed k n) = k"
  by (induction k arbitrary: n) auto

text \<open>No digit is a sign, the letter of a prefix, or the end of a field.\<close>

lemma no_digits [simp]:
  "xdigit CHR ''-'' = None" "xdigit CHR ''+'' = None" "xdigit CHR ''x'' = None" "xdigit CHR ''X'' = None" "xdigit tab = None"
  "is_blank tab"
  by code_simp+

lemma prefix_plain: "\<forall>c\<in>set ds. xdigit c \<noteq> None \<Longrightarrow> skip_prefix (ds @ tab # r) = ds @ tab # r"
  by (cases ds; cases "tl ds") (auto simp: skip_prefix_def split: list.split)

lemma scan_hex_plain:
  assumes "dropWhile is_blank s = t" and "t \<noteq> []" and "hd t \<noteq> CHR ''-''" and "hd t \<noteq> CHR ''+''" and "skip_prefix t = t"
    and "takeWhile (\<lambda>c. xdigit c \<noteq> None) t = ds" and "ds \<noteq> []" and "hex_value ds < 2 ^ 64"
  shows "scan_hex s = Some (of_nat (hex_value ds), drop (length ds) t)"
  unfolding scan_hex_def Let_def assms(1) using assms(2-5,7,8) by (simp add: assms(6) del: not_None_eq)

lemma scan_hex_field: "scan_hex (tab # hex_fixed 8 (unat d) @ tab # r) = Some (ucast d, tab # r)" for d :: u32
proof -
  let ?ds = "hex_fixed 8 (unat d)"
  have digits: "\<forall>c\<in>set ?ds. xdigit c \<noteq> None \<and> \<not> is_blank c" using hex_fixed_digits by blast
  have ne: "?ds \<noteq> []" by (metis hex_fixed_length list.size(3) zero_neq_numeral)
  have hd: "xdigit (hd ?ds) \<noteq> None" "\<not> is_blank (hd ?ds)" using digits hd_in_set [OF ne] by auto
  have bound: "unat d < 2 ^ LENGTH(32)" by (rule unsigned_less)
  then have val: "hex_value ?ds = unat d" by (simp add: hex_fixed_value)
  have "scan_hex (tab # ?ds @ tab # r) = Some (of_nat (hex_value ?ds), drop (length ?ds) (?ds @ tab # r))"
  proof (rule scan_hex_plain)
    show "dropWhile is_blank (tab # ?ds @ tab # r) = ?ds @ tab # r" using ne hd by (cases ?ds) auto
    show "takeWhile (\<lambda>c. xdigit c \<noteq> None) (?ds @ tab # r) = ?ds" using digits by (subst takeWhile_append2) auto
    show "skip_prefix (?ds @ tab # r) = ?ds @ tab # r" using digits by (intro prefix_plain) blast
    show "hd (?ds @ tab # r) \<noteq> CHR ''-''" "hd (?ds @ tab # r) \<noteq> CHR ''+''" using ne hd(1) by auto
    show "hex_value ?ds < 2 ^ 64" using bound by (simp add: val)
  qed (use ne in simp_all)
  then show ?thesis by (simp add: val)
qed

lemma scan_word_field: "w \<noteq> [] \<Longrightarrow> \<forall>c\<in>set w. \<not> is_blank c \<Longrightarrow> scan_word (w @ tab # r) = Some (w, tab # r)"
  by (cases w) (auto simp: scan_word_def Let_def is_blank_def takeWhile_append2 dropWhile_append2)

lemma fgets_line: "newline \<notin> set l \<Longrightarrow> length l < n \<Longrightarrow> fgets n (l @ newline # r) = (l @ [newline], r)"
proof (induction l arbitrary: n)
  case Nil
  then show ?case by (cases n) auto
next
  case (Cons c l)
  then show ?case by (cases n) auto
qed

section \<open>Properties\<close>

lemma route_fields:
  assumes "fgets 255 text = (line, rest)" and "line \<noteq> []" and "scan_word line = Some (w, r1)" and "length w < 16"
    and "scan_hex r1 = Some (dest, r2)" and "scan_hex r2 = Some x"
  shows "route_lines f len text =
    (if dest = 0 then Default (f (take (len - 1) w)) (take (len - 1) w) else route_lines f len rest)"
  using assms by (subst route_lines.simps) (simp add: Let_def)

lemma route_step:
  assumes "kernel_route r"
  shows "route_lines f len (route_line r @ newline # rest) =
    (if rt_dest r = 0 then Default (f (take (len - 1) (rt_iface r))) (take (len - 1) (rt_iface r)) else route_lines f len rest)"
proof -
  have "newline \<notin> set (hex_fixed 8 n)" for n using hex_fixed_digits [of newline] by (auto simp: is_blank_def newline_def)
  moreover have "newline \<notin> set (rt_iface r)" using assms by (auto simp: kernel_route_def is_blank_def newline_def)
  ultimately have "newline \<notin> set (route_line r)" using assms by (auto simp: route_line_def kernel_route_def newline_def)
  then have line: "fgets 255 (route_line r @ newline # rest) = (route_line r @ [newline], rest)"
    using assms by (intro fgets_line) (simp_all add: kernel_route_def)
  have fields: "route_line r @ [newline] = rt_iface r @ tab # hex_fixed 8 (unat (rt_dest r)) @ tab # hex_fixed 8 (unat (rt_gateway r)) @
      tab # (rt_rest r @ [newline])" by (simp add: route_line_def)
  have zero: "(ucast d :: u64) = 0 \<longleftrightarrow> d = 0" for d :: u32
    using unat_ucast_up [of d, where 'b = 64] by (auto simp: word_unat_eq_iff)
  have word: "scan_word (route_line r @ [newline]) = Some (rt_iface r, tab # hex_fixed 8 (unat (rt_dest r)) @ tab # hex_fixed 8 (unat (rt_gateway r)) @
      tab # (rt_rest r @ [newline]))"
    unfolding fields using assms by (intro scan_word_field) (simp_all add: kernel_route_def)
  show ?thesis
    using route_fields [OF line _ word _ scan_hex_field scan_hex_field, of f len] assms by (simp add: zero kernel_route_def)
qed

text \<open>In a table as the kernel writes it the search finds the first line whose destination is zero, and the array of
  16 characters is never left; a table without such a line gives nothing.\<close>

theorem default_found:
  assumes "newline \<notin> set header" and "length header < 255" and "\<forall>r\<in>set rs. kernel_route r"
  shows "get_default_iface f 16 (Some (header @ newline # concat (map (\<lambda>r. route_line r @ [newline]) rs))) =
    (case find (\<lambda>r. rt_dest r = 0) rs of None \<Rightarrow> No_default | Some r \<Rightarrow> Default (f (rt_iface r)) (rt_iface r))"
proof -
  have "route_lines f 16 (concat (map (\<lambda>r. route_line r @ [newline]) rs)) =
      (case find (\<lambda>r. rt_dest r = 0) rs of None \<Rightarrow> No_default | Some r \<Rightarrow> Default (f (rt_iface r)) (rt_iface r))"
    using assms(3)
  proof (induction rs)
    case Nil
    then show ?case by (subst route_lines.simps) (simp add: numeral_eq_Suc)
  next
    case (Cons r rs)
    then show ?case using route_step [of r f 16] by (simp add: kernel_route_def)
  qed
  then show ?thesis using fgets_line [OF assms(1), of 255] assms(2) by (simp add: get_default_iface_def)
qed

theorem default_found_witness:
  "get_default_iface (\<lambda>n. if n = ''eth0'' then 2 else 0) 16
     (Some (''Iface'' @ newline # concat (map (\<lambda>r. route_line r @ [newline])
        [\<lparr>rt_iface = ''lan'', rt_dest = 0x0AA8C0, rt_gateway = 0, rt_rest = ''0001''\<rparr>,
         \<lparr>rt_iface = ''eth0'', rt_dest = 0, rt_gateway = 0x010AA8C0, rt_rest = ''0003''\<rparr>]))) = Default 2 ''eth0''"
proof -
  let ?rs = "[\<lparr>rt_iface = ''lan'', rt_dest = 0x0AA8C0, rt_gateway = 0, rt_rest = ''0001''\<rparr>,
         \<lparr>rt_iface = ''eth0'', rt_dest = 0, rt_gateway = 0x010AA8C0, rt_rest = ''0003''\<rparr>]"
  have "\<forall>r\<in>set ?rs. kernel_route r" by (auto simp: kernel_route_def route_line_def is_blank_def newline_def)
  from default_found [OF _ _ this, of "''Iface''" "\<lambda>n. if n = ''eth0'' then 2 else 0"] show ?thesis
    by (simp add: newline_def)
qed

text \<open>A line whose first field has 16 characters or more makes the search leave its array.\<close>

theorem long_name_overruns:
  assumes "newline \<notin> set header" and "length header < 255" and "newline \<notin> set l" and "length l < 255"
    and "scan_word (l @ [newline]) = Some (w, r)" and "16 \<le> length w"
  shows "get_default_iface f len (Some (header @ newline # l @ newline # rest)) = Overrun"
  using fgets_line [OF assms(1), of 255 "l @ newline # rest"] fgets_line [OF assms(3), of 255 rest] assms
  by (simp add: get_default_iface_def route_lines.simps [of f len "l @ newline # rest"])

theorem long_name_overruns_witness:
  "get_default_iface (\<lambda>n. 1) 16 (Some (''h'' @ newline # replicate 16 CHR ''a'' @ newline # [])) = Overrun"
proof (rule long_name_overruns)
  show "scan_word (replicate 16 CHR ''a'' @ [newline]) = Some (replicate 16 CHR ''a'', [newline])" by code_simp
qed (simp_all add: newline_def)

end
