(* ===== verification/Spec2Isabelle.thy ===== *)
theory Spec2Isabelle
  imports HeaderBounds Guarantees Rules Reporting Egress FlowRace EventQueue Startup RiskSync Reader Lifecycle Pipeline Skeletons KsmReader ControlChannel Teardown FlowMemory ReportTypes SignalMask PpsRace MetricKeys ServiceSocket HostFiles TableRace FeedService HotPlug RouteTable
begin

text \<open>
  Verification library of the \<open>xdp_fw\<close> firewall, a packet filter for Linux in C (eBPF programs for the kernel, under
  \<open>src/src/ebpf\<close>) and C++ (the program that loads them and works beside them, under \<open>src/src/user\<close>).

  \<^bold>\<open>The program and its parts.\<close> Three kernel programs share BPF maps. The ingress program \<open>xdp_fw\<close> parses every arriving
  frame, checks connections and block lists, limits rates, and passes or drops the frame. The egress program
  \<open>tc_egress_record\<close> records outgoing conversations and looks for a TLS ClientHello, which it hands to user space through a
  ring buffer. The tracepoint program \<open>trace_connect_tp\<close> notes outgoing connects in a whitelist. The user-space program reads
  its configuration, the rule files and a threat feed, writes them into the maps, attaches the programs to all interfaces
  and follows interfaces that come and go; one thread moves events from the ring buffer into a lock-free queue, another
  takes them out, lets nDPI classify them and compares them with the threat feed; counters go to a dashboard and, over a
  socket, to an exporter process in Go; an operator adds blocks through a file and a signal.

  \<^bold>\<open>Theories and sources.\<close>
  \<^item> Shared: \<open>Prelude\<close> (machine types, byte order, loads from packet memory, the collections \<open>const_defs\<close> and
    \<open>eval_defs\<close>), \<open>Types\<close> (\<open>types.h\<close>), \<open>Status\<close> (\<open>fw_status_code.h\<close> and the decoders of \<open>main.h\<close>), \<open>Maps\<close>
    (\<open>maps.h\<close>, \<open>kcommon.h\<close>, \<open>log.h\<close>: the record \<open>fw_state\<close>), \<open>Samples\<close> (frames and states on which the witnesses run),
    \<open>TextScan\<close> (the C and C++ library functions by which user space reads text).
  \<^item> Ingress, bottom up: \<open>Parser\<close> (\<open>parser.h\<close>), \<open>Buckets\<close>, \<open>SynCookie\<close>, \<open>Conntrack\<close> and \<open>Policy\<close> (\<open>policy.h\<close>), \<open>Stats\<close>
    (\<open>stats.h\<close>, \<open>flow.h\<close>), \<open>Events\<close> (\<open>events.h\<close>), \<open>XdpFw\<close> (\<open>xdp_fw.c\<close>). \<open>FlowRace\<close> has the flow limit again, at the
    granularity of its atomic accesses, for two CPUs; \<open>PpsRace\<close> the packet-rate limit, whose bucket all CPUs share, at that
    of its plain accesses.
  \<^item> Egress: \<open>TraceConnect\<close> (\<open>trace_connect.c\<close>).
  \<^item> The kernel side as a whole: \<open>XdpSpec\<close> (the verdict as a table over the class of a frame), \<open>Invariant\<close>, \<open>System\<close> (the
    step relation \<open>sys_step\<close> and \<open>reachable\<close>), \<open>Guarantees\<close>, \<open>Egress\<close>, \<open>Rules\<close>, \<open>Reporting\<close>, \<open>ReportTypes\<close>, \<open>HeaderBounds\<close>.
  \<^item> Configuration and start: \<open>UserConfig\<close> (\<open>config/xdp_fw_config.h\<close>, \<open>user_log.h\<close>, the transfer in \<open>main.cpp\<close>), \<open>Skeletons\<close>
    (\<open>config/xdp_fw_config.hpp\<close>), \<open>BlockRules\<close> (\<open>util/RuleParser.hpp\<close>, the block lists of \<open>config/Firewall.hpp\<close> and
    \<open>xdp_fw_config.cpp\<close>), \<open>Startup\<close> (\<open>register_config_and_pipe_handler\<close> of \<open>main.cpp\<close>), \<open>HostFiles\<close> (the control file
    and the lists on the file system: \<open>assure_control_file_exists\<close> of \<open>Firewall.hpp\<close>, \<open>load_blocklist_to_map\<close>), \<open>RouteTable\<close>
    (\<open>get_default_iface\<close> of \<open>Firewall.hpp\<close>).
  \<^item> Threat feed: \<open>RiskFeed\<close> (\<open>config/RiskIndicators.hpp\<close>, \<open>RiskFileSyncManager.hpp\<close>), \<open>RiskFile\<close> (the binary file of
    \<open>RiskFileUpdater.cpp\<close>), \<open>RiskSync\<close> (its download), \<open>FeedService\<close> (the thread that repeats it in
    \<open>RiskFileSyncManager.cpp\<close>, and the second \<open>fetchOtxData\<close> in \<open>util/WriteCallBack.cpp\<close>).
  \<^item> Events in user space: \<open>EventQueue\<close> (\<open>util/LockFreeSPSCQueue.hpp\<close> and its users in \<open>main.cpp\<close>), \<open>L7Engine\<close>
    (\<open>servie/L7DpiEngine.hpp\<close>, \<open>impl/L7DpiEngine.cpp\<close>, \<open>L7FlowManager.hpp\<close>), \<open>FlowMemory\<close> (the same engine with its flows
    behind pointers), \<open>Pipeline\<close> (from the packet to the table of the metrics).
  \<^item> Numbers: \<open>Metrics\<close> (\<open>model/RiskMetricInfos.hpp\<close>, \<open>KsmFEMetricInfo.hpp\<close>, \<open>Common.h\<close>), \<open>MetricKeys\<close> (equality and hash of
    the keys of these tables), \<open>TableRace\<close> (an update beside the exporter's walk), \<open>KsmReader\<close> (the device of the
    kernel module), \<open>Exporter\<close> (\<open>servie/ExporterService.hpp\<close>), \<open>ServiceSocket\<close> (its descriptors and names:
    \<open>createAndBindUdsSocket\<close>, \<open>initUDSService\<close>), \<open>Reader\<close> (\<open>src/cmd/exporter/main.go\<close>), \<open>Dashboard\<close>
    (\<open>start_global_dashboard\<close> of \<open>main.cpp\<close>).
  \<^item> Life of the process: \<open>Interfaces\<close> (attaching and hot plugging, \<open>Firewall.hpp\<close> and \<open>main.cpp\<close>), \<open>HotPlug\<close>
    (\<open>netlink_monitor_thread\<close> with its socket, \<open>detach_tc_egress\<close>, \<open>ring_poll_thread\<close>), \<open>ControlChannel\<close>
    (\<open>handle_sigusr1\<close>, \<open>handle_sigusr_event\<close>, \<open>process_block_cmd_file\<close>), \<open>SignalMask\<close> (\<open>block_shutdown_signals\<close>,
    \<open>signal_wait_thread_func\<close>, and what \<open>system()\<close> does to signals), \<open>Lifecycle\<close> (\<open>main\<close> with \<open>start_exporter_server\<close>, and
    \<open>do_graceful_shutdown\<close>), \<open>Teardown\<close> (the shutdown beside threads that still run, call by call).

  \<^bold>\<open>State and operations.\<close> The kernel programs are functions \<open>kenv \<Rightarrow> input \<Rightarrow> fw_state \<Rightarrow> result\<close>. A field of \<open>fw_state\<close> is one BPF
  map (a partial function; an ARRAY map is total on its indices by the invariant \<open>maps_wf\<close>) or one global variable; \<open>ticks\<close>
  counts the readings of the clock. \<open>kenv\<close> holds what the kernel decides: the clock as a function of \<open>ticks\<close>, whether an
  insertion into each of the maps that grow (flows, whitelist rules, connections, temporary blocks) or a reservation succeeds, what a failing read leaves behind, stale bytes of the ring buffer. Packet memory is
  a list of bytes and a packet pointer an offset into it; a read past \<open>data_end\<close> is not hidden by a default but excluded by
  the checks that the code makes, and \<open>HeaderBounds\<close> proves it. C integers keep their width and wrap around. In user
  space an exception is a left value of a sum, a null pointer or an access outside of an object is \<open>None\<close>, a loop that
  may not end is a partial function, and what a library or the system answers (libbpf, netlink, the JSON and HTTP
  libraries, sockets, nDPI, MD5, \<open>malloc\<close>, \<open>qsort\<close>) is an argument with the documented behaviour as a hypothesis where one
  is needed. Threads are step relations or lists of actions over the accesses that other threads can see.

  \<^bold>\<open>What the lemmas show.\<close>
  \<^item> \<open>Parser\<close>: every parser satisfies the contract \<open>header_parser\<close> (it advances by at least its header and stays inside the
    packet), and parsers compose (\<open>parser_chain\<close>).
  \<^item> \<open>Buckets\<close>: all four limiters satisfy the contract \<open>token_bucket\<close>, from which the conformance bounds follow (what passes
    in any interval is at most the burst and the refill of the interval), under the bounds that exclude overflow; for the
    global bucket over runs on any number of CPUs from loading on, with the uncharged first packet of each.
  \<^item> \<open>Conntrack\<close>: the table satisfies the contract \<open>conn_table\<close>; the verdict of an entry. \<open>SynCookie\<close>: the incremental
    checksum is the checksum of the rewritten segment.
  \<^item> \<open>XdpSpec\<close> and \<open>Guarantees\<close>: the ingress program refines the verdict table on well-formed maps; replies to recorded
    conversations pass; what the rate limits and the fuse do not enforce.
  \<^item> \<open>Invariant\<close>, \<open>System\<close> and \<open>Egress\<close>: the invariant of the maps in every reachable state, the machine that each
    connection follows, the bound on its reports. \<open>ReportTypes\<close>: the type of the reports that the dashboard can meet.
  \<^item> \<open>EventQueue\<close>: the queue satisfies the contract \<open>bounded_queue\<close>, and with two threads in program order it is first in, first
    out; with the relaxed accesses of the source it is not. \<open>Pipeline\<close> composes packet, queue, engine and metrics.
  \<^item> \<open>BlockRules\<close>, \<open>RiskFile\<close>, \<open>Reader\<close>: round trips of rule lines, of the binary file, and of whole sessions of the socket
    (contract \<open>wire_struct\<close>).
  \<^item> \<open>MetricKeys\<close>: both keys satisfy the contract \<open>exact_compare\<close> of the concurrent hash table, so that its search is that
    of a map. \<open>TableRace\<close>: every count that a walk without an insertion delivers lies between the hits before it and
    those after it; with an insertion, which the code does not exclude, the walk promises nothing.
  \<^item> \<open>ServiceSocket\<close>: the service with descriptors refines the service of \<open>Exporter\<close> and gives every descriptor back.
    \<open>HostFiles\<close>: what exists is kept, what is made is private. \<open>FeedService\<close>: when stopping the feed returns and when it
    waits for ever. \<open>RouteTable\<close>: the default route is found in the kernel's format, for names that fit the buffer.
  \<^item> \<open>FlowMemory\<close>: a functional refinement between the engine with a heap and that of \<open>L7Engine\<close>, with the ownership of blocks
    as the invariant.
  \<^item> \<open>Startup\<close>, \<open>Skeletons\<close>, \<open>Interfaces\<close>, \<open>Lifecycle\<close>, \<open>Teardown\<close>, \<open>SignalMask\<close>, \<open>ControlChannel\<close>: which state the start reaches,
    which interfaces carry the programs, when the process ends or is aborted and what it leaves behind, which signals and commands are
    acted upon, and which are lost or repeated. The lists of calls of \<open>Teardown\<close>, run without interruption, are the
    functions of \<open>Interfaces\<close>; interleaved and cut by the end of the process, they keep an invariant that says where
    a program can stay attached.

  \<^bold>\<open>Bounds and fuel.\<close> The VLAN loop has the two rounds of its pragma; the loops of the kernel programs are bounded in the
  source and unrolled or recursive over their bound. The loops of the JA3 computation, of the socket and of the retries carry termination
  proofs. Three loops may not end and are partial functions: the reading of the report map (\<open>Dashboard\<close>, shown to end), the unloading (\<open>Lifecycle\<close>)
  and the download (\<open>RiskSync\<close>), each with theorems that say when they end. The consumer of the queue takes fuel; any
  amount above the number of elements gives the same result (\<open>drain\<close>). \<open>start_global_dashboard\<close> and the other service loops
  run over a list of what happens to them and have no result while it is too short.

  \<^bold>\<open>Not modelled.\<close> Functions that only print, to terminals and logs (the configuration, the tables, the decoration of the
  dashboard); the vendored libraries (simdjson, crow, nlohmann); the Kafka producer, which is empty; the initialisation
  of nDPI; the helpers for paths and for the local time; what \<open>std::hash\<close> computes and the locks inside of the concurrent
  tables; of the Go program everything but its reading of the socket. The kernel programs run one invocation at a time,
  except in \<open>FlowRace\<close> and \<open>PpsRace\<close>; weak memory is considered for the queue only. Some functions are modelled that
  nothing calls (\<open>startSyncService\<close>, \<open>detach_tc_egress\<close>, \<open>ring_poll_thread\<close>, \<open>get_default_iface\<close>, the second copies in
  \<open>xdp_fw_config\<close>); their theories say so.
\<close>

end
